(* ===== verification/Prelude.thy ===== *)
theory Prelude
  imports "HOL-Library.Word" "HOL-Library.Sublist"
begin

text \<open>
  Shared vocabulary of the development: the machine types of the C++ sources
  (\<open>uint8_t\<close> to \<open>uint64_t\<close>), byte buffers with their little-endian accessors
  (\<open>llvm/Support/Endian.h\<close>), the alignment arithmetic of \<open>llvm/Support/MathExtras.h\<close>,
  and the generic facts on lists, words and worklists the component theories use.
  The collections \<open>byte_simps\<close> and \<open>str_simps\<close> gather the rewrite rules of the two
  data representations (buffers and strings).
\<close>

unbundle bit_operations_syntax

named_theorems byte_simps \<open>rewrite rules on byte buffers\<close>
named_theorems str_simps \<open>rewrite rules on strings\<close>

type_synonym byte = "8 word"
type_synonym u16 = "16 word"
type_synonym u32 = "32 word"
type_synonym u64 = "64 word"
type_synonym buffer = "byte list"

section \<open>Alignment\<close>

text \<open>
  \<open>alignTo(Value, Align)\<close>: the least multiple of \<open>Align\<close> that is not below \<open>Value\<close>.
  Sizes and file offsets are natural numbers here; the theories that write them into
  32-bit header fields truncate explicitly.
\<close>

definition alignTo :: "nat \<Rightarrow> nat \<Rightarrow> nat" where
  "alignTo value align = (value + align - 1) div align * align"

lemma alignTo_dvd: "align dvd alignTo value align"
  by (simp add: alignTo_def)

lemma alignTo_ge:
  assumes "0 < align"
  shows "value \<le> alignTo value align"
proof -
  have "value + align - 1 = (value + align - 1) div align * align + (value + align - 1) mod align"
    by simp
  moreover have "(value + align - 1) mod align \<le> align - 1"
    using assms by (metis Suc_pred' less_Suc_eq_le mod_less_divisor)
  ultimately show ?thesis
    using assms unfolding alignTo_def by linarith
qed

lemma alignTo_less:
  assumes "0 < align"
  shows "alignTo value align < value + align"
proof -
  have "alignTo value align \<le> value + align - 1"
    unfolding alignTo_def by (rule div_times_less_eq_dividend)
  then show ?thesis using assms by linarith
qed

lemma alignTo_least:
  assumes "align dvd m" and "value \<le> m" and "0 < align"
  shows "alignTo value align \<le> m"
proof -
  from assms(1) obtain k where m: "m = align * k" ..
  have "(value + align - 1) div align \<le> (m + align - 1) div align"
    using assms(2) by (intro div_le_mono) simp
  also have "(m + align - 1) div align = k"
  proof -
    have "(align - 1 + align * k) div align = k + (align - 1) div align"
      by (rule div_mult_self2) (use assms(3) in simp)
    moreover have "(align - 1) div align = 0" using assms(3) by simp
    moreover have "m + align - 1 = align - 1 + align * k" using m assms(3) by simp
    ultimately show ?thesis by simp
  qed
  finally show ?thesis unfolding alignTo_def m by (simp add: mult.commute)
qed

lemma alignTo_fixed: "0 < align \<Longrightarrow> align dvd value \<Longrightarrow> alignTo value align = value"
  by (meson alignTo_ge alignTo_least dual_order.antisym order_refl)

lemma alignTo_mono: "0 < align \<Longrightarrow> a \<le> b \<Longrightarrow> alignTo a align \<le> alignTo b align"
  by (meson alignTo_dvd alignTo_ge alignTo_least le_trans)

section \<open>Slices of lists\<close>

definition sub :: "'a list \<Rightarrow> nat \<Rightarrow> nat \<Rightarrow> 'a list" where
  "sub xs off n = take n (drop off xs)"

definition put :: "'a list \<Rightarrow> nat \<Rightarrow> 'a list \<Rightarrow> 'a list" where
  "put xs off ys = take off xs @ ys @ drop (off + length ys) xs"

lemma length_sub [simp]: "length (sub xs off n) = min n (length xs - off)"
  by (simp add: sub_def min.commute)

lemma length_put [simp]:
  "off + length ys \<le> length xs \<Longrightarrow> length (put xs off ys) = length xs"
  by (simp add: put_def)

lemma sub_put_same [byte_simps]:
  "off + length ys \<le> length xs \<Longrightarrow> sub (put xs off ys) off (length ys) = ys"
  by (simp add: sub_def put_def)

lemma put_nth:
  assumes "off + length ys \<le> length xs" and "i < length xs"
  shows "put xs off ys ! i = (if off \<le> i \<and> i < off + length ys then ys ! (i - off) else xs ! i)"
  using assms by (auto simp: put_def nth_append min_def add.commute)

lemma sub_put_disjoint [byte_simps]:
  assumes "off + length ys \<le> length xs" and "p + n \<le> off \<or> off + length ys \<le> p"
    and "p + n \<le> length xs"
  shows "sub (put xs off ys) p n = sub xs p n"
  using assms by (intro nth_equalityI) (auto simp: sub_def put_nth)

lemma put_sub_id:
  assumes "off + n \<le> length xs"
  shows "put xs off (sub xs off n) = xs"
proof -
  have "length (sub xs off n) = n" using assms by simp
  then have "put xs off (sub xs off n) = take off xs @ take n (drop off xs) @ drop (off + n) xs"
    by (simp add: put_def sub_def)
  also have "\<dots> = xs" by (simp add: add.commute flip: drop_drop)
  finally show ?thesis .
qed

lemma put_put_same:
  assumes "off + length ys \<le> length xs" and "length zs = length ys"
  shows "put (put xs off ys) off zs = put xs off zs"
  using assms by (simp add: put_def)

section \<open>Words read as signed numbers\<close>

lemma sint_u64_cases: "sint (w :: u64) = (if uint w < 2 ^ 63 then uint w else uint w - 2 ^ 64)"
proof -
  have lt: "uint w < 2 ^ 64" and ge: "0 \<le> uint w" using uint_lt2p [of w] by simp_all
  have "sint w = take_bit 64 (uint w) - 2 ^ 64 * of_bool (bit (uint w) 63)"
    by (simp add: sint_uint signed_take_bit_eq_take_bit_minus)
  moreover have "take_bit 64 (uint w) = uint w" using lt ge by (simp add: take_bit_int_eq_self)
  moreover have "bit (uint w) 63 \<longleftrightarrow> 2 ^ 63 \<le> uint w"
  proof (cases "2 ^ 63 \<le> uint w")
    case True
    then have "uint w div 2 ^ 63 = 1" using lt by (simp add: div_pos_geq)
    then show ?thesis using True by (simp add: bit_iff_odd)
  next
    case False
    then have "uint w div 2 ^ 63 = 0" using ge by simp
    then show ?thesis using False by (simp add: bit_iff_odd)
  qed
  ultimately show ?thesis by simp
qed

lemma uint_neg_u64: "uint (- (w :: u64)) = (if uint w = 0 then 0 else 2 ^ 64 - uint w)"
  using uint_lt2p [of w] by (simp add: uint_word_ariths zmod_zminus1_eq_if)

end
