(* ===== verification/Utf8.thy ===== *)
theory Utf8
  imports Prelude
begin

text \<open>
  \<open>valid_utf8\<close> of \<open>src/llvm_ld.cpp\<close>, the check every argument of a request passes before
  it reaches the linker, against a specification of UTF-8 by code points.
\<close>

section \<open>The checker\<close>

definition extra_bytes :: "byte \<Rightarrow> nat" where
  "extra_bytes c =
     (if c \<ge> 0xC2 \<and> c \<le> 0xDF then 1
      else if c \<ge> 0xE0 \<and> c \<le> 0xEF then 2
      else if c \<ge> 0xF0 \<and> c \<le> 0xF4 then 3
      else 99)"

text \<open>The loop over the bytes from position \<open>i\<close> on, written over the remaining bytes.\<close>

function valid_utf8 :: "buffer \<Rightarrow> bool" where
  "valid_utf8 [] = True"
| "valid_utf8 (c # s) =
     (if c = 0 then False
      else if c < 0x80 then valid_utf8 s
      else
        let extra = extra_bytes c
        in if extra = 99 \<or> extra > length s then False
           else
             let first = s ! 0
             in if (c = 0xE0 \<and> first < 0xA0) \<or> (c = 0xED \<and> first \<ge> 0xA0) \<or>
                   (c = 0xF0 \<and> first < 0x90) \<or> (c = 0xF4 \<and> first \<ge> 0x90) then False
                else if \<not> list_all (\<lambda>b. b AND 0xC0 = 0x80) (take extra s) then False
                else valid_utf8 (drop extra s))"
  by pat_completeness auto
termination
  by (relation "measure length") auto

section \<open>UTF-8 by code points\<close>

definition scalar :: "nat \<Rightarrow> bool" where
  "scalar n \<longleftrightarrow> n \<le> 0x10FFFF \<and> \<not> (0xD800 \<le> n \<and> n \<le> 0xDFFF)"

definition cont :: "nat \<Rightarrow> byte" where
  "cont n = of_nat (0x80 + n mod 64)"

definition utf8_encode :: "nat \<Rightarrow> buffer" where
  "utf8_encode n =
     (if n < 0x80 then [of_nat n]
      else if n < 0x800 then [of_nat (0xC0 + n div 64), cont n]
      else if n < 0x10000 then [of_nat (0xE0 + n div 4096), cont (n div 64), cont n]
      else [of_nat (0xF0 + n div 262144), cont (n div 4096), cont (n div 64), cont n])"

section \<open>Continuation bytes\<close>

lemma cont_byte_iff: "(b :: byte) AND 0xC0 = 0x80 \<longleftrightarrow> 0x80 \<le> unat b \<and> unat b < 0xC0"
proof -
  have "\<forall>n\<in>set [0..<256]. ((of_nat n :: byte) AND 0xC0 = 0x80) = (0x80 \<le> n \<and> n < 0xC0)"
    by code_simp
  moreover have "unat b \<in> set [0..<256]" using unsigned_less [of b] by simp
  ultimately have "((of_nat (unat b) :: byte) AND 0xC0 = 0x80) = (0x80 \<le> unat b \<and> unat b < 0xC0)"
    by blast
  then show ?thesis by simp
qed

lemma unat_cont [simp]: "unat (cont n) = 0x80 + n mod 64"
proof -
  have "0x80 + n mod 64 < 256" using mod_less_divisor [of 64 n] by linarith
  then show ?thesis unfolding cont_def by (simp add: unat_of_nat del: of_nat_add)
qed

lemma cont_is_cont [simp]: "cont n AND 0xC0 = 0x80"
proof -
  have "n mod 64 < 64" by simp
  then show ?thesis unfolding cont_byte_iff unat_cont by linarith
qed

lemma unat_lead [simp]: "k < 256 \<Longrightarrow> unat (of_nat k :: byte) = k"
  by (simp add: unat_of_nat)

lemma byte_eqI: "unat (a :: byte) = unat b \<Longrightarrow> a = b"
  by (simp add: word_unat_eq_iff)

lemma extra_bytes_unat:
  "extra_bytes c =
     (if 0xC2 \<le> unat c \<and> unat c \<le> 0xDF then 1
      else if 0xE0 \<le> unat c \<and> unat c \<le> 0xEF then 2
      else if 0xF0 \<le> unat c \<and> unat c \<le> 0xF4 then 3 else 99)"
  by (simp add: extra_bytes_def word_le_nat_alt)

lemma valid_utf8_Cons:
  "valid_utf8 (c # s) \<longleftrightarrow>
     (if unat c = 0 then False
      else if unat c < 0x80 then valid_utf8 s
      else extra_bytes c \<noteq> 99 \<and> extra_bytes c \<le> length s \<and>
        \<not> ((unat c = 0xE0 \<and> unat (s ! 0) < 0xA0) \<or> (unat c = 0xED \<and> unat (s ! 0) \<ge> 0xA0) \<or>
           (unat c = 0xF0 \<and> unat (s ! 0) < 0x90) \<or> (unat c = 0xF4 \<and> unat (s ! 0) \<ge> 0x90)) \<and>
        list_all (\<lambda>b. 0x80 \<le> unat b \<and> unat b < 0xC0) (take (extra_bytes c) s) \<and>
        valid_utf8 (drop (extra_bytes c) s))"
proof -
  have eq: "(c = w) = (unat c = unat w)" for w :: byte by (simp add: word_unat_eq_iff)
  show ?thesis
    unfolding valid_utf8.simps Let_def cont_byte_iff word_less_nat_alt word_le_nat_alt eq
    by (simp add: not_le)
qed

declare valid_utf8.simps(2) [simp del]

section \<open>The checker accepts exactly the encodings\<close>

lemma encode_valid_1: "n \<noteq> 0 \<Longrightarrow> n < 0x80 \<Longrightarrow> valid_utf8 (utf8_encode n @ s) = valid_utf8 s"
  by (simp add: utf8_encode_def valid_utf8_Cons)

lemma encode_valid_2:
  assumes "0x80 \<le> n" and "n < 0x800"
  shows "valid_utf8 (utf8_encode n @ s) = valid_utf8 s"
proof -
  have lead: "unat (of_nat (0xC0 + n div 64) :: byte) = 0xC0 + n div 64"
    using assms by (intro unat_lead) arith
  have ex: "extra_bytes (of_nat (0xC0 + n div 64)) = 1"
    using assms unfolding extra_bytes_unat lead by auto
  have m: "n mod 64 < 64" by simp
  have "utf8_encode n @ s = of_nat (0xC0 + n div 64) # cont n # s"
    using assms by (simp add: utf8_encode_def)
  then show ?thesis
    using assms m by (simp only: valid_utf8_Cons ex lead) (auto simp: lead)
qed

lemma encode_valid_3:
  assumes "0x800 \<le> n" and "n < 0x10000" and "scalar n"
  shows "valid_utf8 (utf8_encode n @ s) = valid_utf8 s"
proof -
  have lead: "unat (of_nat (0xE0 + n div 4096) :: byte) = 0xE0 + n div 4096"
    using assms by (intro unat_lead) arith
  have ex: "extra_bytes (of_nat (0xE0 + n div 4096)) = 2"
    using assms unfolding extra_bytes_unat lead by auto
  have m: "n mod 64 < 64" "n div 64 mod 64 < 64" by simp_all
  have "n div 4096 = n div 64 div 64" by (simp add: div_mult2_eq)
  moreover have "n div 64 = 64 * (n div 64 div 64) + n div 64 mod 64" by simp
  ultimately have lo: "n div 4096 = 0 \<Longrightarrow> 0x20 \<le> n div 64 mod 64"
    and su: "n div 4096 = 13 \<Longrightarrow> n div 64 mod 64 < 0x20"
    using assms by (auto simp: scalar_def)
  have "utf8_encode n @ s = of_nat (0xE0 + n div 4096) # cont (n div 64) # cont n # s"
    using assms by (simp add: utf8_encode_def)
  then show ?thesis
    using assms m lo su by (simp only: valid_utf8_Cons ex lead) (auto simp: lead numeral_2_eq_2)
qed

lemma encode_valid_4:
  assumes "0x10000 \<le> n" and "n \<le> 0x10FFFF"
  shows "valid_utf8 (utf8_encode n @ s) = valid_utf8 s"
proof -
  have lead: "unat (of_nat (0xF0 + n div 262144) :: byte) = 0xF0 + n div 262144"
    using assms by (intro unat_lead) arith
  have ex: "extra_bytes (of_nat (0xF0 + n div 262144)) = 3"
    using assms unfolding extra_bytes_unat lead by auto
  have m: "n mod 64 < 64" "n div 64 mod 64 < 64" "n div 4096 mod 64 < 64" by simp_all
  have "n div 262144 = n div 4096 div 64" by (simp add: div_mult2_eq)
  moreover have "n div 4096 = 64 * (n div 4096 div 64) + n div 4096 mod 64" by simp
  ultimately have lo: "n div 262144 = 0 \<Longrightarrow> 0x10 \<le> n div 4096 mod 64"
    and hi: "n div 262144 = 4 \<Longrightarrow> n div 4096 mod 64 < 0x10"
    using assms by auto
  have "utf8_encode n @ s =
      of_nat (0xF0 + n div 262144) # cont (n div 4096) # cont (n div 64) # cont n # s"
    using assms by (simp add: utf8_encode_def)
  then show ?thesis
    using assms m lo hi by (simp only: valid_utf8_Cons ex lead) (auto simp: lead numeral_3_eq_3)
qed

lemma encode_valid: "scalar n \<Longrightarrow> n \<noteq> 0 \<Longrightarrow> valid_utf8 (utf8_encode n @ s) = valid_utf8 s"
  by (cases "n < 0x80"; cases "n < 0x800"; cases "n < 0x10000")
     (auto simp: encode_valid_1 encode_valid_2 encode_valid_3 encode_valid_4 scalar_def)

lemma base64_digit:
  assumes "y < (64 :: nat)"
  shows "(x * 64 + y) div 64 = x" and "(x * 64 + y) mod 64 = y"
  using assms by auto

lemma decode_2:
  assumes "extra_bytes c = 1" and "0x80 \<le> unat b" and "unat b < 0xC0"
  defines "n \<equiv> (unat c - 0xC0) * 64 + (unat b - 0x80)"
  shows "scalar n \<and> n \<noteq> 0 \<and> utf8_encode n = [c, b]"
proof -
  have c: "0xC2 \<le> unat c" "unat c \<le> 0xDF"
    using assms(1) by (auto simp: extra_bytes_unat split: if_splits)
  have "unat b - 0x80 < 64" using assms(2,3) by linarith
  then have d: "n div 64 = unat c - 0xC0" "n mod 64 = unat b - 0x80"
    unfolding n_def by (rule base64_digit)+
  have n: "0x80 \<le> n" "n < 0x800" using c assms(2,3) unfolding n_def by auto
  have "of_nat (0xC0 + n div 64) = c" unfolding d using c by (intro byte_eqI) simp
  moreover have "cont n = b" using assms(2,3) d by (intro byte_eqI) simp
  ultimately show ?thesis using n by (simp add: utf8_encode_def scalar_def)
qed

lemma decode_3:
  assumes "extra_bytes c = 2" and "0x80 \<le> unat b1" and "unat b1 < 0xC0"
    and "0x80 \<le> unat b2" and "unat b2 < 0xC0"
    and "\<not> (unat c = 0xE0 \<and> unat b1 < 0xA0)" and "\<not> (unat c = 0xED \<and> unat b1 \<ge> 0xA0)"
  defines "n \<equiv> (unat c - 0xE0) * 4096 + (unat b1 - 0x80) * 64 + (unat b2 - 0x80)"
  shows "scalar n \<and> n \<noteq> 0 \<and> utf8_encode n = [c, b1, b2]"
proof -
  have c: "0xE0 \<le> unat c" "unat c \<le> 0xEF"
    using assms(1) by (auto simp: extra_bytes_unat split: if_splits)
  obtain x y z where x: "unat c = 0xE0 + x" and y: "unat b1 = 0x80 + y" and z: "unat b2 = 0x80 + z"
    using c assms(2,4) by (metis le_iff_add)
  have n: "n = (x * 64 + y) * 64 + z" unfolding n_def x y z by simp
  have lim: "x < 16" "y < 64" "z < 64" using c assms(2-5) x y z by linarith+
  have d1: "n div 64 = x * 64 + y" and d2: "n mod 64 = z"
    unfolding n using lim by (simp_all only: base64_digit)
  have "n div 4096 = n div 64 div 64" by (simp flip: div_mult2_eq)
  then have d: "n div 4096 = x" "n div 64 mod 64 = y" "n mod 64 = z"
    unfolding d1 d2 using lim by (simp_all only: base64_digit)
  have lo: "x = 0 \<Longrightarrow> 32 \<le> y" and su: "x = 13 \<Longrightarrow> y < 32"
    using assms(6,7) unfolding x y by auto
  have ge: "0x800 \<le> n" using lo unfolding n by (cases "x = 0") auto
  have lt: "n < 0x10000" using lim unfolding n by simp
  have sc: "scalar n"
  proof -
    consider "x < 13" | "x = 13" | "13 < x" by linarith
    then show ?thesis
      using lim su lt unfolding n scalar_def by cases auto
  qed
  have "of_nat (0xE0 + n div 4096) = c"
    unfolding d using x lim by (intro byte_eqI) (simp del: of_nat_add)
  moreover have "cont (n div 64) = b1" "cont n = b2"
    by (rule byte_eqI, simp only: unat_cont d y z)+
  ultimately show ?thesis using ge lt sc by (simp add: utf8_encode_def)
qed

lemma decode_4:
  assumes "extra_bytes c = 3" and "0x80 \<le> unat b1" and "unat b1 < 0xC0"
    and "0x80 \<le> unat b2" and "unat b2 < 0xC0" and "0x80 \<le> unat b3" and "unat b3 < 0xC0"
    and "\<not> (unat c = 0xF0 \<and> unat b1 < 0x90)" and "\<not> (unat c = 0xF4 \<and> unat b1 \<ge> 0x90)"
  defines "n \<equiv> (unat c - 0xF0) * 262144 + (unat b1 - 0x80) * 4096 + (unat b2 - 0x80) * 64 + (unat b3 - 0x80)"
  shows "scalar n \<and> n \<noteq> 0 \<and> utf8_encode n = [c, b1, b2, b3]"
proof -
  have c: "0xF0 \<le> unat c" "unat c \<le> 0xF4"
    using assms(1) by (auto simp: extra_bytes_unat split: if_splits)
  obtain x y z w where x: "unat c = 0xF0 + x" and y: "unat b1 = 0x80 + y" and z: "unat b2 = 0x80 + z"
    and w: "unat b3 = 0x80 + w"
    using c assms(2,4,6) by (metis le_iff_add)
  have n: "n = ((x * 64 + y) * 64 + z) * 64 + w" unfolding n_def x y z w by simp
  have lim: "x < 5" "y < 64" "z < 64" "w < 64" using c assms(2-7) x y z w by linarith+
  have d1: "n div 64 = (x * 64 + y) * 64 + z" and d0: "n mod 64 = w"
    unfolding n using lim by (simp_all only: base64_digit)
  have "n div 4096 = n div 64 div 64" by (simp flip: div_mult2_eq)
  then have d2: "n div 4096 = x * 64 + y"
    unfolding d1 using lim by (simp only: base64_digit)
  have "n div 262144 = n div 4096 div 64" by (simp flip: div_mult2_eq)
  then have d: "n div 262144 = x" "n div 4096 mod 64 = y" "n div 64 mod 64 = z" "n mod 64 = w"
    unfolding d0 d1 d2 using lim by (simp_all only: base64_digit)
  have lo: "x = 0 \<Longrightarrow> 16 \<le> y" and hi: "x = 4 \<Longrightarrow> y < 16"
    using assms(8,9) unfolding x y by auto
  have ge: "0x10000 \<le> n" using lo unfolding n by (cases "x = 0") auto
  have le: "n \<le> 0x10FFFF" using lim hi unfolding n by (cases "x = 4") auto
  have "of_nat (0xF0 + n div 262144) = c"
    unfolding d using x lim by (intro byte_eqI) (simp del: of_nat_add)
  moreover have "cont (n div 4096) = b1" "cont (n div 64) = b2" "cont n = b3"
    by (rule byte_eqI, simp only: unat_cont d y z w)+
  ultimately show ?thesis using ge le by (simp add: utf8_encode_def scalar_def)
qed

lemma decode_step:
  assumes "valid_utf8 (c # s)"
  shows "\<exists>n rest. scalar n \<and> n \<noteq> 0 \<and> c # s = utf8_encode n @ rest \<and> valid_utf8 rest \<and>
    length rest < length (c # s)"
proof (cases "unat c < 0x80")
  case True
  then have "unat c \<noteq> 0" and "valid_utf8 s"
    using assms by (auto simp: valid_utf8_Cons split: if_splits)
  then show ?thesis
    using True by (intro exI [of _ "unat c"] exI [of _ s]) (auto simp: utf8_encode_def scalar_def)
next
  case False
  let ?e = "extra_bytes c"
  have "unat c \<noteq> 0" using False by simp
  note multi = assms [unfolded valid_utf8_Cons if_not_P [OF this] if_not_P [OF False]]
  have v: "?e \<noteq> 99" "?e \<le> length s" "valid_utf8 (drop ?e s)"
    and first: "\<not> ((unat c = 0xE0 \<and> unat (s ! 0) < 0xA0) \<or> (unat c = 0xED \<and> unat (s ! 0) \<ge> 0xA0) \<or>
           (unat c = 0xF0 \<and> unat (s ! 0) < 0x90) \<or> (unat c = 0xF4 \<and> unat (s ! 0) \<ge> 0x90))"
    and conts: "list_all (\<lambda>b. 0x80 \<le> unat b \<and> unat b < 0xC0) (take ?e s)"
    using multi by blast+
  consider "?e = 1" | "?e = 2" | "?e = 3" using v(1) unfolding extra_bytes_unat by (auto split: if_splits)
  then show ?thesis
  proof cases
    case 1
    then obtain b r where s: "s = b # r" using v(2) by (cases s) auto
    then have b: "0x80 \<le> unat b" "unat b < 0xC0" using conts 1 by auto
    obtain n where "scalar n" "n \<noteq> 0" "utf8_encode n = [c, b]"
      using decode_2 [OF 1 b] by blast
    then show ?thesis
      using v(3) 1 s by (intro exI [of _ n] exI [of _ r]) simp
  next
    case 2
    then obtain b1 b2 r where s: "s = b1 # b2 # r"
      using v(2) by (cases s; cases "tl s") auto
    then have b: "0x80 \<le> unat b1" "unat b1 < 0xC0" "0x80 \<le> unat b2" "unat b2 < 0xC0"
      using conts 2 by (auto simp: numeral_2_eq_2)
    obtain n where "scalar n" "n \<noteq> 0" "utf8_encode n = [c, b1, b2]"
      using decode_3 [OF 2 b] first s by auto
    then show ?thesis
      using v(3) 2 s by (intro exI [of _ n] exI [of _ r]) (simp add: numeral_2_eq_2)
  next
    case 3
    then obtain b1 b2 b3 r where s: "s = b1 # b2 # b3 # r"
      using v(2) by (cases s; cases "tl s"; cases "tl (tl s)") auto
    then have b: "0x80 \<le> unat b1" "unat b1 < 0xC0" "0x80 \<le> unat b2" "unat b2 < 0xC0"
        "0x80 \<le> unat b3" "unat b3 < 0xC0"
      using conts 3 by (auto simp: numeral_3_eq_3)
    obtain n where "scalar n" "n \<noteq> 0" "utf8_encode n = [c, b1, b2, b3]"
      using decode_4 [OF 3 b] first s by auto
    then show ?thesis
      using v(3) 3 s by (intro exI [of _ n] exI [of _ r]) (simp add: numeral_3_eq_3)
  qed
qed

lemma valid_utf8_decodes:
  "valid_utf8 s \<Longrightarrow> \<exists>cps. (\<forall>n\<in>set cps. scalar n \<and> n \<noteq> 0) \<and> s = concat (map utf8_encode cps)"
proof (induction "length s" arbitrary: s rule: less_induct)
  case less
  show ?case
  proof (cases s)
    case Nil
    then show ?thesis by (intro exI [of _ "[]"]) simp
  next
    case (Cons c s')
    with less.prems decode_step obtain n rest where n: "scalar n" "n \<noteq> 0" "s = utf8_encode n @ rest"
      "valid_utf8 rest" "length rest < length s" by blast
    with less.hyps obtain cps where "\<forall>n\<in>set cps. scalar n \<and> n \<noteq> 0" "rest = concat (map utf8_encode cps)"
      by blast
    with n show ?thesis by (intro exI [of _ "n # cps"]) simp
  qed
qed

text \<open>
  C12: \<open>valid_utf8\<close> accepts exactly the byte strings that are the UTF-8 encoding of a
  sequence of Unicode scalar values other than NUL: overlong forms, surrogates, values
  above U+10FFFF, stray or missing continuation bytes and zero bytes are all rejected.
\<close>

theorem valid_utf8_iff:
  "valid_utf8 s \<longleftrightarrow>
   (\<exists>cps. (\<forall>n\<in>set cps. scalar n \<and> n \<noteq> 0) \<and> s = concat (map utf8_encode cps))"
proof
  show "valid_utf8 s \<Longrightarrow> \<exists>cps. (\<forall>n\<in>set cps. scalar n \<and> n \<noteq> 0) \<and> s = concat (map utf8_encode cps)"
    by (rule valid_utf8_decodes)
  have "(\<forall>n\<in>set cps. scalar n \<and> n \<noteq> 0) \<Longrightarrow> valid_utf8 (concat (map utf8_encode cps))" for cps
    by (induction cps) (auto simp: encode_valid)
  then show "\<exists>cps. (\<forall>n\<in>set cps. scalar n \<and> n \<noteq> 0) \<and> s = concat (map utf8_encode cps) \<Longrightarrow> valid_utf8 s"
    by blast
qed

theorem valid_utf8_iff_witness:
  "valid_utf8 [0xC3, 0xA9] \<and> (\<exists>cps. (\<forall>n\<in>set cps. scalar n \<and> n \<noteq> 0) \<and> [0xC3, 0xA9] = concat (map utf8_encode cps))"
proof -
  have "valid_utf8 [0xC3, 0xA9]" by code_simp
  then show ?thesis using valid_utf8_iff [of "[0xC3, 0xA9]"] by simp
qed

end
