(* ===== verification/StrRef.thy ===== *)
theory StrRef
  imports Prelude
begin

text \<open>
  \<open>llvm::StringRef\<close> (\<open>llvm/lib/Support/StringRef.cpp\<close>, \<open>llvm/include/llvm/ADT/StringRef.h\<close>
  and the character classes of \<open>StringExtras.h\<close>), the string type every driver and parser
  of the linker works on. A string is a \<open>char list\<close>; \<open>npos\<close> is \<open>None\<close>; out-parameters
  are returned. The lemmas show that the searching routines find the first occurrence
  (the bad-character skip loop included), that the integer parsers compute the exact value
  of the digit prefix or report overflow, and that splitting is undone by joining.
\<close>

section \<open>Characters\<close>

definition code :: "char \<Rightarrow> nat" where
  "code c = of_char c"

definition isDigit :: "char \<Rightarrow> bool" where
  "isDigit c \<longleftrightarrow> code CHR ''0'' \<le> code c \<and> code c \<le> code CHR ''9''"

definition isLower :: "char \<Rightarrow> bool" where
  "isLower c \<longleftrightarrow> code CHR ''a'' \<le> code c \<and> code c \<le> code CHR ''z''"

definition isUpper :: "char \<Rightarrow> bool" where
  "isUpper c \<longleftrightarrow> code CHR ''A'' \<le> code c \<and> code c \<le> code CHR ''Z''"

definition isAlpha :: "char \<Rightarrow> bool" where
  "isAlpha c \<longleftrightarrow> isLower c \<or> isUpper c"

definition toLower :: "char \<Rightarrow> char" where
  "toLower x = (if isUpper x then char_of (code x - code CHR ''A'' + code CHR ''a'') else x)"

definition toUpper :: "char \<Rightarrow> char" where
  "toUpper x = (if isLower x then char_of (code x - code CHR ''a'' + code CHR ''A'') else x)"

section \<open>Comparison ignoring case\<close>

fun ascii_strncasecmp :: "string \<Rightarrow> string \<Rightarrow> int" where
  "ascii_strncasecmp (l # ls) (r # rs) =
     (if toLower l \<noteq> toLower r then (if code (toLower l) < code (toLower r) then -1 else 1)
      else ascii_strncasecmp ls rs)"
| "ascii_strncasecmp _ _ = 0"

definition compare_insensitive :: "string \<Rightarrow> string \<Rightarrow> int" where
  "compare_insensitive s rhs =
     (let m = min (length s) (length rhs);
          res = ascii_strncasecmp (take m s) (take m rhs)
      in if res \<noteq> 0 then res
         else if length s = length rhs then 0
         else if length s < length rhs then -1 else 1)"

definition equals_insensitive :: "string \<Rightarrow> string \<Rightarrow> bool" where
  "equals_insensitive s rhs \<longleftrightarrow> length s = length rhs \<and> compare_insensitive s rhs = 0"

definition take_back :: "string \<Rightarrow> nat \<Rightarrow> string" where
  "take_back s n = (if n \<ge> length s then s else drop (length s - n) s)"

definition starts_with :: "string \<Rightarrow> string \<Rightarrow> bool" where
  "starts_with s p \<longleftrightarrow> length s \<ge> length p \<and> take (length p) s = p"

definition ends_with :: "string \<Rightarrow> string \<Rightarrow> bool" where
  "ends_with s p \<longleftrightarrow> length s \<ge> length p \<and> drop (length s - length p) s = p"

definition starts_with_insensitive :: "string \<Rightarrow> string \<Rightarrow> bool" where
  "starts_with_insensitive s p \<longleftrightarrow>
     length s \<ge> length p \<and> ascii_strncasecmp (take (length p) s) p = 0"

definition ends_with_insensitive :: "string \<Rightarrow> string \<Rightarrow> bool" where
  "ends_with_insensitive s p \<longleftrightarrow>
     length s \<ge> length p \<and> ascii_strncasecmp (take_back s (length p)) p = 0"

text \<open>The \<open>consume\<close> operations return the shortened string, or \<open>None\<close> for \<open>false\<close>.\<close>

definition consume_front :: "string \<Rightarrow> string \<Rightarrow> string option" where
  "consume_front s p = (if starts_with s p then Some (drop (length p) s) else None)"

definition consume_front_insensitive :: "string \<Rightarrow> string \<Rightarrow> string option" where
  "consume_front_insensitive s p =
     (if starts_with_insensitive s p then Some (drop (length p) s) else None)"

definition consume_back_insensitive :: "string \<Rightarrow> string \<Rightarrow> string option" where
  "consume_back_insensitive s p =
     (if ends_with_insensitive s p then Some (take (length s - length p) s) else None)"

definition lower :: "string \<Rightarrow> string" where
  "lower s = map toLower s"

definition upper :: "string \<Rightarrow> string" where
  "upper s = map toUpper s"

section \<open>Searching\<close>

text \<open>\<open>substr(Start, N)\<close> and \<open>slice(Start, End)\<close> clamp their arguments to the string.\<close>

definition substr :: "string \<Rightarrow> nat \<Rightarrow> nat option \<Rightarrow> string" where
  "substr s start n =
     (let rest = drop (min start (length s)) s
      in case n of None \<Rightarrow> rest | Some k \<Rightarrow> take k rest)"

definition slice :: "string \<Rightarrow> nat \<Rightarrow> nat option \<Rightarrow> string" where
  "slice s start e =
     (let st = min start (length s);
          en = (case e of None \<Rightarrow> length s | Some k \<Rightarrow> max st (min k (length s)))
      in take (en - st) (drop st s))"

text \<open>The first index from \<open>i\<close> on whose character satisfies \<open>p\<close>.\<close>

function find_from :: "(char \<Rightarrow> bool) \<Rightarrow> string \<Rightarrow> nat \<Rightarrow> nat option" where
  "find_from p s i =
     (if i < length s then (if p (s ! i) then Some i else find_from p s (Suc i)) else None)"
  by pat_completeness auto
termination
  by (relation "measure (\<lambda>(p, s, i). length s - i)") auto

text \<open>The last index below \<open>i\<close> whose character satisfies \<open>p\<close>.\<close>

fun find_down :: "(char \<Rightarrow> bool) \<Rightarrow> string \<Rightarrow> nat \<Rightarrow> nat option" where
  "find_down p s 0 = None"
| "find_down p s (Suc i) = (if p (s ! i) then Some i else find_down p s i)"

definition find_char :: "string \<Rightarrow> char \<Rightarrow> nat \<Rightarrow> nat option" where
  "find_char s c from = find_from (\<lambda>d. d = c) s from"

definition find_insensitive_char :: "string \<Rightarrow> char \<Rightarrow> nat \<Rightarrow> nat option" where
  "find_insensitive_char s c from = find_from (\<lambda>d. toLower d = toLower c) s from"

definition find_first_of :: "string \<Rightarrow> string \<Rightarrow> nat \<Rightarrow> nat option" where
  "find_first_of s chars from = find_from (\<lambda>c. c \<in> set chars) s (min from (length s))"

definition find_first_not_of :: "string \<Rightarrow> string \<Rightarrow> nat \<Rightarrow> nat option" where
  "find_first_not_of s chars from = find_from (\<lambda>c. c \<notin> set chars) s (min from (length s))"

text \<open>
  \<open>From\<close> is exclusive in the backward searches; \<open>None\<close> is the default \<open>npos\<close>,
  which \<open>std::min\<close> clamps to the size.
\<close>

definition find_last_of :: "string \<Rightarrow> string \<Rightarrow> nat option \<Rightarrow> nat option" where
  "find_last_of s chars from =
     find_down (\<lambda>c. c \<in> set chars) s (case from of None \<Rightarrow> length s | Some f \<Rightarrow> min f (length s))"

definition find_last_not_of :: "string \<Rightarrow> string \<Rightarrow> nat option \<Rightarrow> nat option" where
  "find_last_not_of s chars from =
     find_down (\<lambda>c. c \<notin> set chars) s (case from of None \<Rightarrow> length s | Some f \<Rightarrow> min f (length s))"

definition rfind_insensitive_char :: "string \<Rightarrow> char \<Rightarrow> nat option \<Rightarrow> nat option" where
  "rfind_insensitive_char s c from =
     find_down (\<lambda>d. toLower d = toLower c) s
       (case from of None \<Rightarrow> length s | Some f \<Rightarrow> min f (length s))"

definition ltrim :: "string \<Rightarrow> string \<Rightarrow> string" where
  "ltrim s chars = (case find_first_not_of s chars 0 of None \<Rightarrow> [] | Some i \<Rightarrow> drop i s)"

definition rtrim :: "string \<Rightarrow> string \<Rightarrow> string" where
  "rtrim s chars = (case find_last_not_of s chars None of None \<Rightarrow> [] | Some i \<Rightarrow> take (Suc i) s)"

definition whitespace :: string where
  "whitespace = [CHR '' '', CHR 0x09, CHR 0x0A, CHR 0x0B, CHR 0x0C, CHR 0x0D]"

definition trim :: "string \<Rightarrow> string" where
  "trim s = rtrim (ltrim s whitespace) whitespace"

subsection \<open>Substring search\<close>

text \<open>The \<open>memcmp\<close> loops (for needles of two bytes, short haystacks and long needles).\<close>

function find_naive :: "string \<Rightarrow> string \<Rightarrow> nat \<Rightarrow> nat \<Rightarrow> nat option" where
  "find_naive s needle start stop =
     (if sub s start (length needle) = needle then Some start
      else if Suc start < stop then find_naive s needle (Suc start) stop
      else None)"
  by pat_completeness auto
termination
  by (relation "measure (\<lambda>(s, needle, start, stop). stop - start)") auto

text \<open>
  The bad-character table: \<open>memset\<close> with the needle's length, then for every position but
  the last the distance to the end. The needle has at most 255 bytes where the table is
  used, so the \<open>uint8_t\<close> entries never truncate.
\<close>

fun BadCharSkip_upto :: "string \<Rightarrow> nat \<Rightarrow> char \<Rightarrow> nat" where
  "BadCharSkip_upto needle 0 c = length needle"
| "BadCharSkip_upto needle (Suc i) c =
     (if needle ! i = c then length needle - 1 - i else BadCharSkip_upto needle i c)"

definition BadCharSkip :: "string \<Rightarrow> char \<Rightarrow> nat" where
  "BadCharSkip needle c = BadCharSkip_upto needle (length needle - 1) c"

lemma BadCharSkip_pos: "needle \<noteq> [] \<Longrightarrow> 0 < BadCharSkip needle c"
proof -
  assume "needle \<noteq> []"
  then have "i \<le> length needle - 1 \<Longrightarrow> 0 < BadCharSkip_upto needle i c" for i
    by (induction i) auto
  then show ?thesis by (simp add: BadCharSkip_def)
qed

text \<open>The skip loop; the caller only enters it with a needle of at least three bytes.\<close>

function find_skip :: "string \<Rightarrow> string \<Rightarrow> nat \<Rightarrow> nat \<Rightarrow> nat option" where
  "find_skip s needle start stop =
     (let n = length needle; l = s ! (start + n - 1)
      in if needle = [] then None
         else if l = needle ! (n - 1) \<and> sub s start (n - 1) = take (n - 1) needle then Some start
         else if start + BadCharSkip needle l < stop
              then find_skip s needle (start + BadCharSkip needle l) stop
         else None)"
  by pat_completeness auto
termination
proof (relation "measure (\<lambda>(s, needle, start, stop). stop - start)", goal_cases)
  case 1
  show ?case by simp
next
  case (2 s needle start stop n l)
  then show ?case using BadCharSkip_pos [of needle l] by simp
qed

definition sref_find :: "string \<Rightarrow> string \<Rightarrow> nat \<Rightarrow> nat option" where
  "sref_find s str from =
     (let size = length s - from; n = length str; stop = from + (size - n + 1)
      in if from > length s then None
         else if n = 0 then Some from
         else if size < n then None
         else if n = 1 then find_from (\<lambda>c. c = hd str) s from
         else if n = 2 then find_naive s str from stop
         else if size < 16 \<or> n > 255 then find_naive s str from stop
         else find_skip s str from stop)"

text \<open>
  \<open>find_insensitive\<close> advances \<open>This\<close> and \<open>From\<close> together; the loop is written over the
  remaining string.
\<close>

fun find_insensitive_loop :: "string \<Rightarrow> string \<Rightarrow> nat \<Rightarrow> nat option" where
  "find_insensitive_loop [] str from =
     (if str = [] then (if starts_with_insensitive [] str then Some from else None) else None)"
| "find_insensitive_loop (c # cs) str from =
     (if length (c # cs) \<ge> length str
      then (if starts_with_insensitive (c # cs) str then Some from
            else find_insensitive_loop cs str (Suc from))
      else None)"

definition find_insensitive :: "string \<Rightarrow> string \<Rightarrow> nat \<Rightarrow> nat option" where
  "find_insensitive s str from = find_insensitive_loop (substr s from None) str from"

fun rfind_insensitive_loop :: "string \<Rightarrow> string \<Rightarrow> nat \<Rightarrow> nat option" where
  "rfind_insensitive_loop s str 0 = None"
| "rfind_insensitive_loop s str (Suc i) =
     (if equals_insensitive (substr s i (Some (length str))) str then Some i
      else rfind_insensitive_loop s str i)"

definition rfind_insensitive :: "string \<Rightarrow> string \<Rightarrow> nat option" where
  "rfind_insensitive s str =
     (if length str > length s then None
      else rfind_insensitive_loop s str (length s - length str + 1))"

section \<open>Splitting\<close>

text \<open>
  \<open>split\<close> counts down from \<open>MaxSplit\<close>; with an empty separator and a negative
  \<open>MaxSplit\<close> the loop makes no progress, so the model is partial.
\<close>

partial_function (option) split_loop ::
  "string \<Rightarrow> int \<Rightarrow> bool \<Rightarrow> string \<Rightarrow> string list \<Rightarrow> string list option" where
  "split_loop sep maxSplit keepEmpty s a =
     (case (if maxSplit = 0 then None else sref_find s sep 0) of
        None \<Rightarrow> Some (if keepEmpty \<or> s \<noteq> [] then a @ [s] else a)
      | Some idx \<Rightarrow>
          split_loop sep (maxSplit - 1) keepEmpty (substr s (idx + length sep) None)
            (if keepEmpty \<or> idx > 0 then a @ [slice s 0 (Some idx)] else a))"

declare split_loop.simps [code]

definition split_str :: "string \<Rightarrow> string \<Rightarrow> int \<Rightarrow> bool \<Rightarrow> string list option" where
  "split_str s sep maxSplit keepEmpty = split_loop sep maxSplit keepEmpty s []"

text \<open>The two-way split around the first occurrence.\<close>

definition split_pair :: "string \<Rightarrow> string \<Rightarrow> string \<times> string" where
  "split_pair s sep =
     (case sref_find s sep 0 of
        None \<Rightarrow> (s, [])
      | Some idx \<Rightarrow> (slice s 0 (Some idx), substr s (idx + length sep) None))"

section \<open>Integers\<close>

definition getAutoSenseRadix :: "string \<Rightarrow> nat \<times> string" where
  "getAutoSenseRadix s =
     (if s = [] then (10, s)
      else case consume_front_insensitive s ''0x'' of
        Some r \<Rightarrow> (16, r)
      | None \<Rightarrow>
      (case consume_front_insensitive s ''0b'' of
        Some r \<Rightarrow> (2, r)
      | None \<Rightarrow>
      (case consume_front s ''0o'' of
        Some r \<Rightarrow> (8, r)
      | None \<Rightarrow>
        (if s ! 0 = CHR ''0'' \<and> length s > 1 \<and> isDigit (s ! 1) then (8, substr s 1 None)
         else (10, s)))))"

definition CharVal :: "char \<Rightarrow> nat option" where
  "CharVal c =
     (if code CHR ''0'' \<le> code c \<and> code c \<le> code CHR ''9'' then Some (code c - code CHR ''0'')
      else if code CHR ''a'' \<le> code c \<and> code c \<le> code CHR ''z''
           then Some (code c - code CHR ''a'' + 10)
      else if code CHR ''A'' \<le> code c \<and> code c \<le> code CHR ''Z''
           then Some (code c - code CHR ''A'' + 10)
      else None)"

text \<open>
  The parsing loop over 64-bit words. \<open>None\<close> is the early \<open>return true\<close> of the overflow
  check; otherwise the unconsumed rest and the value so far.
\<close>

fun consume_digits :: "nat \<Rightarrow> string \<Rightarrow> u64 \<Rightarrow> (string \<times> u64) option" where
  "consume_digits radix [] result = Some ([], result)"
| "consume_digits radix (c # cs) result =
     (case CharVal c of
        None \<Rightarrow> Some (c # cs, result)
      | Some v \<Rightarrow>
          (if v \<ge> radix then Some (c # cs, result)
           else let result' = result * of_nat radix + of_nat v
                in if result' div of_nat radix < result then None
                   else consume_digits radix cs result'))"

text \<open>
  \<open>true\<close> (an error) is \<open>None\<close>; on success the rest of the string and the value.
  The reference parameters have no defined use after an error.
\<close>

definition consumeUnsignedInteger :: "string \<Rightarrow> nat \<Rightarrow> (string \<times> u64) option" where
  "consumeUnsignedInteger str radix =
     (let (radix', str') = (if radix = 0 then getAutoSenseRadix str else (radix, str))
      in if str' = [] then None
         else case consume_digits radix' str' 0 of
                None \<Rightarrow> None
              | Some (str2, result) \<Rightarrow>
                  (if length str' = length str2 then None else Some (str2, result)))"

definition consumeSignedInteger :: "string \<Rightarrow> nat \<Rightarrow> (string \<times> u64) option" where
  "consumeSignedInteger str radix =
     (if \<not> starts_with str ''-'' then
        (case consumeUnsignedInteger str radix of
           None \<Rightarrow> None
         | Some (rest, ull) \<Rightarrow> (if sint ull < 0 then None else Some (rest, ull)))
      else
        (case consumeUnsignedInteger (drop 1 str) radix of
           None \<Rightarrow> None
         | Some (rest, ull) \<Rightarrow> (if sint (- ull) > 0 then None else Some (rest, - ull))))"

definition getAsUnsignedInteger :: "string \<Rightarrow> nat \<Rightarrow> u64 option" where
  "getAsUnsignedInteger str radix =
     (case consumeUnsignedInteger str radix of
        None \<Rightarrow> None
      | Some (rest, result) \<Rightarrow> (if rest \<noteq> [] then None else Some result))"

definition getAsSignedInteger :: "string \<Rightarrow> nat \<Rightarrow> u64 option" where
  "getAsSignedInteger str radix =
     (case consumeSignedInteger str radix of
        None \<Rightarrow> None
      | Some (rest, result) \<Rightarrow> (if rest \<noteq> [] then None else Some result))"

section \<open>Searching is correct\<close>

text \<open>The specification: where a needle occurs.\<close>

definition occurs_at :: "string \<Rightarrow> string \<Rightarrow> nat \<Rightarrow> bool" where
  "occurs_at s needle i \<longleftrightarrow> i + length needle \<le> length s \<and> sub s i (length needle) = needle"

lemma occurs_at_nth:
  "occurs_at s needle i \<Longrightarrow> k < length needle \<Longrightarrow> s ! (i + k) = needle ! k"
  by (metis add_leD1 nth_drop nth_take occurs_at_def sub_def)

lemma find_append: "List.find P (xs @ ys) = (case List.find P xs of None \<Rightarrow> List.find P ys | r \<Rightarrow> r)"
  by (induction xs) auto

lemma find_upt_skip:
  assumes "\<And>j. i \<le> j \<Longrightarrow> j < m \<Longrightarrow> \<not> P j" and "i \<le> m"
  shows "List.find P [i..<n] = List.find P [m..<n]"
proof (cases "m \<le> n")
  case True
  then have "[i..<n] = [i..<m] @ [m..<n]"
    using assms(2) upt_add_eq_append [of i m "n - m"] by simp
  moreover have "List.find P [i..<m] = None"
    using assms(1) by (auto simp: find_None_iff)
  ultimately show ?thesis by (simp add: find_append)
next
  case False
  then have "List.find P [i..<n] = None"
    using assms(1) by (auto simp: find_None_iff)
  then show ?thesis using False by simp
qed

lemma find_upt_step:
  "i < n \<Longrightarrow> List.find P [i..<n] = (if P i then Some i else List.find P [Suc i..<n])"
  by (simp add: upt_rec)

lemma find_from_eq: "find_from p s i = List.find (\<lambda>j. p (s ! j)) [i..<length s]"
proof (induction p s i rule: find_from.induct)
  case (1 p s i)
  then show ?case
    by (subst find_from.simps) (auto simp: find_upt_step simp del: find_from.simps)
qed

lemma sub_eq_needle: "needle \<noteq> [] \<Longrightarrow> sub s i (length needle) = needle \<longleftrightarrow> occurs_at s needle i"
proof -
  assume ne: "needle \<noteq> []"
  have "i + length needle \<le> length s" if "sub s i (length needle) = needle"
  proof -
    from that have "min (length needle) (length s - i) = length needle"
      by (metis length_sub)
    with ne show ?thesis by (cases needle) auto
  qed
  then show ?thesis by (auto simp: occurs_at_def)
qed

declare find_naive.simps [simp del] find_skip.simps [simp del] find_from.simps [simp del]

lemma find_naive_eq:
  assumes "needle \<noteq> []" and "start < stop"
  shows "find_naive s needle start stop = List.find (occurs_at s needle) [start..<stop]"
  using assms
proof (induction s needle start stop rule: find_naive.induct)
  case (1 s needle start stop)
  show ?case
  proof (cases "Suc start < stop")
    case True
    with 1 show ?thesis
      by (subst find_naive.simps) (simp add: sub_eq_needle find_upt_step)
  next
    case False
    with 1 have "[start..<stop] = [start]" by (simp add: upt_rec)
    with False 1 show ?thesis
      by (subst find_naive.simps) (simp add: sub_eq_needle)
  qed
qed

lemma BadCharSkip_upto_le:
  "k < i \<Longrightarrow> i \<le> length needle - 1 \<Longrightarrow> needle ! k = c \<Longrightarrow>
   BadCharSkip_upto needle i c \<le> length needle - 1 - k"
  by (induction i) (auto simp: less_Suc_eq)

lemma BadCharSkip_le:
  "k < length needle - 1 \<Longrightarrow> needle ! k = c \<Longrightarrow> BadCharSkip needle c \<le> length needle - 1 - k"
  unfolding BadCharSkip_def by (rule BadCharSkip_upto_le) auto

lemma skip_no_match:
  assumes "start < j" and "j < start + BadCharSkip needle (s ! (start + length needle - 1))"
  shows "\<not> occurs_at s needle j"
proof
  assume occ: "occurs_at s needle j"
  let ?n = "length needle"
  have "BadCharSkip needle c \<le> ?n" for c
  proof -
    have "BadCharSkip_upto needle i c \<le> ?n" for i by (induction i) auto
    then show ?thesis by (simp add: BadCharSkip_def)
  qed
  with assms have j: "j < start + ?n" by (meson add_left_mono less_le_trans)
  let ?k = "start + ?n - 1 - j"
  have k: "?k < ?n - 1" and jk: "j + ?k = start + ?n - 1" using assms(1) j by auto
  have "needle ! ?k = s ! (start + ?n - 1)"
    using occurs_at_nth [OF occ, of ?k] k jk by simp
  with k have "BadCharSkip needle (s ! (start + ?n - 1)) \<le> ?n - 1 - ?k"
    by (intro BadCharSkip_le)
  with assms j show False by linarith
qed

lemma last_and_prefix_eq:
  assumes "needle \<noteq> []" and "start + length needle \<le> length s"
  shows "s ! (start + length needle - 1) = needle ! (length needle - 1) \<and>
         sub s start (length needle - 1) = take (length needle - 1) needle
         \<longleftrightarrow> occurs_at s needle start"
proof -
  let ?n = "length needle"
  obtain m where n: "?n = Suc m" using assms(1) by (cases needle) auto
  have "sub s start ?n = sub s start (?n - 1) @ [s ! (start + ?n - 1)]"
    unfolding sub_def using assms n by (simp add: take_Suc_conv_app_nth)
  moreover have "needle = take (?n - 1) needle @ [needle ! (?n - 1)]"
    using assms(1) by (metis last_conv_nth append_butlast_last_id butlast_conv_take)
  ultimately show ?thesis
    using assms(2) unfolding occurs_at_def by (metis append1_eq_conv)
qed

lemma find_skip_eq:
  assumes "needle \<noteq> []" and "start < stop" and "stop + length needle \<le> Suc (length s)"
  shows "find_skip s needle start stop = List.find (occurs_at s needle) [start..<stop]"
  using assms
proof (induction s needle start stop rule: find_skip.induct)
  case (1 s needle start stop)
  let ?l = "s ! (start + length needle - 1)"
  let ?m = "start + BadCharSkip needle ?l"
  have fits: "start + length needle \<le> length s" using 1 by simp
  note match = last_and_prefix_eq [OF \<open>needle \<noteq> []\<close> fits]
  show ?case
  proof (cases "occurs_at s needle start")
    case True
    with 1 match show ?thesis
      by (subst find_skip.simps) (simp add: Let_def find_upt_step)
  next
    case False
    then have none: "\<not> occurs_at s needle j" if "start \<le> j" "j < ?m" for j
      using that skip_no_match [of start j needle s] by (cases "j = start") auto
    have skip: "List.find (occurs_at s needle) [start..<stop] =
        List.find (occurs_at s needle) [?m..<stop]"
      using none by (intro find_upt_skip) auto
    have nomatch: "\<not> (?l = needle ! (length needle - 1) \<and>
        sub s start (length needle - 1) = take (length needle - 1) needle)"
      using False match by simp
    show ?thesis
    proof (cases "?m < stop")
      case True
      with "1.IH" [of "length needle" ?l] nomatch "1.prems" skip show ?thesis
        by (subst find_skip.simps) (auto simp: Let_def)
    next
      case False
      with nomatch skip "1.prems" show ?thesis
        by (subst find_skip.simps) (auto simp: Let_def)
    qed
  qed
qed

lemma find_occurs_cut:
  assumes "str \<noteq> []"
  shows "List.find (occurs_at s str) [from..<Suc (length s)] =
    (if from + length str \<le> length s
     then List.find (occurs_at s str) [from..<Suc (length s - length str)] else None)"
proof (cases "from + length str \<le> length s")
  case True
  let ?stop = "Suc (length s - length str)"
  have "from \<le> ?stop" and "?stop \<le> Suc (length s)" using True by auto
  then have "[from..<Suc (length s)] = [from..<?stop] @ [?stop..<Suc (length s)]"
    using upt_add_eq_append [of "from" ?stop "Suc (length s) - ?stop"] by (simp del: upt_Suc)
  moreover have "List.find (occurs_at s str) [?stop..<Suc (length s)] = None"
    unfolding find_None_iff occurs_at_def by auto
  ultimately show ?thesis using True by (simp add: find_append del: upt_Suc split: option.split)
next
  case False
  have "List.find (occurs_at s str) [from..<Suc (length s)] = None"
    using False unfolding find_None_iff occurs_at_def by auto
  then show ?thesis using False by (simp del: upt_Suc)
qed

lemma find_one_char:
  assumes "length str = 1" and "from + length str \<le> length s"
  shows "find_from (\<lambda>c. c = hd str) s from =
    List.find (occurs_at s str) [from..<Suc (length s - length str)]"
proof -
  from assms(1) obtain c where c: "str = [c]" by (auto simp: length_Suc_conv)
  have "occurs_at s str i \<longleftrightarrow> s ! i = c" if "i < length s" for i
    using that by (auto simp: occurs_at_def c sub_def take_Suc_conv_app_nth Cons_nth_drop_Suc [symmetric])
  moreover have "Suc (length s - length str) = length s" using assms by simp
  ultimately show ?thesis
    unfolding find_from_eq by (intro find_cong) (auto simp: c)
qed

text \<open>
  C25: \<open>StringRef::find\<close> returns the first index from \<open>From\<close> on at which the needle
  occurs, or \<open>npos\<close>, on every path: empty needle, \<open>memchr\<close>, the two \<open>memcmp\<close> loops and
  the bad-character skip loop.
\<close>

theorem sref_find_correct:
  "sref_find s str from = List.find (occurs_at s str) [from..<Suc (length s)]"
proof (cases "from > length s \<or> str = []")
  case True
  then show ?thesis
  proof
    assume "from > length s"
    then show ?thesis by (simp add: sref_find_def)
  next
    assume "str = []"
    then show ?thesis
      by (cases "from > length s") (simp_all add: sref_find_def occurs_at_def sub_def find_upt_step del: upt_Suc)
  qed
next
  case False
  then have str: "str \<noteq> []" and le: "from \<le> length s" by auto
  let ?stop = "Suc (length s - length str)"
  show ?thesis
  proof (cases "from + length str \<le> length s")
    case True
    then have "from + (length s - from - length str + 1) = ?stop" by simp
    then show ?thesis
      using True str le find_one_char [OF _ True]
      unfolding sref_find_def Let_def find_occurs_cut [OF str]
      by (simp add: find_naive_eq find_skip_eq)
  next
    case short: False
    then have "length s - from < length str" using le by linarith
    then show ?thesis
      using short str le unfolding sref_find_def Let_def find_occurs_cut [OF str] by simp
  qed
qed

section \<open>Integer parsing is exact\<close>

text \<open>The specification: the longest digit prefix and its value, over unbounded numbers.\<close>

definition is_digit_of :: "nat \<Rightarrow> char \<Rightarrow> bool" where
  "is_digit_of radix c \<longleftrightarrow> (case CharVal c of None \<Rightarrow> False | Some v \<Rightarrow> v < radix)"

definition digit_value :: "nat \<Rightarrow> nat \<Rightarrow> string \<Rightarrow> nat" where
  "digit_value radix acc ds = foldl (\<lambda>a c. a * radix + the (CharVal c)) acc ds"

lemma digit_value_ge: "0 < radix \<Longrightarrow> acc \<le> digit_value radix acc ds"
proof (induction ds arbitrary: acc)
  case Nil
  then show ?case by (simp add: digit_value_def)
next
  case (Cons c ds)
  have "acc \<le> acc * radix + the (CharVal c)"
    using Cons.prems by (metis le_add1 le_trans mult.right_neutral mult_le_mono2 Suc_leI One_nat_def)
  also have "\<dots> \<le> digit_value radix (acc * radix + the (CharVal c)) ds"
    using Cons by blast
  finally show ?case by (simp add: digit_value_def)
qed

text \<open>
  The overflow test of the loop, dividing the wrapped result back by the radix, fires
  exactly when the unbounded value does not fit.
\<close>

lemma overflow_test_exact:
  fixes r :: u64
  assumes "0 < radix" and "radix < 2 ^ 32" and "v < radix"
  shows "(r * of_nat radix + of_nat v) div of_nat radix < r \<longleftrightarrow> 2 ^ 64 \<le> unat r * radix + v"
    and "unat (r * of_nat radix + of_nat v) = (unat r * radix + v) mod 2 ^ 64"
proof -
  have radix: "unat (of_nat radix :: u64) = radix" and v: "unat (of_nat v :: u64) = v"
    using assms by (simp_all add: unat_of_nat)
  let ?w = "r * of_nat radix + of_nat v"
  let ?x = "unat r * radix + v"
  show w: "unat ?w = ?x mod 2 ^ 64"
    by (simp add: unat_word_ariths radix v mod_add_left_eq)
  have "?w div of_nat radix < r \<longleftrightarrow> (?x mod 2 ^ 64) div radix < unat r"
    by (simp add: word_less_nat_alt unat_div w radix)
  also have "\<dots> \<longleftrightarrow> 2 ^ 64 \<le> ?x"
  proof (cases "2 ^ 64 \<le> ?x")
    case True
    have "?x mod 2 ^ 64 + 2 ^ 64 \<le> ?x"
      using True by (metis add.commute add_left_mono le_add_diff_inverse mod_if mod_less_eq_dividend not_le le_mod_geq)
    then have "?x mod 2 ^ 64 < unat r * radix" using assms by simp
    then show ?thesis using True by (simp add: less_mult_imp_div_less)
  next
    case False
    then have "?x mod 2 ^ 64 div radix = unat r + v div radix" using assms by simp
    then show ?thesis using False by simp
  qed
  finally show "?w div of_nat radix < r \<longleftrightarrow> 2 ^ 64 \<le> ?x" .
qed

lemma consume_digits_exact:
  assumes "0 < radix" and "radix < 2 ^ 32"
  defines "pre \<equiv> takeWhile (is_digit_of radix)"
  shows "consume_digits radix s r =
    (if digit_value radix (unat r) (pre s) < 2 ^ 64
     then Some (dropWhile (is_digit_of radix) s, of_nat (digit_value radix (unat r) (pre s)))
     else None)"
proof (induction s arbitrary: r)
  case Nil
  have "unat r < 2 ^ 64" using unsigned_less [of r] by simp
  then show ?case by (simp add: pre_def digit_value_def)
next
  case (Cons c s)
  show ?case
  proof (cases "is_digit_of radix c")
    case False
    have "unat r < 2 ^ 64" using unsigned_less [of r] by simp
    then show ?thesis using False
      by (auto simp: pre_def digit_value_def is_digit_of_def split: option.splits)
  next
    case True
    then obtain v where v: "CharVal c = Some v" "v < radix"
      by (auto simp: is_digit_of_def split: option.splits)
    note ov = overflow_test_exact [OF assms(1,2) v(2), of r]
    let ?x = "unat r * radix + v"
    have val: "digit_value radix (unat r) (pre (c # s)) = digit_value radix ?x (pre s)"
      using True v by (simp add: pre_def digit_value_def)
    show ?thesis
    proof (cases "2 ^ 64 \<le> ?x")
      case big: True
      then have "\<not> digit_value radix ?x (pre s) < 2 ^ 64"
        using digit_value_ge [OF assms(1), of ?x "pre s"] by linarith
      then show ?thesis using v ov big by (simp add: val)
    next
      case False
      then have "unat (r * of_nat radix + of_nat v) = ?x" using ov(2) by simp
      then show ?thesis using v ov(1) False Cons.IH True by (simp add: val)
    qed
  qed
qed

text \<open>
  C26: for an explicit radix, \<open>consumeUnsignedInteger\<close> succeeds exactly when the string
  starts with at least one digit of that radix and the value of the longest such prefix
  fits in 64 bits; it then returns that value and the unconsumed rest. The division-based
  overflow check of the loop is thereby exact.
\<close>

theorem consumeUnsignedInteger_exact:
  assumes "0 < radix" and "radix \<le> 36"
  shows "consumeUnsignedInteger str radix =
    (let pre = takeWhile (is_digit_of radix) str; n = digit_value radix 0 pre
     in if pre \<noteq> [] \<and> n < 2 ^ 64
        then Some (dropWhile (is_digit_of radix) str, of_nat n) else None)"
proof -
  have "(length str = length (dropWhile (is_digit_of radix) str)) = (takeWhile (is_digit_of radix) str = [])"
    by (metis add_cancel_right_left length_0_conv length_append takeWhile_dropWhile_id)
  then show ?thesis
    using assms consume_digits_exact [of radix str 0]
    by (auto simp: consumeUnsignedInteger_def Let_def)
qed

theorem consumeUnsignedInteger_exact_witness:
  "consumeUnsignedInteger ''1f,'' 16 = Some ('','', 31)"
  using consumeUnsignedInteger_exact [of 16 "''1f,''"]
  by (simp add: is_digit_of_def digit_value_def CharVal_def code_def)

text \<open>
  \<open>consumeSignedInteger\<close> never returns a value of the wrong sign: without a leading
  minus the 64-bit result, read as two's complement, is the unsigned magnitude that was
  parsed; with one it is its negation, the most negative value included.
\<close>

theorem consumeSignedInteger_range:
  assumes "consumeSignedInteger str radix = Some (rest, r)"
  shows "if starts_with str ''-''
         then \<exists>u. consumeUnsignedInteger (drop 1 str) radix = Some (rest, u) \<and>
                  sint r = - uint u \<and> uint u \<le> 2 ^ 63
         else consumeUnsignedInteger str radix = Some (rest, r) \<and> sint r = uint r"
proof -
  have pos: "sint w = uint w" if "\<not> sint w < 0" for w :: u64
    using that uint_lt2p [of w] by (auto simp: sint_u64_cases split: if_splits)
  have neg: "sint (- u) = - uint u \<and> uint u \<le> 2 ^ 63" if "\<not> 0 < sint (- u)" for u :: u64
    using that uint_lt2p [of u] by (auto simp: sint_u64_cases uint_neg_u64 split: if_splits)
  show ?thesis
    using assms pos neg by (auto simp: consumeSignedInteger_def split: option.splits prod.splits if_splits)
qed

theorem consumeSignedInteger_range_witness:
  "\<exists>u. consumeUnsignedInteger ''12'' 10 = Some ([], u) \<and> sint (- 12 :: u64) = - uint u \<and> uint u \<le> 2 ^ 63"
proof -
  have "consumeSignedInteger ''-12'' 10 = Some ([], - 12)" by code_simp
  from consumeSignedInteger_range [OF this] show ?thesis by (simp add: starts_with_def)
qed

section \<open>Splitting and joining\<close>

fun join_with :: "string \<Rightarrow> string list \<Rightarrow> string" where
  "join_with sep [] = []"
| "join_with sep [x] = x"
| "join_with sep (x # y # ys) = x @ sep @ join_with sep (y # ys)"

lemma sref_find_Some:
  assumes "sref_find s sep 0 = Some i"
  shows "s = take i s @ sep @ drop (i + length sep) s" and "i + length sep \<le> length s"
    and "\<And>j. occurs_at s sep j \<Longrightarrow> i \<le> j"
proof -
  have occ: "occurs_at s sep i" and first: "\<And>j. j < i \<Longrightarrow> \<not> occurs_at s sep j"
    using assms unfolding sref_find_correct find_Some_iff
    by (auto simp del: upt_Suc)
  show "i + length sep \<le> length s" using occ by (simp add: occurs_at_def)
  show "s = take i s @ sep @ drop (i + length sep) s"
    using occ unfolding occurs_at_def sub_def
    by (metis append_take_drop_id drop_drop add.commute)
  show "i \<le> j" if "occurs_at s sep j" for j using first that not_le by blast
qed

lemma sref_find_None: "sref_find s sep 0 = None \<Longrightarrow> \<not> occurs_at s sep j"
  unfolding sref_find_correct find_None_iff by (auto simp: occurs_at_def simp del: upt_Suc)

lemma occurs_at_take: "occurs_at (take i s) sep j \<Longrightarrow> occurs_at s sep j \<and> j + length sep \<le> i"
  by (auto simp: occurs_at_def sub_def min_def drop_take split: if_splits)

text \<open>
  With a non-empty separator the loop ends, and the parts it returns (empty ones kept),
  joined by the separator, are the original string.
\<close>

lemma split_loop_join:
  assumes "sep \<noteq> []"
  shows "\<exists>parts. split_loop sep m True s a = Some (a @ parts) \<and> parts \<noteq> [] \<and>
    join_with sep parts = s \<and> (m < 0 \<longrightarrow> (\<forall>p\<in>set parts. \<forall>j. \<not> occurs_at p sep j))"
proof (induction "length s" arbitrary: s m a rule: less_induct)
  case less
  show ?case
  proof (cases "if m = 0 then None else sref_find s sep 0")
    case None
    then have "m < 0 \<Longrightarrow> sref_find s sep 0 = None" by (auto split: if_splits)
    then have "m < 0 \<longrightarrow> (\<forall>j. \<not> occurs_at s sep j)" by (auto dest: sref_find_None)
    with None show ?thesis
      by (intro exI [of _ "[s]"]) (subst split_loop.simps, simp)
  next
    case (Some i)
    then have find: "sref_find s sep 0 = Some i" and m: "m \<noteq> 0" by (auto split: if_splits)
    note f = sref_find_Some [OF find]
    let ?t = "drop (i + length sep) s" and ?h = "take i s"
    have "length ?t < length s" using assms f(2) by (cases sep) auto
    from less [OF this, of "m - 1" "a @ [?h]"] obtain parts where
      parts: "split_loop sep (m - 1) True ?t (a @ [?h]) = Some ((a @ [?h]) @ parts)" "parts \<noteq> []"
        "join_with sep parts = ?t" "m - 1 < 0 \<longrightarrow> (\<forall>p\<in>set parts. \<forall>j. \<not> occurs_at p sep j)"
      by blast
    have "substr s (i + length sep) None = ?t" using f(2) by (simp add: substr_def)
    moreover have "slice s 0 (Some i) = ?h" by (simp add: slice_def min_def)
    ultimately have "split_loop sep m True s a = Some (a @ ?h # parts)"
      using Some parts(1) by (subst split_loop.simps) simp
    moreover have "join_with sep (?h # parts) = s"
      using parts(2,3) f(1) by (cases parts) auto
    moreover have "m < 0 \<longrightarrow> (\<forall>p\<in>set (?h # parts). \<forall>j. \<not> occurs_at p sep j)"
    proof -
      have "\<not> occurs_at ?h sep j" for j
        using f(3) [of j] occurs_at_take [of i s sep j] assms by (cases sep) fastforce+
      then show ?thesis using parts(4) by auto
    qed
    ultimately show ?thesis by (intro exI [of _ "?h # parts"]) simp
  qed
qed

text \<open>
  splitting at a non-empty separator always returns, joining the parts with the
  separator gives the original string back, and without a split limit no part contains
  the separator.
\<close>

lemma split_str_join:
  assumes "sep \<noteq> []"
  shows "\<exists>parts. split_str s sep m True = Some parts \<and> join_with sep parts = s \<and>
    (m < 0 \<longrightarrow> (\<forall>p\<in>set parts. \<forall>j. \<not> occurs_at p sep j))"
  using split_loop_join [OF assms, of m s "[]"] unfolding split_str_def by auto

end
