(* ===== verification/ErrorHandling.thy ===== *)
theory ErrorHandling
  imports StrRef
begin

text \<open>
  How a link ends: \<open>llvm/lib/Support/CrashRecoveryContext.cpp\<close> and \<open>Process.cpp\<close> (the
  non-MSVC build), \<open>lld/Common/ErrorHandler.cpp\<close> and \<open>lld/Common/CommonLinkerContext.cpp\<close>.
  Control flow that leaves a function other than by returning (\<open>longjmp\<close> to the innermost
  \<open>RunSafely\<close>, a C++ exception, process exit, death by signal) is a value of
  \<open>outcome\<close>; the process-wide variables are the record \<open>proc_state\<close>.
  \<open>vsDiagnostics\<close> and \<open>errorHandlingScript\<close> are never set by the drivers of this
  repository and are left out of the diagnostics model, as are colours: the callback
  streams are no terminals.
\<close>

section \<open>Processes\<close>

datatype 'a outcome =
    Done 'a
  | Unwind int
  | Threw
  | Exited int
  | Killed int

datatype disposition = SIG_DFL | SIG_IGN

datatype stream = StdoutOS | StderrOS

record proc_state =
  gCrashRecoveryEnabled :: bool
  CurrentContext :: nat
  hostActions :: "int \<Rightarrow> disposition"
  lctx :: bool
  writes :: "(stream \<times> string) list"

type_synonym 'a proc = "proc_state \<Rightarrow> 'a outcome \<times> proc_state"

definition ret :: "'a \<Rightarrow> 'a proc" where
  "ret x s = (Done x, s)"

definition bind :: "'a proc \<Rightarrow> ('a \<Rightarrow> 'b proc) \<Rightarrow> 'b proc" where
  "bind m f s =
     (case m s of
        (Done x, s') \<Rightarrow> f x s'
      | (Unwind c, s') \<Rightarrow> (Unwind c, s')
      | (Threw, s') \<Rightarrow> (Threw, s')
      | (Exited c, s') \<Rightarrow> (Exited c, s')
      | (Killed c, s') \<Rightarrow> (Killed c, s'))"

definition Enable :: "unit proc" where
  "Enable s = (Done (), s\<lparr>gCrashRecoveryEnabled := True\<rparr>)"

definition Disable :: "unit proc" where
  "Disable s = (Done (), s\<lparr>gCrashRecoveryEnabled := False\<rparr>)"

definition GetCurrent :: "proc_state \<Rightarrow> bool" where
  "GetCurrent s \<longleftrightarrow> (if \<not> gCrashRecoveryEnabled s then False else CurrentContext s \<noteq> 0)"

definition isCrash :: "int \<Rightarrow> bool" where
  "isCrash rc = (if rc \<le> 128 then False else True)"

text \<open>\<open>HandleCrash\<close> pops the current context before it jumps back to its \<open>RunSafely\<close>.\<close>

definition HandleCrash :: "int \<Rightarrow> 'a proc" where
  "HandleCrash rc s = (Unwind rc, s\<lparr>CurrentContext := CurrentContext s - 1\<rparr>)"

definition HandleExit :: "int \<Rightarrow> 'a proc" where
  "HandleExit rc = HandleCrash rc"

definition Process_Exit :: "int \<Rightarrow> 'a proc" where
  "Process_Exit rc s = (if GetCurrent s then HandleExit rc s else (Exited rc, s))"

text \<open>
  Signals, by their Linux numbers. Crash recovery installs its handler for the signals of \<open>Signals\<close> while it is enabled;
  every other signal, and all of them while it is disabled, has the disposition of the surrounding process
  (\<open>hostActions\<close>). The handlers that \<open>Support/Unix/Signals.inc\<close> puts on top when a temporary file is created remove
  themselves and raise the signal again, so only what lies below them is kept here.
\<close>

definition SIGILL :: int where "SIGILL = 4"
definition SIGTRAP :: int where "SIGTRAP = 5"
definition SIGABRT :: int where "SIGABRT = 6"
definition SIGBUS :: int where "SIGBUS = 7"
definition SIGFPE :: int where "SIGFPE = 8"
definition SIGSEGV :: int where "SIGSEGV = 11"
definition SIGPIPE :: int where "SIGPIPE = 13"
definition EX_IOERR :: int where "EX_IOERR = 74"

definition Signals :: "int list" where
  "Signals = [SIGABRT, SIGBUS, SIGFPE, SIGILL, SIGSEGV, SIGTRAP]"

definition installed :: "proc_state \<Rightarrow> int \<Rightarrow> bool" where
  "installed s sig \<longleftrightarrow> gCrashRecoveryEnabled s \<and> sig \<in> set Signals"

text \<open>
  A signal under the disposition of the process: ignored ones, and by default those the kernel discards
  (\<open>SIGCHLD\<close>, \<open>SIGCONT\<close>, \<open>SIGURG\<close>, \<open>SIGWINCH\<close>) or that only stop the process (19 to 22), let it go on; the
  others kill it.
\<close>

definition default_kills :: "int \<Rightarrow> bool" where
  "default_kills sig \<longleftrightarrow> sig \<notin> {17, 18, 19, 20, 21, 22, 23, 28}"

definition deliver_host :: "int \<Rightarrow> unit proc" where
  "deliver_host sig s = (if hostActions s sig = SIG_DFL \<and> default_kills sig then (Killed sig, s) else (Done (), s))"

definition CrashRecoverySignalHandler :: "int \<Rightarrow> unit proc" where
  "CrashRecoverySignalHandler sig s =
     (if CurrentContext s = 0 then bind Disable (\<lambda>_. deliver_host sig) s
      else HandleCrash (if sig = SIGPIPE then EX_IOERR else 128 + sig) s)"

text \<open>\<open>raise\<close>: a number that is no signal is refused and nothing happens.\<close>

definition raise_signal :: "int \<Rightarrow> unit proc" where
  "raise_signal sig s =
     (if sig < 1 \<or> 64 < sig then (Done (), s)
      else if installed s sig then CrashRecoverySignalHandler sig s
      else deliver_host sig s)"

definition throwIfCrash :: "int \<Rightarrow> bool proc" where
  "throwIfCrash rc = (if \<not> isCrash rc then ret False else bind (raise_signal (rc - 128)) (\<lambda>_. ret True))"

text \<open>
  \<open>RunSafely\<close> runs a body that may assign a captured variable: the result is that value
  (\<open>None\<close> when the body crashed and \<open>RunSafely\<close> returned \<open>false\<close>) and the return code
  of the context, 0 until a crash is handled. The context object is destroyed right after
  its use, which restores the previous one.
\<close>

definition RunSafely :: "'a proc \<Rightarrow> ('a option \<times> int) proc" where
  "RunSafely fn s =
     (if gCrashRecoveryEnabled s then
        (case fn (s\<lparr>CurrentContext := CurrentContext s + 1\<rparr>) of
           (Done x, s') \<Rightarrow> (Done (Some x, 0), s'\<lparr>CurrentContext := CurrentContext s\<rparr>)
         | (Unwind c, s') \<Rightarrow> (Done (None, c), s'\<lparr>CurrentContext := CurrentContext s\<rparr>)
         | (Threw, s') \<Rightarrow> (Threw, s'\<lparr>CurrentContext := CurrentContext s\<rparr>)
         | (Exited c, s') \<Rightarrow> (Exited c, s')
         | (Killed c, s') \<Rightarrow> (Killed c, s'))
      else bind fn (\<lambda>x. ret (Some x, 0)) s)"

text \<open>\<open>exitLld\<close>: a crash code is raised again as its signal; the process exits when that, or the code being an ordinary
  one, lets it go on.\<close>

definition exitLld :: "int \<Rightarrow> 'a proc" where
  "exitLld val = bind (throwIfCrash val) (\<lambda>_. Process_Exit val)"

text \<open>The linker context; its destructor is code of the driver and may itself fail.\<close>

definition destroy_context :: "unit proc \<Rightarrow> unit proc" where
  "destroy_context dtor s =
     (if \<not> lctx s then (Done (), s)
      else bind dtor (\<lambda>_ s'. (Done (), s'\<lparr>lctx := False\<rparr>)) s)"

section \<open>Diagnostics\<close>

record error_handler =
  errorCount :: u64
  errorLimit :: u64
  errorLimitExceededMsg :: string
  logName :: string
  exitEarly :: bool
  fatalWarnings :: bool
  suppressWarnings :: bool
  verbose :: bool
  disableOutput :: bool
  sep :: string
  stdoutOS :: "string list"
  stderrOS :: "string list"

definition new_error_handler :: error_handler where
  "new_error_handler =
     \<lparr>errorCount = 0, errorLimit = 20,
      errorLimitExceededMsg = ''too many errors emitted, stopping now'', logName = ''lld'',
      exitEarly = True, fatalWarnings = False, suppressWarnings = False, verbose = False,
      disableOutput = False, sep = [], stdoutOS = [], stderrOS = []\<rparr>"

definition eh_initialize :: "bool \<Rightarrow> bool \<Rightarrow> error_handler \<Rightarrow> error_handler" where
  "eh_initialize early disable e = e\<lparr>exitEarly := early, disableOutput := disable\<rparr>"

definition getSeparator :: "string \<Rightarrow> string" where
  "getSeparator msg = (if CHR 0x0A \<in> set msg then [CHR 0x0A] else [])"

text \<open>Writing to \<open>errs()\<close> or \<open>outs()\<close> goes to the null stream when output is disabled.\<close>

definition write_errs :: "string \<Rightarrow> error_handler \<Rightarrow> error_handler" where
  "write_errs txt e = (if disableOutput e then e else e\<lparr>stderrOS := stderrOS e @ [txt]\<rparr>)"

definition reportDiagnostic :: "string \<Rightarrow> string \<Rightarrow> string \<Rightarrow> error_handler \<Rightarrow> error_handler" where
  "reportDiagnostic location diagKind msg e =
     (let buf = sep e @ location @ '': '' @
                (if diagKind \<noteq> [] then diagKind @ '': '' else []) @ msg @ [CHR 0x0A]
      in (write_errs buf e)\<lparr>sep := getSeparator msg\<rparr>)"

definition eh_log :: "string \<Rightarrow> error_handler \<Rightarrow> error_handler" where
  "eh_log msg e =
     (if \<not> verbose e \<or> disableOutput e then e else reportDiagnostic (logName e) [] msg e)"

definition eh_message :: "string \<Rightarrow> error_handler \<Rightarrow> error_handler" where
  "eh_message msg e =
     (if disableOutput e then e else e\<lparr>stdoutOS := stdoutOS e @ [msg @ [CHR 0x0A]]\<rparr>)"

text \<open>\<open>error\<close> returns the handler and whether it leaves through \<open>exitLld(1)\<close>.\<close>

definition eh_error :: "string \<Rightarrow> error_handler \<Rightarrow> bool \<times> error_handler" where
  "eh_error msg e =
     (let (exit, e1) =
            (if errorLimit e = 0 \<or> errorCount e < errorLimit e
             then (False, reportDiagnostic (logName e) ''error'' msg e)
             else if errorCount e = errorLimit e
             then (exitEarly e, reportDiagnostic (logName e) ''error'' (errorLimitExceededMsg e) e)
             else (False, e))
      in (exit, e1\<lparr>errorCount := errorCount e1 + 1\<rparr>))"

definition eh_warn :: "string \<Rightarrow> error_handler \<Rightarrow> bool \<times> error_handler" where
  "eh_warn msg e =
     (if fatalWarnings e then eh_error msg e
      else if suppressWarnings e then (False, e)
      else (False, reportDiagnostic (logName e) ''warning'' msg e))"

definition eh_fatal :: "string \<Rightarrow> error_handler \<Rightarrow> bool \<times> error_handler" where
  "eh_fatal msg e = (True, snd (eh_error msg e))"

datatype DiagLevel = DL_None | DL_Log | DL_Msg | DL_Warn | DL_Err | DL_Fatal

text \<open>The destructor of \<open>SyncStream\<close> emits its buffer at its level.\<close>

definition SyncStream_emit :: "DiagLevel \<Rightarrow> string \<Rightarrow> error_handler \<Rightarrow> bool \<times> error_handler" where
  "SyncStream_emit level buf e =
     (case level of
        DL_None \<Rightarrow> (False, e)
      | DL_Log \<Rightarrow> (False, eh_log buf e)
      | DL_Msg \<Rightarrow> (False, eh_message buf e)
      | DL_Warn \<Rightarrow> eh_warn buf e
      | DL_Err \<Rightarrow> eh_error buf e
      | DL_Fatal \<Rightarrow> eh_fatal buf e)"

section \<open>The error limit\<close>

fun report_errors :: "string list \<Rightarrow> error_handler \<Rightarrow> error_handler" where
  "report_errors [] e = e"
| "report_errors (m # ms) e = report_errors ms (snd (eh_error m e))"

lemma eh_error_frame [simp]:
  "errorLimit (snd (eh_error m e)) = errorLimit e"
  "disableOutput (snd (eh_error m e)) = disableOutput e"
  "errorCount (snd (eh_error m e)) = errorCount e + 1"
  "stdoutOS (snd (eh_error m e)) = stdoutOS e"
  by (auto simp: eh_error_def reportDiagnostic_def write_errs_def Let_def)

lemma eh_error_length:
  "\<not> disableOutput e \<Longrightarrow> length (stderrOS (snd (eh_error m e))) =
     length (stderrOS e) + (if errorLimit e = 0 \<or> errorCount e \<le> errorLimit e then 1 else 0)"
  by (auto simp: eh_error_def reportDiagnostic_def write_errs_def Let_def)

text \<open>The number of diagnostics printed for \<open>n\<close> further errors.\<close>

definition printed :: "u64 \<Rightarrow> u64 \<Rightarrow> nat \<Rightarrow> nat" where
  "printed limit count n =
     (if limit = 0 then n else min n (Suc (unat limit) - unat count))"

lemma report_errors_length:
  assumes "\<not> disableOutput e" and "unat (errorCount e) + length ms < 2 ^ 64"
  shows "length (stderrOS (report_errors ms e)) =
      length (stderrOS e) + printed (errorLimit e) (errorCount e) (length ms) \<and>
    unat (errorCount (report_errors ms e)) = unat (errorCount e) + length ms"
  using assms
proof (induction ms arbitrary: e)
  case Nil
  then show ?case by (simp add: printed_def)
next
  case (Cons m ms)
  let ?e = "snd (eh_error m e)"
  have cnt: "unat (errorCount e + 1) = unat (errorCount e) + 1"
    using Cons.prems(2) by (simp add: unat_word_ariths)
  have "printed (errorLimit e) (errorCount e + 1) (length ms) +
      (if errorLimit e = 0 \<or> errorCount e \<le> errorLimit e then 1 else 0) =
      printed (errorLimit e) (errorCount e) (length (m # ms))"
    unfolding printed_def cnt by (auto simp: word_le_nat_alt)
  then show ?case
    using Cons.IH [of ?e] Cons.prems cnt by (simp add: eh_error_length)
qed

text \<open>
  the error limit. A handler that was just created and initialised with output enabled,
  whose limit is \<open>limit\<close>, counts all errors reported to it and prints each of them while
  fewer than \<open>limit\<close> were seen, then the "too many errors" notice once, then nothing; a
  limit of 0 prints all of them.
\<close>

lemma error_limit:
  fixes early :: bool and limit :: u64
  assumes "length ms < 2 ^ 64"
  defines "e \<equiv> (eh_initialize early False new_error_handler)\<lparr>errorLimit := limit\<rparr>"
  shows "length (stderrOS (report_errors ms e)) =
      (if limit = 0 then length ms else min (length ms) (unat limit + 1)) \<and>
    unat (errorCount (report_errors ms e)) = length ms"
  using report_errors_length [of e ms] assms(1)
  by (simp add: e_def eh_initialize_def new_error_handler_def printed_def)

section \<open>Crash recovery\<close>

text \<open>With recovery enabled, leaving through \<open>exitLld\<close> returns to \<open>RunSafely\<close>.\<close>

lemma exitLld_ordinary: "rc \<le> 128 \<Longrightarrow> exitLld rc = Process_Exit rc"
  by (simp add: fun_eq_iff exitLld_def throwIfCrash_def isCrash_def bind_def ret_def)

text \<open>The signals that end the process although recovery is on.\<close>

definition fatal_signal :: "proc_state \<Rightarrow> int \<Rightarrow> bool" where
  "fatal_signal s sig \<longleftrightarrow> 1 \<le> sig \<and> sig \<le> 64 \<and> sig \<notin> set Signals \<and> hostActions s sig = SIG_DFL \<and> default_kills sig"

lemma Signals_number: "sig \<in> set Signals \<Longrightarrow> 1 \<le> sig \<and> sig \<le> 64 \<and> sig \<noteq> SIGPIPE"
  by (auto simp: Signals_def SIGABRT_def SIGBUS_def SIGFPE_def SIGILL_def SIGSEGV_def SIGTRAP_def SIGPIPE_def)

lemma raise_signal_recovering:
  assumes "gCrashRecoveryEnabled s" and "CurrentContext s \<noteq> 0"
  shows "raise_signal sig s =
    (if sig \<in> set Signals then (Unwind (128 + sig), s\<lparr>CurrentContext := CurrentContext s - 1\<rparr>)
     else if fatal_signal s sig then (Killed sig, s) else (Done (), s))"
  using assms Signals_number [of sig]
  by (auto simp: raise_signal_def installed_def CrashRecoverySignalHandler_def HandleCrash_def fatal_signal_def deliver_host_def)

lemma exitLld_recovering:
  assumes "gCrashRecoveryEnabled s" and "CurrentContext s \<noteq> 0"
  shows "exitLld c s =
    (if fatal_signal s (c - 128) then (Killed (c - 128), s) else (Unwind c, s\<lparr>CurrentContext := CurrentContext s - 1\<rparr>))"
proof (cases "isCrash c")
  case True
  then show ?thesis using assms
    by (auto simp: exitLld_def throwIfCrash_def bind_def ret_def raise_signal_recovering Process_Exit_def GetCurrent_def
        HandleExit_def HandleCrash_def fatal_signal_def)
next
  case False
  then have "c \<le> 128" by (simp add: isCrash_def split: if_splits)
  then show ?thesis using assms
    by (auto simp: exitLld_ordinary Process_Exit_def GetCurrent_def HandleExit_def HandleCrash_def fatal_signal_def)
qed

lemma RunSafely_exitLld:
  assumes "gCrashRecoveryEnabled s" and "rc \<le> 128"
  shows "RunSafely (exitLld rc) s = (Done (None, rc), s)"
  using assms
  by (simp add: RunSafely_def exitLld_ordinary Process_Exit_def GetCurrent_def HandleExit_def HandleCrash_def)

lemma RunSafely_disabled:
  "\<not> gCrashRecoveryEnabled s \<Longrightarrow> RunSafely fn s = bind fn (\<lambda>x. ret (Some x, 0)) s"
  by (simp add: RunSafely_def)

lemma exitLld_disabled:
  "\<not> gCrashRecoveryEnabled s \<Longrightarrow> rc \<le> 128 \<Longrightarrow> exitLld rc s = (Exited rc, s)"
  by (simp add: exitLld_ordinary Process_Exit_def GetCurrent_def)

end
