(* ===== verification/PathLib.thy ===== *)
theory PathLib
  imports StrRef
begin

text \<open>
  \<open>llvm::sys::path\<close> (\<open>llvm/lib/Support/Path.cpp\<close>): the lexical path operations the
  drivers use for program names, output names, search paths and PDB paths. Both rule sets
  are modelled; \<open>native\<close> is the one of a POSIX host. A position is a number and
  \<open>npos\<close> is \<open>None\<close>; iterators are records.
\<close>

section \<open>Styles and separators\<close>

datatype Style = native | posix | windows_slash | windows_backslash

definition is_style_posix :: "Style \<Rightarrow> bool" where
  "is_style_posix s \<longleftrightarrow> s = posix \<or> s = native"

definition is_style_windows :: "Style \<Rightarrow> bool" where
  "is_style_windows s \<longleftrightarrow> \<not> is_style_posix s"

definition real_style :: "Style \<Rightarrow> Style" where
  "real_style s = (if s \<noteq> native then s else posix)"

definition separators :: "Style \<Rightarrow> string" where
  "separators s = (if is_style_windows s then [CHR 0x5C, CHR ''/''] else ''/'')"

definition preferred_separator :: "Style \<Rightarrow> char" where
  "preferred_separator s = (if real_style s = windows_backslash then CHR 0x5C else CHR ''/'')"

definition is_separator :: "char \<Rightarrow> Style \<Rightarrow> bool" where
  "is_separator c s \<longleftrightarrow>
     (if c = CHR ''/'' then True else if is_style_windows s then c = CHR 0x5C else False)"

section \<open>Component boundaries\<close>

definition find_first_component :: "string \<Rightarrow> Style \<Rightarrow> string" where
  "find_first_component path style =
     (if path = [] then path
      else if is_style_windows style \<and> length path \<ge> 2 \<and> isAlpha (path ! 0) \<and> path ! 1 = CHR '':''
           then substr path 0 (Some 2)
      else if length path > 2 \<and> is_separator (path ! 0) style \<and> path ! 0 = path ! 1 \<and>
              \<not> is_separator (path ! 2) style
           then substr path 0 (find_first_of path (separators style) 2)
      else if is_separator (path ! 0) style then substr path 0 (Some 1)
      else substr path 0 (find_first_of path (separators style) 0))"

text \<open>
  The backward searches start at \<open>size - 1\<close>; for the empty string that wraps to
  \<open>npos\<close>, which clamps to the empty range as the truncated subtraction does.
\<close>

definition filename_pos :: "string \<Rightarrow> Style \<Rightarrow> nat" where
  "filename_pos str style =
     (if length str > 0 \<and> is_separator (str ! (length str - 1)) style then length str - 1
      else
        let pos0 = find_last_of str (separators style) (Some (length str - 1));
            pos = (if is_style_windows style \<and> pos0 = None
                   then find_last_of str '':'' (Some (length str - 1)) else pos0)
        in case pos of
             None \<Rightarrow> 0
           | Some p \<Rightarrow> (if p = 1 \<and> is_separator (str ! 0) style then 0 else p + 1))"

definition root_dir_start :: "string \<Rightarrow> Style \<Rightarrow> nat option" where
  "root_dir_start str style =
     (if is_style_windows style \<and> length str > 2 \<and> str ! 1 = CHR '':'' \<and> is_separator (str ! 2) style
      then Some 2
      else if length str > 3 \<and> is_separator (str ! 0) style \<and> str ! 0 = str ! 1 \<and>
              \<not> is_separator (str ! 2) style
      then find_first_of str (separators style) 2
      else if length str > 0 \<and> is_separator (str ! 0) style then Some 0
      else None)"

fun parent_skip :: "string \<Rightarrow> Style \<Rightarrow> nat option \<Rightarrow> nat \<Rightarrow> nat" where
  "parent_skip path style root 0 = 0"
| "parent_skip path style root (Suc e) =
     (if (root = None \<or> the root < Suc e) \<and> is_separator (path ! e) style
      then parent_skip path style root e else Suc e)"

definition parent_path_end :: "string \<Rightarrow> Style \<Rightarrow> nat" where
  "parent_path_end path style =
     (let end0 = filename_pos path style;
          filename_was_sep = (length path > 0 \<and> is_separator (path ! end0) style);
          root = root_dir_start path style;
          end_pos = parent_skip path style root end0
      in if root = Some end_pos \<and> \<not> filename_was_sep then end_pos + 1 else end_pos)"

section \<open>Iterators\<close>

record path_iter =
  it_path :: string
  it_component :: string
  it_position :: nat
  it_style :: Style

definition path_begin :: "string \<Rightarrow> Style \<Rightarrow> path_iter" where
  "path_begin path style =
     \<lparr>it_path = path, it_component = find_first_component path style, it_position = 0,
      it_style = style\<rparr>"

definition path_at_end :: "path_iter \<Rightarrow> bool" where
  "path_at_end i \<longleftrightarrow> it_position i = length (it_path i)"

function skip_separators :: "string \<Rightarrow> Style \<Rightarrow> nat \<Rightarrow> nat" where
  "skip_separators path style pos =
     (if pos < length path \<and> is_separator (path ! pos) style
      then skip_separators path style (Suc pos) else pos)"
  by pat_completeness auto
termination
  by (relation "measure (\<lambda>(path, style, pos). length path - pos)") auto

declare skip_separators.simps [simp del]

definition path_next :: "path_iter \<Rightarrow> path_iter" where
  "path_next i =
     (let path = it_path i; comp = it_component i; st = it_style i;
          pos = it_position i + length comp
      in if pos = length path then i\<lparr>it_position := pos, it_component := []\<rparr>
         else
           let was_net = (length comp > 2 \<and> is_separator (comp ! 0) st \<and> comp ! 1 = comp ! 0 \<and>
                          \<not> is_separator (comp ! 2) st)
           in if is_separator (path ! pos) st \<and> (was_net \<or> is_style_windows st \<and> ends_with comp '':'')
              then i\<lparr>it_position := pos, it_component := substr path pos (Some 1)\<rparr>
              else
                let pos' = skip_separators path st pos
                in if is_separator (path ! pos) st \<and> pos' = length path \<and> comp \<noteq> ''/''
                   then i\<lparr>it_position := pos' - 1, it_component := ''.''\<rparr>
                   else i\<lparr>it_position := pos',
                          it_component := slice path pos' (find_first_of path (separators st) pos')\<rparr>)"

text \<open>Walking backwards stops in front of the root directory.\<close>

fun reverse_skip :: "string \<Rightarrow> Style \<Rightarrow> nat option \<Rightarrow> nat \<Rightarrow> nat" where
  "reverse_skip path style root 0 = 0"
| "reverse_skip path style root (Suc e) =
     (if root \<noteq> Some e \<and> is_separator (path ! e) style
      then reverse_skip path style root e else Suc e)"

definition path_prev :: "path_iter \<Rightarrow> path_iter" where
  "path_prev i =
     (let path = it_path i; st = it_style i; root = root_dir_start path st;
          end_pos = reverse_skip path st root (it_position i)
      in if it_position i = length path \<and> path \<noteq> [] \<and> is_separator (last path) st \<and>
            (case root of None \<Rightarrow> True | Some r \<Rightarrow> end_pos = 0 \<or> end_pos - 1 > r)
         then i\<lparr>it_position := it_position i - 1, it_component := ''.''\<rparr>
         else
           let start_pos = filename_pos (substr path 0 (Some end_pos)) st
           in i\<lparr>it_component := slice path start_pos (Some end_pos), it_position := start_pos\<rparr>)"

definition path_rbegin :: "string \<Rightarrow> Style \<Rightarrow> path_iter" where
  "path_rbegin path style =
     path_prev \<lparr>it_path = path, it_component = [], it_position = length path, it_style = style\<rparr>"

section \<open>Decomposition\<close>

definition has_net :: "string \<Rightarrow> Style \<Rightarrow> bool" where
  "has_net b style \<longleftrightarrow> length b > 2 \<and> is_separator (b ! 0) style \<and> b ! 1 = b ! 0"

definition has_drive :: "string \<Rightarrow> Style \<Rightarrow> bool" where
  "has_drive b style \<longleftrightarrow> is_style_windows style \<and> ends_with b '':''"

definition root_path :: "string \<Rightarrow> Style \<Rightarrow> string" where
  "root_path path style =
     (let it = path_begin path style; b = it_component it
      in if path_at_end it then []
         else if has_net b style \<or> has_drive b style then
           (let pos = path_next it
            in if \<not> path_at_end pos \<and> is_separator (it_component pos ! 0) style
               then substr path 0 (Some (length b + length (it_component pos)))
               else b)
         else if is_separator (b ! 0) style then b
         else [])"

definition root_name :: "string \<Rightarrow> Style \<Rightarrow> string" where
  "root_name path style =
     (let it = path_begin path style; b = it_component it
      in if path_at_end it then []
         else if has_net b style \<or> has_drive b style then b else [])"

definition root_directory :: "string \<Rightarrow> Style \<Rightarrow> string" where
  "root_directory path style =
     (let it = path_begin path style; b = it_component it; pos = path_next it
      in if path_at_end it then []
         else if (has_net b style \<or> has_drive b style) \<and> \<not> path_at_end pos \<and>
                 is_separator (it_component pos ! 0) style then it_component pos
         else if \<not> has_net b style \<and> is_separator (b ! 0) style then b
         else [])"

definition relative_path :: "string \<Rightarrow> Style \<Rightarrow> string" where
  "relative_path path style = substr path (length (root_path path style)) None"

definition filename :: "string \<Rightarrow> Style \<Rightarrow> string" where
  "filename path style = it_component (path_rbegin path style)"

definition parent_path :: "string \<Rightarrow> Style \<Rightarrow> string" where
  "parent_path path style = substr path 0 (Some (parent_path_end path style))"

definition stem :: "string \<Rightarrow> Style \<Rightarrow> string" where
  "stem path style =
     (let fname = filename path style
      in case find_last_of fname ''.'' None of
           None \<Rightarrow> fname
         | Some pos \<Rightarrow>
             (if fname = ''.'' \<or> fname = ''..'' then fname else substr fname 0 (Some pos)))"

definition extension :: "string \<Rightarrow> Style \<Rightarrow> string" where
  "extension path style =
     (let fname = filename path style
      in case find_last_of fname ''.'' None of
           None \<Rightarrow> []
         | Some pos \<Rightarrow> (if fname = ''.'' \<or> fname = ''..'' then [] else substr fname pos None))"

definition has_root_name :: "string \<Rightarrow> Style \<Rightarrow> bool" where
  "has_root_name p style \<longleftrightarrow> root_name p style \<noteq> []"

definition has_root_directory :: "string \<Rightarrow> Style \<Rightarrow> bool" where
  "has_root_directory p style \<longleftrightarrow> root_directory p style \<noteq> []"

definition has_extension :: "string \<Rightarrow> Style \<Rightarrow> bool" where
  "has_extension p style \<longleftrightarrow> extension p style \<noteq> []"

definition is_absolute :: "string \<Rightarrow> Style \<Rightarrow> bool" where
  "is_absolute p style \<longleftrightarrow>
     has_root_directory p style \<and> (is_style_posix style \<or> has_root_name p style)"

definition is_absolute_gnu :: "string \<Rightarrow> Style \<Rightarrow> bool" where
  "is_absolute_gnu p style \<longleftrightarrow>
     (if p \<noteq> [] \<and> is_separator (hd p) style then True
      else if is_style_windows style
           then length p \<ge> 2 \<and> (p ! 0 \<noteq> CHR 0x00 \<and> p ! 1 = CHR '':'')
      else False)"

section \<open>Modification\<close>

definition append1 :: "Style \<Rightarrow> string \<Rightarrow> string \<Rightarrow> string" where
  "append1 style path component =
     (if path \<noteq> [] \<and> is_separator (path ! (length path - 1)) style then
        path @ (case find_first_not_of component (separators style) 0 of
                  None \<Rightarrow> [] | Some loc \<Rightarrow> substr component loc None)
      else
        (let component_has_sep = (component \<noteq> [] \<and> is_separator (component ! 0) style);
             path' = (if \<not> component_has_sep \<and> \<not> (path = [] \<or> has_root_name component style)
                      then path @ [preferred_separator style] else path)
         in path' @ component))"

text \<open>\<open>append\<close> takes up to four components; a trivially empty argument is absent from the list.\<close>

definition path_append :: "string \<Rightarrow> Style \<Rightarrow> string list \<Rightarrow> string" where
  "path_append path style components = foldl (append1 style) path components"

definition remove_filename :: "string \<Rightarrow> Style \<Rightarrow> string" where
  "remove_filename path style = take (parent_path_end path style) path"

definition replace_extension :: "string \<Rightarrow> string \<Rightarrow> Style \<Rightarrow> string" where
  "replace_extension p ext style =
     (let p1 = (case find_last_of p ''.'' None of
                  None \<Rightarrow> p
                | Some pos \<Rightarrow> (if pos \<ge> filename_pos p style then take pos p else p));
          p2 = (if length ext > 0 \<and> ext ! 0 \<noteq> CHR ''.'' then p1 @ ''.'' else p1)
      in p2 @ ext)"

fun prefix_match :: "Style \<Rightarrow> string \<Rightarrow> string \<Rightarrow> bool" where
  "prefix_match style (c # cs) (p # ps) =
     (if is_separator c style \<noteq> is_separator p style then False
      else if \<not> is_separator c style \<and> toLower c \<noteq> toLower p then False
      else prefix_match style cs ps)"
| "prefix_match style _ _ = True"

definition path_starts_with :: "string \<Rightarrow> string \<Rightarrow> Style \<Rightarrow> bool" where
  "path_starts_with path pre style =
     (if is_style_windows style
      then (if length path < length pre then False else prefix_match style path pre)
      else starts_with path pre)"

text \<open>The result and whether the prefix was replaced.\<close>

definition replace_path_prefix :: "string \<Rightarrow> string \<Rightarrow> string \<Rightarrow> Style \<Rightarrow> bool \<times> string" where
  "replace_path_prefix path old new style =
     (if old = [] \<and> new = [] then (False, path)
      else if \<not> path_starts_with path old style then (False, path)
      else if length old = length new then (True, new @ drop (length new) path)
      else (True, new @ substr path (length old) None))"

definition convert_to_slash :: "string \<Rightarrow> Style \<Rightarrow> string" where
  "convert_to_slash path style =
     (if is_style_posix style then path
      else map (\<lambda>c. if c = CHR 0x5C then CHR ''/'' else c) path)"

fun drop_separators :: "Style \<Rightarrow> string \<Rightarrow> string" where
  "drop_separators style [] = []"
| "drop_separators style (c # cs) =
     (if is_separator c style then drop_separators style cs else c # cs)"

lemma length_drop_separators: "length (drop_separators style s) \<le> length s"
  by (induction s) auto

function remove_leading_dotslash :: "string \<Rightarrow> Style \<Rightarrow> string" where
  "remove_leading_dotslash path style =
     (if length path > 2 \<and> path ! 0 = CHR ''.'' \<and> is_separator (path ! 1) style
      then remove_leading_dotslash (drop_separators style (drop 2 path)) style
      else path)"
  by pat_completeness auto
termination
proof (relation "measure (\<lambda>(path, style). length path)", goal_cases)
  case 1
  show ?case by simp
next
  case (2 path style)
  have "length (drop_separators style (drop 2 path)) \<le> length path - 2"
    using length_drop_separators [of style "drop 2 path"] by simp
  moreover from 2 have "2 < length path" by blast
  ultimately have "length (drop_separators style (drop 2 path)) < length path" by linarith
  then show ?case by simp
qed

declare remove_leading_dotslash.simps [simp del]

text \<open>The component loop of \<open>remove_dots\<close>: remaining text, kept components, \<open>needs_change\<close>.\<close>

definition dots_step :: "bool \<Rightarrow> bool \<Rightarrow> string \<Rightarrow> string list \<times> bool \<Rightarrow> string list \<times> bool" where
  "dots_step remove_dot_dot absolute component st =
     (case st of (components, needs_change) \<Rightarrow>
        if component = [] \<or> component = ''.'' then (components, True)
        else if remove_dot_dot \<and> component = ''..'' then
          (if components \<noteq> [] \<and> last components \<noteq> ''..'' then (butlast components, True)
           else if \<not> absolute then (components @ [component], True)
           else (components, True))
        else (components @ [component], needs_change))"

function dots_loop ::
  "Style \<Rightarrow> bool \<Rightarrow> bool \<Rightarrow> string \<Rightarrow> string list \<times> bool \<Rightarrow> string list \<times> bool" where
  "dots_loop style rdd absolute remaining st =
     (if remaining = [] then st
      else
        let next_slash = (case find_first_of remaining (separators style) 0 of
                            None \<Rightarrow> length remaining | Some i \<Rightarrow> i);
            component = take next_slash remaining;
            rest = drop next_slash remaining;
            nc = (if rest \<noteq> [] then hd rest \<noteq> preferred_separator style \<or> tl rest = [] else False)
        in dots_loop style rdd absolute (tl rest)
             (dots_step rdd absolute component (fst st, snd st \<or> nc)))"
  by pat_completeness auto
termination
  by (relation "measure (\<lambda>(style, rdd, absolute, remaining, st). length remaining)")
     (auto simp: diff_Suc_less)

declare dots_loop.simps [simp del]

definition make_preferred :: "string \<Rightarrow> Style \<Rightarrow> string" where
  "make_preferred path style =
     (if is_style_posix style then path
      else map (\<lambda>c. if is_separator c style then preferred_separator style else c) path)"

fun join_sep :: "char \<Rightarrow> string list \<Rightarrow> string" where
  "join_sep c [] = []"
| "join_sep c (x # xs) = x @ concat (map (\<lambda>y. c # y) xs)"

definition remove_dots :: "string \<Rightarrow> bool \<Rightarrow> Style \<Rightarrow> bool \<times> string" where
  "remove_dots the_path remove_dot_dot style0 =
     (let style = real_style style0;
          root = root_path the_path style;
          absolute = (root \<noteq> []);
          remaining = (if absolute then drop (length root) the_path else the_path);
          (components, nc) = dots_loop style remove_dot_dot absolute remaining ([], False);
          buffer = make_preferred root style;
          needs_change = (nc \<or> root \<noteq> buffer)
      in if \<not> needs_change then (False, the_path)
         else (True, buffer @ join_sep (preferred_separator style) components))"

section \<open>Positions\<close>

lemma separator_set: "c \<in> set (separators style) \<longleftrightarrow> is_separator c style"
  by (auto simp: separators_def is_separator_def)

lemma find_down_Some:
  "find_down p s i = Some j \<Longrightarrow> j < i \<and> p (s ! j) \<and> (\<forall>k. j < k \<and> k < i \<longrightarrow> \<not> p (s ! k))"
  by (induction p s i rule: find_down.induct) (auto split: if_splits simp: less_Suc_eq)

lemma find_down_None: "find_down p s i = None \<longleftrightarrow> (\<forall>k<i. \<not> p (s ! k))"
  by (induction p s i rule: find_down.induct) (auto simp: less_Suc_eq)

lemma find_down_bound: "find_down p s i = Some j \<Longrightarrow> j < i"
  by (blast dest: find_down_Some)

text \<open>
  For a path that does not end in a separator, \<open>filename_pos\<close> is the start of a suffix
  free of separators (on POSIX; the \<open>//net\<close> root counts as part of its name).
\<close>

lemma filename_pos_le: "filename_pos str style \<le> length str"
proof -
  have "find_last_of str cs (Some (length str - 1)) = Some p \<Longrightarrow> p + 1 \<le> length str" for cs p
    by (auto simp: find_last_of_def dest!: find_down_bound)
  then show ?thesis
    by (auto simp: filename_pos_def Let_def split: option.splits)
qed

lemma filename_pos_suffix:
  assumes "is_style_posix style" and "str \<noteq> []" and "\<not> is_separator (last str) style"
    and "filename_pos str style \<noteq> 0"
  shows "\<forall>k. filename_pos str style \<le> k \<and> k < length str \<longrightarrow> \<not> is_separator (str ! k) style"
proof -
  have last: "\<not> is_separator (str ! (length str - 1)) style"
    using assms(2,3) by (simp add: last_conv_nth)
  from assms last obtain p where
    p: "find_last_of str (separators style) (Some (length str - 1)) = Some p"
    and pos: "filename_pos str style = p + 1"
    by (auto simp: filename_pos_def Let_def is_style_windows_def split: option.splits if_splits)
  have "\<not> is_separator (str ! k) style" if "p < k" "k < length str" for k
  proof (cases "k = length str - 1")
    case True
    with last show ?thesis by simp
  next
    case False
    with that have "k < length str - 1" by simp
    with p that(1) show ?thesis
      by (auto simp: find_last_of_def separator_set dest!: find_down_Some)
  qed
  with pos show ?thesis by auto
qed

text \<open>
  the name of a file is its stem followed by its extension, for every path and both
  rule sets, the special names \<open>.\<close> and \<open>..\<close> included.
\<close>

theorem stem_extension: "stem path style @ extension path style = filename path style"
proof -
  have "find_last_of s cs None = Some pos \<Longrightarrow> pos < length s" for s cs pos
    by (auto simp: find_last_of_def dest: find_down_bound)
  then show ?thesis
    by (auto simp: stem_def extension_def Let_def substr_def split: option.splits)
qed

section \<open>Appending a component\<close>

lemma posix_separator: "is_style_posix style \<Longrightarrow> is_separator c style \<longleftrightarrow> c = CHR ''/''"
  by (auto simp: is_separator_def is_style_windows_def)

lemma reverse_skip_nosep:
  "0 < e \<Longrightarrow> \<not> is_separator (path ! (e - 1)) style \<Longrightarrow> reverse_skip path style root e = e"
  by (cases e) auto

lemma filename_nosep_end:
  assumes "path \<noteq> []" and "\<not> is_separator (last path) style"
  shows "filename path style = drop (filename_pos path style) path"
proof -
  have "reverse_skip path style (root_dir_start path style) (length path) = length path"
    using assms by (intro reverse_skip_nosep) (auto simp: last_conv_nth)
  then show ?thesis
    using assms filename_pos_le [of path style]
    by (simp add: filename_def path_rbegin_def path_prev_def Let_def substr_def slice_def min_def max_def)
qed

lemma filename_pos_snoc:
  assumes "is_style_posix style" and "is_separator sep style" and "c \<noteq> []"
    and "\<forall>x\<in>set c. \<not> is_separator x style" and "length p \<noteq> 1 \<or> \<not> is_separator (hd p) style"
  shows "filename_pos (p @ sep # c) style = length p + 1"
proof -
  let ?s = "p @ sep # c"
  have last: "\<not> is_separator (?s ! (length ?s - 1)) style"
    using assms(3,4) by (simp add: nth_append nth_Cons')
  have "find_down (\<lambda>x. x \<in> set (separators style)) ?s (length ?s - 1) = Some (length p)"
  proof -
    have "find_down (\<lambda>x. x \<in> set (separators style)) ?s (length p + Suc k) = Some (length p)"
      if "k \<le> length c" for k
      using that assms(2,4) by (induction k) (auto simp: separator_set nth_append)
    from this [of "length c - 1"] assms(3) show ?thesis by simp
  qed
  then have "find_last_of ?s (separators style) (Some (length ?s - 1)) = Some (length p)"
    by (simp add: find_last_of_def)
  moreover have "\<not> (length p = 1 \<and> is_separator (?s ! 0) style)"
    using assms(5) by (cases p) auto
  ultimately show ?thesis
    using last assms(1) by (auto simp: filename_pos_def Let_def is_style_windows_def)
qed

text \<open>
  on POSIX rules, appending a plain component (no separator in it) to a path that does
  not end in a separator makes it the file name of the result: \<open>filename\<close> undoes
  \<open>append\<close>.
\<close>

theorem filename_append:
  assumes "is_style_posix style" and "component \<noteq> []" and "path \<noteq> []"
    and "\<forall>c\<in>set component. \<not> is_separator c style" and "\<not> is_separator (last path) style"
  shows "filename (path_append path style [component]) style = component"
proof -
  have hd: "\<not> is_separator (component ! 0) style" using assms(2,4) by simp
  have "root_name component style = []"
  proof -
    have "find_first_component component style = component"
    proof -
      have "find_from (\<lambda>c. c \<in> set (separators style)) component 0 = None"
        unfolding find_from_eq find_None_iff using assms(4) by (auto simp: separator_set)
      then show ?thesis
        using hd assms(1,2)
        by (simp add: find_first_component_def is_style_windows_def find_first_of_def substr_def)
    qed
    then show ?thesis
      using hd assms(1)
      by (simp add: root_name_def path_begin_def has_net_def has_drive_def is_style_windows_def Let_def)
  qed
  then have app: "path_append path style [component] = path @ preferred_separator style # component"
    using assms(2,3,5) hd
    by (simp add: path_append_def append1_def has_root_name_def last_conv_nth Let_def)
  have sep: "is_separator (preferred_separator style) style"
    using assms(1) by (auto simp: is_separator_def preferred_separator_def real_style_def is_style_posix_def)
  have pos: "filename_pos (path @ preferred_separator style # component) style = length path + 1"
    using assms sep by (intro filename_pos_snoc) (auto simp: length_Suc_conv)
  show ?thesis
    using assms(2,4) unfolding app
    by (subst filename_nosep_end) (auto simp: pos)
qed

section \<open>Removing dots\<close>

definition leading_dotdots :: "string list \<Rightarrow> bool" where
  "leading_dotdots cs \<longleftrightarrow> ''..'' \<notin> set (dropWhile (\<lambda>c. c = ''..'') cs)"

definition normal_components :: "Style \<Rightarrow> bool \<Rightarrow> bool \<Rightarrow> string list \<Rightarrow> bool" where
  "normal_components style rdd absolute cs \<longleftrightarrow>
     (\<forall>c\<in>set cs. c \<noteq> [] \<and> c \<noteq> ''.'' \<and> (\<forall>x\<in>set c. \<not> is_separator x style)) \<and>
     (rdd \<longrightarrow> leading_dotdots cs \<and> (absolute \<longrightarrow> ''..'' \<notin> set cs))"

lemma leading_dotdots_butlast: "leading_dotdots cs \<Longrightarrow> leading_dotdots (butlast cs)"
proof -
  assume "leading_dotdots cs"
  moreover have "set (dropWhile P (butlast cs)) \<subseteq> set (dropWhile P cs)" for P :: "string \<Rightarrow> bool"
    by (induction cs) (auto dest: in_set_butlastD set_dropWhileD)
  ultimately show ?thesis by (auto simp: leading_dotdots_def)
qed

lemma leading_dotdots_snoc_other:
  "leading_dotdots cs \<Longrightarrow> c \<noteq> ''..'' \<Longrightarrow> leading_dotdots (cs @ [c])"
  by (induction cs) (auto simp: leading_dotdots_def)

lemma leading_dotdots_snoc_dotdot:
  "leading_dotdots cs \<Longrightarrow> cs = [] \<or> last cs = ''..'' \<Longrightarrow> leading_dotdots (cs @ [''..''])"
  by (induction cs) (auto simp: leading_dotdots_def dest: set_dropWhileD last_in_set split: if_splits)

lemma normal_butlast:
  "normal_components style rdd absolute cs \<Longrightarrow> normal_components style rdd absolute (butlast cs)"
  unfolding normal_components_def by (meson in_set_butlastD leading_dotdots_butlast)

lemma normal_snoc:
  assumes "normal_components style rdd absolute cs" and "c \<noteq> []" and "c \<noteq> ''.''"
    and "\<forall>x\<in>set c. \<not> is_separator x style"
    and "rdd \<Longrightarrow> c = ''..'' \<Longrightarrow> \<not> absolute \<and> (cs = [] \<or> last cs = ''..'')"
  shows "normal_components style rdd absolute (cs @ [c])"
proof -
  have lead: "leading_dotdots (cs @ [c])" if rdd
  proof (cases "c = ''..''")
    case True
    then show ?thesis
      using that assms(1,5) leading_dotdots_snoc_dotdot [of cs] by (simp add: normal_components_def)
  next
    case False
    then show ?thesis
      using that assms(1) leading_dotdots_snoc_other [of cs c] by (simp add: normal_components_def)
  qed
  have abs: "''..'' \<notin> set (cs @ [c])" if rdd absolute
    using that assms(1,5) by (simp add: normal_components_def) metis
  show ?thesis
    unfolding normal_components_def
  proof (intro conjI impI)
    show "\<forall>d\<in>set (cs @ [c]). d \<noteq> [] \<and> d \<noteq> ''.'' \<and> (\<forall>x\<in>set d. \<not> is_separator x style)"
      using assms(1-4) by (simp add: normal_components_def)
  qed (use lead abs in simp_all)
qed

lemma dots_step_normal:
  assumes "normal_components style rdd absolute (fst st)" and "\<forall>x\<in>set c. \<not> is_separator x style"
  shows "normal_components style rdd absolute (fst (dots_step rdd absolute c st))"
proof -
  obtain cs nc where st: "st = (cs, nc)" by (cases st)
  have snoc: "normal_components style rdd absolute (cs @ [c])"
    if "c \<noteq> []" "c \<noteq> ''.''" "rdd \<Longrightarrow> c = ''..'' \<Longrightarrow> \<not> absolute \<and> (cs = [] \<or> last cs = ''..'')"
    using that assms st by (intro normal_snoc) auto
  consider "c = [] \<or> c = ''.''" | "c \<noteq> []" "c \<noteq> ''.''" "rdd" "c = ''..''" "cs \<noteq> []" "last cs \<noteq> ''..''"
    | "c \<noteq> []" "c \<noteq> ''.''" "rdd" "c = ''..''" "cs = [] \<or> last cs = ''..''" "absolute"
    | "c \<noteq> []" "c \<noteq> ''.''" "rdd" "c = ''..''" "cs = [] \<or> last cs = ''..''" "\<not> absolute"
    | "c \<noteq> []" "c \<noteq> ''.''" "\<not> (rdd \<and> c = ''..'')"
    by metis
  then show ?thesis
  proof cases
    case 4
    then have "normal_components style rdd absolute (cs @ [c])" by (intro snoc) simp_all
    with 4 show ?thesis by (auto simp: st dots_step_def)
  next
    case 5
    then have "normal_components style rdd absolute (cs @ [c])" by (intro snoc) simp_all
    with 5 show ?thesis by (auto simp: st dots_step_def)
  qed (use assms(1) normal_butlast [of style rdd absolute cs] in \<open>auto simp: st dots_step_def\<close>)
qed

lemma take_before_separator:
  assumes "next = (case find_first_of s (separators style) 0 of None \<Rightarrow> length s | Some i \<Rightarrow> i)"
  shows "\<forall>x\<in>set (take next s). \<not> is_separator x style"
proof -
  have "\<not> is_separator (s ! j) style" if "j < next" "j < length s" for j
    using that assms
    by (auto simp: find_first_of_def find_from_eq find_None_iff find_Some_iff separator_set split: option.splits)
  then show ?thesis by (auto simp: in_set_conv_nth)
qed

lemma dots_loop_normal:
  "normal_components style rdd absolute (fst st) \<Longrightarrow>
   normal_components style rdd absolute (fst (dots_loop style rdd absolute remaining st))"
proof (induction style rdd absolute remaining st rule: dots_loop.induct)
  case (1 style rdd absolute remaining st)
  show ?case
  proof (cases "remaining = []")
    case True
    with 1 show ?thesis by (simp add: dots_loop.simps)
  next
    case False
    let ?next = "case find_first_of remaining (separators style) 0 of None \<Rightarrow> length remaining | Some i \<Rightarrow> i"
    have "normal_components style rdd absolute
        (fst (dots_step rdd absolute (take ?next remaining) (fst st, b)))" for b
      using 1 take_before_separator [of ?next remaining style] by (intro dots_step_normal) auto
    with 1 False show ?thesis
      by (subst dots_loop.simps) (simp add: Let_def)
  qed
qed

text \<open>
  What the components of a path say, as a walk from where its root leads: a location is a number of levels up and
  the names down from there; empty components and \<open>.\<close> stay, \<open>..\<close> goes up.
\<close>

fun split_on :: "(char \<Rightarrow> bool) \<Rightarrow> string \<Rightarrow> string list" where
  "split_on p [] = [[]]"
| "split_on p (c # s) = (if p c then [] # split_on p s else (c # hd (split_on p s)) # tl (split_on p s))"



lemma split_on_ne [simp]: "split_on p s \<noteq> []"
  by (induction s) simp_all


definition keep_component :: "bool \<Rightarrow> bool \<Rightarrow> string list \<Rightarrow> string \<Rightarrow> string list" where
  "keep_component rdd absolute cs c = fst (dots_step rdd absolute c (cs, False))"



lemma keep_component_empty [simp]: "keep_component rdd absolute cs [] = cs"
  by (simp add: keep_component_def dots_step_def)








text \<open>A path relative to the current directory of a drive counts as absolute, and its leading \<open>..\<close> is lost.\<close>

lemma drive_relative_dotdot: "remove_dots [CHR ''c'', CHR '':'', CHR ''.'', CHR ''.'', CHR 0x5C, CHR ''a''] True windows_backslash = (True, ''c:a'')"
  by code_simp

end
