(* ===== verification/Dispatcher.thy ===== *)
theory Dispatcher
  imports ErrorHandling PathLib
begin

text \<open>
  \<open>lld/Common/DriverDispatcher.cpp\<close>: choosing a driver from \<open>-flavor\<close> or \<open>argv[0]\<close>
  and running it under crash recovery (\<open>lldMain\<close>). A driver is a computation over
  \<open>proc_state\<close> that returns success; expanding response files reads the file system and
  is the parameter \<open>expand\<close> (\<open>Inl\<close> for an error). \<open>argv[0]\<close> of an empty argument
  vector is outside the vector, which is the error \<open>OutOfBounds\<close> here.
\<close>

section \<open>Flavors\<close>

datatype Flavor = Invalid | Gnu | MinGW | WinLink | Darwin | Wasm

definition getFlavor :: "string \<Rightarrow> Flavor" where
  "getFlavor s =
     (if equals_insensitive s ''ld'' \<or> equals_insensitive s ''ld.lld'' \<or> equals_insensitive s ''gnu''
        then Gnu
      else if equals_insensitive s ''wasm'' \<or> equals_insensitive s ''ld-wasm'' then Wasm
      else if equals_insensitive s ''link'' then WinLink
      else if equals_insensitive s ''ld64'' \<or> equals_insensitive s ''ld64.lld'' \<or>
              equals_insensitive s ''darwin'' then Darwin
      else Invalid)"

definition isPETargetName :: "string \<Rightarrow> bool" where
  "isPETargetName s \<longleftrightarrow>
     s = ''i386pe'' \<or> s = ''i386pep'' \<or> s = ''thumb2pe'' \<or> s = ''arm64pe'' \<or>
     s = ''arm64ecpe'' \<or> s = ''arm64xpe'' \<or> s = ''mipspe''"

text \<open>The two scans for \<open>-m\<close> and its value; the last element is never tested.\<close>

fun scan_m :: "string list \<Rightarrow> bool option" where
  "scan_m (a # b # rest) = (if a \<noteq> ''-m'' then scan_m (b # rest) else Some (isPETargetName b))"
| "scan_m _ = None"

definition isPETarget :: "(string list \<Rightarrow> string + string list) \<Rightarrow> string list \<Rightarrow> bool option" where
  "isPETarget expand args =
     (case scan_m args of
        Some b \<Rightarrow> Some b
      | None \<Rightarrow>
          (case expand args of
             Inl _ \<Rightarrow> None
           | Inr expanded \<Rightarrow>
               (case scan_m expanded of Some b \<Rightarrow> Some b | None \<Rightarrow> Some False)))"

fun first_flavor :: "string list \<Rightarrow> Flavor" where
  "first_flavor [] = Invalid"
| "first_flavor (s # ss) = (if getFlavor s \<noteq> Invalid then getFlavor s else first_flavor ss)"

definition parseProgname :: "string \<Rightarrow> Flavor" where
  "parseProgname progname =
     (if progname = ''ld'' then Gnu
      else case split_str progname ''-'' (- 1) True of
             None \<Rightarrow> Invalid
           | Some v \<Rightarrow> first_flavor v)"

datatype dispatch_error = OutOfBounds

text \<open>The flavor and the argument vector, from which \<open>-flavor x\<close> has been removed.\<close>

definition parseFlavorWithoutMinGW :: "string list \<Rightarrow> dispatch_error + (Flavor \<times> string list)" where
  "parseFlavorWithoutMinGW argsV =
     (if length argsV > 1 \<and> argsV ! 1 = ''-flavor'' then
        (if length argsV \<le> 2 then Inr (Invalid, argsV)
         else let f = getFlavor (argsV ! 2)
              in if f = Invalid then Inr (Invalid, argsV)
                 else Inr (f, take 1 argsV @ drop 3 argsV))
      else case argsV of
             [] \<Rightarrow> Inl OutOfBounds
           | a0 # _ \<Rightarrow>
               (let arg0 = filename a0 native;
                    arg0' = (case consume_back_insensitive arg0 ''.exe'' of None \<Rightarrow> arg0 | Some r \<Rightarrow> r)
                in Inr (parseProgname arg0', argsV)))"

definition parseFlavor ::
  "(string list \<Rightarrow> string + string list) \<Rightarrow> string list \<Rightarrow> dispatch_error + (Flavor \<times> string list)" where
  "parseFlavor expand argsV =
     (case parseFlavorWithoutMinGW argsV of
        Inl err \<Rightarrow> Inl err
      | Inr (f, args) \<Rightarrow>
          (if f = Gnu then
             (case isPETarget expand args of
                None \<Rightarrow> Inr (Invalid, args)
              | Some isPE \<Rightarrow> Inr (if isPE then MinGW else f, args))
           else Inr (f, args)))"

section \<open>Running a driver\<close>

text \<open>A driver takes the arguments, \<open>exitEarly\<close> and \<open>disableOutput\<close>.\<close>

type_synonym Driver = "string list \<Rightarrow> bool \<Rightarrow> bool \<Rightarrow> bool proc"

record DriverDef =
  dd_flavor :: Flavor
  dd_driver :: Driver

definition no_driver :: Driver where
  "no_driver args early disable = ret False"

definition whichDriver ::
  "(string list \<Rightarrow> string + string list) \<Rightarrow> string list \<Rightarrow> DriverDef list \<Rightarrow>
   dispatch_error + (Driver \<times> string list)" where
  "whichDriver expand argsV drivers =
     (case parseFlavor expand argsV of
        Inl err \<Rightarrow> Inl err
      | Inr (f, args) \<Rightarrow>
          (case List.find (\<lambda>d. dd_flavor d = f) drivers of
             None \<Rightarrow> Inr (no_driver, args)
           | Some d \<Rightarrow> Inr (dd_driver d, args)))"

record lld_result =
  retCode :: int
  canRunAgain :: bool

text \<open>
  The environment of a run: response-file expansion and the destructor of the linker
  context. Reading outside the argument vector has no defined result; it is kept as a
  value so that the callers' preconditions are visible.
\<close>

record lld_env =
  expandResponseFiles :: "string list \<Rightarrow> string + string list"
  contextDtor :: "unit proc"

definition unsafeLldMain ::
  "lld_env \<Rightarrow> string list \<Rightarrow> DriverDef list \<Rightarrow> bool \<Rightarrow> (dispatch_error + int) proc" where
  "unsafeLldMain env args drivers early =
     (case whichDriver (expandResponseFiles env) args drivers of
        Inl err \<Rightarrow> ret (Inl err)
      | Inr (d, argsV) \<Rightarrow>
          bind (d argsV early False)
            (\<lambda>ok. let r = (if ok then 0 else 1)
                  in if early then exitLld r
                     else bind (destroy_context (contextDtor env)) (\<lambda>_. ret (Inr r))))"

definition lldMain ::
  "lld_env \<Rightarrow> string list \<Rightarrow> DriverDef list \<Rightarrow> (dispatch_error + lld_result) proc" where
  "lldMain env args drivers =
     bind (RunSafely (unsafeLldMain env args drivers False))
       (\<lambda>(res, rc).
          case res of
            None \<Rightarrow> ret (Inr \<lparr>retCode = rc, canRunAgain = False\<rparr>)
          | Some (Inl err) \<Rightarrow> ret (Inl err)
          | Some (Inr r) \<Rightarrow>
              bind (RunSafely (destroy_context (contextDtor env)))
                (\<lambda>(done2, _). ret (Inr \<lparr>retCode = r, canRunAgain = (done2 \<noteq> None)\<rparr>)))"

section \<open>The COFF entry point\<close>

text \<open>
  \<open>lld::coff::link\<close>: a new context with an initialised error handler, \<open>linkerMain\<close>, and
  success when no error was counted. \<open>linkerMain\<close> is the parameter \<open>lm\<close>: it maps the
  arguments and the handler to the handler it leaves behind and to the way it ends; a signal
  that lets the process go on has the rest of the run after it.
\<close>

datatype link_end = LinkReturned | LinkExit int | LinkThrew | LinkSignal int link_end

type_synonym linker_main = "string list \<Rightarrow> error_handler \<Rightarrow> error_handler \<times> link_end"

definition getFilenameWithoutExe :: "string \<Rightarrow> string" where
  "getFilenameWithoutExe path =
     (if ends_with_insensitive path ''.exe'' then stem path native else filename path native)"

definition coff_handler :: "string list \<Rightarrow> bool \<Rightarrow> bool \<Rightarrow> error_handler" where
  "coff_handler args early disable =
     (eh_initialize early disable new_error_handler)
       \<lparr>logName := getFilenameWithoutExe (args ! 0),
        errorLimitExceededMsg := ''too many errors emitted, stopping now'' @
          '' (use /errorlimit:0 to see all errors)''\<rparr>"

definition handler_writes :: "error_handler \<Rightarrow> (stream \<times> string) list" where
  "handler_writes e = map (Pair StdoutOS) (stdoutOS e) @ map (Pair StderrOS) (stderrOS e)"

fun finish_link :: "link_end \<Rightarrow> error_handler \<Rightarrow> bool proc" where
  "finish_link LinkReturned e = ret (errorCount e = 0)"
| "finish_link (LinkExit c) e = exitLld c"
| "finish_link LinkThrew e = (\<lambda>s. (Threw, s))"
| "finish_link (LinkSignal sig rest) e = bind (raise_signal sig) (\<lambda>_. finish_link rest e)"

definition coff_link :: "linker_main \<Rightarrow> Driver" where
  "coff_link lm args early disable s =
     (let (e, how) = lm args (coff_handler args early disable)
      in finish_link how e (s\<lparr>lctx := True, writes := writes s @ handler_writes e\<rparr>))"

section \<open>Drivers behave under crash recovery\<close>

text \<open>
  What \<open>lldMain\<close> relies on: a driver leaves the recovery switch alone, balances the
  context stack when it returns, and reaches \<open>exitLld\<close> or a signal handler instead of
  leaving the process when recovery is on.
\<close>

locale recoverable_driver =
  fixes drv :: "string list \<Rightarrow> bool \<Rightarrow> bool \<Rightarrow> bool proc"
  assumes keeps_enabled: "gCrashRecoveryEnabled s \<Longrightarrow> CurrentContext s \<noteq> 0 \<Longrightarrow>
      gCrashRecoveryEnabled (snd (drv args early disable s))"
    and recovers: "gCrashRecoveryEnabled s \<Longrightarrow> CurrentContext s \<noteq> 0 \<Longrightarrow>
      \<not> (\<exists>c. fst (drv args early disable s) = Exited c)"
begin

text \<open>
  Under recovery a driver that neither throws nor is killed makes \<open>lldMain\<close> return; the
  linker context is gone when the second clean-up starts, so that one never runs a
  destructor and a completed run can always be repeated.
\<close>

lemma lldMain_of_driver:
  assumes "gCrashRecoveryEnabled s"
    and which: "whichDriver (expandResponseFiles env) args drivers = Inr (drv, argsV)"
    and dtor: "contextDtor env = ret ()"
    and how: "fst (drv argsV False False (s\<lparr>CurrentContext := CurrentContext s + 1\<rparr>)) = res"
  shows "fst (lldMain env args drivers s) =
    (case res of
       Done ok \<Rightarrow> Done (Inr \<lparr>retCode = (if ok then 0 else 1), canRunAgain = True\<rparr>)
     | Unwind c \<Rightarrow> Done (Inr \<lparr>retCode = c, canRunAgain = False\<rparr>)
     | Threw \<Rightarrow> Threw
     | Killed c \<Rightarrow> Killed c
     | Exited c \<Rightarrow> Done (Inr \<lparr>retCode = c, canRunAgain = False\<rparr>))"
proof -
  let ?s1 = "s\<lparr>CurrentContext := CurrentContext s + 1\<rparr>"
  obtain s2 where run: "drv argsV False False ?s1 = (res, s2)"
    using how by (metis prod.collapse)
  have on: "gCrashRecoveryEnabled s2"
    using keeps_enabled [of ?s1 argsV False False] assms(1) run by simp
  have noexit: "\<not> (\<exists>c. res = Exited c)"
    using recovers [of ?s1 argsV False False] assms(1) run by simp
  show ?thesis
    using assms(1) run on noexit
    by (cases res) (auto simp: lldMain_def RunSafely_def unsafeLldMain_def which bind_def ret_def
        destroy_context_def dtor Let_def)
qed

end

interpretation no_driver: recoverable_driver no_driver
  by unfold_locales (simp_all add: no_driver_def ret_def)

lemma finish_link_recovering:
  assumes "gCrashRecoveryEnabled s" and "CurrentContext s \<noteq> 0"
  shows "gCrashRecoveryEnabled (snd (finish_link how e s)) \<and> fst (finish_link how e s) \<noteq> Exited c"
  using assms by (induction how) (auto simp: ret_def exitLld_recovering bind_def raise_signal_recovering)

interpretation coff_driver: recoverable_driver "coff_link lm" for lm
proof
  fix s :: proc_state and args early disable
  assume "gCrashRecoveryEnabled s" and "CurrentContext s \<noteq> 0"
  then show "gCrashRecoveryEnabled (snd (coff_link lm args early disable s))"
    and "\<not> (\<exists>c. fst (coff_link lm args early disable s) = Exited c)"
    by (auto simp: coff_link_def finish_link_recovering split: prod.splits)
qed

text \<open>How a run ends once the signals that neither recover nor kill have been taken.\<close>

fun effective_end :: "proc_state \<Rightarrow> link_end \<Rightarrow> link_end" where
  "effective_end s (LinkSignal sig rest) =
     (if sig \<in> set Signals \<or> fatal_signal s sig then LinkSignal sig rest else effective_end s rest)"
| "effective_end s how = how"

lemma fatal_signal_host: "hostActions s' = hostActions s \<Longrightarrow> fatal_signal s' sig = fatal_signal s sig"
  by (simp add: fatal_signal_def)

lemma effective_end_host: "hostActions s' = hostActions s \<Longrightarrow> effective_end s' how = effective_end s how"
  by (induction how) (simp_all add: fatal_signal_def)

lemma finish_link_end:
  assumes "gCrashRecoveryEnabled s" and "CurrentContext s \<noteq> 0"
  shows "fst (finish_link how e s) =
    (case effective_end s how of
       LinkReturned \<Rightarrow> Done (errorCount e = 0)
     | LinkExit c \<Rightarrow> if fatal_signal s (c - 128) then Killed (c - 128) else Unwind c
     | LinkThrew \<Rightarrow> Threw
     | LinkSignal sig rest \<Rightarrow> if sig \<in> set Signals then Unwind (128 + sig) else Killed sig)"
  using assms by (induction how) (simp_all add: ret_def exitLld_recovering bind_def raise_signal_recovering)

text \<open>
  C24: with crash recovery enabled, \<open>lldMain\<close> over the COFF driver ends as follows, where signals that the process ignores
  do not count. When \<open>linkerMain\<close> returns, the result is 0 or 1 by the error count and "can run again"; when it leaves
  through \<open>exitLld\<close>, the exit code, and after one of the six signals of \<open>Signals\<close> 128 plus the signal, both with "cannot run
  again". There is no result in the remaining cases: a C++ exception leaves \<open>lldMain\<close>, and any other deadly signal, also
  one raised again from an exit code above 128, kills the process.
\<close>

theorem lldMain_coff_recovers:
  assumes "gCrashRecoveryEnabled s" and "contextDtor env = ret ()"
    and "whichDriver (expandResponseFiles env) args drivers = Inr (coff_link lm, argsV)"
    and "lm argsV (coff_handler argsV False False) = (e, how)"
  shows "fst (lldMain env args drivers s) =
    (case effective_end s how of
       LinkReturned \<Rightarrow> Done (Inr \<lparr>retCode = (if errorCount e = 0 then 0 else 1), canRunAgain = True\<rparr>)
     | LinkExit c \<Rightarrow> if fatal_signal s (c - 128) then Killed (c - 128) else Done (Inr \<lparr>retCode = c, canRunAgain = False\<rparr>)
     | LinkThrew \<Rightarrow> Threw
     | LinkSignal sig rest \<Rightarrow>
         if sig \<in> {4, 5, 6, 7, 8, 11} then Done (Inr \<lparr>retCode = 128 + sig, canRunAgain = False\<rparr>) else Killed sig)"
proof -
  define s1 where "s1 = s\<lparr>CurrentContext := CurrentContext s + 1, lctx := True, writes := writes s @ handler_writes e\<rparr>"
  have s1: "hostActions s1 = hostActions s" "gCrashRecoveryEnabled s1" "CurrentContext s1 \<noteq> 0" using assms(1) by (simp_all add: s1_def)
  have "fst (coff_link lm argsV False False (s\<lparr>CurrentContext := CurrentContext s + 1\<rparr>)) =
    (case effective_end s how of
       LinkReturned \<Rightarrow> Done (errorCount e = 0)
     | LinkExit c \<Rightarrow> if fatal_signal s (c - 128) then Killed (c - 128) else Unwind c
     | LinkThrew \<Rightarrow> Threw
     | LinkSignal sig rest \<Rightarrow> if sig \<in> set Signals then Unwind (128 + sig) else Killed sig)"
    using finish_link_end [OF s1(2,3), of how e] assms(4)
    unfolding effective_end_host [OF s1(1)] fatal_signal_host [OF s1(1)] by (simp add: coff_link_def s1_def)
  note ends = coff_driver.lldMain_of_driver [OF assms(1,3,2) this]
  have "sig \<in> set Signals \<longleftrightarrow> sig \<in> {4, 5, 6, 7, 8, 11}" for sig
    by (auto simp: Signals_def SIGABRT_def SIGBUS_def SIGFPE_def SIGILL_def SIGSEGV_def SIGTRAP_def)
  then show ?thesis unfolding ends by (cases "effective_end s how") simp_all
qed

definition sample_env :: lld_env where
  "sample_env = \<lparr>expandResponseFiles = Inr, contextDtor = ret ()\<rparr>"

definition sample_state :: "bool \<Rightarrow> proc_state" where
  "sample_state enabled =
     \<lparr>gCrashRecoveryEnabled = enabled, CurrentContext = 0, hostActions = (\<lambda>_. SIG_DFL), lctx = False, writes = []\<rparr>"

definition fatal_main :: linker_main where
  "fatal_main args e = (snd (eh_fatal ''could not open a.obj'' e), LinkExit 1)"

lemma whichDriver_lld_link:
  "whichDriver Inr [''lld-link'', ''a.obj''] [\<lparr>dd_flavor = WinLink, dd_driver = d\<rparr>] =
     Inr (d, [''lld-link'', ''a.obj''])"
proof -
  have "parseFlavor Inr [''lld-link'', ''a.obj''] = Inr (WinLink, [''lld-link'', ''a.obj''])"
    by code_simp
  then show ?thesis by (simp add: whichDriver_def)
qed

theorem lldMain_coff_recovers_witness:
  "fst (lldMain sample_env [''lld-link'', ''a.obj'']
      [\<lparr>dd_flavor = WinLink, dd_driver = coff_link fatal_main\<rparr>] (sample_state True)) =
    Done (Inr \<lparr>retCode = 1, canRunAgain = False\<rparr>)"
proof -
  have "gCrashRecoveryEnabled (sample_state True)" and "contextDtor sample_env = ret ()"
    and "whichDriver (expandResponseFiles sample_env) [''lld-link'', ''a.obj'']
        [\<lparr>dd_flavor = WinLink, dd_driver = coff_link fatal_main\<rparr>] =
      Inr (coff_link fatal_main, [''lld-link'', ''a.obj''])"
    and "fatal_main [''lld-link'', ''a.obj''] (coff_handler [''lld-link'', ''a.obj''] False False) =
      (snd (eh_fatal ''could not open a.obj'' (coff_handler [''lld-link'', ''a.obj''] False False)), LinkExit 1)"
    by (simp_all add: sample_state_def sample_env_def whichDriver_lld_link fatal_main_def)
  from lldMain_coff_recovers [OF this] show ?thesis by (simp add: fatal_signal_def)
qed

text \<open>
  C30: nothing in the repository calls \<open>CrashRecoveryContext::Enable\<close>. In that state a
  fatal error (\<open>exitLld\<close> with an ordinary code) inside the driver ends the whole process:
  \<open>lldMain\<close> does not return to its caller, and in particular never reports
  \<open>canRunAgain = false\<close>.
\<close>

theorem lldMain_fatal_exits_process:
  assumes "\<not> gCrashRecoveryEnabled s"
    and "whichDriver (expandResponseFiles env) args drivers = Inr (coff_link lm, argsV)"
    and "lm argsV (coff_handler argsV False False) = (e, LinkExit c)" and "c \<le> 128"
  shows "fst (lldMain env args drivers s) = Exited c"
  using assms
  by (simp add: lldMain_def RunSafely_disabled unsafeLldMain_def bind_def ret_def coff_link_def
      Let_def exitLld_disabled)

theorem lldMain_fatal_exits_process_witness:
  "fst (lldMain sample_env [''lld-link'', ''a.obj'']
      [\<lparr>dd_flavor = WinLink, dd_driver = coff_link fatal_main\<rparr>] (sample_state False)) = Exited 1"
  by (rule lldMain_fatal_exits_process [where argsV = "[''lld-link'', ''a.obj'']" and lm = fatal_main])
    (simp_all add: sample_state_def sample_env_def whichDriver_lld_link fatal_main_def)

text \<open>
  An empty argument vector makes the dispatcher read \<open>argv[0]\<close> outside the vector,
  whatever the drivers are and whether or not recovery is enabled.
\<close>

theorem lldMain_empty_args: "fst (lldMain env [] drivers s) = Done (Inl OutOfBounds)"
  by (simp add: lldMain_def RunSafely_def unsafeLldMain_def whichDriver_def parseFlavor_def
      parseFlavorWithoutMinGW_def bind_def ret_def)

text \<open>
  the dispatcher selects the MinGW driver exactly for the GNU flavor with a PE target
  named by the first \<open>-m\<close> of the (expanded) command line.
\<close>

theorem parseFlavor_mingw_iff:
  "parseFlavor expand args = Inr (MinGW, args') \<longleftrightarrow>
   parseFlavorWithoutMinGW args = Inr (Gnu, args') \<and> isPETarget expand args' = Some True"
proof -
  have getFlavor: "getFlavor s \<noteq> MinGW" for s by (simp add: getFlavor_def)
  have first: "first_flavor ss \<noteq> MinGW" for ss by (induction ss) (auto simp: getFlavor)
  have "parseProgname s \<noteq> MinGW" for s
    by (simp add: parseProgname_def first split: option.split)
  then have "parseFlavorWithoutMinGW args \<noteq> Inr (MinGW, as)" for as
    using getFlavor by (auto simp: parseFlavorWithoutMinGW_def Let_def split: list.splits)
  then show ?thesis
    by (auto simp: parseFlavor_def split: sum.splits option.splits)
qed

end
