(* ===== verification/Abi.thy ===== *)
theory Abi
  imports Utf8 Dispatcher
begin

text \<open>
  The C interface, \<open>include/llvm_ld.h\<close> and \<open>src/llvm_ld.cpp\<close>: request validation, the
  allocator and profiler entry points, the single-run lock and the poison flag, first as a
  sequential function and then as a step relation for any number of threads.

  A pointer to caller memory is a function from offsets to bytes, a null pointer
  \<open>None\<close>. The mimalloc entry points, the standard allocator and the link itself are
  parameters of the environment. The model is the build with \<open>LLVM_LD_USE_MIMALLOC\<close>;
  \<open>MI_PPROF\<close> is a flag of the environment.
\<close>

section \<open>Constants and structures\<close>

definition LLVM_LD_ABI_VERSION :: u32 where "LLVM_LD_ABI_VERSION = 1"
definition LLVM_LD_DRIVER_WINLINK :: u32 where "LLVM_LD_DRIVER_WINLINK = 1"
definition LLVM_LD_DRIVER_MINGW :: u32 where "LLVM_LD_DRIVER_MINGW = 2"
definition LLVM_LD_PROFILER_SAMPLED :: u32 where "LLVM_LD_PROFILER_SAMPLED = 1"
definition LLVM_LD_PROFILER_DHAT :: u32 where "LLVM_LD_PROFILER_DHAT = 2"

datatype status = OK | E_INVALID | E_BUSY | E_POISONED | E_EXCEPTION | E_UNSUPPORTED

definition status_code :: "status \<Rightarrow> int" where
  "status_code s =
     (case s of OK \<Rightarrow> 0 | E_INVALID \<Rightarrow> -1 | E_BUSY \<Rightarrow> -2 | E_POISONED \<Rightarrow> -3
      | E_EXCEPTION \<Rightarrow> -4 | E_UNSUPPORTED \<Rightarrow> -5)"

record llvm_ld_request =
  rq_struct_size :: u32
  rq_abi_version :: u32
  rq_driver :: u32
  rq_argc :: u32
  rq_argv :: "(nat \<Rightarrow> (nat \<Rightarrow> byte) option) option"
  rq_argv_lengths :: "(nat \<Rightarrow> nat) option"
  rq_stdout_write :: bool
  rq_stderr_write :: bool

record llvm_ld_result =
  rs_struct_size :: u32
  rs_return_code :: int
  rs_can_run_again :: byte

record llvm_ld_allocator_info =
  ai_struct_size :: u32
  ai_mimalloc_version :: u32
  ai_uses_mimalloc :: byte
  ai_sampled_profiler_compiled :: byte
  ai_sampled_profiler_active :: byte
  ai_dhat_active :: byte
  ai_crt_redirected :: byte
  ai_state_cookie :: u64

definition sizeof_request :: u32 where "sizeof_request = 56"
definition sizeof_result :: u32 where "sizeof_result = 12"
definition sizeof_allocator_info :: u32 where "sizeof_allocator_info = 32"

section \<open>State and environment\<close>

record abi_state =
  invoking :: bool
  poisoned :: bool
  process :: proc_state
  callbacks :: "(stream \<times> string) list"

record abi_env =
  ab_lld :: lld_env
  ab_coff :: Driver
  ab_mingw :: Driver
  ab_alloc :: "nat \<Rightarrow> bool"
  ab_mi_pprof :: bool
  ab_mi_version :: u32
  ab_mi_prof_enabled :: bool
  ab_mi_dhat_enabled :: bool
  ab_mi_prof_start :: bool
  ab_mi_dhat_start :: bool
  ab_mi_cookie :: u64
  ab_probe_in_heap :: bool

definition llvm_ld_abi_version :: u32 where
  "llvm_ld_abi_version = LLVM_LD_ABI_VERSION"

section \<open>Allocator and profiler entry points\<close>

definition llvm_ld_allocator_get_info ::
  "abi_env \<Rightarrow> llvm_ld_allocator_info option \<Rightarrow> status \<times> llvm_ld_allocator_info option" where
  "llvm_ld_allocator_get_info env info =
     (case info of
        None \<Rightarrow> (E_INVALID, None)
      | Some i \<Rightarrow>
          if ai_struct_size i < sizeof_allocator_info then (E_INVALID, Some i)
          else (OK, Some
            \<lparr>ai_struct_size = ai_struct_size i, ai_mimalloc_version = ab_mi_version env,
             ai_uses_mimalloc = 1,
             ai_sampled_profiler_compiled = (if ab_mi_pprof env then 1 else 0),
             ai_sampled_profiler_active = (if ab_mi_prof_enabled env then 1 else 0),
             ai_dhat_active = (if ab_mi_dhat_enabled env then 1 else 0),
             ai_crt_redirected = (if ab_probe_in_heap env then 1 else 0),
             ai_state_cookie = ab_mi_cookie env\<rparr>))"

definition profiler_start_body :: "abi_env \<Rightarrow> u32 \<Rightarrow> status" where
  "profiler_start_body env profiler =
     (if profiler = LLVM_LD_PROFILER_DHAT then (if ab_mi_dhat_start env then OK else E_EXCEPTION)
      else if profiler = LLVM_LD_PROFILER_SAMPLED then
        (if ab_mi_pprof env then (if ab_mi_prof_start env then OK else E_EXCEPTION) else E_UNSUPPORTED)
      else E_INVALID)"

definition profiler_stop_body :: "abi_env \<Rightarrow> u32 \<Rightarrow> status" where
  "profiler_stop_body env profiler =
     (if profiler = LLVM_LD_PROFILER_DHAT then OK
      else if profiler = LLVM_LD_PROFILER_SAMPLED then (if ab_mi_pprof env then OK else E_UNSUPPORTED)
      else E_INVALID)"

text \<open>\<open>test_and_set\<close>, the body, and \<open>Unlock\<close> on every path out of the scope.\<close>

definition with_lock :: "(abi_state \<Rightarrow> status \<times> abi_state) \<Rightarrow> abi_state \<Rightarrow> status \<times> abi_state" where
  "with_lock body st =
     (if invoking st then (E_BUSY, st)
      else let (r, st') = body (st\<lparr>invoking := True\<rparr>) in (r, st'\<lparr>invoking := False\<rparr>))"

definition llvm_ld_profiler_start :: "abi_env \<Rightarrow> u32 \<Rightarrow> abi_state \<Rightarrow> status \<times> abi_state" where
  "llvm_ld_profiler_start env profiler = with_lock (\<lambda>st. (profiler_start_body env profiler, st))"

definition llvm_ld_profiler_stop :: "abi_env \<Rightarrow> u32 \<Rightarrow> abi_state \<Rightarrow> status \<times> abi_state" where
  "llvm_ld_profiler_stop env profiler = with_lock (\<lambda>st. (profiler_stop_body env profiler, st))"

section \<open>Invoking the linker\<close>

text \<open>The pointer checks at the top of \<open>llvm_ld_invoke\<close>.\<close>

definition request_ok :: "llvm_ld_request option \<Rightarrow> llvm_ld_result option \<Rightarrow> bool" where
  "request_ok req out \<longleftrightarrow>
     (case (req, out) of
        (Some r, Some o') \<Rightarrow>
          \<not> (rq_struct_size r < sizeof_request \<or> rs_struct_size o' < sizeof_result \<or>
             rq_abi_version r \<noteq> LLVM_LD_ABI_VERSION \<or>
             (rq_argc r \<noteq> 0 \<and> (rq_argv r = None \<or> rq_argv_lengths r = None)))
      | _ \<Rightarrow> False)"

definition arg_bytes :: "(nat \<Rightarrow> byte) \<Rightarrow> nat \<Rightarrow> buffer" where
  "arg_bytes p n = map p [0..<n]"

definition bytes_to_string :: "buffer \<Rightarrow> string" where
  "bytes_to_string bs = map (\<lambda>b. char_of (unat b)) bs"

definition arg_invalid :: "llvm_ld_request \<Rightarrow> nat \<Rightarrow> bool" where
  "arg_invalid r i =
     (let p = the (rq_argv r) i; n = the (rq_argv_lengths r) i
      in (p = None \<and> n \<noteq> 0) \<or> (p \<noteq> None \<and> \<not> valid_utf8 (arg_bytes (the p) n)))"

definition arg_string :: "llvm_ld_request \<Rightarrow> nat \<Rightarrow> string" where
  "arg_string r i =
     (let n = the (rq_argv_lengths r) i
      in if n = 0 then [] else bytes_to_string (arg_bytes (the (the (rq_argv r) i)) n))"

datatype copy_result = Copied "string list" | CopyInvalid | CopyThrew

text \<open>
  The copying loop from index \<open>i\<close> on. Allocation \<open>k\<close> succeeds when \<open>ab_alloc env k\<close>;
  a failed one throws \<open>std::bad_alloc\<close>. Numbers 0 and 1 are the two \<open>reserve\<close> calls.
\<close>

fun copy_args :: "abi_env \<Rightarrow> llvm_ld_request \<Rightarrow> nat list \<Rightarrow> string list \<Rightarrow> copy_result" where
  "copy_args env r [] owned = Copied owned"
| "copy_args env r (i # is) owned =
     (if arg_invalid r i then CopyInvalid
      else if \<not> ab_alloc env (i + 2) then CopyThrew
      else copy_args env r is (owned @ [arg_string r i]))"

text \<open>\<open>CallbackStream::write_impl\<close>: empty writes and null callbacks are dropped.\<close>

definition forwarded :: "llvm_ld_request \<Rightarrow> (stream \<times> string) list \<Rightarrow> (stream \<times> string) list" where
  "forwarded r ws =
     filter (\<lambda>(str, txt). txt \<noteq> [] \<and>
       (case str of StdoutOS \<Rightarrow> rq_stdout_write r | StderrOS \<Rightarrow> rq_stderr_write r)) ws"

text \<open>
  How a call ends: with a status, or, past the reach of the code, by undefined behaviour
  in the dispatcher, by leaving the process, or by a jump over the call's frames.
\<close>

datatype invoke_end = IReturned status | IUndefined | IExited int | IKilled int | IJumped int

definition driver_def :: "abi_env \<Rightarrow> u32 \<Rightarrow> DriverDef option" where
  "driver_def env d =
     (if d = LLVM_LD_DRIVER_WINLINK then Some \<lparr>dd_flavor = WinLink, dd_driver = ab_coff env\<rparr>
      else if d = LLVM_LD_DRIVER_MINGW then Some \<lparr>dd_flavor = MinGW, dd_driver = ab_mingw env\<rparr>
      else None)"

text \<open>The call of \<open>lldMain\<close> and what follows it, with the lock held.\<close>

definition run_lld ::
  "abi_env \<Rightarrow> llvm_ld_request \<Rightarrow> llvm_ld_result \<Rightarrow> DriverDef \<Rightarrow> string list \<Rightarrow> abi_state \<Rightarrow>
   invoke_end \<times> llvm_ld_result \<times> abi_state" where
  "run_lld env r out d args st =
     (case lldMain (ab_lld env) args [d] ((process st)\<lparr>writes := []\<rparr>) of
        (res, p) \<Rightarrow>
          let st' = st\<lparr>process := p, callbacks := callbacks st @ forwarded r (writes p)\<rparr>
          in case res of
               Done (Inl _) \<Rightarrow> (IUndefined, out, st')
             | Done (Inr result) \<Rightarrow>
                 (IReturned OK,
                  out\<lparr>rs_return_code := retCode result,
                      rs_can_run_again := (if canRunAgain result then 1 else 0)\<rparr>,
                  st'\<lparr>poisoned := poisoned st' \<or> \<not> canRunAgain result, invoking := False\<rparr>)
             | Threw \<Rightarrow> (IReturned E_EXCEPTION, out, st'\<lparr>poisoned := True, invoking := False\<rparr>)
             | Exited c \<Rightarrow> (IExited c, out, st')
             | Killed c \<Rightarrow> (IKilled c, out, st')
             | Unwind c \<Rightarrow> (IJumped c, out, st'))"

definition llvm_ld_invoke ::
  "abi_env \<Rightarrow> llvm_ld_request option \<Rightarrow> llvm_ld_result option \<Rightarrow> abi_state \<Rightarrow>
   invoke_end \<times> llvm_ld_result option \<times> abi_state" where
  "llvm_ld_invoke env req out st =
     (if \<not> request_ok req out then (IReturned E_INVALID, out, st)
      else if poisoned st then (IReturned E_POISONED, out, st)
      else if invoking st then (IReturned E_BUSY, out, st)
      else
        let r = the req; o' = the out; locked = st\<lparr>invoking := True\<rparr>;
            unlocked = locked\<lparr>invoking := False\<rparr>;
            threw = (IReturned E_EXCEPTION, out, unlocked\<lparr>poisoned := True\<rparr>)
        in if \<not> ab_alloc env 0 \<or> \<not> ab_alloc env 1 then threw
           else case copy_args env r [0..<unat (rq_argc r)] [] of
                  CopyInvalid \<Rightarrow> (IReturned E_INVALID, out, unlocked)
                | CopyThrew \<Rightarrow> threw
                | Copied args \<Rightarrow>
                    (case driver_def env (rq_driver r) of
                       None \<Rightarrow> (IReturned E_INVALID, out, unlocked)
                     | Some d \<Rightarrow>
                         (case run_lld env r o' d args locked of (e, o'', st') \<Rightarrow> (e, Some o'', st'))))"

section \<open>Threads\<close>

text \<open>
  Any number of threads call \<open>llvm_ld_invoke\<close> and the profiler functions. One step is
  one access to the shared atomics or the call of \<open>lldMain\<close>; what the arguments and the
  linker decide is left open. A thread is between calls (\<open>Idle\<close>), past the poison check
  (\<open>Checked\<close>), holds the lock (\<open>Locked\<close>, or \<open>InLld\<close> inside the linker, \<open>Poisoning r\<close>
  before the store, \<open>Unlocking r\<close> before the clear), or has a status.
\<close>

datatype pc =
    Idle
  | Checked
  | Locked
  | InLld
  | Poisoning status
  | Unlocking status
  | Returned status

record shared =
  sh_invoking :: bool
  sh_poisoned :: bool
  sh_pc :: "nat \<Rightarrow> pc"

definition sh_init :: shared where
  "sh_init = \<lparr>sh_invoking = False, sh_poisoned = False, sh_pc = (\<lambda>_. Idle)\<rparr>"

definition goto :: "nat \<Rightarrow> pc \<Rightarrow> shared \<Rightarrow> shared" where
  "goto t p s = s\<lparr>sh_pc := (sh_pc s)(t := p)\<rparr>"

inductive abi_step :: "nat \<Rightarrow> shared \<Rightarrow> shared \<Rightarrow> bool" where
  reject: "sh_pc s t = Idle \<Longrightarrow> abi_step t s (goto t (Returned E_INVALID) s)"
| load_clean: "sh_pc s t = Idle \<Longrightarrow> \<not> sh_poisoned s \<Longrightarrow> abi_step t s (goto t Checked s)"
| load_poisoned: "sh_pc s t = Idle \<Longrightarrow> sh_poisoned s \<Longrightarrow> abi_step t s (goto t (Returned E_POISONED) s)"
| tas_busy: "sh_pc s t = Checked \<Longrightarrow> sh_invoking s \<Longrightarrow> abi_step t s (goto t (Returned E_BUSY) s)"
| tas_free: "sh_pc s t = Checked \<Longrightarrow> \<not> sh_invoking s \<Longrightarrow>
    abi_step t s (goto t Locked (s\<lparr>sh_invoking := True\<rparr>))"
| args_invalid: "sh_pc s t = Locked \<Longrightarrow> abi_step t s (goto t (Unlocking E_INVALID) s)"
| copy_threw: "sh_pc s t = Locked \<Longrightarrow> abi_step t s (goto t (Poisoning E_EXCEPTION) s)"
| enter: "sh_pc s t = Locked \<Longrightarrow> abi_step t s (goto t InLld s)"
| lld_again: "sh_pc s t = InLld \<Longrightarrow> abi_step t s (goto t (Unlocking OK) s)"
| lld_never_again: "sh_pc s t = InLld \<Longrightarrow> abi_step t s (goto t (Poisoning OK) s)"
| lld_threw: "sh_pc s t = InLld \<Longrightarrow> abi_step t s (goto t (Poisoning E_EXCEPTION) s)"
| store: "sh_pc s t = Poisoning r \<Longrightarrow>
    abi_step t s (goto t (Unlocking r) (s\<lparr>sh_poisoned := True\<rparr>))"
| clear: "sh_pc s t = Unlocking r \<Longrightarrow>
    abi_step t s (goto t (Returned r) (s\<lparr>sh_invoking := False\<rparr>))"
| prof_busy: "sh_pc s t = Idle \<Longrightarrow> sh_invoking s \<Longrightarrow> abi_step t s (goto t (Returned E_BUSY) s)"
| prof_run: "sh_pc s t = Idle \<Longrightarrow> \<not> sh_invoking s \<Longrightarrow>
    abi_step t s (goto t (Unlocking r) (s\<lparr>sh_invoking := True\<rparr>))"
| again: "sh_pc s t = Returned r \<Longrightarrow> abi_step t s (goto t Idle s)"

inductive abi_reachable :: "shared \<Rightarrow> bool" where
  init: "abi_reachable sh_init"
| step: "abi_reachable s \<Longrightarrow> abi_step t s s' \<Longrightarrow> abi_reachable s'"

definition holds_lock :: "pc \<Rightarrow> bool" where
  "holds_lock p \<longleftrightarrow> (case p of Locked \<Rightarrow> True | InLld \<Rightarrow> True | Poisoning _ \<Rightarrow> True | Unlocking _ \<Rightarrow> True | _ \<Rightarrow> False)"

lemma holds_lock_simps [simp]:
  "\<not> holds_lock Idle" "\<not> holds_lock Checked" "holds_lock Locked" "holds_lock InLld"
  "holds_lock (Poisoning r)" "holds_lock (Unlocking r)" "\<not> holds_lock (Returned r)"
  by (simp_all add: holds_lock_def)

lemma goto_simps [simp]:
  "sh_pc (goto t p s) u = (if u = t then p else sh_pc s u)"
  "sh_invoking (goto t p s) = sh_invoking s" "sh_poisoned (goto t p s) = sh_poisoned s"
  by (simp_all add: goto_def)

text \<open>The flag is up exactly while one thread holds the lock.\<close>

definition lock_inv :: "shared \<Rightarrow> bool" where
  "lock_inv s \<longleftrightarrow>
     (if sh_invoking s then \<exists>!t. holds_lock (sh_pc s t) else \<forall>t. \<not> holds_lock (sh_pc s t))"

lemma lock_inv_goto [simp]:
  assumes "holds_lock p = holds_lock (sh_pc s t)"
  shows "lock_inv (goto t p s) = lock_inv s"
proof -
  have "holds_lock (sh_pc (goto t p s) u) = holds_lock (sh_pc s u)" for u using assms by simp
  then show ?thesis by (simp add: lock_inv_def)
qed

lemma lock_inv_poisoned [simp]: "lock_inv (s\<lparr>sh_poisoned := b\<rparr>) = lock_inv s"
  by (simp add: lock_inv_def)

lemma lock_inv_acquire:
  assumes "lock_inv s" and "\<not> sh_invoking s" and "holds_lock p"
  shows "lock_inv (goto t p (s\<lparr>sh_invoking := True\<rparr>))"
  using assms by (auto simp: lock_inv_def)

lemma lock_inv_release:
  assumes "lock_inv s" and "holds_lock (sh_pc s t)" and "\<not> holds_lock p"
  shows "lock_inv (goto t p (s\<lparr>sh_invoking := False\<rparr>))"
  using assms by (auto simp: lock_inv_def split: if_splits)

lemma abi_step_lock_inv:
  assumes "abi_step t s s'" and "lock_inv s"
  shows "lock_inv s'"
  using assms
proof (cases rule: abi_step.cases)
  case tas_free
  with assms(2) show ?thesis by (simp add: lock_inv_acquire)
next
  case prof_run
  with assms(2) show ?thesis by (simp add: lock_inv_acquire)
next
  case clear
  with assms(2) show ?thesis by (simp add: lock_inv_release)
qed (use assms(2) in simp_all)

lemma abi_reachable_lock_inv: "abi_reachable s \<Longrightarrow> lock_inv s"
proof (induction rule: abi_reachable.induct)
  case init
  show ?case by (simp add: lock_inv_def sh_init_def)
next
  case (step s t s')
  then show ?case by (blast intro: abi_step_lock_inv)
qed

text \<open>
  C11: however the calls of any number of threads interleave, at most one of them is inside
  the linker (or anywhere between taking and clearing the flag), and the flag is down
  exactly when none is.
\<close>

theorem single_linker_run:
  assumes "abi_reachable s"
  shows "(holds_lock (sh_pc s t) \<and> holds_lock (sh_pc s u) \<longrightarrow> t = u) \<and>
    (sh_invoking s \<longleftrightarrow> (\<exists>t. holds_lock (sh_pc s t)))"
  using abi_reachable_lock_inv [OF assms] unfolding lock_inv_def by (auto split: if_splits)

lemma abi_run: "abi_reachable s \<Longrightarrow> abi_step t s s1 \<Longrightarrow> s1 = s2 \<Longrightarrow> abi_reachable s2"
  by (auto intro: abi_reachable.step)

definition sh_of :: "bool \<Rightarrow> bool \<Rightarrow> pc \<Rightarrow> pc \<Rightarrow> shared" where
  "sh_of iv po p q = \<lparr>sh_invoking = iv, sh_poisoned = po, sh_pc = (\<lambda>_. Idle)(0 := p, 1 := q)\<rparr>"

lemma goto_sh_of [simp]:
  "goto 0 p' (sh_of i b p q) = sh_of i b p' q" "goto (Suc 0) q' (sh_of i b p q) = sh_of i b p q'"
  "(sh_of i b p q)\<lparr>sh_invoking := i'\<rparr> = sh_of i' b p q"
  "(sh_of i b p q)\<lparr>sh_poisoned := b'\<rparr> = sh_of i b' p q"
  "sh_pc (sh_of i b p q) 0 = p" "sh_pc (sh_of i b p q) (Suc 0) = q"
  "sh_invoking (sh_of i b p q) = i" "sh_poisoned (sh_of i b p q) = b"
  by (auto simp: goto_def sh_of_def fun_eq_iff)

lemma sh_init_of: "sh_init = sh_of False False Idle Idle"
  by (simp add: sh_init_def sh_of_def fun_eq_iff)

lemma poisoned_after_first_run: "abi_reachable (sh_of False True (Returned OK) Checked)"
proof -
  note r = abi_reachable.init [unfolded sh_init_of]
  note r = abi_run [OF r abi_step.load_clean [where t = 1]]
  have "abi_reachable (sh_of False False Idle Checked)" by (rule r) simp_all
  note r = abi_run [OF this abi_step.load_clean [where t = 0]]
  have "abi_reachable (sh_of False False Checked Checked)" by (rule r) simp_all
  note r = abi_run [OF this abi_step.tas_free [where t = 0]]
  have "abi_reachable (sh_of True False Locked Checked)" by (rule r) simp_all
  note r = abi_run [OF this abi_step.enter [where t = 0]]
  have "abi_reachable (sh_of True False InLld Checked)" by (rule r) simp_all
  note r = abi_run [OF this abi_step.lld_never_again [where t = 0]]
  have "abi_reachable (sh_of True False (Poisoning OK) Checked)" by (rule r) simp_all
  note r = abi_run [OF this abi_step.store [where t = 0 and r = OK]]
  have "abi_reachable (sh_of True True (Unlocking OK) Checked)" by (rule r) simp_all
  note r = abi_run [OF this abi_step.clear [where t = 0 and r = OK]]
  show ?thesis by (rule r) simp_all
qed

text \<open>
  C29: the poison flag is read before the lock is taken and not again after it. So a run of
  the linker can start although an earlier run has already returned "cannot run again" and
  stored the flag: one thread passes the check, another runs and poisons, and the first one
  then enters \<open>lldMain\<close>.
\<close>

theorem poison_check_race:
  "\<exists>s t u. abi_reachable s \<and> sh_poisoned s \<and> sh_pc s u = Returned OK \<and> sh_pc s t = Checked \<and>
     (\<exists>s1 s2. abi_step t s s1 \<and> abi_step t s1 s2 \<and> sh_poisoned s2 \<and> sh_pc s2 t = InLld)"
proof -
  let ?s = "sh_of False True (Returned OK) Checked"
  have 1: "abi_step 1 ?s (sh_of True True (Returned OK) Locked)"
    using abi_step.tas_free [of ?s 1] by simp
  have 2: "abi_step 1 (sh_of True True (Returned OK) Locked) (sh_of True True (Returned OK) InLld)"
    using abi_step.enter [of "sh_of True True (Returned OK) Locked" 1] by simp
  show ?thesis
  proof (rule exI [of _ ?s], rule exI [of _ 1], rule exI [of _ 0], intro conjI exI)
    show "abi_step 1 ?s (sh_of True True (Returned OK) Locked)" by (rule 1)
    show "abi_step 1 (sh_of True True (Returned OK) Locked) (sh_of True True (Returned OK) InLld)"
      by (rule 2)
  qed (use poisoned_after_first_run in simp_all)
qed

text \<open>
  what does hold: the flag is never cleared, and a call that reads it after it was
  stored is rejected; the only threads that can still enter the linker are those already
  past the check.
\<close>

theorem poison_rejects_later_calls:
  assumes "abi_step t s s'" and "sh_poisoned s"
  shows "sh_poisoned s' \<and> (sh_pc s' u = Checked \<longrightarrow> sh_pc s u = Checked) \<and>
    (sh_pc s' u = InLld \<longrightarrow> sh_pc s u \<in> {Locked, InLld})"
  using assms by (cases rule: abi_step.cases) (auto split: if_splits)

theorem poison_rejects_later_calls_witness:
  "sh_poisoned (sh_of False True (Returned E_POISONED) Idle) \<and>
   sh_pc (sh_of False True (Returned E_POISONED) Idle) 1 \<noteq> InLld"
proof -
  have "abi_step 0 (sh_of False True Idle Idle) (sh_of False True (Returned E_POISONED) Idle)"
    using abi_step.load_poisoned [of "sh_of False True Idle Idle" 0] by simp
  from poison_rejects_later_calls [OF this, of 1] show ?thesis by auto
qed

theorem single_linker_run_witness:
  "sh_invoking (sh_of False True (Returned OK) Checked) \<longleftrightarrow>
    (\<exists>t. holds_lock (sh_pc (sh_of False True (Returned OK) Checked) t))"
  using single_linker_run [OF poisoned_after_first_run] by blast

section \<open>One call at a time\<close>

text \<open>The argument at which copying runs out of memory, the ones before it being valid.\<close>

definition copy_throws_at :: "abi_env \<Rightarrow> llvm_ld_request \<Rightarrow> nat \<Rightarrow> bool" where
  "copy_throws_at env r i \<longleftrightarrow> \<not> ab_alloc env (i + 2) \<and> list_all (\<lambda>j. \<not> arg_invalid r j) [0..<Suc i]"

lemma copy_args_from:
  "j \<le> n \<Longrightarrow> list_all (\<lambda>k. \<not> arg_invalid r k) [0..<j] \<Longrightarrow> list_all (\<lambda>k. ab_alloc env (k + 2)) [0..<j] \<Longrightarrow>
   copy_args env r [j..<n] owned =
    (if \<exists>i<n. copy_throws_at env r i then CopyThrew
     else if \<exists>i<n. arg_invalid r i then CopyInvalid
     else Copied (owned @ map (arg_string r) [j..<n]))"
proof (induction "n - j" arbitrary: j owned)
  case 0
  then have "j = n" by simp
  with 0 have "\<not> (\<exists>i<n. copy_throws_at env r i)" "\<not> (\<exists>i<n. arg_invalid r i)"
    by (auto simp: copy_throws_at_def list_all_iff)
  then show ?case using \<open>j = n\<close> by simp
next
  case (Suc d)
  then have j: "j < n" and cons: "[j..<n] = j # [Suc j..<n]" by (simp_all add: upt_conv_Cons)
  show ?case
  proof (cases "arg_invalid r j")
    case True
    have "\<not> copy_throws_at env r i" if "i < n" for i
    proof (cases "i < j")
      case False
      then have "j \<in> set [0..<Suc i]" by auto
      then show ?thesis using True unfolding copy_throws_at_def list_all_iff by blast
    qed (use Suc.prems(3) in \<open>simp add: copy_throws_at_def list_all_iff\<close>)
    then show ?thesis using True j cons by auto
  next
    case False
    then have valid: "list_all (\<lambda>k. \<not> arg_invalid r k) [0..<Suc j]" using Suc.prems(2) by simp
    show ?thesis
    proof (cases "ab_alloc env (j + 2)")
      case True
      then show ?thesis using Suc.hyps(1) [of "Suc j" "owned @ [arg_string r j]"] Suc.hyps(2) Suc.prems valid False j cons by simp
    next
      case nomem: False
      then have "copy_throws_at env r j" using valid by (simp add: copy_throws_at_def)
      then show ?thesis using False nomem j cons by auto
    qed
  qed
qed

text \<open>
  C27: what a call with a well-formed request does when neither the poison flag nor the lock is up. If memory runs out, for
  the two vectors or for an argument before an invalid one is seen, it returns \<open>LLVM_LD_E_EXCEPTION\<close> and poisons the library.
  Otherwise, if an argument is not valid UTF-8 (or null with a length) or the driver is unknown, it returns \<open>LLVM_LD_E_INVALID\<close> and
  changes nothing. Otherwise it runs \<open>lldMain\<close> once, on exactly the decoded arguments and the driver asked for: the output
  goes to the callbacks, a result is stored with status \<open>LLVM_LD_OK\<close> and poisons when the linker cannot run again, an
  exception is \<open>LLVM_LD_E_EXCEPTION\<close> and poisons, and both release the lock; the process may also end, or the
  dispatcher read beyond an empty argument vector.
\<close>

theorem llvm_ld_invoke_runs:
  fixes env :: abi_env
  assumes "request_ok (Some r) (Some out)" and "\<not> poisoned st" and "\<not> invoking st"
  defines "n \<equiv> unat (rq_argc r)"
    and "driver \<equiv> (if rq_driver r = 1 then Some \<lparr>dd_flavor = WinLink, dd_driver = ab_coff env\<rparr>
      else if rq_driver r = 2 then Some \<lparr>dd_flavor = MinGW, dd_driver = ab_mingw env\<rparr> else None)"
  shows "llvm_ld_invoke env (Some r) (Some out) st =
    (if \<not> ab_alloc env 0 \<or> \<not> ab_alloc env 1 \<or> (\<exists>i<n. copy_throws_at env r i)
     then (IReturned E_EXCEPTION, Some out, st\<lparr>poisoned := True\<rparr>)
     else if (\<exists>i<n. arg_invalid r i) \<or> driver = None then (IReturned E_INVALID, Some out, st)
     else let (res, p) = lldMain (ab_lld env) (map (arg_string r) [0..<n]) [the driver] ((process st)\<lparr>writes := []\<rparr>);
              done = st\<lparr>process := p, callbacks := callbacks st @ forwarded r (writes p)\<rparr>
       in case res of
            Done (Inr result) \<Rightarrow>
              (IReturned OK, Some (out\<lparr>rs_return_code := retCode result, rs_can_run_again := (if canRunAgain result then 1 else 0)\<rparr>),
               done\<lparr>poisoned := \<not> canRunAgain result\<rparr>)
          | Threw \<Rightarrow> (IReturned E_EXCEPTION, Some out, done\<lparr>poisoned := True\<rparr>)
          | Done (Inl _) \<Rightarrow> (IUndefined, Some out, done\<lparr>invoking := True\<rparr>)
          | Exited c \<Rightarrow> (IExited c, Some out, done\<lparr>invoking := True\<rparr>)
          | Killed c \<Rightarrow> (IKilled c, Some out, done\<lparr>invoking := True\<rparr>)
          | Unwind c \<Rightarrow> (IJumped c, Some out, done\<lparr>invoking := True\<rparr>))"
proof -
  have st: "st\<lparr>invoking := False\<rparr> = st" "poisoned st = False" using assms(2,3) by simp_all
  note args = copy_args_from [of 0 n r env "[]", simplified]
  have driver: "driver_def env (rq_driver r) = driver"
    by (simp add: driver_def_def driver_def LLVM_LD_DRIVER_WINLINK_def LLVM_LD_DRIVER_MINGW_def)
  obtain res p where run: "lldMain (ab_lld env) (map (arg_string r) [0..<n]) [the driver] ((process st)\<lparr>writes := []\<rparr>) = (res, p)"
    by fastforce
  have "run_lld env r out (the driver) (map (arg_string r) [0..<n]) (st\<lparr>invoking := True\<rparr>) = x" if "x =
    (let done = st\<lparr>process := p, callbacks := callbacks st @ forwarded r (writes p)\<rparr>
     in case res of
            Done (Inr result) \<Rightarrow>
              (IReturned OK, out\<lparr>rs_return_code := retCode result, rs_can_run_again := (if canRunAgain result then 1 else 0)\<rparr>,
               done\<lparr>poisoned := \<not> canRunAgain result\<rparr>)
          | Threw \<Rightarrow> (IReturned E_EXCEPTION, out, done\<lparr>poisoned := True\<rparr>)
          | Done (Inl _) \<Rightarrow> (IUndefined, out, done\<lparr>invoking := True\<rparr>)
          | Exited c \<Rightarrow> (IExited c, out, done\<lparr>invoking := True\<rparr>)
          | Killed c \<Rightarrow> (IKilled c, out, done\<lparr>invoking := True\<rparr>)
          | Unwind c \<Rightarrow> (IJumped c, out, done\<lparr>invoking := True\<rparr>))" for x
    using that run assms(2,3) by (cases st; cases res) (auto simp: run_lld_def Let_def split: sum.splits)
  note this [OF refl]
  then show ?thesis
    using assms(1-3) st run unfolding llvm_ld_invoke_def Let_def n_def [symmetric]
    by (auto simp: args driver n_def [symmetric] split: outcome.splits sum.splits)
qed

text \<open>
  every call that returns a status puts the lock back as it found it, whatever the
  linker, the allocator or the arguments did, exceptions included; a call that finds the
  lock taken or the flag up changes nothing.
\<close>

lemma llvm_ld_invoke_lock:
  assumes "llvm_ld_invoke env req out st = (IReturned r, out', st')"
  shows "invoking st' = invoking st \<and>
    (poisoned st \<or> invoking st \<longrightarrow> st' = st \<and> out' = out \<and> r \<in> {E_INVALID, E_POISONED, E_BUSY})"
  using assms
  by (auto simp: llvm_ld_invoke_def run_lld_def Let_def
      split: if_splits copy_result.splits option.splits prod.splits outcome.splits sum.splits)

section \<open>Sequences of calls\<close>

datatype api_call =
    CallInvoke "llvm_ld_request option" "llvm_ld_result option"
  | CallProfilerStart u32
  | CallProfilerStop u32

definition api_call_step :: "abi_env \<Rightarrow> api_call \<Rightarrow> abi_state \<Rightarrow> invoke_end \<times> abi_state" where
  "api_call_step env c st =
     (case c of
        CallInvoke req out \<Rightarrow> (case llvm_ld_invoke env req out st of (e, _, st') \<Rightarrow> (e, st'))
      | CallProfilerStart p \<Rightarrow> (case llvm_ld_profiler_start env p st of (r, st') \<Rightarrow> (IReturned r, st'))
      | CallProfilerStop p \<Rightarrow> (case llvm_ld_profiler_stop env p st of (r, st') \<Rightarrow> (IReturned r, st')))"

fun api_run :: "abi_env \<Rightarrow> api_call list \<Rightarrow> abi_state \<Rightarrow> invoke_end list \<times> abi_state" where
  "api_run env [] st = ([], st)"
| "api_run env (c # cs) st =
     (let (e, st1) = api_call_step env c st; (es, st2) = api_run env cs st1 in (e # es, st2))"

lemma profiler_unchanged:
  "snd (llvm_ld_profiler_start env p st) = st" "snd (llvm_ld_profiler_stop env p st) = st"
  by (auto simp: llvm_ld_profiler_start_def llvm_ld_profiler_stop_def with_lock_def)

lemma api_call_poisoned:
  assumes "poisoned st"
  shows "snd (api_call_step env c st) = st"
  using assms profiler_unchanged [of env _ st]
  by (cases c) (auto simp: api_call_step_def llvm_ld_invoke_def split: prod.splits, (metis snd_conv)+)

text \<open>
  C28: for a single caller poisoning is permanent: after it, no sequence of calls changes
  the state or reaches the linker, and every well-formed \<open>llvm_ld_invoke\<close> among them
  returns \<open>LLVM_LD_E_POISONED\<close>.
\<close>

theorem poisoned_forever:
  assumes "poisoned st"
  shows "snd (api_run env cs st) = st \<and>
    (\<forall>i<length cs. \<forall>req out. cs ! i = CallInvoke req out \<and> request_ok req out \<longrightarrow>
       fst (api_run env cs st) ! i = IReturned E_POISONED)"
proof (induction cs)
  case Nil
  show ?case by simp
next
  case (Cons c cs)
  have st: "snd (api_call_step env c st) = st" using assms by (rule api_call_poisoned)
  have eq: "api_run env (c # cs) st =
      (fst (api_call_step env c st) # fst (api_run env cs st), snd (api_run env cs st))"
    using st by (cases "api_call_step env c st") (simp add: Let_def case_prod_beta)
  have hd: "fst (api_call_step env c st) = IReturned E_POISONED"
    if "c = CallInvoke req out" "request_ok req out" for req out
    using that assms by (simp add: api_call_step_def llvm_ld_invoke_def)
  show ?case
    unfolding eq using Cons hd by (auto simp: nth_Cons split: nat.splits)
qed

text \<open>
  \<open>llvm_ld_invoke\<close> accepts a request without arguments (\<open>argc = 0\<close>), for which the
  dispatcher then reads \<open>argv[0]\<close> of an empty vector.
\<close>

lemma llvm_ld_invoke_no_args:
  assumes "request_ok (Some r) (Some out)" and "rq_argc r = 0" and "\<not> poisoned st" and "\<not> invoking st"
    and "ab_alloc env 0" and "ab_alloc env 1" and "driver_def env (rq_driver r) = Some d"
  shows "fst (llvm_ld_invoke env (Some r) (Some out) st) = IUndefined"
  using assms
  by (auto simp: llvm_ld_invoke_def run_lld_def lldMain_def RunSafely_def unsafeLldMain_def
      whichDriver_def parseFlavor_def parseFlavorWithoutMinGW_def bind_def ret_def Let_def)

section \<open>Examples\<close>

definition sample_request :: "u32 \<Rightarrow> llvm_ld_request" where
  "sample_request argc =
     \<lparr>rq_struct_size = 56, rq_abi_version = 1, rq_driver = 1, rq_argc = argc,
      rq_argv = Some (\<lambda>i. Some (\<lambda>j. 0x61)), rq_argv_lengths = Some (\<lambda>i. 1),
      rq_stdout_write = True, rq_stderr_write = True\<rparr>"

definition sample_result :: llvm_ld_result where
  "sample_result = \<lparr>rs_struct_size = 12, rs_return_code = 0, rs_can_run_again = 0\<rparr>"

definition sample_abi_env :: abi_env where
  "sample_abi_env =
     \<lparr>ab_lld = sample_env, ab_coff = no_driver, ab_mingw = no_driver, ab_alloc = (\<lambda>_. True),
      ab_mi_pprof = False, ab_mi_version = 0, ab_mi_prof_enabled = False, ab_mi_dhat_enabled = False,
      ab_mi_prof_start = False, ab_mi_dhat_start = True, ab_mi_cookie = 0, ab_probe_in_heap = True\<rparr>"

definition sample_abi_state :: "bool \<Rightarrow> abi_state" where
  "sample_abi_state p = \<lparr>invoking = False, poisoned = p, process = sample_state True, callbacks = []\<rparr>"

lemmas sample_defs = sample_request_def sample_result_def sample_abi_env_def sample_abi_state_def
  request_ok_def sizeof_request_def sizeof_result_def LLVM_LD_ABI_VERSION_def driver_def_def
  LLVM_LD_DRIVER_WINLINK_def

lemma lldMain_no_driver:
  "fst (lldMain sample_env [''a''] [\<lparr>dd_flavor = WinLink, dd_driver = no_driver\<rparr>] ((sample_state True)\<lparr>writes := []\<rparr>)) =
    Done (Inr \<lparr>retCode = 1, canRunAgain = True\<rparr>)"
  by code_simp

theorem llvm_ld_invoke_runs_witness:
  "fst (llvm_ld_invoke sample_abi_env (Some (sample_request 1)) (Some sample_result) (sample_abi_state False)) = IReturned OK \<and>
   map_option rs_return_code (fst (snd (llvm_ld_invoke sample_abi_env (Some (sample_request 1)) (Some sample_result) (sample_abi_state False)))) = Some 1"
proof -
  obtain p where run: "lldMain sample_env [''a''] [\<lparr>dd_flavor = WinLink, dd_driver = no_driver\<rparr>] ((sample_state True)\<lparr>writes := []\<rparr>) =
      (Done (Inr \<lparr>retCode = 1, canRunAgain = True\<rparr>), p)"
    using lldMain_no_driver by (metis prod.collapse)
  have valid: "\<not> arg_invalid (sample_request 1) 0"
    by (simp add: arg_invalid_def sample_request_def arg_bytes_def valid_utf8.simps)
  moreover have "char_of (97 :: nat) = CHR ''a''" by code_simp
  then have "arg_string (sample_request 1) 0 = ''a''"
    by (simp add: arg_string_def sample_request_def arg_bytes_def bytes_to_string_def)
  moreover have "unat (rq_argc (sample_request 1)) = 1" by (simp add: sample_request_def)
  moreover have "\<not> copy_throws_at sample_abi_env (sample_request 1) 0" by (simp add: copy_throws_at_def sample_abi_env_def)
  ultimately show ?thesis
    using llvm_ld_invoke_runs [of "sample_request 1" sample_result "sample_abi_state False" sample_abi_env] run
    by (simp add: sample_defs)
qed

theorem poisoned_forever_witness:
  "fst (api_run sample_abi_env [CallInvoke (Some (sample_request 1)) (Some sample_result)]
      (sample_abi_state True)) ! 0 = IReturned E_POISONED"
proof -
  have "poisoned (sample_abi_state True)" by (simp add: sample_abi_state_def)
  moreover have "request_ok (Some (sample_request 1)) (Some sample_result)" by (simp add: sample_defs)
  ultimately show ?thesis
    using poisoned_forever [of "sample_abi_state True" sample_abi_env
        "[CallInvoke (Some (sample_request 1)) (Some sample_result)]"] by simp
qed

end
