(* ===== verification/Crc.thy ===== *)
theory Crc
  imports Prelude
begin

text \<open>
  The CRC-32 of \<open>llvm/lib/Support/CRC.cpp\<close>, which the linker uses for the build id, the
  import thunks and the PDB hashes: Sarwate's table, the eight tables of the
  slice-by-8 loop this repository adds, the loop over eight bytes at a time, the byte
  loop for the rest, and \<open>JamCRC\<close>. The reference is the bitwise shift register of the
  reflected polynomial \<open>0xEDB88320\<close>; the main theorem says that the three layers of
  tables compute it on every input and every starting value.
\<close>

unbundle bit_operations_syntax

section \<open>The code\<close>

definition CRCTable :: "u32 list" where
  "CRCTable =
    [0x00000000, 0x77073096, 0xee0e612c, 0x990951ba, 0x076dc419, 0x706af48f, 0xe963a535, 0x9e6495a3,
     0x0edb8832, 0x79dcb8a4, 0xe0d5e91e, 0x97d2d988, 0x09b64c2b, 0x7eb17cbd, 0xe7b82d07, 0x90bf1d91,
     0x1db71064, 0x6ab020f2, 0xf3b97148, 0x84be41de, 0x1adad47d, 0x6ddde4eb, 0xf4d4b551, 0x83d385c7,
     0x136c9856, 0x646ba8c0, 0xfd62f97a, 0x8a65c9ec, 0x14015c4f, 0x63066cd9, 0xfa0f3d63, 0x8d080df5,
     0x3b6e20c8, 0x4c69105e, 0xd56041e4, 0xa2677172, 0x3c03e4d1, 0x4b04d447, 0xd20d85fd, 0xa50ab56b,
     0x35b5a8fa, 0x42b2986c, 0xdbbbc9d6, 0xacbcf940, 0x32d86ce3, 0x45df5c75, 0xdcd60dcf, 0xabd13d59,
     0x26d930ac, 0x51de003a, 0xc8d75180, 0xbfd06116, 0x21b4f4b5, 0x56b3c423, 0xcfba9599, 0xb8bda50f,
     0x2802b89e, 0x5f058808, 0xc60cd9b2, 0xb10be924, 0x2f6f7c87, 0x58684c11, 0xc1611dab, 0xb6662d3d,
     0x76dc4190, 0x01db7106, 0x98d220bc, 0xefd5102a, 0x71b18589, 0x06b6b51f, 0x9fbfe4a5, 0xe8b8d433,
     0x7807c9a2, 0x0f00f934, 0x9609a88e, 0xe10e9818, 0x7f6a0dbb, 0x086d3d2d, 0x91646c97, 0xe6635c01,
     0x6b6b51f4, 0x1c6c6162, 0x856530d8, 0xf262004e, 0x6c0695ed, 0x1b01a57b, 0x8208f4c1, 0xf50fc457,
     0x65b0d9c6, 0x12b7e950, 0x8bbeb8ea, 0xfcb9887c, 0x62dd1ddf, 0x15da2d49, 0x8cd37cf3, 0xfbd44c65,
     0x4db26158, 0x3ab551ce, 0xa3bc0074, 0xd4bb30e2, 0x4adfa541, 0x3dd895d7, 0xa4d1c46d, 0xd3d6f4fb,
     0x4369e96a, 0x346ed9fc, 0xad678846, 0xda60b8d0, 0x44042d73, 0x33031de5, 0xaa0a4c5f, 0xdd0d7cc9,
     0x5005713c, 0x270241aa, 0xbe0b1010, 0xc90c2086, 0x5768b525, 0x206f85b3, 0xb966d409, 0xce61e49f,
     0x5edef90e, 0x29d9c998, 0xb0d09822, 0xc7d7a8b4, 0x59b33d17, 0x2eb40d81, 0xb7bd5c3b, 0xc0ba6cad,
     0xedb88320, 0x9abfb3b6, 0x03b6e20c, 0x74b1d29a, 0xead54739, 0x9dd277af, 0x04db2615, 0x73dc1683,
     0xe3630b12, 0x94643b84, 0x0d6d6a3e, 0x7a6a5aa8, 0xe40ecf0b, 0x9309ff9d, 0x0a00ae27, 0x7d079eb1,
     0xf00f9344, 0x8708a3d2, 0x1e01f268, 0x6906c2fe, 0xf762575d, 0x806567cb, 0x196c3671, 0x6e6b06e7,
     0xfed41b76, 0x89d32be0, 0x10da7a5a, 0x67dd4acc, 0xf9b9df6f, 0x8ebeeff9, 0x17b7be43, 0x60b08ed5,
     0xd6d6a3e8, 0xa1d1937e, 0x38d8c2c4, 0x4fdff252, 0xd1bb67f1, 0xa6bc5767, 0x3fb506dd, 0x48b2364b,
     0xd80d2bda, 0xaf0a1b4c, 0x36034af6, 0x41047a60, 0xdf60efc3, 0xa867df55, 0x316e8eef, 0x4669be79,
     0xcb61b38c, 0xbc66831a, 0x256fd2a0, 0x5268e236, 0xcc0c7795, 0xbb0b4703, 0x220216b9, 0x5505262f,
     0xc5ba3bbe, 0xb2bd0b28, 0x2bb45a92, 0x5cb36a04, 0xc2d7ffa7, 0xb5d0cf31, 0x2cd99e8b, 0x5bdeae1d,
     0x9b64c2b0, 0xec63f226, 0x756aa39c, 0x026d930a, 0x9c0906a9, 0xeb0e363f, 0x72076785, 0x05005713,
     0x95bf4a82, 0xe2b87a14, 0x7bb12bae, 0x0cb61b38, 0x92d28e9b, 0xe5d5be0d, 0x7cdcefb7, 0x0bdbdf21,
     0x86d3d2d4, 0xf1d4e242, 0x68ddb3f8, 0x1fda836e, 0x81be16cd, 0xf6b9265b, 0x6fb077e1, 0x18b74777,
     0x88085ae6, 0xff0f6a70, 0x66063bca, 0x11010b5c, 0x8f659eff, 0xf862ae69, 0x616bffd3, 0x166ccf45,
     0xa00ae278, 0xd70dd2ee, 0x4e048354, 0x3903b3c2, 0xa7672661, 0xd06016f7, 0x4969474d, 0x3e6e77db,
     0xaed16a4a, 0xd9d65adc, 0x40df0b66, 0x37d83bf0, 0xa9bcae53, 0xdebb9ec5, 0x47b2cf7f, 0x30b5ffe9,
     0xbdbdf21c, 0xcabac28a, 0x53b39330, 0x24b4a3a6, 0xbad03605, 0xcdd70693, 0x54de5729, 0x23d967bf,
     0xb3667a2e, 0xc4614ab8, 0x5d681b02, 0x2a6f2b94, 0xb40bbe37, 0xc30c8ea1, 0x5a05df1b, 0x2d02ef8d]"

text \<open>The constructor of \<open>CRCSliceTables\<close>: row \<open>T[0]\<close> is computed bit by bit, each later row
  is one table step through \<open>T[0]\<close> applied to the row before.\<close>

definition crc_shift :: "u32 \<Rightarrow> u32" where
  "crc_shift C = (if C AND 1 \<noteq> 0 then 0xEDB88320 XOR drop_bit 1 C else drop_bit 1 C)"

definition slice_row0 :: "u32 list" where
  "slice_row0 = map (\<lambda>I. (crc_shift ^^ 8) (word_of_nat I)) [0..<256]"

definition slice_step :: "u32 \<Rightarrow> u32" where
  "slice_step x = drop_bit 8 x XOR slice_row0 ! unat (x AND 0xff)"

primrec SliceTables :: "nat \<Rightarrow> u32 list" where
  "SliceTables 0 = slice_row0"
| "SliceTables (Suc J) = map slice_step (SliceTables J)"

text \<open>Four bytes at \<open>P\<close>, least significant first. The code reads inside \<open>Data\<close> only: the
  loop that calls it has at least eight bytes left.\<close>

definition readLE32 :: "byte list \<Rightarrow> u32" where
  "readLE32 P =
     ((ucast (P ! 0) OR push_bit 8 (ucast (P ! 1))) OR push_bit 16 (ucast (P ! 2)))
       OR push_bit 24 (ucast (P ! 3))"

definition slice8 :: "u32 \<Rightarrow> byte list \<Rightarrow> u32" where
  "slice8 CRC P =
     (let One = readLE32 P XOR CRC;
          Two = readLE32 (drop 4 P);
          T = (\<lambda>J x. SliceTables J ! unat x)
      in T 7 (One AND 0xff) XOR T 6 (drop_bit 8 One AND 0xff) XOR
         T 5 (drop_bit 16 One AND 0xff) XOR T 4 (drop_bit 24 One) XOR T 3 (Two AND 0xff) XOR
         T 2 (drop_bit 8 Two AND 0xff) XOR T 1 (drop_bit 16 Two AND 0xff) XOR T 0 (drop_bit 24 Two))"

definition crc_tail_step :: "u32 \<Rightarrow> byte \<Rightarrow> u32" where
  "crc_tail_step CRC b = CRCTable ! unat ((CRC XOR ucast b) AND 0xff) XOR drop_bit 8 CRC"

function crc32_loop :: "u32 \<Rightarrow> byte list \<Rightarrow> u32" where
  "crc32_loop CRC Data =
     (if length Data \<ge> 8 then crc32_loop (slice8 CRC Data) (drop 8 Data)
      else foldl crc_tail_step CRC Data)"
  by pat_completeness auto
termination by (relation "measure (\<lambda>(_, Data). length Data)") auto

definition crc32 :: "u32 \<Rightarrow> byte list \<Rightarrow> u32" where
  "crc32 CRC Data = crc32_loop (CRC XOR 0xFFFFFFFF) Data XOR 0xFFFFFFFF"

definition crc32_data :: "byte list \<Rightarrow> u32" where
  "crc32_data Data = crc32 0 Data"

record JamCRC =
  jam_CRC :: u32

definition jam_init :: "u32 \<Rightarrow> JamCRC" where
  "jam_init Init = \<lparr>jam_CRC = Init\<rparr>"

definition jam_update :: "byte list \<Rightarrow> JamCRC \<Rightarrow> JamCRC" where
  "jam_update Data J =
     J\<lparr>jam_CRC := crc32 (jam_CRC J XOR 0xFFFFFFFF) Data XOR 0xFFFFFFFF\<rparr>"

section \<open>The reference: a shift register\<close>

text \<open>One clock of the register: shift right, and feed back the reflected polynomial when a
  one is shifted out; a byte is mixed in at the low end and clocked through eight times.\<close>

definition crc_bit :: "u32 \<Rightarrow> u32" where
  "crc_bit c = (if bit c 0 then drop_bit 1 c XOR 0xEDB88320 else drop_bit 1 c)"

definition crc8 :: "u32 \<Rightarrow> u32" where
  "crc8 c = (crc_bit ^^ 8) c"

definition crc_byte :: "u32 \<Rightarrow> byte \<Rightarrow> u32" where
  "crc_byte c b = crc8 (c XOR ucast b)"

section \<open>Linearity\<close>

lemma crc_shift_bit: "crc_shift = crc_bit"
  by (rule ext) (simp add: crc_shift_def crc_bit_def and_one_eq bit_0 even_iff_mod_2_eq_zero xor.commute)

lemma crc_bit_xor: "crc_bit (a XOR b) = crc_bit a XOR crc_bit b"
  by (cases "bit a 0"; cases "bit b 0") (simp_all add: crc_bit_def bit_xor_iff drop_bit_xor xor.assoc
      xor.left_commute xor.commute)

lemma crc8_xor: "crc8 (a XOR b) = crc8 a XOR crc8 b"
proof -
  have "(crc_bit ^^ n) (a XOR b) = (crc_bit ^^ n) a XOR (crc_bit ^^ n) b" for n
    by (induction n) (simp_all add: crc_bit_xor)
  then show ?thesis by (simp add: crc8_def)
qed

lemma crc8_pow_xor: "(crc8 ^^ n) (a XOR b) = (crc8 ^^ n) a XOR (crc8 ^^ n) b"
  by (induction n) (simp_all add: crc8_xor)

lemma crc_bit_low_zero: "\<not> bit c 0 \<Longrightarrow> crc_bit c = drop_bit 1 c"
  by (simp add: crc_bit_def)

lemma crc8_low_zero:
  assumes "\<And>i. i < 8 \<Longrightarrow> \<not> bit c i"
  shows "crc8 c = drop_bit 8 c"
proof -
  have "(crc_bit ^^ n) c = drop_bit n c" if "n \<le> 8" for n
    using that
  proof (induction n)
    case (Suc n)
    then have "\<not> bit (drop_bit n c) 0" using assms by (simp only: bit_drop_bit_eq o_apply) simp
    then show ?case using Suc by (simp add: crc_bit_low_zero drop_bit_drop_bit)
  qed simp
  then show ?thesis by (simp add: crc8_def)
qed

lemma and_ff: "(x :: u32) AND 0xff = take_bit 8 x"
  by (simp add: take_bit_eq_mask mask_eq_exp_minus_1)

lemma split_low_byte: "(x :: u32) = take_bit 8 x XOR push_bit 8 (drop_bit 8 x)"
  by (rule bit_word_eqI) (auto simp: bit_simps)

lemma crc8_push: "crc8 (push_bit 8 (drop_bit 8 x)) = drop_bit 8 x"
proof -
  have "crc8 (push_bit 8 (drop_bit 8 x)) = drop_bit 8 (push_bit 8 (drop_bit 8 x))"
    by (rule crc8_low_zero) (simp add: bit_simps)
  also have "\<dots> = drop_bit 8 x" by (rule bit_word_eqI) (auto simp: bit_simps dest: bit_imp_le_length)
  finally show ?thesis .
qed

lemma crc8_split: "crc8 x = crc8 (take_bit 8 x) XOR drop_bit 8 x"
  by (subst split_low_byte [of x]) (simp add: crc8_xor crc8_push)

section \<open>The tables\<close>

lemma length_SliceTables [simp]: "length (SliceTables J) = 256"
  by (induction J) (simp_all add: slice_row0_def)

lemma unat_take_bit_8: "unat (take_bit 8 (x :: u32)) < 256"
  using take_bit_nat_less_exp [of 8 "unat x"] by (simp only: unsigned_take_bit_eq) simp

lemma slice_row0_nth: "i < 256 \<Longrightarrow> slice_row0 ! i = crc8 (word_of_nat i)"
  by (simp add: slice_row0_def crc_shift_bit crc8_def)

lemma slice_step_crc8: "slice_step x = crc8 x"
  using unat_take_bit_8 [of x]
  by (subst crc8_split) (simp add: slice_step_def and_ff slice_row0_nth xor.commute)

lemma SliceTables_nth: "i < 256 \<Longrightarrow> SliceTables J ! i = (crc8 ^^ Suc J) (word_of_nat i)"
  by (induction J) (simp_all add: slice_row0_nth slice_step_crc8)

lemma SliceTables_take_bit:
  "SliceTables J ! unat (take_bit 8 x) = (crc8 ^^ Suc J) (take_bit 8 x)"
  using unat_take_bit_8 [of x] by (simp add: SliceTables_nth del: funpow.simps)

text \<open>The constant table of the byte loop is row 0. By linearity the table of \<open>2 ^ Suc k\<close>
  entries is the table of \<open>2 ^ k\<close> entries and a copy of it shifted by one entry's value,
  so 255 exclusive-ors check all entries.\<close>

lemma word_of_nat_add_xor:
  assumes "i < 2 ^ k"
  shows "(word_of_nat (2 ^ k + i) :: u32) = word_of_nat (2 ^ k) XOR word_of_nat i"
proof -
  have "take_bit k i = i" using assms by (simp add: take_bit_nat_eq_self)
  then have "\<not> bit i n" if "k \<le> n" for n
    using that by (metis bit_take_bit_iff not_le)
  then have "2 ^ k AND i = 0" by (intro bit_eqI) (auto simp: bit_simps)
  then have "2 ^ k + i = 2 ^ k XOR i" by (simp add: disjunctive_add_eq_xor)
  then show ?thesis by (simp add: of_nat_xor_eq)
qed

lemma crc8_doubling:
  "map (\<lambda>i. crc8 (word_of_nat i)) [0..<2 ^ Suc k] =
   map (\<lambda>i. crc8 (word_of_nat i)) [0..<2 ^ k] @
   map (\<lambda>x. crc8 (word_of_nat (2 ^ k)) XOR x) (map (\<lambda>i. crc8 (word_of_nat i)) [0..<2 ^ k])"
proof -
  have "map (\<lambda>i. 2 ^ k + i) [0..<2 ^ k] = [2 ^ k..<2 ^ k + 2 ^ k]"
    using map_add_upt [of "2 ^ k" "2 ^ k"] by (simp add: add.commute)
  then have "[0..<2 ^ Suc k] = [0..<2 ^ k] @ map (\<lambda>i. 2 ^ k + i) [0..<2 ^ k]"
    using upt_add_eq_append [of 0 "2 ^ k" "2 ^ k"] by (simp add: mult_2)
  then show ?thesis
    by (simp add: word_of_nat_add_xor crc8_xor del: of_nat_add upt_Suc)
qed


lemma crc8_0 [simp]: "crc8 0 = 0"
  using crc8_xor [of 0 0] by simp

lemma crc8_powers:
  "crc8 1 = 0x77073096" "crc8 2 = 0xee0e612c" "crc8 4 = 0x076dc419" "crc8 8 = 0x0edb8832"
  "crc8 16 = 0x1db71064" "crc8 32 = 0x3b6e20c8" "crc8 64 = 0x76dc4190" "crc8 128 = 0xedb88320"
  by code_simp+

primrec doubled :: "u32 list \<Rightarrow> u32 list" where
  "doubled [] = [0]"
| "doubled (p # ps) = doubled ps @ map (\<lambda>x. p XOR x) (doubled ps)"

lemma doubled_crc8:
  "doubled (map (\<lambda>k. crc8 (word_of_nat (2 ^ k))) (rev [0..<n])) = map (\<lambda>i. crc8 (word_of_nat i)) [0..<2 ^ n]"
  by (induction n) (simp_all only: upt_Suc_append le0 rev.simps rev_append append.simps list.map
      doubled.simps crc8_doubling, simp_all)

lemma CRCTable_row0: "CRCTable = slice_row0"
proof -
  have "slice_row0 = map (\<lambda>i. crc8 (word_of_nat i)) [0..<2 ^ 8]"
    by (simp add: slice_row0_def crc_shift_bit crc8_def)
  also have "\<dots> = doubled (map (\<lambda>k. crc8 (word_of_nat (2 ^ k))) (rev [0..<8]))"
    by (simp only: doubled_crc8)
  also have "\<dots> = doubled [0xedb88320, 0x76dc4190, 0x3b6e20c8, 0x1db71064, 0x0edb8832, 0x076dc419, 0xee0e612c, 0x77073096]"
    by (simp add: crc8_powers upt_rec)
  also have "\<dots> = CRCTable" unfolding CRCTable_def by code_simp
  finally show ?thesis by simp
qed

section \<open>The loops compute the shift register\<close>

lemma crc_tail_step_byte: "crc_tail_step c b = crc_byte c b"
proof -
  have "drop_bit 8 (ucast b :: u32) = 0" by (rule bit_word_eqI) (auto simp: bit_simps dest: bit_imp_le_length)
  then show ?thesis
    using unat_take_bit_8 [of "c XOR ucast b"]
    by (simp add: crc_tail_step_def crc_byte_def CRCTable_row0 and_ff slice_row0_nth crc8_split [of "c XOR _"]
        drop_bit_xor)
qed

text \<open>Four bytes packed little endian are clocked through as one word.\<close>

definition pack4 :: "byte \<Rightarrow> byte \<Rightarrow> byte \<Rightarrow> byte \<Rightarrow> u32" where
  "pack4 a b c d = ucast a XOR push_bit 8 (ucast b) XOR push_bit 16 (ucast c) XOR push_bit 24 (ucast d)"

lemma readLE32_pack4: "readLE32 P = pack4 (P ! 0) (P ! 1) (P ! 2) (P ! 3)"
  unfolding readLE32_def pack4_def
  by (rule bit_word_eqI) (auto simp: bit_simps dest: bit_imp_le_length)

lemma pack4_bytes:
  "(x :: u32) = pack4 (ucast x) (ucast (drop_bit 8 x)) (ucast (drop_bit 16 x)) (ucast (drop_bit 24 x))"
  unfolding pack4_def
  by (rule bit_word_eqI) (auto simp: bit_simps dest: bit_imp_le_length)

lemma crc8_push_small:
  assumes "\<And>i. 24 \<le> i \<Longrightarrow> \<not> bit x i"
  shows "crc8 (push_bit 8 x) = x"
proof -
  have "drop_bit 8 (push_bit 8 x) = x"
    using assms by (intro bit_word_eqI) (auto simp: bit_simps not_less [symmetric])
  then show ?thesis by (metis crc8_push)
qed

lemma crc8_pow_push: "k \<le> 3 \<Longrightarrow> (crc8 ^^ k) (push_bit (8 * k) (ucast (b :: byte))) = ucast b"
proof (induction k)
  case (Suc k)
  have "crc8 (push_bit 8 (push_bit (8 * k) (ucast b))) = push_bit (8 * k) (ucast b)"
    using Suc.prems by (intro crc8_push_small) (auto simp: bit_simps dest: bit_imp_le_length)
  then show ?case
    using Suc by (simp add: funpow_Suc_right del: funpow.simps)
qed simp

lemma crc8_pack4:
  "(crc8 ^^ (n + 4)) (pack4 b0 b1 b2 b3) =
   (crc8 ^^ (n + 4)) (ucast b0) XOR (crc8 ^^ (n + 3)) (ucast b1) XOR
   (crc8 ^^ (n + 2)) (ucast b2) XOR (crc8 ^^ (n + 1)) (ucast b3)"
proof -
  have "(crc8 ^^ (n + 4)) (push_bit (8 * k) (ucast b)) = (crc8 ^^ (n + 4 - k)) (ucast b)"
    if "k \<le> 3" for k and b :: byte
  proof -
    have "(crc8 ^^ (n + 4)) x = (crc8 ^^ (n + 4 - k)) ((crc8 ^^ k) x)" for x
      using that funpow_add [of "n + 4 - k" k crc8] by simp
    then show ?thesis using crc8_pow_push [OF that] by simp
  qed
  from this [of 1 b1] this [of 2 b2] this [of 3 b3] show ?thesis
    by (simp add: pack4_def crc8_pow_xor add.commute [of n] del: funpow.simps)
qed

lemma crc_bytes4:
  "foldl crc_byte c [b0, b1, b2, b3] = (crc8 ^^ 4) (c XOR pack4 b0 b1 b2 b3)"
  using crc8_pack4 [of 0 b0 b1 b2 b3]
  by (simp add: crc8_pow_xor crc_byte_def crc8_xor numeral_eq_Suc xor.assoc)

lemma unsigned_ucast_eq_byte: "ucast (ucast (x :: u32) :: byte) = take_bit 8 x"
  by (rule bit_word_eqI) (auto simp: bit_simps)

lemma SliceTables_byte:
  "SliceTables J ! unat (take_bit 8 x) = (crc8 ^^ Suc J) (ucast (ucast (x :: u32) :: byte))"
  using unat_take_bit_8 [of x]
  by (simp add: SliceTables_nth unsigned_ucast_eq_byte del: funpow.simps)

lemma drop_bit_24_byte: "drop_bit 24 (x :: u32) = take_bit 8 (drop_bit 24 x)"
  by (rule bit_word_eqI) (auto simp: bit_simps dest: bit_imp_le_length)

lemma slice_word:
  "SliceTables (n + 3) ! unat (x AND 0xff) XOR SliceTables (n + 2) ! unat (drop_bit 8 x AND 0xff) XOR
   SliceTables (n + 1) ! unat (drop_bit 16 x AND 0xff) XOR SliceTables n ! unat (drop_bit 24 x) =
   (crc8 ^^ (n + 4)) x"
  by (subst (5) pack4_bytes, subst drop_bit_24_byte)
    (simp only: and_ff SliceTables_byte crc8_pack4 add_Suc_right [symmetric], simp)

lemma slice8_bytes:
  assumes "length P \<ge> 8"
  shows "slice8 c P = foldl crc_byte c (take 8 P)"
proof -
  obtain b0 b1 b2 b3 b4 b5 b6 b7 Q where P: "P = b0 # b1 # b2 # b3 # b4 # b5 # b6 # b7 # Q"
    using assms by (auto simp: numeral_eq_Suc Suc_le_length_iff)
  have w1: "SliceTables 7 ! unat (x AND 0xff) XOR SliceTables 6 ! unat (drop_bit 8 x AND 0xff) XOR
      SliceTables 5 ! unat (drop_bit 16 x AND 0xff) XOR SliceTables 4 ! unat (drop_bit 24 x) = (crc8 ^^ 8) x" for x
    using slice_word [of 4 x] by simp
  have w2: "SliceTables 3 ! unat (x AND 0xff) XOR SliceTables 2 ! unat (drop_bit 8 x AND 0xff) XOR
      SliceTables 1 ! unat (drop_bit 16 x AND 0xff) XOR SliceTables 0 ! unat (drop_bit 24 x) = (crc8 ^^ 4) x" for x
    using slice_word [of 0 x] by (simp add: numeral_2_eq_2)
  have "slice8 c P = (crc8 ^^ 8) (readLE32 P XOR c) XOR (crc8 ^^ 4) (readLE32 (drop 4 P))"
    by (simp only: slice8_def Let_def xor.assoc w1 [symmetric] w2 [symmetric])
  also have "\<dots> = (crc8 ^^ 4) ((crc8 ^^ 4) (c XOR readLE32 P) XOR readLE32 (drop 4 P))"
    using funpow_add [of 4 4 crc8] by (simp add: crc8_pow_xor xor.commute)
  also have "\<dots> = foldl crc_byte c ([b0, b1, b2, b3] @ [b4, b5, b6, b7])"
    by (simp only: foldl_append crc_bytes4) (simp add: P readLE32_pack4)
  finally show ?thesis by (simp add: P)
qed

lemma crc32_loop_bytes: "crc32_loop c D = foldl crc_byte c D"
proof (induction c D rule: crc32_loop.induct)
  case (1 c D)
  have "foldl crc_byte (foldl crc_byte c (take 8 D)) (drop 8 D) = foldl crc_byte c D"
    by (simp only: foldl_append [symmetric] append_take_drop_id)
  moreover have "crc_tail_step = crc_byte" by (intro ext crc_tail_step_byte)
  ultimately show ?case using 1 by (simp add: slice8_bytes)
qed

declare crc32_loop.simps [simp del]

section \<open>Properties\<close>

text \<open>
  C19: the slice-by-8 \<open>crc32\<close> of \<open>CRC.cpp\<close> (eight generated tables, eight bytes per round, the
  constant table for the rest) computes the bit-serial CRC-32 register with initial and
  final complement, for every starting value and every input.
\<close>

theorem crc32_reference: "crc32 c D = foldl crc_byte (c XOR 0xFFFFFFFF) D XOR 0xFFFFFFFF"
  by (simp add: crc32_def crc32_loop_bytes)

text \<open>
  checksums compose: a running CRC over the pieces of a buffer, as the writers feed it, is
  the CRC of the whole buffer, wherever the buffer is cut, and \<open>JamCRC\<close> updates compose
  the same way.
\<close>

theorem crc32_append:
  "crc32 (crc32 c D1) D2 = crc32 c (D1 @ D2) \<and>
   jam_update D2 (jam_update D1 J) = jam_update (D1 @ D2) J"
  by (simp add: crc32_def crc32_loop_bytes jam_update_def xor.assoc)

end
