(* ===== verification/Symbols.thy ===== *)
theory Symbols
  imports Prelude
begin

text \<open>
  The symbol and chunk objects of the COFF linker (\<open>lld/COFF/Symbols.h\<close>, \<open>Symbols.cpp\<close>,
  the chunk members of \<open>Chunks.h\<close>). Objects live in a store and refer to each other by
  number, as the C++ objects do by pointer: a \<open>sym_id\<close> names a \<open>Symbol\<close>, a \<open>chunk_id\<close> a
  \<open>Chunk\<close>, a \<open>file_id\<close> an \<open>ImportFile\<close>. A symbol is replaced in place, so every holder of
  the number sees the new body; that is what \<open>replaceSymbol\<close> does with placement new.
  The weak alias search is the loop of \<open>Undefined::getWeakAlias\<close> with its cycle check.
\<close>

type_synonym sym_id = nat
type_synonym chunk_id = nat
type_synonym file_id = nat

section \<open>Symbols\<close>

text \<open>The subclasses of \<open>Symbol\<close>. \<open>DefinedRegular\<close> holds the address of the \<open>repl\<close> member of
  its section, here the section's number; the import classes hold their \<open>ImportFile\<close>.\<close>

datatype symbol_body =
    DefinedRegular (dr_file: file_id) (dr_value: u32) (dr_data: "chunk_id option")
  | DefinedCommon (dc_file: file_id) (dc_size: u64) (dc_data: "chunk_id option")
  | DefinedLocalImport (dl_data: chunk_id)
  | DefinedImportThunk (dt_wrapped: file_id) (dt_data: chunk_id)
  | DefinedImportData (di_file: file_id) (di_location: "chunk_id option")
  | DefinedAbsolute (da_va: u64)
  | DefinedSynthetic (ds_chunk: "chunk_id option") (ds_offset: u32)
  | Undefined (weakAlias: "sym_id option")
  | LazyArchive (la_file: file_id) (la_member: nat)
  | LazyObject (lo_file: file_id)
  | LazyDLLSymbol (ld_file: file_id) (ld_sym: nat)

record symbol =
  sy_name :: string
  sy_body :: symbol_body
  isExternal :: bool
  isCOMDAT :: bool
  isUsedInRegularObj :: bool
  pendingArchiveLoad :: bool
  isGCRoot :: bool
  isRuntimePseudoReloc :: bool
  deferUndefined :: bool
  canInline :: bool
  isWeak :: bool
  isAntiDep :: bool

text \<open>The base class constructor.\<close>

definition new_symbol :: "string \<Rightarrow> symbol_body \<Rightarrow> symbol" where
  "new_symbol n b =
     \<lparr>sy_name = n, sy_body = b, isExternal = True, isCOMDAT = False, isUsedInRegularObj = False,
      pendingArchiveLoad = False, isGCRoot = False, isRuntimePseudoReloc = False,
      deferUndefined = False, canInline = True, isWeak = False, isAntiDep = False\<rparr>"

fun is_Defined :: "symbol_body \<Rightarrow> bool" where
  "is_Defined (Undefined _) = False"
| "is_Defined (LazyArchive _ _) = False"
| "is_Defined (LazyObject _) = False"
| "is_Defined (LazyDLLSymbol _ _) = False"
| "is_Defined _ = True"

fun is_DefinedCOFF :: "symbol_body \<Rightarrow> bool" where
  "is_DefinedCOFF (DefinedRegular _ _ _) = True"
| "is_DefinedCOFF (DefinedCommon _ _ _) = True"
| "is_DefinedCOFF _ = False"

fun isLazy :: "symbol_body \<Rightarrow> bool" where
  "isLazy (LazyArchive _ _) = True"
| "isLazy (LazyObject _) = True"
| "isLazy (LazyDLLSymbol _ _) = True"
| "isLazy _ = False"

lemma symbol_classes:
  "is_Undefined b \<or> isLazy b \<longleftrightarrow> \<not> is_Defined b"
  "is_DefinedCOFF b \<Longrightarrow> is_Defined b"
  "is_Undefined b \<Longrightarrow> \<not> isLazy b"
  by (cases b; simp)+

text \<open>Placement new over an existing symbol keeps two flags of the old one.\<close>

definition replaceSymbol :: "symbol \<Rightarrow> symbol \<Rightarrow> symbol" where
  "replaceSymbol s T = T\<lparr>canInline := canInline s, isUsedInRegularObj := isUsedInRegularObj s\<rparr>"

text \<open>\<open>replaceKeepingName\<close> copies the other object over this one, flags included, and puts
  the name back.\<close>

definition replaceKeepingName :: "symbol \<Rightarrow> symbol \<Rightarrow> symbol" where
  "replaceKeepingName s other = other\<lparr>sy_name := sy_name s\<rparr>"

section \<open>Chunks\<close>

datatype chunk_kind = SectionKind | SectionECKind | OtherKind | ImportThunkKind | ECExportThunkKind

record chunk =
  ck_kind :: chunk_kind
  ck_name :: string
  ck_rva :: u32
  ck_live :: bool
  ck_repl :: chunk_id
  ck_symbols :: "sym_id option list"
  ck_assocChildren :: "chunk_id list"
  ck_entryThunk :: "sym_id option"

fun is_section_kind :: "chunk_kind \<Rightarrow> bool" where
  "is_section_kind SectionKind = True"
| "is_section_kind SectionECKind = True"
| "is_section_kind _ = False"

record import_file =
  if_live :: bool
  if_exitThunk :: "sym_id option"

record store =
  syms :: "symbol list"
  chunks :: "chunk list"
  importFiles :: "import_file list"

section \<open>Weak aliases\<close>

text \<open>\<open>Undefined::getWeakAlias\<close>: follow the aliases until a symbol that is not undefined, an
  anti-dependency symbol or a repetition. The chain is the set of symbols already seen;
  a number outside the store stands for a null pointer.\<close>

function weak_loop :: "symbol list \<Rightarrow> sym_id set \<Rightarrow> sym_id option \<Rightarrow> sym_id option" where
  "weak_loop ss weakChain a =
     (case a of
        None \<Rightarrow> None
      | Some i \<Rightarrow>
          if length ss \<le> i then None
          else if isAntiDep (ss ! i) then None
          else if \<not> is_Undefined (sy_body (ss ! i)) then Some i
          else if i \<in> weakChain then None
          else weak_loop ss (insert i weakChain) (weakAlias (sy_body (ss ! i))))"
  by pat_completeness auto
termination
  by (relation "measure (\<lambda>(ss, chain, _). card ({..<length ss} - chain))")
    (auto simp: card_gt_0_iff subset_iff not_le intro!: diff_less)

declare weak_loop.simps [simp del]

definition getWeakAlias :: "symbol list \<Rightarrow> sym_id \<Rightarrow> sym_id option" where
  "getWeakAlias ss s = weak_loop ss {} (weakAlias (sy_body (ss ! s)))"

definition getDefinedWeakAlias :: "symbol list \<Rightarrow> sym_id \<Rightarrow> sym_id option" where
  "getDefinedWeakAlias ss s =
     (case getWeakAlias ss s of
        Some d \<Rightarrow> if is_Defined (sy_body (ss ! d)) then Some d else None
      | None \<Rightarrow> None)"

definition getDefined :: "symbol list \<Rightarrow> sym_id \<Rightarrow> sym_id option" where
  "getDefined ss s =
     (if is_Defined (sy_body (ss ! s)) then Some s
      else if is_Undefined (sy_body (ss ! s)) then getDefinedWeakAlias ss s
      else None)"

text \<open>\<open>resolveWeakAlias\<close> overwrites the undefined symbol with a copy of its target, keeping
  its name and its anti-dependency flag.\<close>

definition resolveWeakAlias :: "symbol list \<Rightarrow> sym_id \<Rightarrow> bool \<times> symbol list" where
  "resolveWeakAlias ss s =
     (case getDefinedWeakAlias ss s of
        None \<Rightarrow> (False, ss)
      | Some d \<Rightarrow> (True, ss[s := (ss ! d)\<lparr>sy_name := sy_name (ss ! s), isAntiDep := isAntiDep (ss ! s)\<rparr>]))"

section \<open>Addresses and liveness\<close>

definition reg_chunk :: "store \<Rightarrow> chunk_id option \<Rightarrow> chunk_id option" where
  "reg_chunk st data =
     (case data of
        Some c \<Rightarrow> if c < length (chunks st) then Some (ck_repl (chunks st ! c)) else None
      | None \<Rightarrow> None)"

text \<open>\<open>Defined::getChunk\<close>; undefined and lazy symbols are unreachable there.\<close>

fun getChunk :: "store \<Rightarrow> symbol_body \<Rightarrow> chunk_id option" where
  "getChunk st (DefinedRegular _ _ data) = reg_chunk st data"
| "getChunk st (DefinedSynthetic c _) = c"
| "getChunk st (DefinedImportData _ location) = location"
| "getChunk st (DefinedImportThunk _ data) = Some data"
| "getChunk st (DefinedLocalImport data) = Some data"
| "getChunk st (DefinedCommon _ _ data) = data"
| "getChunk st _ = None"

definition chunk_rva :: "store \<Rightarrow> chunk_id option \<Rightarrow> u32" where
  "chunk_rva st c = (case c of Some i \<Rightarrow> ck_rva (chunks st ! i) | None \<Rightarrow> 0)"

text \<open>\<open>Defined::getRVA\<close>, in the 64 bits the callers compute with. \<open>DefinedRegular\<close> adds two
  32-bit numbers, so its sum wraps before it is widened.\<close>

fun getRVA :: "u64 \<Rightarrow> store \<Rightarrow> symbol_body \<Rightarrow> u64" where
  "getRVA imageBase st (DefinedAbsolute va) = va - imageBase"
| "getRVA imageBase st (DefinedSynthetic c offset) =
     (case c of Some i \<Rightarrow> ucast (ck_rva (chunks st ! i) + offset) | None \<Rightarrow> 0)"
| "getRVA imageBase st (DefinedRegular f v data) = ucast (chunk_rva st (reg_chunk st data) + v)"
| "getRVA imageBase st b = ucast (chunk_rva st (getChunk st b))"

fun isLive :: "store \<Rightarrow> symbol_body \<Rightarrow> bool" where
  "isLive st (DefinedRegular f v data) =
     (case reg_chunk st data of Some c \<Rightarrow> ck_live (chunks st ! c) | None \<Rightarrow> True)"
| "isLive st (DefinedImportData f location) = if_live (importFiles st ! f)"
| "isLive st (DefinedImportThunk f c) = ck_live (chunks st ! c)"
| "isLive st _ = True"

section \<open>The alias search finds the end of the alias chain\<close>

text \<open>The specification: from an alias pointer, a path of undefined symbols that are not
  anti-dependencies leads to a symbol that is neither.\<close>

inductive alias_to :: "symbol list \<Rightarrow> sym_id option \<Rightarrow> sym_id \<Rightarrow> bool" for ss where
  here: "\<lbrakk>i < length ss; \<not> isAntiDep (ss ! i); \<not> is_Undefined (sy_body (ss ! i))\<rbrakk> \<Longrightarrow> alias_to ss (Some i) i"
| follow: "\<lbrakk>i < length ss; \<not> isAntiDep (ss ! i); is_Undefined (sy_body (ss ! i));
     alias_to ss (weakAlias (sy_body (ss ! i))) j\<rbrakk> \<Longrightarrow> alias_to ss (Some i) j"

inductive_simps alias_to_None [simp]: "alias_to ss None j"
inductive_simps alias_to_Some: "alias_to ss (Some i) j"

lemma alias_to_fun: "alias_to ss a i \<Longrightarrow> alias_to ss a j \<Longrightarrow> i = j"
  by (induction rule: alias_to.induct) (auto simp: alias_to_Some)

lemma weak_loop_sound: "weak_loop ss chain a = Some j \<Longrightarrow> alias_to ss a j"
proof (induction ss chain a rule: weak_loop.induct)
  case (1 ss chain a)
  from "1.prems" show ?case
    by (subst (asm) weak_loop.simps)
      (auto split: option.splits if_splits intro: alias_to.intros dest!: "1.IH")
qed

text \<open>Completeness: a symbol on a path to the end is never visited twice, because the path
  below it is determined. The path is measured by its number of steps.\<close>

inductive alias_steps :: "symbol list \<Rightarrow> nat \<Rightarrow> sym_id option \<Rightarrow> sym_id \<Rightarrow> bool" for ss where
  steps0: "\<lbrakk>i < length ss; \<not> isAntiDep (ss ! i); \<not> is_Undefined (sy_body (ss ! i))\<rbrakk> \<Longrightarrow> alias_steps ss 0 (Some i) i"
| stepsS: "\<lbrakk>i < length ss; \<not> isAntiDep (ss ! i); is_Undefined (sy_body (ss ! i));
     alias_steps ss n (weakAlias (sy_body (ss ! i))) j\<rbrakk> \<Longrightarrow> alias_steps ss (Suc n) (Some i) j"

inductive_simps alias_steps_Some: "alias_steps ss n (Some i) j"
inductive_simps alias_steps_None [simp]: "alias_steps ss n None j"

lemma alias_to_steps: "alias_to ss a j \<Longrightarrow> \<exists>n. alias_steps ss n a j"
  by (induction rule: alias_to.induct) (auto intro: alias_steps.intros)

lemma alias_steps_fun: "alias_steps ss n a j \<Longrightarrow> alias_steps ss m a k \<Longrightarrow> n = m"
  by (induction arbitrary: m rule: alias_steps.induct) (auto simp: alias_steps_Some)

lemma weak_loop_complete:
  assumes "alias_steps ss n a j" and "\<And>i m. i \<in> chain \<Longrightarrow> alias_steps ss m (Some i) j \<Longrightarrow> n < m"
  shows "weak_loop ss chain a = Some j"
  using assms
proof (induction arbitrary: chain rule: alias_steps.induct)
  case (steps0 i)
  then show ?case by (subst weak_loop.simps) simp
next
  case (stepsS i n j)
  have i: "alias_steps ss (Suc n) (Some i) j" using stepsS.hyps by (rule alias_steps.stepsS)
  then have "i \<notin> chain" using stepsS.prems by blast
  moreover have "weak_loop ss (insert i chain) (weakAlias (sy_body (ss ! i))) = Some j"
  proof (rule stepsS.IH)
    fix i' m assume "i' \<in> insert i chain" and m: "alias_steps ss m (Some i') j"
    then show "n < m" using stepsS.prems alias_steps_fun [OF i, of m j] by (auto dest: Suc_lessD)
  qed
  ultimately show ?case using stepsS.hyps by (subst weak_loop.simps) simp
qed

section \<open>Properties\<close>

text \<open>
  \<open>getWeakAlias\<close> returns a symbol exactly when the alias chain of the undefined symbol
  ends, through undefined symbols that are not anti-dependencies, in a symbol that is
  neither; on a cycle, a dangling alias or an anti-dependency it returns null. The search
  terminates on every store.
\<close>

lemma getWeakAlias_iff:
  "getWeakAlias ss s = Some j \<longleftrightarrow> alias_to ss (weakAlias (sy_body (ss ! s))) j"
  unfolding getWeakAlias_def
  using weak_loop_sound weak_loop_complete alias_to_steps by (metis empty_iff)

text \<open>
  after \<open>resolveWeakAlias\<close> succeeds the symbol is defined, has the target's body and
  chunk, and keeps its own name; no other symbol changes.
\<close>

theorem resolveWeakAlias_resolves:
  assumes "s < length ss" and "resolveWeakAlias ss s = (True, ss')"
  shows "is_Defined (sy_body (ss' ! s)) \<and> sy_name (ss' ! s) = sy_name (ss ! s) \<and>
    (\<exists>d. getWeakAlias ss s = Some d \<and> sy_body (ss' ! s) = sy_body (ss ! d)) \<and>
    (\<forall>t. t \<noteq> s \<longrightarrow> ss' ! t = ss ! t)"
  using assms by (auto simp: resolveWeakAlias_def getDefinedWeakAlias_def split: option.splits if_splits)

definition sample_syms :: "symbol list" where
  "sample_syms = [new_symbol ''a'' (Undefined (Some 1)), new_symbol ''b'' (Undefined (Some 2)),
     new_symbol ''c'' (DefinedAbsolute 7)]"

end
