(* ===== verification/MarkLive.thy ===== *)
theory MarkLive
  imports Symbols StrRef "HOL-Library.Monad_Syntax"
begin

text \<open>
  Garbage collection of sections, \<open>lld/COFF/MarkLive.cpp\<close>. The worklist, the live bits and
  the import files are the state; \<open>enqueue\<close>, \<open>addSym\<close>, \<open>addImportFile\<close> and the loop are
  translated one by one. \<open>addSym\<close> and \<open>addImportFile\<close> call each other without a guard, so
  they are partial: an exit thunk that resolves to an import of its own file would recurse
  forever, which is the value \<open>None\<close>. The locale \<open>work_graph\<close> is the interface between
  the marking loop and the graph it explores; the theorem says that the live sections are
  the ones that were live before or are reachable.
\<close>

section \<open>The code\<close>

record gc_state =
  gc_store :: store
  gc_worklist :: "chunk_id list"

definition isDWARF :: "chunk \<Rightarrow> bool" where
  "isDWARF c \<longleftrightarrow> starts_with (ck_name c) ''.debug_'' \<or> ck_name c = ''.eh_frame''"

definition is_live :: "gc_state \<Rightarrow> chunk_id \<Rightarrow> bool" where
  "is_live st c = ck_live (chunks (gc_store st) ! c)"

definition set_chunk_live :: "chunk_id \<Rightarrow> gc_state \<Rightarrow> gc_state" where
  "set_chunk_live c st =
     st\<lparr>gc_store := (gc_store st)\<lparr>chunks :=
          (chunks (gc_store st))[c := (chunks (gc_store st) ! c)\<lparr>ck_live := True\<rparr>]\<rparr>\<rparr>"

definition set_file_live :: "file_id \<Rightarrow> gc_state \<Rightarrow> gc_state" where
  "set_file_live f st =
     st\<lparr>gc_store := (gc_store st)\<lparr>importFiles :=
          (importFiles (gc_store st))[f := (importFiles (gc_store st) ! f)\<lparr>if_live := True\<rparr>]\<rparr>\<rparr>"

text \<open>The initial worklist: the live section chunks of \<open>driver.getChunks()\<close> that are not
  DWARF.\<close>

definition initial_worklist :: "store \<Rightarrow> chunk_id list \<Rightarrow> chunk_id list" where
  "initial_worklist s cs =
     filter (\<lambda>c. is_section_kind (ck_kind (chunks s ! c)) \<and> ck_live (chunks s ! c) \<and> \<not> isDWARF (chunks s ! c)) cs"

definition enqueue :: "chunk_id \<Rightarrow> gc_state \<Rightarrow> gc_state" where
  "enqueue c st =
     (if is_live st c then st
      else (let st1 = set_chunk_live c st in st1\<lparr>gc_worklist := gc_worklist st1 @ [c]\<rparr>))"

text \<open>What \<open>addSym\<close> does with a symbol is decided by the \<open>Defined\<close> it stands for: a section
  to enqueue, an import file (with the thunk chunk for \<open>DefinedImportThunk\<close>), or
  nothing. A regular symbol without a chunk is dereferenced all the same, which has no result.\<close>

datatype mark_target =
    NoTarget
  | NullSection
  | SectionTarget chunk_id
  | ImportTarget file_id "chunk_id option"

definition sym_target :: "store \<Rightarrow> sym_id \<Rightarrow> mark_target" where
  "sym_target st s =
     (case getDefined (syms st) s of
        None \<Rightarrow> NoTarget
      | Some b \<Rightarrow>
          (case sy_body (syms st ! b) of
             DefinedRegular f v data \<Rightarrow>
               (case reg_chunk st data of Some c \<Rightarrow> SectionTarget c | None \<Rightarrow> NullSection)
           | DefinedImportData f location \<Rightarrow> ImportTarget f None
           | DefinedImportThunk f c \<Rightarrow> ImportTarget f (Some c)
           | _ \<Rightarrow> NoTarget))"

definition mark_thunk :: "chunk_id option \<Rightarrow> gc_state \<Rightarrow> gc_state" where
  "mark_thunk t st = (case t of Some c \<Rightarrow> set_chunk_live c st | None \<Rightarrow> st)"

text \<open>\<open>addSym\<close>, with \<open>addImportFile\<close> written out: the file is marked, its exit thunk (if any)
  is added, then the import thunk is marked.\<close>

partial_function (option) addSym :: "sym_id \<Rightarrow> gc_state \<Rightarrow> gc_state option" where
  "addSym s st =
     (case sym_target (gc_store st) s of
        NoTarget \<Rightarrow> Some st
      | NullSection \<Rightarrow> None
      | SectionTarget c \<Rightarrow> Some (enqueue c st)
      | ImportTarget f t \<Rightarrow>
          (case if_exitThunk (importFiles (gc_store st) ! f) of
             None \<Rightarrow> Some (mark_thunk t (set_file_live f st))
           | Some e \<Rightarrow> Option.bind (addSym e (set_file_live f st)) (\<lambda>st1. Some (mark_thunk t st1))))"

primrec addSyms :: "sym_id option list \<Rightarrow> gc_state \<Rightarrow> gc_state option" where
  "addSyms [] st = Some st"
| "addSyms (b # bs) st =
     (case b of
        None \<Rightarrow> addSyms bs st
      | Some s \<Rightarrow> Option.bind (addSym s st) (addSyms bs))"

text \<open>One round of the loop: pop the last section, mark what its relocations, its associated
  sections and its entry thunk refer to.\<close>

definition mark_step :: "gc_state \<Rightarrow> gc_state option" where
  "mark_step st =
     (let sc = last (gc_worklist st);
          st0 = st\<lparr>gc_worklist := butlast (gc_worklist st)\<rparr>;
          c = chunks (gc_store st) ! sc
      in Option.bind (addSyms (ck_symbols c) st0) (\<lambda>st1.
         let st2 = fold enqueue (ck_assocChildren c) st1 in
         case ck_entryThunk c of
           None \<Rightarrow> Some st2
         | Some t \<Rightarrow> addSym t st2))"

partial_function (option) mark_loop :: "gc_state \<Rightarrow> gc_state option" where
  "mark_loop st =
     (if gc_worklist st = [] then Some st
      else Option.bind (mark_step st) mark_loop)"

definition markLive :: "chunk_id list \<Rightarrow> sym_id list \<Rightarrow> store \<Rightarrow> store option" where
  "markLive cs gcroot s =
     Option.bind (addSyms (map Some gcroot) \<lparr>gc_store = s, gc_worklist = initial_worklist s cs\<rparr>)
       (\<lambda>st. map_option gc_store (mark_loop st))"

section \<open>Marking as a graph search\<close>

text \<open>A marking loop over an abstract graph: a step takes the last node of the worklist,
  makes its successors live and puts those that were not live on the worklist.\<close>

locale work_graph =
  fixes step :: "'s \<Rightarrow> 's option"
    and loop :: "'s \<Rightarrow> 's option"
    and work :: "'s \<Rightarrow> 'a list"
    and live :: "'s \<Rightarrow> 'a set"
    and inv :: "'s \<Rightarrow> bool"
    and succ :: "'a \<Rightarrow> 'a set"
    and nodes :: "'a set"
  assumes loop_eq: "loop st = (if work st = [] then Some st else Option.bind (step st) loop)"
    and finite_nodes: "finite nodes"
    and inv_live: "inv st \<Longrightarrow> set (work st) \<subseteq> live st \<and> live st \<subseteq> nodes"
    and step_law: "inv st \<Longrightarrow> work st \<noteq> [] \<Longrightarrow> \<exists>st'. step st = Some st' \<and> inv st' \<and>
        live st' = live st \<union> succ (last (work st)) \<and>
        set (work st') = set (butlast (work st)) \<union> (succ (last (work st)) - live st) \<and>
        Suc (length (work st')) = length (work st) + card (succ (last (work st)) - live st)"
begin

inductive visited :: "'a set \<Rightarrow> 'a set \<Rightarrow> 'a \<Rightarrow> bool" for L W where
  start: "x \<in> W \<Longrightarrow> visited L W x"
| follow: "visited L W x \<Longrightarrow> y \<in> succ x \<Longrightarrow> y \<notin> L \<Longrightarrow> visited L W y"

lemma visited_mono: "W \<subseteq> W' \<Longrightarrow> visited L W y \<Longrightarrow> visited L W' y"
  by (rotate_tac, induction rule: visited.induct) (auto intro: visited.intros)

lemma visited_step:
  assumes "x \<in> W" and "W' = B \<union> (succ x - L)" and "W = insert x B" and "W \<subseteq> L"
  shows "L \<union> {y. visited L W y} = (L \<union> succ x) \<union> {y. visited (L \<union> succ x) W' y}"
proof -
  have "y = x \<or> visited (L \<union> succ x) W' y" if "visited L W y" for y
    using that
  proof induction
    case (start y)
    then show ?case using assms(2,3) by (auto intro: visited.start)
  next
    case (follow y z)
    then show ?case using assms(2) by (auto intro: visited.intros)
  qed
  moreover have "visited L W y" if "visited (L \<union> succ x) W' y" for y
    using that
    by induction (use assms(1-3) in \<open>auto intro: visited.intros\<close>)
  moreover have "visited L W y" if "y \<in> succ x" "y \<notin> L" for y
    using that assms(1) by (auto intro: visited.intros)
  ultimately show ?thesis using assms(1,4) by auto
qed

lemma loop_live:
  assumes "inv st"
  shows "\<exists>st'. loop st = Some st' \<and> inv st' \<and> live st' = live st \<union> {y. visited (live st) (set (work st)) y}"
  using assms
proof (induction "card (nodes - live st) + length (work st)" arbitrary: st rule: less_induct)
  case less
  show ?case
  proof (cases "work st = []")
    case True
    have "\<not> visited (live st) {} y" for y
      by (rule notI, induction rule: visited.induct) auto
    then show ?thesis using True less.prems by (subst loop_eq) auto
  next
    case False
    let ?x = "last (work st)"
    obtain st1 where st1: "step st = Some st1" "inv st1" "live st1 = live st \<union> succ ?x"
      "set (work st1) = set (butlast (work st)) \<union> (succ ?x - live st)"
      "Suc (length (work st1)) = length (work st) + card (succ ?x - live st)"
      using step_law [OF less.prems False] by blast
    have sub: "live st1 \<subseteq> nodes" "set (work st) \<subseteq> live st" using inv_live st1(2) less.prems by auto
    have "nodes - live st = (nodes - live st1) \<union> (succ ?x - live st)"
      "(nodes - live st1) \<inter> (succ ?x - live st) = {}"
      using sub st1(3) by auto
    then have "card (nodes - live st) = card (nodes - live st1) + card (succ ?x - live st)"
      using finite_nodes sub st1(3) by (metis card_Un_disjoint finite_Diff finite_Un finite_subset)
    then have "card (nodes - live st1) + length (work st1) < card (nodes - live st) + length (work st)"
      using st1(5) by simp
    from less.hyps [OF this st1(2)] obtain st2 where st2: "loop st1 = Some st2" "inv st2"
      "live st2 = live st1 \<union> {y. visited (live st1) (set (work st1)) y}" by blast
    have "set (work st) = insert ?x (set (butlast (work st)))"
      using False by (metis append_butlast_last_id list.simps(15) rotate1.simps(2) set_rotate1)
    then have "live st2 = live st \<union> {y. visited (live st) (set (work st)) y}"
      using visited_step [of ?x "set (work st)" _ "set (butlast (work st))" "live st"] False sub(2) st1(3,4) st2(3)
      by auto
    then show ?thesis using False st1(1) st2(1,2) by (subst loop_eq) simp
  qed
qed

end

section \<open>The sections as a graph\<close>

text \<open>Well-formed stores: regular symbols have sections, symbols refer to existing sections, thunk chunks and import files,
  and the exit thunk of an import file is not itself imported.\<close>

definition section_ok :: "store \<Rightarrow> chunk_id \<Rightarrow> bool" where
  "section_ok s c \<longleftrightarrow> c < length (chunks s) \<and> is_section_kind (ck_kind (chunks s ! c))"

fun target_ok :: "store \<Rightarrow> mark_target \<Rightarrow> bool" where
  "target_ok s NoTarget = True"
| "target_ok s NullSection = False"
| "target_ok s (SectionTarget c) = section_ok s c"
| "target_ok s (ImportTarget f t) \<longleftrightarrow>
     f < length (importFiles s) \<and>
     (case t of None \<Rightarrow> True | Some c \<Rightarrow> c < length (chunks s) \<and> \<not> is_section_kind (ck_kind (chunks s ! c)))"

fun ref_ok :: "store \<Rightarrow> sym_id option \<Rightarrow> bool" where
  "ref_ok s None = True"
| "ref_ok s (Some i) \<longleftrightarrow> i < length (syms s)"

definition exit_ok :: "store \<Rightarrow> import_file \<Rightarrow> bool" where
  "exit_ok s f \<longleftrightarrow> ref_ok s (if_exitThunk f) \<and>
     (case if_exitThunk f of
        None \<Rightarrow> True
      | Some e \<Rightarrow> (case sym_target s e of ImportTarget _ _ \<Rightarrow> False | _ \<Rightarrow> True))"

definition chunk_ok :: "store \<Rightarrow> chunk \<Rightarrow> bool" where
  "chunk_ok s c \<longleftrightarrow> list_all (ref_ok s) (ck_symbols c) \<and> ref_ok s (ck_entryThunk c) \<and>
     list_all (section_ok s) (ck_assocChildren c)"

definition wf_store :: "store \<Rightarrow> bool" where
  "wf_store s \<longleftrightarrow> list_all (\<lambda>i. target_ok s (sym_target s i)) [0..<length (syms s)] \<and>
     list_all (exit_ok s) (importFiles s) \<and> list_all (chunk_ok s) (chunks s)"

text \<open>What marking leaves alone: everything but the live bits.\<close>

definition same_static :: "store \<Rightarrow> store \<Rightarrow> bool" where
  "same_static s s' \<longleftrightarrow> syms s' = syms s \<and>
     map (\<lambda>c. c\<lparr>ck_live := False\<rparr>) (chunks s') = map (\<lambda>c. c\<lparr>ck_live := False\<rparr>) (chunks s) \<and>
     map (\<lambda>f. f\<lparr>if_live := False\<rparr>) (importFiles s') = map (\<lambda>f. f\<lparr>if_live := False\<rparr>) (importFiles s)"

definition live_set :: "gc_state \<Rightarrow> chunk_id set" where
  "live_set st = {c. section_ok (gc_store st) c \<and> is_live st c}"

text \<open>The sections a symbol keeps alive, directly or through the exit thunk of its import.\<close>

definition direct_chunks :: "store \<Rightarrow> sym_id \<Rightarrow> chunk_id set" where
  "direct_chunks s i = (case sym_target s i of SectionTarget c \<Rightarrow> {c} | _ \<Rightarrow> {})"

definition sym_chunks :: "store \<Rightarrow> sym_id \<Rightarrow> chunk_id set" where
  "sym_chunks s i =
     (case sym_target s i of
        SectionTarget c \<Rightarrow> {c}
      | ImportTarget f _ \<Rightarrow> (case if_exitThunk (importFiles s ! f) of Some e \<Rightarrow> direct_chunks s e | None \<Rightarrow> {})
      | _ \<Rightarrow> {})"

definition refs_chunks :: "store \<Rightarrow> sym_id option list \<Rightarrow> chunk_id set" where
  "refs_chunks s bs = (\<Union>i \<in> {i. Some i \<in> set bs}. sym_chunks s i)"

definition succ_chunks :: "store \<Rightarrow> chunk_id \<Rightarrow> chunk_id set" where
  "succ_chunks s c =
     (let ch = chunks s ! c in
      refs_chunks s (ck_symbols ch @ [ck_entryThunk ch]) \<union> set (ck_assocChildren ch))"

section \<open>The operations add nodes to the search\<close>

definition adds :: "chunk_id set \<Rightarrow> gc_state \<Rightarrow> gc_state \<Rightarrow> bool" where
  "adds X st st' \<longleftrightarrow> finite X \<and> same_static (gc_store st) (gc_store st') \<and>
     live_set st' = live_set st \<union> X \<and>
     set (gc_worklist st') = set (gc_worklist st) \<union> (X - live_set st) \<and>
     length (gc_worklist st') = length (gc_worklist st) + card (X - live_set st)"

lemma same_static_refl [simp]: "same_static s s"
  by (simp add: same_static_def)

lemma same_static_trans: "same_static s s1 \<Longrightarrow> same_static s1 s2 \<Longrightarrow> same_static s s2"
  by (simp add: same_static_def)

lemma adds_refl: "adds {} st st"
  by (simp add: adds_def)

lemma adds_trans:
  assumes a: "adds X st st1" "adds Y st1 st2"
  shows "adds (X \<union> Y) st st2"
proof -
  have "(X \<union> Y) - live_set st = (X - live_set st) \<union> (Y - (live_set st \<union> X))" by auto
  moreover have "(X - live_set st) \<inter> (Y - (live_set st \<union> X)) = {}" by auto
  ultimately have "card ((X \<union> Y) - live_set st) = card (X - live_set st) + card (Y - (live_set st \<union> X))"
    using a by (simp add: adds_def card_Un_disjoint)
  then show ?thesis using a by (auto simp: adds_def intro: same_static_trans)
qed

lemma strip_chunk_nth:
  assumes "same_static s s'" and "c < length (chunks s)"
  shows "(chunks s' ! c)\<lparr>ck_live := False\<rparr> = (chunks s ! c)\<lparr>ck_live := False\<rparr>"
proof -
  have m: "map (\<lambda>c. c\<lparr>ck_live := False\<rparr>) (chunks s') = map (\<lambda>c. c\<lparr>ck_live := False\<rparr>) (chunks s)"
    using assms(1) by (simp add: same_static_def)
  then have "c < length (chunks s')" using assms(2) by (simp add: map_eq_imp_length_eq [OF m])
  then show ?thesis using arg_cong [OF m, of "\<lambda>xs. xs ! c"] assms(2) by simp
qed

lemma strip_chunk_fields:
  assumes "c\<lparr>ck_live := False\<rparr> = c'\<lparr>ck_live := False\<rparr>"
  shows "ck_kind c = ck_kind c'" "ck_repl c = ck_repl c'" "ck_symbols c = ck_symbols c'"
    "ck_assocChildren c = ck_assocChildren c'" "ck_entryThunk c = ck_entryThunk c'"
  using arg_cong [OF assms, of ck_kind] arg_cong [OF assms, of ck_repl] arg_cong [OF assms, of ck_symbols]
    arg_cong [OF assms, of ck_assocChildren] arg_cong [OF assms, of ck_entryThunk]
  by simp_all

lemma strip_file_fields:
  assumes "f\<lparr>if_live := False\<rparr> = f'\<lparr>if_live := False\<rparr>"
  shows "if_exitThunk f = if_exitThunk f'"
  using arg_cong [OF assms, of if_exitThunk] by simp

lemma same_static_facts:
  assumes "same_static s s'"
  shows "syms s' = syms s" "length (chunks s') = length (chunks s)" "length (importFiles s') = length (importFiles s)"
    "\<And>f. f < length (importFiles s) \<Longrightarrow> if_exitThunk (importFiles s' ! f) = if_exitThunk (importFiles s ! f)"
proof -
  have m: "map (\<lambda>f. f\<lparr>if_live := False\<rparr>) (importFiles s') = map (\<lambda>f. f\<lparr>if_live := False\<rparr>) (importFiles s)"
    "map (\<lambda>c. c\<lparr>ck_live := False\<rparr>) (chunks s') = map (\<lambda>c. c\<lparr>ck_live := False\<rparr>) (chunks s)" "syms s' = syms s"
    using assms by (auto simp: same_static_def)
  then show "syms s' = syms s" "length (chunks s') = length (chunks s)" "length (importFiles s') = length (importFiles s)"
    by (auto dest: map_eq_imp_length_eq)
  show "if_exitThunk (importFiles s' ! f) = if_exitThunk (importFiles s ! f)" if "f < length (importFiles s)" for f
  proof (rule strip_file_fields)
    have "f < length (importFiles s')" using that by (simp add: map_eq_imp_length_eq [OF m(1)])
    then show "(importFiles s' ! f)\<lparr>if_live := False\<rparr> = (importFiles s ! f)\<lparr>if_live := False\<rparr>"
      using arg_cong [OF m(1), of "\<lambda>xs. xs ! f"] that by simp
  qed
qed

lemma section_ok_static: "same_static s s' \<Longrightarrow> section_ok s' c = section_ok s c"
  using strip_chunk_fields(1) [OF strip_chunk_nth, of s s' c] same_static_facts(2) [of s s']
  by (auto simp: section_ok_def)

lemma sym_target_static:
  assumes "same_static s s'"
  shows "sym_target s' i = sym_target s i"
proof -
  have "reg_chunk s' data = reg_chunk s data" for data
    using strip_chunk_fields(2) [OF strip_chunk_nth [OF assms]] same_static_facts(2) [OF assms]
    by (auto simp: reg_chunk_def split: option.splits)
  then show ?thesis
    by (simp only: sym_target_def same_static_facts(1) [OF assms])
qed

lemma adds_static: "adds X st st' \<Longrightarrow> same_static (gc_store st) (gc_store st')"
  by (simp add: adds_def)

lemma is_live_set_chunk:
  "c < length (chunks (gc_store st)) \<Longrightarrow> is_live (set_chunk_live c st) d \<longleftrightarrow> d = c \<or> is_live st d"
  by (auto simp: is_live_def set_chunk_live_def nth_list_update)

lemma static_set_chunk: "same_static (gc_store st) (gc_store (set_chunk_live c st))"
proof (cases "c < length (chunks (gc_store st))")
  case True
  then show ?thesis by (simp add: same_static_def set_chunk_live_def map_update list_update_same_conv)
next
  case False
  then show ?thesis by (simp add: same_static_def set_chunk_live_def list_update_beyond)
qed

lemma static_set_file: "same_static (gc_store st) (gc_store (set_file_live f st))"
proof (cases "f < length (importFiles (gc_store st))")
  case True
  then show ?thesis by (simp add: same_static_def set_file_live_def map_update list_update_same_conv)
next
  case False
  then show ?thesis by (simp add: same_static_def set_file_live_def list_update_beyond)
qed

lemma adds_enqueue:
  assumes "section_ok (gc_store st) c"
  shows "adds {c} st (enqueue c st)"
proof (cases "is_live st c")
  case True
  then have "c \<in> live_set st" using assms by (simp add: live_set_def)
  then show ?thesis using True by (auto simp: adds_def enqueue_def)
next
  case False
  let ?st = "set_chunk_live c st"
  have c: "c < length (chunks (gc_store st))" using assms by (simp add: section_ok_def)
  have "enqueue c st = ?st\<lparr>gc_worklist := gc_worklist ?st @ [c]\<rparr>" "gc_worklist ?st = gc_worklist st"
    using False by (simp_all add: enqueue_def Let_def set_chunk_live_def)
  moreover have "live_set ?st = insert c (live_set st)"
    using assms is_live_set_chunk [OF c] section_ok_static [OF static_set_chunk]
    by (auto simp: live_set_def)
  moreover have "{c} - live_set st = {c}" using False by (auto simp: live_set_def)
  moreover have "live_set (?st\<lparr>gc_worklist := w\<rparr>) = live_set ?st" for w
    by (simp add: live_set_def is_live_def)
  ultimately show ?thesis using static_set_chunk [of st c] by (simp add: adds_def)
qed

lemma adds_set_file: "adds {} st (set_file_live f st)"
  using section_ok_static [OF static_set_file] static_set_file [of st f]
  by (simp add: adds_def live_set_def is_live_def) (simp add: set_file_live_def)

lemma adds_mark_thunk:
  assumes "\<And>c. t = Some c \<Longrightarrow> c < length (chunks (gc_store st)) \<and> \<not> is_section_kind (ck_kind (chunks (gc_store st) ! c))"
  shows "adds {} st (mark_thunk t st)"
proof (cases t)
  case (Some c)
  have "live_set (set_chunk_live c st) = live_set st"
    using assms Some is_live_set_chunk [of c st] section_ok_static [OF static_set_chunk]
    by (auto simp: live_set_def section_ok_def)
  then show ?thesis
    using Some static_set_chunk [of st c] by (simp add: adds_def mark_thunk_def) (simp add: set_chunk_live_def)
qed (simp add: mark_thunk_def adds_refl)

section \<open>The step law\<close>

lemma wf_static: "same_static s s' \<Longrightarrow> target_ok s' t = target_ok s t"
  using strip_chunk_fields(1) [OF strip_chunk_nth, of s s'] same_static_facts(2,3) [of s s']
  by (cases "(s, t)" rule: target_ok.cases) (auto simp: section_ok_static split: option.splits)

lemma wf_targets: "wf_store s \<Longrightarrow> i < length (syms s) \<Longrightarrow> target_ok s (sym_target s i)"
  by (simp add: wf_store_def list_all_iff)

lemma adds_addSym_direct:
  assumes "wf_store s" and "same_static s (gc_store st)" and "i < length (syms s)"
    and "\<And>f t. sym_target s i \<noteq> ImportTarget f t"
  shows "\<exists>st'. addSym i st = Some st' \<and> adds (direct_chunks s i) st st'"
proof -
  have t: "sym_target (gc_store st) i = sym_target s i" using assms(2) by (rule sym_target_static)
  have "target_ok (gc_store st) (sym_target s i)" using wf_targets [OF assms(1,3)] wf_static [OF assms(2)] by simp
  then show ?thesis
    using assms(4)
    by (subst addSym.simps) (cases "sym_target s i"; auto simp: t direct_chunks_def adds_refl adds_enqueue)
qed

lemma adds_addSym:
  assumes "wf_store s" and "same_static s (gc_store st)" and "i < length (syms s)"
  shows "\<exists>st'. addSym i st = Some st' \<and> adds (sym_chunks s i) st st'"
proof (cases "sym_target s i")
  case (ImportTarget f t)
  let ?st = "set_file_live f st"
  have t: "sym_target (gc_store st) i = ImportTarget f t" using sym_target_static [OF assms(2)] ImportTarget by simp
  have ok: "target_ok s (ImportTarget f t)" using wf_targets [OF assms(1,3)] ImportTarget by simp
  then have f: "f < length (importFiles s)" by simp
  have st: "same_static s (gc_store ?st)" using assms(2) static_set_file by (rule same_static_trans)
  have thunk: "adds {} st1 (mark_thunk t st1)" if "same_static s (gc_store st1)" for st1
    using ok wf_static [OF that, of "ImportTarget f t"] by (intro adds_mark_thunk) auto
  have ex: "if_exitThunk (importFiles (gc_store st) ! f) = if_exitThunk (importFiles s ! f)"
    using same_static_facts(4) [OF assms(2) f] .
  show ?thesis
  proof (cases "if_exitThunk (importFiles s ! f)")
    case None
    then show ?thesis
      using t ex adds_trans [OF adds_set_file thunk [OF st]] ImportTarget
      by (subst addSym.simps) (simp add: sym_chunks_def)
  next
    case (Some e)
    have "exit_ok s (importFiles s ! f)" using assms(1) f by (simp add: wf_store_def list_all_length)
    then have e: "e < length (syms s)" "\<And>f t. sym_target s e \<noteq> ImportTarget f t"
      using Some by (auto simp: exit_ok_def)
    obtain st1 where st1: "addSym e ?st = Some st1" "adds (direct_chunks s e) ?st st1"
      using adds_addSym_direct [OF assms(1) st e] by blast
    have "adds (direct_chunks s e) st (mark_thunk t st1)"
      using adds_trans [OF adds_trans [OF adds_set_file st1(2)] thunk]
        same_static_trans [OF st adds_static [OF st1(2)]] by simp
    then show ?thesis
      using t ex Some st1(1) ImportTarget by (subst addSym.simps) (simp add: sym_chunks_def)
  qed
qed (use adds_addSym_direct [OF assms] in \<open>simp_all add: sym_chunks_def direct_chunks_def\<close>)

lemma adds_addSyms:
  assumes "wf_store s" and "same_static s (gc_store st)" and "list_all (ref_ok s) bs"
  shows "\<exists>st'. addSyms bs st = Some st' \<and> adds (refs_chunks s bs) st st'"
  using assms(2,3)
proof (induction bs arbitrary: st)
  case Nil
  then show ?case by (simp add: refs_chunks_def adds_refl)
next
  case (Cons b bs)
  show ?case
  proof (cases b)
    case None
    then have "refs_chunks s (b # bs) = refs_chunks s bs" by (auto simp: refs_chunks_def)
    then show ?thesis using Cons None by simp
  next
    case (Some i)
    obtain st1 where st1: "addSym i st = Some st1" "adds (sym_chunks s i) st st1"
      using adds_addSym [OF assms(1) Cons.prems(1)] Cons.prems(2) Some by auto
    obtain st2 where st2: "addSyms bs st1 = Some st2" "adds (refs_chunks s bs) st1 st2"
      using Cons.IH [of st1] same_static_trans [OF Cons.prems(1) adds_static [OF st1(2)]] Cons.prems(2) by auto
    have "refs_chunks s (b # bs) = sym_chunks s i \<union> refs_chunks s bs" using Some by (auto simp: refs_chunks_def)
    then show ?thesis using Some st1(1) st2(1) adds_trans [OF st1(2) st2(2)] by simp
  qed
qed

lemma adds_enqueue_list:
  assumes "same_static s (gc_store st)" and "list_all (section_ok s) cs"
  shows "adds (set cs) st (fold enqueue cs st)"
  using assms
proof (induction cs arbitrary: st)
  case (Cons c cs)
  then have "adds {c} st (enqueue c st)" using section_ok_static by (intro adds_enqueue) auto
  moreover from this have "same_static s (gc_store (enqueue c st))"
    using Cons.prems(1) adds_static same_static_trans by blast
  ultimately show ?case using Cons adds_trans [of "{c}" st _ "set cs"] by simp
qed (simp add: adds_refl)

lemma adds_mark_step:
  assumes "wf_store s" and "same_static s (gc_store st)" and "last (gc_worklist st) < length (chunks s)"
  shows "\<exists>st'. mark_step st = Some st' \<and>
    adds (succ_chunks s (last (gc_worklist st))) (st\<lparr>gc_worklist := butlast (gc_worklist st)\<rparr>) st'"
proof -
  let ?c = "last (gc_worklist st)" let ?st = "st\<lparr>gc_worklist := butlast (gc_worklist st)\<rparr>" let ?ch = "chunks s ! ?c"
  note f = strip_chunk_fields [OF strip_chunk_nth [OF assms(2,3)]]
  have ok: "chunk_ok s ?ch" using assms(1,3) by (simp add: wf_store_def list_all_length)
  have st: "same_static s (gc_store ?st)" using assms(2) by simp
  obtain st1 where st1: "addSyms (ck_symbols ?ch) ?st = Some st1" "adds (refs_chunks s (ck_symbols ?ch)) ?st st1"
    using adds_addSyms [OF assms(1) st] ok by (auto simp: chunk_ok_def)
  have s1: "same_static s (gc_store st1)" using st adds_static [OF st1(2)] by (rule same_static_trans)
  let ?st2 = "fold enqueue (ck_assocChildren ?ch) st1"
  have a2: "adds (set (ck_assocChildren ?ch)) st1 ?st2"
    using adds_enqueue_list [OF s1] ok by (simp add: chunk_ok_def)
  have s2: "same_static s (gc_store ?st2)" using s1 adds_static [OF a2] by (rule same_static_trans)
  obtain st3 where st3: "addSyms [ck_entryThunk ?ch] ?st2 = Some st3" "adds (refs_chunks s [ck_entryThunk ?ch]) ?st2 st3"
    using adds_addSyms [OF assms(1) s2, of "[ck_entryThunk ?ch]"] ok by (auto simp: chunk_ok_def)
  have "mark_step st = Some st3"
    using st1(1) st3(1) by (cases "ck_entryThunk ?ch") (simp_all add: mark_step_def Let_def f bind_eq_Some_conv)
  moreover have "succ_chunks s ?c = (refs_chunks s (ck_symbols ?ch) \<union> set (ck_assocChildren ?ch)) \<union> refs_chunks s [ck_entryThunk ?ch]"
    by (auto simp: succ_chunks_def Let_def refs_chunks_def)
  ultimately show ?thesis using adds_trans [OF adds_trans [OF st1(2) a2] st3(2)] by auto
qed

definition gc_inv :: "store \<Rightarrow> gc_state \<Rightarrow> bool" where
  "gc_inv s st \<longleftrightarrow> wf_store s \<and> same_static s (gc_store st) \<and> set (gc_worklist st) \<subseteq> live_set st"

lemma live_set_static: "same_static s (gc_store st) \<Longrightarrow> live_set st \<subseteq> {..<length (chunks s)}"
  using section_ok_static [of s "gc_store st"] by (auto simp: live_set_def section_ok_def)

text \<open>The code's worklist loop is a search of the section graph of the initial store.\<close>

interpretation gc: work_graph mark_step mark_loop gc_worklist live_set "gc_inv s" "succ_chunks s" "{..<length (chunks s)}"
  for s
proof
  fix st
  show "mark_loop st = (if gc_worklist st = [] then Some st else Option.bind (mark_step st) mark_loop)"
    by (rule mark_loop.simps)
next
  fix st assume "gc_inv s st"
  then show "set (gc_worklist st) \<subseteq> live_set st \<and> live_set st \<subseteq> {..<length (chunks s)}"
    using live_set_static by (auto simp: gc_inv_def)
next
  fix st assume inv: "gc_inv s st" and ne: "gc_worklist st \<noteq> []"
  let ?x = "last (gc_worklist st)" let ?st = "st\<lparr>gc_worklist := butlast (gc_worklist st)\<rparr>"
  have "?x < length (chunks s)"
    using inv live_set_static [of s st] last_in_set [OF ne] unfolding gc_inv_def by blast
  then obtain st' where st': "mark_step st = Some st'" "adds (succ_chunks s ?x) ?st st'"
    using adds_mark_step [of s st] inv by (auto simp: gc_inv_def)
  have "live_set ?st = live_set st" "same_static s (gc_store ?st)" "length (gc_worklist st) > 0"
    using inv ne by (simp_all add: live_set_def is_live_def gc_inv_def)
  moreover have "set (butlast (gc_worklist st)) \<subseteq> live_set st"
    using inv by (auto simp: gc_inv_def dest: in_set_butlastD)
  moreover have "same_static s (gc_store st')"
    using calculation(2) adds_static [OF st'(2)] by (rule same_static_trans)
  ultimately show "\<exists>st'. mark_step st = Some st' \<and> gc_inv s st' \<and> live_set st' = live_set st \<union> succ_chunks s ?x \<and>
      set (gc_worklist st') = set (butlast (gc_worklist st)) \<union> (succ_chunks s ?x - live_set st) \<and>
      Suc (length (gc_worklist st')) = length (gc_worklist st) + card (succ_chunks s ?x - live_set st)"
    using st' inv by (auto simp: gc_inv_def adds_def)
qed simp

section \<open>Properties\<close>

text \<open>The specification: a section is kept by a GC root, by being live and not DWARF to begin
  with, or by a reference from a section that is itself traversed. A section that was live
  before marking is not traversed because of a reference to it: live DWARF sections keep
  nothing alive.\<close>

inductive kept :: "store \<Rightarrow> chunk_id list \<Rightarrow> sym_id list \<Rightarrow> chunk_id \<Rightarrow> bool" for s cs gcroot where
  root: "r \<in> set gcroot \<Longrightarrow> c \<in> sym_chunks s r \<Longrightarrow> \<not> ck_live (chunks s ! c) \<Longrightarrow> kept s cs gcroot c"
| initial: "c \<in> set (initial_worklist s cs) \<Longrightarrow> kept s cs gcroot c"
| refer: "kept s cs gcroot b \<Longrightarrow> c \<in> succ_chunks s b \<Longrightarrow> \<not> ck_live (chunks s ! c) \<Longrightarrow> kept s cs gcroot c"

lemma live_set_init [simp]:
  "live_set \<lparr>gc_store = s, gc_worklist = w\<rparr> = {c. section_ok s c \<and> ck_live (chunks s ! c)}"
  by (simp add: live_set_def is_live_def)

lemma kept_iff_visited:
  assumes "\<And>r. r \<in> set gcroot \<Longrightarrow> \<forall>c \<in> sym_chunks s r. section_ok s c"
    and "\<And>b. kept s cs gcroot b \<Longrightarrow> \<forall>c \<in> succ_chunks s b. section_ok s c"
    and "L = {c. section_ok s c \<and> ck_live (chunks s ! c)}" and "R = refs_chunks s (map Some gcroot)"
    and "W = set (initial_worklist s cs) \<union> (R - L)"
  shows "kept s cs gcroot c \<longleftrightarrow> gc.visited s (L \<union> R) W c"
proof
  have R: "R = (\<Union>r \<in> set gcroot. sym_chunks s r)" using assms(4) by (auto simp: refs_chunks_def)
  show "gc.visited s (L \<union> R) W c" if "kept s cs gcroot c"
    using that
  proof induction
    case (root r c)
    then show ?case using assms(3,5) R by (auto intro: gc.visited.start)
  next
    case (initial c)
    then show ?case using assms(5) by (auto intro: gc.visited.start)
  next
    case (refer b c)
    then have "c \<notin> L" using assms(3) by auto
    then show ?case using refer assms(5) by (cases "c \<in> R") (auto intro: gc.visited.intros)
  qed
  show "kept s cs gcroot c" if "gc.visited s (L \<union> R) W c"
    using that
  proof induction
    case (start c)
    then show ?case using assms(1,3,5) R by (auto intro: kept.intros)
  next
    case (follow b c)
    then show ?case using assms(2) [OF follow.IH] assms(3) by (auto intro: kept.refer)
  qed
qed

lemma direct_chunks_ok:
  "wf_store s \<Longrightarrow> i < length (syms s) \<Longrightarrow> c \<in> direct_chunks s i \<Longrightarrow> section_ok s c"
  using wf_targets [of s i] by (auto simp: direct_chunks_def split: mark_target.splits)

lemma sym_chunks_ok:
  assumes "wf_store s" and "i < length (syms s)" and "c \<in> sym_chunks s i"
  shows "section_ok s c"
proof (cases "sym_target s i")
  case (ImportTarget f t)
  then have f: "f < length (importFiles s)" using wf_targets [OF assms(1,2)] by simp
  then obtain e where e: "if_exitThunk (importFiles s ! f) = Some e" "c \<in> direct_chunks s e"
    using assms(3) ImportTarget by (auto simp: sym_chunks_def split: option.splits)
  have "exit_ok s (importFiles s ! f)" using assms(1) f by (simp add: wf_store_def list_all_length)
  then have "e < length (syms s)" using e(1) by (simp add: exit_ok_def)
  then show ?thesis using direct_chunks_ok [OF assms(1)] e(2) by blast
qed (use assms wf_targets [OF assms(1,2)] in \<open>auto simp: sym_chunks_def\<close>)

lemma succ_chunks_ok:
  assumes "wf_store s" and "b < length (chunks s)" and "c \<in> succ_chunks s b"
  shows "section_ok s c"
proof -
  have "chunk_ok s (chunks s ! b)" using assms(1,2) by (simp add: wf_store_def list_all_length)
  then show ?thesis
    using assms(3) sym_chunks_ok [OF assms(1)]
    by (auto simp: succ_chunks_def Let_def refs_chunks_def chunk_ok_def list_all_iff dest!: sym [of "Some _"])
qed

text \<open>
  C5: in a store whose references are in range and whose regular symbols all have their section, \<open>markLive\<close> terminates, and a section is live afterwards exactly when it was live
  before or is kept: reachable from the GC roots and the live non-DWARF sections through
  relocations, weak aliases, associated sections, entry thunks and the exit thunks of
  imported functions. Nothing but live bits changes.
\<close>

theorem markLive_reachable:
  assumes "wf_store s" and "list_all (\<lambda>c. c < length (chunks s)) cs" and "list_all (\<lambda>r. r < length (syms s)) gcroot"
  shows "\<exists>s'. markLive cs gcroot s = Some s' \<and> same_static s s' \<and>
    (\<forall>c. section_ok s c \<longrightarrow> ck_live (chunks s' ! c) = (ck_live (chunks s ! c) \<or> kept s cs gcroot c))"
proof -
  let ?st = "\<lparr>gc_store = s, gc_worklist = initial_worklist s cs\<rparr>"
  let ?L = "{c. section_ok s c \<and> ck_live (chunks s ! c)}" and ?R = "refs_chunks s (map Some gcroot)"
  have roots: "r < length (syms s)" if "r \<in> set gcroot" for r using assms(3) that by (simp add: list_all_iff)
  have init: "section_ok s c \<and> ck_live (chunks s ! c)" if "c \<in> set (initial_worklist s cs)" for c
    using that assms(2) by (auto simp: initial_worklist_def section_ok_def list_all_iff)
  have kept_ok: "section_ok s c" if "kept s cs gcroot c" for c
    using that
  proof induction
    case (refer b c)
    then show ?case using succ_chunks_ok [OF assms(1)] by (auto simp: section_ok_def)
  qed (use init sym_chunks_ok [OF assms(1) roots] in auto)
  have kept_succ_ok: "section_ok s c" if "kept s cs gcroot b" "c \<in> succ_chunks s b" for b c
    using succ_chunks_ok [OF assms(1) _ that(2)] kept_ok [OF that(1)] by (simp add: section_ok_def)
  obtain st1 where st1: "addSyms (map Some gcroot) ?st = Some st1" "adds ?R ?st st1"
    using adds_addSyms [OF assms(1), of ?st "map Some gcroot"] assms(3) by (auto simp: list_all_iff)
  have inv: "gc_inv s st1" using assms(1) st1(2) init by (auto simp: gc_inv_def adds_def)
  from gc.loop_live [OF inv] obtain st2 where st2: "mark_loop st1 = Some st2" "gc_inv s st2"
    "live_set st2 = live_set st1 \<union> {y. gc.visited s (live_set st1) (set (gc_worklist st1)) y}" by blast
  have W: "live_set st1 = ?L \<union> ?R" "set (gc_worklist st1) = set (initial_worklist s cs) \<union> (?R - ?L)"
    using st1(2) by (auto simp: adds_def)
  have "kept s cs gcroot c \<longleftrightarrow> gc.visited s (?L \<union> ?R) (set (initial_worklist s cs) \<union> (?R - ?L)) c" for c
    by (rule kept_iff_visited) (use sym_chunks_ok [OF assms(1) roots] kept_succ_ok in auto)
  then have "live_set st2 = (?L \<union> ?R) \<union> {c. kept s cs gcroot c}" using st2(3) W by simp
  moreover have "c \<in> ?L \<or> kept s cs gcroot c" if "c \<in> ?R" for c
    using that roots sym_chunks_ok [OF assms(1)] by (auto simp: refs_chunks_def intro: kept.root)
  ultimately have L: "live_set st2 = ?L \<union> {c. kept s cs gcroot c}" by auto
  have static: "same_static s (gc_store st2)" using st2(2) by (simp add: gc_inv_def)
  have "ck_live (chunks (gc_store st2) ! c) = (ck_live (chunks s ! c) \<or> kept s cs gcroot c)" if "section_ok s c" for c
    using L that section_ok_static [OF static, of c] by (auto simp: live_set_def is_live_def)
  then show ?thesis using st1(1) st2(1) static by (simp add: markLive_def)
qed

definition gc_chunk :: "bool \<Rightarrow> sym_id option list \<Rightarrow> chunk" where
  "gc_chunk l bs = \<lparr>ck_kind = SectionKind, ck_name = ''.text'', ck_rva = 0, ck_live = l, ck_repl = 0,
     ck_symbols = bs, ck_assocChildren = [], ck_entryThunk = None\<rparr>"

definition gc_sample :: store where
  "gc_sample = \<lparr>syms = [new_symbol ''f'' (DefinedRegular 0 0 (Some 1))],
     chunks = [gc_chunk True [Some 0], (gc_chunk False [])\<lparr>ck_repl := 1\<rparr>, gc_chunk False []], importFiles = []\<rparr>"

theorem markLive_reachable_witness:
  "\<exists>s'. markLive [0, 1, 2] [] gc_sample = Some s' \<and>
     ck_live (chunks s' ! 2) = kept gc_sample [0, 1, 2] [] 2"
proof -
  have "wf_store gc_sample"
    by (simp add: wf_store_def gc_sample_def gc_chunk_def sym_target_def getDefined_def new_symbol_def
        reg_chunk_def section_ok_def chunk_ok_def)
  from markLive_reachable [OF this, of "[0, 1, 2]" "[]"] show ?thesis
    by (auto simp: gc_sample_def section_ok_def gc_chunk_def)
qed

end
