(* ===== verification/Bytes.thy ===== *)
theory Bytes
  imports Prelude
begin

text \<open>
  Little-endian fields of a byte buffer, as \<open>llvm/Support/Endian.h\<close> reads and writes them
  (\<open>read16le\<close>, \<open>write32le\<close>, \<open>ulittle32_t\<close> members and so on), for 16, 32 and 64 bits. The
  locale \<open>le_field\<close> is the interface the relocation code and the chunk writers rely on:
  what a read returns after a write, and that a write changes nothing else. A buffer is
  the list of its bytes and a pointer into it an offset; memory outside the buffer is not
  modelled, so every law asks for the field to lie inside.
\<close>

unbundle bit_operations_syntax

section \<open>Bit enumeration\<close>

text \<open>Two words are equal when they agree on each of their bits, bit by bit.\<close>

lemma nat16: "(\<forall>n<16. P n) \<longleftrightarrow>
    P 0 \<and> P 1 \<and> P 2 \<and> P 3 \<and> P 4 \<and> P 5 \<and> P 6 \<and> P 7 \<and> P 8 \<and> P 9 \<and>
    P 10 \<and> P 11 \<and> P 12 \<and> P 13 \<and> P 14 \<and> P (15::nat)"
  by (simp add: numeral_eq_Suc All_less_Suc conj_ac)

lemma nat32: "(\<forall>n<32. P n) \<longleftrightarrow>
    P 0 \<and> P 1 \<and> P 2 \<and> P 3 \<and> P 4 \<and> P 5 \<and> P 6 \<and> P 7 \<and> P 8 \<and> P 9 \<and>
    P 10 \<and> P 11 \<and> P 12 \<and> P 13 \<and> P 14 \<and> P 15 \<and> P 16 \<and> P 17 \<and> P 18 \<and> P 19 \<and>
    P 20 \<and> P 21 \<and> P 22 \<and> P 23 \<and> P 24 \<and> P 25 \<and> P 26 \<and> P 27 \<and> P 28 \<and> P 29 \<and>
    P 30 \<and> P (31::nat)"
  by (simp add: numeral_eq_Suc All_less_Suc conj_ac)

lemma bits_eqI16: "(\<forall>n<16. bit (a :: u16) n = bit b n) \<Longrightarrow> a = b"
  by (rule bit_word_eqI) simp

lemma bits_eqI32: "(\<forall>n<32. bit (a :: u32) n = bit b n) \<Longrightarrow> a = b"
  by (rule bit_word_eqI) simp

lemma bit_times_2: "bit ((a :: 'a::len word) * 2) n \<longleftrightarrow> 0 < n \<and> n < LENGTH('a) \<and> bit a (n - 1)"
  by (auto simp: mult.commute [of a 2] bit_double_iff)

lemma push_drop_word: "push_bit n (drop_bit n (x :: 'a::len word)) = x AND NOT (mask n)"
  by (rule bit_word_eqI) (auto simp: bit_simps)

lemma bit_sint: "n < LENGTH('a) \<Longrightarrow> bit (sint (w :: 'a::len word)) n = bit w n"
proof -
  assume "n < LENGTH('a)"
  then have "min (LENGTH('a) - Suc 0) n = n" by simp
  then show ?thesis by (auto simp: sint_uint bit_signed_take_bit_iff bit_uint_iff dest: bit_imp_le_length)
qed

lemma signed_take_bit_word_self:
  fixes w :: "'a::len word"
  assumes "- (2 ^ k) \<le> sint w" and "sint w < 2 ^ k"
  shows "signed_take_bit k w = w"
proof (rule bit_word_eqI)
  fix n assume n: "n < LENGTH('a)"
  have "signed_take_bit k (sint w) = sint w" using assms by (simp add: signed_take_bit_int_eq_self)
  then have "bit (sint w) n = bit (sint w) (min k n)" by (metis bit_signed_take_bit_iff possible_bit_int)
  then show "bit (signed_take_bit k w) n = bit w n"
    using n bit_sint [of n w] bit_sint [of "min k n" w] by (simp add: bit_signed_take_bit_iff)
qed

section \<open>Words as byte lists\<close>

primrec bytes_of :: "nat \<Rightarrow> 'a::len word \<Rightarrow> byte list" where
  "bytes_of 0 w = []"
| "bytes_of (Suc n) w = ucast w # bytes_of n (drop_bit 8 w)"

primrec word_of_bytes :: "byte list \<Rightarrow> 'a::len word" where
  "word_of_bytes [] = 0"
| "word_of_bytes (b # bs) = ucast b OR push_bit 8 (word_of_bytes bs)"

lemma length_bytes_of [simp]: "length (bytes_of n w) = n"
  by (induction n arbitrary: w) auto

lemma bit_word_of_bytes:
  "i < LENGTH('a) \<Longrightarrow> bit (word_of_bytes bs :: 'a::len word) i \<longleftrightarrow> i div 8 < length bs \<and> bit (bs ! (i div 8)) (i mod 8)"
proof (induction bs arbitrary: i)
  case (Cons b bs)
  show ?case
  proof (cases "i < 8")
    case True
    then show ?thesis using Cons.prems by (simp add: bit_simps)
  next
    case False
    then have "i - 8 < LENGTH('a)" "i div 8 = Suc ((i - 8) div 8)" "i mod 8 = (i - 8) mod 8"
      using Cons.prems by (simp_all add: le_div_geq le_mod_geq)
    then show ?thesis
      using Cons.IH [of "i - 8"] Cons.prems False
      by (auto simp: bit_simps dest: bit_imp_le_length)
  qed
qed simp

lemma bit_bytes_of_nth:
  "k < n \<Longrightarrow> bit (bytes_of n (w :: 'a::len word) ! k) i \<longleftrightarrow> i < 8 \<and> bit w (8 * k + i)"
proof (induction n arbitrary: w k)
  case (Suc n)
  then show ?case
    by (cases k) (auto simp: bit_simps add.assoc)
qed simp

lemma word_of_bytes_of [simp]:
  fixes w :: "'a::len word"
  assumes "LENGTH('a) \<le> 8 * n"
  shows "word_of_bytes (bytes_of n w) = w"
proof (rule bit_word_eqI)
  fix i assume i: "i < LENGTH('a)"
  with assms have "i div 8 < n" by auto
  with i show "bit (word_of_bytes (bytes_of n w) :: 'a word) i = bit w i"
    by (simp add: bit_word_of_bytes bit_bytes_of_nth)
qed

lemma bytes_of_word_of_bytes:
  assumes "8 * length bs \<le> LENGTH('a)"
  shows "bytes_of (length bs) (word_of_bytes bs :: 'a::len word) = bs"
proof (rule nth_equalityI)
  fix k assume "k < length (bytes_of (length bs) (word_of_bytes bs :: 'a word))"
  then have k: "k < length bs" by simp
  show "bytes_of (length bs) (word_of_bytes bs :: 'a word) ! k = bs ! k"
  proof (rule bit_word_eqI)
    fix i assume "i < LENGTH(8)"
    then have "i < 8" by simp
    with k assms have "8 * k + i < LENGTH('a)" by auto
    with k \<open>i < 8\<close> show "bit (bytes_of (length bs) (word_of_bytes bs :: 'a word) ! k) i = bit (bs ! k) i"
      by (simp add: bit_bytes_of_nth bit_word_of_bytes)
  qed
qed simp

section \<open>The accessors of Endian.h\<close>

definition read16le :: "buffer \<Rightarrow> nat \<Rightarrow> u16" where
  "read16le buf P = word_of_bytes (sub buf P 2)"

definition read32le :: "buffer \<Rightarrow> nat \<Rightarrow> u32" where
  "read32le buf P = word_of_bytes (sub buf P 4)"

definition read64le :: "buffer \<Rightarrow> nat \<Rightarrow> u64" where
  "read64le buf P = word_of_bytes (sub buf P 8)"

definition write16le :: "buffer \<Rightarrow> nat \<Rightarrow> u16 \<Rightarrow> buffer" where
  "write16le buf P V = put buf P (bytes_of 2 V)"

definition write32le :: "buffer \<Rightarrow> nat \<Rightarrow> u32 \<Rightarrow> buffer" where
  "write32le buf P V = put buf P (bytes_of 4 V)"

definition write64le :: "buffer \<Rightarrow> nat \<Rightarrow> u64 \<Rightarrow> buffer" where
  "write64le buf P V = put buf P (bytes_of 8 V)"

section \<open>The interface\<close>

locale le_field =
  fixes rd :: "buffer \<Rightarrow> nat \<Rightarrow> 'w"
    and wr :: "buffer \<Rightarrow> nat \<Rightarrow> 'w \<Rightarrow> buffer"
    and width :: nat
  assumes rd_local: "\<lbrakk>P + width \<le> length buf; sub buf' P' width = sub buf P width\<rbrakk> \<Longrightarrow> rd buf' P' = rd buf P"
    and rd_wr: "P + width \<le> length buf \<Longrightarrow> rd (wr buf P V) P = V"
    and wr_rd: "P + width \<le> length buf \<Longrightarrow> wr buf P (rd buf P) = buf"
    and wr_wr: "P + width \<le> length buf \<Longrightarrow> wr (wr buf P V) P V' = wr buf P V'"
    and length_wr: "P + width \<le> length buf \<Longrightarrow> length (wr buf P V) = length buf"
    and wr_frame: "\<lbrakk>P + width \<le> length buf; i < length buf; i < P \<or> P + width \<le> i\<rbrakk> \<Longrightarrow> wr buf P V ! i = buf ! i"
begin

text \<open>A read-modify-write of one field, the shape of every relocation.\<close>

definition upd :: "buffer \<Rightarrow> nat \<Rightarrow> ('w \<Rightarrow> 'w) \<Rightarrow> buffer" where
  "upd buf P f = wr buf P (f (rd buf P))"

lemma rd_upd: "P + width \<le> length buf \<Longrightarrow> rd (upd buf P f) P = f (rd buf P)"
  by (simp add: upd_def rd_wr)

lemma length_upd: "P + width \<le> length buf \<Longrightarrow> length (upd buf P f) = length buf"
  by (simp add: upd_def length_wr)

lemma upd_frame:
  "\<lbrakk>P + width \<le> length buf; i < length buf; i < P \<or> P + width \<le> i\<rbrakk> \<Longrightarrow> upd buf P f ! i = buf ! i"
  by (simp add: upd_def wr_frame)

lemma upd_upd: "P + width \<le> length buf \<Longrightarrow> upd (upd buf P f) P g = upd buf P (g \<circ> f)"
  by (simp add: upd_def rd_wr wr_wr)

lemma upd_id: "P + width \<le> length buf \<Longrightarrow> upd buf P (\<lambda>v. v) = buf"
  by (simp add: upd_def wr_rd)

lemma sub_wr_disjoint:
  assumes "P + width \<le> length buf" and "q + n \<le> P \<or> P + width \<le> q" and "q + n \<le> length buf"
  shows "sub (wr buf P V) q n = sub buf q n"
  using assms by (intro nth_equalityI) (auto simp: sub_def length_wr wr_frame)

lemma rd_wr_disjoint:
  assumes "P + width \<le> length buf" and "q + width \<le> P \<or> P + width \<le> q" and "q + width \<le> length buf"
  shows "rd (wr buf P V) q = rd buf q"
  by (rule rd_local) (use assms sub_wr_disjoint in auto)

end

lemma sub_put_same': "off + n \<le> length xs \<Longrightarrow> length ys = n \<Longrightarrow> sub (put xs off ys) off n = ys"
  using sub_put_same [of off ys xs] by simp

lemma put_wr_rd:
  assumes "P + n \<le> length buf" and "8 * n \<le> LENGTH('a)"
  shows "put buf P (bytes_of n (word_of_bytes (sub buf P n) :: 'a::len word)) = buf"
proof -
  have "length (sub buf P n) = n" using assms(1) by simp
  then have "bytes_of n (word_of_bytes (sub buf P n) :: 'a word) = sub buf P n"
    using bytes_of_word_of_bytes [of "sub buf P n", where 'a = 'a] assms(2) by simp
  then show ?thesis using assms(1) by (simp add: put_sub_id)
qed

lemmas field_defs = read16le_def read32le_def read64le_def write16le_def write32le_def write64le_def

interpretation le16: le_field read16le write16le 2
  by unfold_locales (auto simp: field_defs sub_put_same' put_wr_rd put_put_same put_nth)

interpretation le32: le_field read32le write32le 4
  by unfold_locales (auto simp: field_defs sub_put_same' put_wr_rd put_put_same put_nth)

interpretation le64: le_field read64le write64le 8
  by unfold_locales (auto simp: field_defs sub_put_same' put_wr_rd put_put_same put_nth)

text \<open>Fields of different widths.\<close>

lemma read_sub_eq:
  "sub buf' P' 2 = sub buf P 2 \<Longrightarrow> read16le buf' P' = read16le buf P"
  "sub buf' P' 4 = sub buf P 4 \<Longrightarrow> read32le buf' P' = read32le buf P"
  "sub buf' P' 8 = sub buf P 8 \<Longrightarrow> read64le buf' P' = read64le buf P"
  by (simp_all add: field_defs)

lemma sub_eqI:
  assumes "length buf' = length buf" and "P + n \<le> length buf"
    and "\<And>i. P \<le> i \<Longrightarrow> i < P + n \<Longrightarrow> buf' ! i = buf ! i"
  shows "sub buf' P n = sub buf P n"
  using assms by (intro nth_equalityI) (auto simp: sub_def)

lemmas le_len [simp] = le16.length_wr le32.length_wr le64.length_wr
lemmas le_rd [simp] = le16.rd_wr le32.rd_wr le64.rd_wr
lemmas le_frame = le16.wr_frame le32.wr_frame le64.wr_frame
lemmas le_sub = le16.sub_wr_disjoint le32.sub_wr_disjoint le64.sub_wr_disjoint
lemmas le_other = le16.rd_wr_disjoint le32.rd_wr_disjoint le64.rd_wr_disjoint

end
