(* ===== verification/Reloc.thy ===== *)
theory Reloc
  imports Bytes Symbols StrRef
begin

text \<open>
  Relocations of section chunks, the first half of \<open>lld/COFF/Chunks.cpp\<close>: the field helpers
  (\<open>add32\<close>, \<open>or16\<close>), the instruction encoders for Thumb and AArch64, the four \<open>applyRel\<close>
  switches, \<open>applyRelocation\<close>, \<open>writeTo\<close> and \<open>writeAndRelocateSubsection\<close>. The output image
  is a byte buffer, \<open>off\<close> an offset in it; \<open>error(...)\<close> records a diagnostic and goes on, so
  every routine returns the diagnostics it raised with the new buffer. The theorems decode
  the patched instruction with the architecture's own field layout and compare it with the
  address arithmetic the relocation type asks for.
\<close>

unbundle bit_operations_syntax

section \<open>Data\<close>

datatype reloc_error =
    SecRelAbsolute
  | SecRelOverflow
  | UnsupportedType u16
  | UnexpectedInstruction bool
  | RelocationOutOfRange
  | MisalignedLdr
  | SecRelHighOverflow
  | RelocationToDiscarded
  | BeyondSection

type_synonym written = "reloc_error list \<times> buffer"

record output_section =
  os_RVA :: u64
  os_sectionIndex :: u32
  os_Characteristics :: u32

record coff_relocation =
  VirtualAddress :: u32
  SymbolTableIndex :: u32
  rel_Type :: u16

datatype arch = x86_64 | x86 | thumb | aarch64

definition IMAGE_SCN_MEM_EXECUTE :: u32 where
  "IMAGE_SCN_MEM_EXECUTE = 0x20000000"

section \<open>Field helpers\<close>

definition add16 :: "buffer \<Rightarrow> nat \<Rightarrow> u16 \<Rightarrow> buffer" where
  "add16 buf p v = write16le buf p (read16le buf p + v)"

definition add32 :: "buffer \<Rightarrow> nat \<Rightarrow> u32 \<Rightarrow> buffer" where
  "add32 buf p v = write32le buf p (read32le buf p + v)"

definition add64 :: "buffer \<Rightarrow> nat \<Rightarrow> u64 \<Rightarrow> buffer" where
  "add64 buf p v = write64le buf p (read64le buf p + v)"

definition or16 :: "buffer \<Rightarrow> nat \<Rightarrow> u16 \<Rightarrow> buffer" where
  "or16 buf p v = write16le buf p (read16le buf p OR v)"

definition or32 :: "buffer \<Rightarrow> nat \<Rightarrow> u32 \<Rightarrow> buffer" where
  "or32 buf p v = write32le buf p (read32le buf p OR v)"

text \<open>\<open>isInt<n>\<close> of \<open>MathExtras.h\<close>.\<close>

definition isInt :: "nat \<Rightarrow> 'a::len word \<Rightarrow> bool" where
  "isInt n v \<longleftrightarrow> - (2 ^ (n - 1)) \<le> sint v \<and> sint v < 2 ^ (n - 1)"

definition isCodeView :: "string \<Rightarrow> bool" where
  "isCodeView name \<longleftrightarrow> name = ''.debug'' \<or> starts_with name ''.debug$''"

definition isDWARF_name :: "string \<Rightarrow> bool" where
  "isDWARF_name name \<longleftrightarrow> starts_with name ''.debug_'' \<or> name = ''.eh_frame''"

definition checkSecRel :: "string \<Rightarrow> output_section option \<Rightarrow> reloc_error list \<times> bool" where
  "checkSecRel sec os =
     (if os \<noteq> None then ([], True)
      else if isCodeView sec then ([], False)
      else ([SecRelAbsolute], False))"

definition applySecRel :: "string \<Rightarrow> nat \<Rightarrow> output_section option \<Rightarrow> u64 \<Rightarrow> buffer \<Rightarrow> written" where
  "applySecRel sec off os s buf =
     (case checkSecRel sec os of
        (errs, False) \<Rightarrow> (errs, buf)
      | (errs, True) \<Rightarrow>
          (let secRel = s - os_RVA (the os) in
           if secRel > 0xFFFFFFFF then (errs @ [SecRelOverflow], buf)
           else (errs, add32 buf off (ucast secRel))))"

definition applySecIdx :: "nat \<Rightarrow> output_section option \<Rightarrow> u32 \<Rightarrow> buffer \<Rightarrow> buffer" where
  "applySecIdx off os numOutputSections buf =
     (case os of
        Some o' \<Rightarrow> add16 buf off (ucast (os_sectionIndex o'))
      | None \<Rightarrow> add16 buf off (ucast (numOutputSections + 1)))"

section \<open>x64 and x86\<close>

definition applyRelX64 ::
  "string \<Rightarrow> u32 \<Rightarrow> nat \<Rightarrow> u16 \<Rightarrow> output_section option \<Rightarrow> u64 \<Rightarrow> u64 \<Rightarrow> u64 \<Rightarrow> buffer \<Rightarrow> written" where
  "applyRelX64 sec numOS off type os s p imageBase buf =
     (if type = 0x0002 then ([], add32 buf off (ucast (s + imageBase)))
      else if type = 0x0001 then ([], add64 buf off (s + imageBase))
      else if type = 0x0003 then ([], add32 buf off (ucast s))
      else if type = 0x0004 then ([], add32 buf off (ucast (s - p - 4)))
      else if type = 0x0005 then ([], add32 buf off (ucast (s - p - 5)))
      else if type = 0x0006 then ([], add32 buf off (ucast (s - p - 6)))
      else if type = 0x0007 then ([], add32 buf off (ucast (s - p - 7)))
      else if type = 0x0008 then ([], add32 buf off (ucast (s - p - 8)))
      else if type = 0x0009 then ([], add32 buf off (ucast (s - p - 9)))
      else if type = 0x000A then ([], applySecIdx off os numOS buf)
      else if type = 0x000B then applySecRel sec off os s buf
      else ([UnsupportedType type], buf))"

definition applyRelX86 ::
  "string \<Rightarrow> u32 \<Rightarrow> nat \<Rightarrow> u16 \<Rightarrow> output_section option \<Rightarrow> u64 \<Rightarrow> u64 \<Rightarrow> u64 \<Rightarrow> buffer \<Rightarrow> written" where
  "applyRelX86 sec numOS off type os s p imageBase buf =
     (if type = 0x0000 then ([], buf)
      else if type = 0x0006 then ([], add32 buf off (ucast (s + imageBase)))
      else if type = 0x0007 then ([], add32 buf off (ucast s))
      else if type = 0x0014 then ([], add32 buf off (ucast (s - p - 4)))
      else if type = 0x000A then ([], applySecIdx off os numOS buf)
      else if type = 0x000B then applySecRel sec off os s buf
      else ([UnsupportedType type], buf))"

section \<open>Thumb\<close>

definition mov_op1 :: "u16 \<Rightarrow> u16 \<Rightarrow> u16" where
  "mov_op1 op1 v = (op1 AND 0xfbf0) OR drop_bit 1 (v AND 0x800) OR (drop_bit 12 v AND 0xf)"

definition mov_op2 :: "u16 \<Rightarrow> u16 \<Rightarrow> u16" where
  "mov_op2 op2 v = (op2 AND 0x8f00) OR push_bit 4 (v AND 0x700) OR (v AND 0xff)"

definition applyMOV :: "nat \<Rightarrow> u16 \<Rightarrow> buffer \<Rightarrow> buffer" where
  "applyMOV off v buf =
     (let buf1 = write16le buf off (mov_op1 (read16le buf off) v)
      in write16le buf1 (off + 2) (mov_op2 (read16le buf1 (off + 2)) v))"

definition readMOV :: "nat \<Rightarrow> bool \<Rightarrow> buffer \<Rightarrow> reloc_error list \<times> u16" where
  "readMOV off movt buf =
     (let op1 = read16le buf off;
          e1 = (if op1 AND 0xfbf0 \<noteq> (if movt then 0xf2c0 else 0xf240) then [UnexpectedInstruction movt] else []);
          op2 = read16le buf (off + 2);
          e2 = (if op2 AND 0x8000 \<noteq> 0 then [UnexpectedInstruction movt] else [])
      in (e1 @ e2, (op2 AND 0x00ff) OR (drop_bit 4 op2 AND 0x0700) OR (push_bit 1 op1 AND 0x0800) OR
            push_bit 12 (op1 AND 0x000f)))"

definition applyMOV32T :: "nat \<Rightarrow> u32 \<Rightarrow> buffer \<Rightarrow> written" where
  "applyMOV32T off v buf =
     (let (e1, immW) = readMOV off False buf;
          (e2, immT) = readMOV (off + 4) True buf;
          imm = ucast immW OR push_bit 16 (ucast immT);
          v' = v + imm
      in (e1 @ e2, applyMOV (off + 4) (ucast (drop_bit 16 v')) (applyMOV off (ucast v') buf)))"

text \<open>The shifts of the signed displacement are arithmetic.\<close>

definition applyBranch20T :: "nat \<Rightarrow> u32 \<Rightarrow> buffer \<Rightarrow> written" where
  "applyBranch20T off v buf =
     (let errs = (if isInt 21 v then [] else [RelocationOutOfRange]);
          s = (if sint v < 0 then 1 else 0) :: u32;
          j1 = signed_drop_bit 19 v AND 1;
          j2 = signed_drop_bit 18 v AND 1;
          buf1 = or16 buf off (ucast (push_bit 10 s OR (signed_drop_bit 12 v AND 0x3f)))
      in (errs, or16 buf1 (off + 2)
            (ucast (push_bit 13 j1 OR push_bit 11 j2 OR (signed_drop_bit 1 v AND 0x7ff)))))"

definition applyBranch24T :: "nat \<Rightarrow> u32 \<Rightarrow> buffer \<Rightarrow> written" where
  "applyBranch24T off v buf =
     (let errs = (if isInt 25 v then [] else [RelocationOutOfRange]);
          s = (if sint v < 0 then 1 else 0) :: u32;
          j1 = (signed_drop_bit 23 (NOT v) AND 1) XOR s;
          j2 = (signed_drop_bit 22 (NOT v) AND 1) XOR s;
          buf1 = or16 buf off (ucast (push_bit 10 s OR (signed_drop_bit 12 v AND 0x3ff)))
      in (errs, write16le buf1 (off + 2)
            (ucast ((ucast (read16le buf1 (off + 2)) AND 0xd000) OR push_bit 13 j1 OR push_bit 11 j2 OR
               (signed_drop_bit 1 v AND 0x7ff)))))"

definition applyRelARM ::
  "string \<Rightarrow> u32 \<Rightarrow> nat \<Rightarrow> u16 \<Rightarrow> output_section option \<Rightarrow> u64 \<Rightarrow> u64 \<Rightarrow> u64 \<Rightarrow> buffer \<Rightarrow> written" where
  "applyRelARM sec numOS off type os s p imageBase buf =
     (let sx = (case os of
                  Some o' \<Rightarrow> if os_Characteristics o' AND IMAGE_SCN_MEM_EXECUTE \<noteq> 0 then s OR 1 else s
                | None \<Rightarrow> s)
      in if type = 0x0001 then ([], add32 buf off (ucast (sx + imageBase)))
         else if type = 0x0002 then ([], add32 buf off (ucast sx))
         else if type = 0x0011 then applyMOV32T off (ucast (sx + imageBase)) buf
         else if type = 0x0012 then applyBranch20T off (ucast (sx - p - 4)) buf
         else if type = 0x0014 then applyBranch24T off (ucast (sx - p - 4)) buf
         else if type = 0x0015 then applyBranch24T off (ucast (sx - p - 4)) buf
         else if type = 0x000E then ([], applySecIdx off os numOS buf)
         else if type = 0x000F then applySecRel sec off os s buf
         else if type = 0x000A then ([], add32 buf off (ucast (sx - p - 4)))
         else ([UnsupportedType type], buf))"

section \<open>AArch64\<close>

definition applyArm64Addr :: "nat \<Rightarrow> u64 \<Rightarrow> u64 \<Rightarrow> nat \<Rightarrow> buffer \<Rightarrow> buffer" where
  "applyArm64Addr off s p shift buf =
     (let orig = read32le buf off;
          imm = signed_take_bit 20 (ucast ((drop_bit 29 orig AND 0x3) OR (drop_bit 3 orig AND 0x1FFFFC))) :: u64;
          s' = s + imm;
          imm' = drop_bit shift s' - drop_bit shift p;
          immLo = ucast (push_bit 29 (imm' AND 0x3)) :: u32;
          immHi = ucast (push_bit 3 (imm' AND 0x1FFFFC)) :: u32;
          mask = 0x60FFFFE0
      in write32le buf off ((orig AND NOT mask) OR immLo OR immHi))"

definition applyArm64Imm :: "nat \<Rightarrow> u64 \<Rightarrow> nat \<Rightarrow> buffer \<Rightarrow> buffer" where
  "applyArm64Imm off imm rangeLimit buf =
     (let orig = read32le buf off;
          imm' = imm + ucast (drop_bit 10 orig AND 0xFFF);
          orig' = orig AND NOT 0x3FFC00
      in write32le buf off (orig' OR ucast (push_bit 10 (imm' AND drop_bit rangeLimit 0xFFF))))"

definition applyArm64Ldr :: "nat \<Rightarrow> u64 \<Rightarrow> buffer \<Rightarrow> written" where
  "applyArm64Ldr off imm buf =
     (let orig = read32le buf off;
          size0 = unat (drop_bit 30 orig);
          size = (if orig AND 0x4800000 = 0x4800000 then size0 + 4 else size0);
          errs = (if imm AND (2 ^ size - 1) \<noteq> 0 then [MisalignedLdr] else [])
      in (errs, applyArm64Imm off (drop_bit size imm) size buf))"

definition applySecRelLow12A :: "string \<Rightarrow> nat \<Rightarrow> output_section option \<Rightarrow> u64 \<Rightarrow> buffer \<Rightarrow> written" where
  "applySecRelLow12A sec off os s buf =
     (case checkSecRel sec os of
        (errs, True) \<Rightarrow> (errs, applyArm64Imm off ((s - os_RVA (the os)) AND 0xfff) 0 buf)
      | (errs, False) \<Rightarrow> (errs, buf))"

definition applySecRelHigh12A :: "string \<Rightarrow> nat \<Rightarrow> output_section option \<Rightarrow> u64 \<Rightarrow> buffer \<Rightarrow> written" where
  "applySecRelHigh12A sec off os s buf =
     (case checkSecRel sec os of
        (errs, False) \<Rightarrow> (errs, buf)
      | (errs, True) \<Rightarrow>
          (let orig = read32le buf off;
               imm = ucast (drop_bit 10 orig AND 0xFFF) :: u64;
               orig' = orig AND NOT 0x3FFC00;
               imm' = drop_bit 12 (s + imm - os_RVA (the os))
           in if 0xfff < imm' then (errs @ [SecRelHighOverflow], buf)
              else (errs, write32le buf off (orig' OR ucast (push_bit 10 imm')))))"

definition applySecRelLdr :: "string \<Rightarrow> nat \<Rightarrow> output_section option \<Rightarrow> u64 \<Rightarrow> buffer \<Rightarrow> written" where
  "applySecRelLdr sec off os s buf =
     (case checkSecRel sec os of
        (errs, True) \<Rightarrow>
          (let (e2, buf') = applyArm64Ldr off ((s - os_RVA (the os)) AND 0xfff) buf in (errs @ e2, buf'))
      | (errs, False) \<Rightarrow> (errs, buf))"

definition applyArm64Branch26 :: "nat \<Rightarrow> u64 \<Rightarrow> buffer \<Rightarrow> written" where
  "applyArm64Branch26 off v buf =
     (if isInt 28 v then [] else [RelocationOutOfRange], or32 buf off (ucast (drop_bit 2 (v AND 0x0FFFFFFC))))"

definition applyArm64Branch19 :: "nat \<Rightarrow> u64 \<Rightarrow> buffer \<Rightarrow> written" where
  "applyArm64Branch19 off v buf =
     (if isInt 21 v then [] else [RelocationOutOfRange], or32 buf off (ucast (push_bit 3 (v AND 0x001FFFFC))))"

definition applyArm64Branch14 :: "nat \<Rightarrow> u64 \<Rightarrow> buffer \<Rightarrow> written" where
  "applyArm64Branch14 off v buf =
     (if isInt 16 v then [] else [RelocationOutOfRange], or32 buf off (ucast (push_bit 3 (v AND 0x0000FFFC))))"

definition applyRelARM64 ::
  "string \<Rightarrow> u32 \<Rightarrow> nat \<Rightarrow> u16 \<Rightarrow> output_section option \<Rightarrow> u64 \<Rightarrow> u64 \<Rightarrow> u64 \<Rightarrow> buffer \<Rightarrow> written" where
  "applyRelARM64 sec numOS off type os s p imageBase buf =
     (if type = 0x0004 then ([], applyArm64Addr off s p 12 buf)
      else if type = 0x0005 then ([], applyArm64Addr off s p 0 buf)
      else if type = 0x0006 then ([], applyArm64Imm off (s AND 0xfff) 0 buf)
      else if type = 0x0007 then applyArm64Ldr off (s AND 0xfff) buf
      else if type = 0x0003 then applyArm64Branch26 off (s - p) buf
      else if type = 0x000F then applyArm64Branch19 off (s - p) buf
      else if type = 0x0010 then applyArm64Branch14 off (s - p) buf
      else if type = 0x0001 then ([], add32 buf off (ucast (s + imageBase)))
      else if type = 0x0002 then ([], add32 buf off (ucast s))
      else if type = 0x000E then ([], add64 buf off (s + imageBase))
      else if type = 0x0008 then applySecRel sec off os s buf
      else if type = 0x0009 then applySecRelLow12A sec off os s buf
      else if type = 0x000A then applySecRelHigh12A sec off os s buf
      else if type = 0x000B then applySecRelLdr sec off os s buf
      else if type = 0x000D then ([], applySecIdx off os numOS buf)
      else if type = 0x0011 then ([], add32 buf off (ucast (s - p - 4)))
      else ([UnsupportedType type], buf))"

section \<open>Field lemmas\<close>

lemmas field_ops = add16_def add32_def add64_def or16_def or32_def

lemma length_field_ops [simp]:
  "off + 2 \<le> length buf \<Longrightarrow> length (add16 buf off v2) = length buf"
  "off + 4 \<le> length buf \<Longrightarrow> length (add32 buf off v4) = length buf"
  "off + 8 \<le> length buf \<Longrightarrow> length (add64 buf off v8) = length buf"
  "off + 2 \<le> length buf \<Longrightarrow> length (or16 buf off v2) = length buf"
  "off + 4 \<le> length buf \<Longrightarrow> length (or32 buf off v4) = length buf"
  by (simp_all add: field_ops)

lemma read_field_ops [simp]:
  "off + 2 \<le> length buf \<Longrightarrow> read16le (add16 buf off v2) off = read16le buf off + v2"
  "off + 4 \<le> length buf \<Longrightarrow> read32le (add32 buf off v4) off = read32le buf off + v4"
  "off + 8 \<le> length buf \<Longrightarrow> read64le (add64 buf off v8) off = read64le buf off + v8"
  "off + 2 \<le> length buf \<Longrightarrow> read16le (or16 buf off v2) off = read16le buf off OR v2"
  "off + 4 \<le> length buf \<Longrightarrow> read32le (or32 buf off v4) off = read32le buf off OR v4"
  by (simp_all add: field_ops)

section \<open>Decoding: the operand layouts of the architectures\<close>

text \<open>The 16-bit immediate \<open>imm4:i:imm3:imm8\<close> of a Thumb MOVW or MOVT instruction.\<close>

definition thumb_imm16 :: "u16 \<Rightarrow> u16 \<Rightarrow> u16" where
  "thumb_imm16 op1 op2 =
     push_bit 12 (op1 AND 0xf) OR push_bit 11 (drop_bit 10 op1 AND 1) OR
     push_bit 8 (drop_bit 12 op2 AND 7) OR (op2 AND 0xff)"

text \<open>The 32-bit value a MOVW/MOVT pair at \<open>off\<close> loads.\<close>

definition thumb_mov32 :: "buffer \<Rightarrow> nat \<Rightarrow> u32" where
  "thumb_mov32 buf off =
     ucast (thumb_imm16 (read16le buf off) (read16le buf (off + 2))) OR
     push_bit 16 (ucast (thumb_imm16 (read16le buf (off + 4)) (read16le buf (off + 6))))"

text \<open>The displacement of a Thumb BL/B.W (encoding T4): \<open>S:I1:I2:imm10:imm11:0\<close> with
  \<open>I = NOT (J XOR S)\<close>.\<close>

definition thumb_branch24 :: "u16 \<Rightarrow> u16 \<Rightarrow> u32" where
  "thumb_branch24 op1 op2 =
     (let S = drop_bit 10 op1 AND 1;
          I1 = NOT (drop_bit 13 op2 XOR S) AND 1;
          I2 = NOT (drop_bit 11 op2 XOR S) AND 1
      in signed_take_bit 24
           (push_bit 24 (ucast S) OR push_bit 23 (ucast I1) OR push_bit 22 (ucast I2) OR
            push_bit 12 (ucast (op1 AND 0x3ff)) OR push_bit 1 (ucast (op2 AND 0x7ff))))"

text \<open>The signed 21-bit immediate \<open>immhi:immlo\<close> of ADR and ADRP, and what ADRP computes.\<close>

definition adr_imm :: "u32 \<Rightarrow> u64" where
  "adr_imm w =
     signed_take_bit 20 (ucast (take_bit 2 (drop_bit 29 w) OR push_bit 2 (take_bit 19 (drop_bit 5 w))))"

definition adrp_result :: "u64 \<Rightarrow> u32 \<Rightarrow> u64" where
  "adrp_result p w = (p AND NOT 0xfff) + push_bit 12 (adr_imm w)"

text \<open>The byte displacements of B/BL (26 bits), B.cond and CBZ (19), TBZ (14), in words.\<close>

definition branch_disp :: "nat \<Rightarrow> nat \<Rightarrow> u32 \<Rightarrow> u64" where
  "branch_disp lo n w = signed_take_bit (n + 1) (push_bit 2 (ucast (take_bit n (drop_bit lo w))))"

section \<open>Encoding lemmas\<close>

lemma thumb_imm16_encode: "thumb_imm16 (mov_op1 a v) (mov_op2 b v) = v"
  unfolding thumb_imm16_def mov_op1_def mov_op2_def by (rule bits_eqI16, unfold nat16) (simp add: bit_simps)

lemma readMOV_value: "snd (readMOV off t buf) = thumb_imm16 (read16le buf off) (read16le buf (off + 2))"
proof -
  have "(b AND 0x00ff) OR (drop_bit 4 b AND 0x0700) OR (push_bit 1 a AND 0x0800) OR push_bit 12 (a AND 0x000f) =
      thumb_imm16 a b" for a b :: u16
    unfolding thumb_imm16_def
    by (rule bits_eqI16, unfold nat16) (simp add: bit_simps bit_times_2)
  then show ?thesis by (simp add: readMOV_def Let_def)
qed

lemma mov_other_bits:
  "mov_op1 a v AND 0xfbf0 = a AND 0xfbf0" "mov_op2 b v AND 0x8f00 = b AND 0x8f00"
  unfolding mov_op1_def mov_op2_def by (rule bits_eqI16, unfold nat16, simp add: bit_simps)+

lemma applyMOV_props:
  assumes "off + 4 \<le> length buf"
  shows "length (applyMOV off v buf) = length buf"
    and "thumb_imm16 (read16le (applyMOV off v buf) off) (read16le (applyMOV off v buf) (off + 2)) = v"
    and "read16le (applyMOV off v buf) off AND 0xfbf0 = read16le buf off AND 0xfbf0"
    and "read16le (applyMOV off v buf) (off + 2) AND 0x8f00 = read16le buf (off + 2) AND 0x8f00"
    and "\<And>i. i < length buf \<Longrightarrow> i < off \<or> off + 4 \<le> i \<Longrightarrow> applyMOV off v buf ! i = buf ! i"
  using assms
  by (simp_all add: applyMOV_def Let_def le16.rd_wr_disjoint thumb_imm16_encode mov_other_bits) (auto simp: le_frame)

lemma ucast_halves: "ucast (ucast (v :: u32) :: u16) OR push_bit 16 (ucast (ucast (drop_bit 16 v) :: u16)) = v"
  by (rule bits_eqI32, unfold nat32) (simp add: bit_simps)

lemma adr_encode:
  "adr_imm ((w AND NOT 0x60FFFFE0) OR ucast (push_bit 29 ((i :: u64) AND 0x3)) OR ucast (push_bit 3 (i AND 0x1FFFFC))) =
   signed_take_bit 20 i"
proof -
  let ?w = "(w AND NOT 0x60FFFFE0) OR ucast (push_bit 29 (i AND 0x3)) OR ucast (push_bit 3 (i AND 0x1FFFFC)) :: u32"
  have "take_bit 2 (drop_bit 29 ?w) OR push_bit 2 (take_bit 19 (drop_bit 5 ?w)) = take_bit 21 (ucast i)"
    by (rule bits_eqI32, unfold nat32) (simp add: bit_simps)
  moreover have "signed_take_bit 20 (ucast (take_bit 21 (ucast i :: u32)) :: u64) = signed_take_bit 20 i"
    by (rule bit_word_eqI) (auto simp: bit_simps min_def)
  ultimately show ?thesis by (simp add: adr_imm_def)
qed

lemma adr_decode:
  "signed_take_bit 20 (ucast ((drop_bit 29 w AND 0x3) OR (drop_bit 3 w AND 0x1FFFFC))) = adr_imm (w :: u32)"
proof -
  have "(drop_bit 29 w AND 0x3) OR (drop_bit 3 w AND 0x1FFFFC) =
      take_bit 2 (drop_bit 29 w) OR push_bit 2 (take_bit 19 (drop_bit 5 w))"
    by (rule bits_eqI32, unfold nat32) (simp add: bit_simps)
  then show ?thesis by (simp add: adr_imm_def)
qed

lemma adr_other_bits:
  "((w AND NOT 0x60FFFFE0) OR ucast (push_bit 29 ((i :: u64) AND 0x3)) OR ucast (push_bit 3 (i AND 0x1FFFFC))) AND 0x9F00001F =
   (w :: u32) AND 0x9F00001F"
  by (rule bits_eqI32, unfold nat32) (simp add: bit_simps)

lemma read16le_applyMOV:
  assumes "off + 4 \<le> length buf" and "p + 2 \<le> length buf" and "p + 2 \<le> off \<or> off + 4 \<le> p"
  shows "read16le (applyMOV off v buf) p = read16le buf p"
  using assms by (intro read_sub_eq sub_eqI) (auto simp: applyMOV_props)

lemma thumb_mov32_applyMOV32T:
  assumes "off + 8 \<le> length buf"
  shows "thumb_mov32 (snd (applyMOV32T off v buf)) off = thumb_mov32 buf off + v"
proof -
  have b: "off + 4 \<le> length buf" "off + 4 + 4 \<le> length buf" using assms by simp_all
  note p1 = applyMOV_props [OF b(1)]
  have b2: "off + 4 + 4 \<le> length (applyMOV off w buf)" for w using b p1(1) by simp
  note p2 = applyMOV_props [OF b2]
  have 2: "off + 6 = off + 4 + 2" by simp
  let ?buf2 = "\<lambda>w w'. applyMOV (off + 4) w' (applyMOV off w buf)"
  have hi: "thumb_imm16 (read16le (?buf2 w w') (off + 4)) (read16le (?buf2 w w') (off + 6)) = w'" for w w'
    using p2(2) [of w' w] by (simp add: 2)
  have lo: "thumb_imm16 (read16le (?buf2 w w') off) (read16le (?buf2 w w') (off + 2)) = w" for w w'
    using p1(2) [of w] read16le_applyMOV [OF b2, of off] read16le_applyMOV [OF b2, of "off + 2"] p1(1) assms by simp
  have rd: "ucast (snd (readMOV off False buf)) OR push_bit 16 (ucast (snd (readMOV (off + 4) True buf))) = thumb_mov32 buf off"
    by (simp add: readMOV_value thumb_mov32_def 2 add.assoc)
  have "thumb_mov32 (?buf2 (ucast u) (ucast (drop_bit 16 u))) off = u" for u :: u32
    using ucast_halves by (simp only: thumb_mov32_def lo hi)
  then show ?thesis
    by (simp only: applyMOV32T_def Let_def case_prod_unfold snd_conv rd add.commute)
qed

lemma readMOV_errors:
  "fst (readMOV off t buf) = [] \<longleftrightarrow>
   read16le buf off AND 0xfbf0 = (if t then 0xf2c0 else 0xf240) \<and> read16le buf (off + 2) AND 0x8000 = 0"
  by (simp add: readMOV_def Let_def)

text \<open>The T4 displacement the Thumb branch relocation encodes.\<close>

lemma bit_signed_drop_u32:
  "n + k < 32 \<Longrightarrow> bit (signed_drop_bit n (v :: u32)) k = bit v (n + k)"
  by (auto simp: bit_signed_drop_bit_iff)

lemma sint_neg_bit: "sint (v :: u32) < 0 \<longleftrightarrow> bit v 31"
  using bit_last_iff [of v] by simp

lemma isInt_signed_take_bit: "isInt (Suc n) v \<Longrightarrow> signed_take_bit n v = v"
  by (simp add: isInt_def signed_take_bit_word_self)

lemma isInt_sign_bits:
  assumes "isInt (Suc n) (v :: u32)" and "n \<le> k" and "k < 32"
  shows "bit v k = bit v n"
  using arg_cong [OF isInt_signed_take_bit [OF assms(1)], of "\<lambda>w. bit w k"] assms(2,3)
  by (simp add: bit_signed_take_bit_iff)

definition branch24_op1 :: "u16 \<Rightarrow> u32 \<Rightarrow> u16" where
  "branch24_op1 op1 v = op1 OR ucast (push_bit 10 (if sint v < 0 then 1 else 0 :: u32) OR (signed_drop_bit 12 v AND 0x3ff))"

definition branch24_op2 :: "u16 \<Rightarrow> u32 \<Rightarrow> u16" where
  "branch24_op2 op2 v =
     (let s = (if sint v < 0 then 1 else 0) :: u32 in
      ucast ((ucast op2 AND 0xd000) OR push_bit 13 ((signed_drop_bit 23 (NOT v) AND 1) XOR s) OR
        push_bit 11 ((signed_drop_bit 22 (NOT v) AND 1) XOR s) OR (signed_drop_bit 1 v AND 0x7ff)))"

lemma branch24_encode:
  assumes "isInt 25 v" and "\<not> bit v 0" and "op1 AND 0x7ff = 0"
  shows "thumb_branch24 (branch24_op1 op1 v) (branch24_op2 op2 v) = v"
proof -
  have "isInt (Suc 24) v" using assms(1) by simp
  then have s: "bit v 31 = bit v 24" by (rule isInt_sign_bits) simp_all
  have z: "\<not> bit op1 k" if "k < 11" for k
    using arg_cong [OF assms(3), of "\<lambda>w. bit w k"] that
    by (auto simp: bit_simps less_Suc_eq numeral_eq_Suc)
  let ?a = "branch24_op1 op1 v" and ?b = "branch24_op2 op2 v"
  let ?S = "drop_bit 10 ?a AND 1"
  have "push_bit 24 (ucast ?S) OR push_bit 23 (ucast (NOT (drop_bit 13 ?b XOR ?S) AND 1)) OR
      push_bit 22 (ucast (NOT (drop_bit 11 ?b XOR ?S) AND 1)) OR push_bit 12 (ucast (?a AND 0x3ff)) OR
      push_bit 1 (ucast (?b AND 0x7ff)) = take_bit 25 v"
    unfolding branch24_op1_def branch24_op2_def sint_neg_bit Let_def
    by (cases "bit v 31"; rule bits_eqI32, unfold nat32)
       (use s z assms(2) in \<open>simp_all add: bit_simps bit_signed_drop_u32 bit_times_2 flip: numeral_2_eq_2 numeral_3_eq_3\<close>)
  then have "thumb_branch24 ?a ?b = signed_take_bit 24 (take_bit 25 v)"
    by (simp add: thumb_branch24_def Let_def)
  also have "\<dots> = signed_take_bit 24 v" by (rule bit_word_eqI) (auto simp: bit_simps min_def)
  also have "\<dots> = v" by (rule isInt_signed_take_bit) (use assms(1) in simp)
  finally show ?thesis .
qed

lemma ucast_word_diff: "ucast ((a :: u64) - b) = (ucast a - ucast b :: u32)"
proof -
  have d: "is_down (ucast :: u64 \<Rightarrow> u32)" by (simp add: is_down)
  have "ucast (a - b) = (ucast (word_of_int (uint a - uint b) :: u64) :: u32)" by simp
  also have "\<dots> = word_of_int (uint a) - word_of_int (uint b)" by (subst ucast_down_wi [OF d]) simp
  also have "\<dots> = ucast a - ucast b" using ucast_down_wi [OF d, of "uint a"] ucast_down_wi [OF d, of "uint b"] by simp
  finally show ?thesis .
qed

lemma branch_disp_encode:
  fixes v :: u64
  assumes "isInt (n + 2) v" and "\<not> bit v 0" and "\<not> bit v 1" and "lo + n \<le> 32" and "take_bit n (drop_bit lo w) = 0"
    and f: "\<And>k. k < n \<Longrightarrow> bit f (lo + k) = bit v (k + 2)"
  shows "branch_disp lo n (w OR f) = v"
proof -
  have w: "\<not> bit w (lo + k)" if "k < n" for k
    using arg_cong [OF assms(5), of "\<lambda>x. bit x k"] that by (simp add: bit_simps)
  have "push_bit 2 (ucast (take_bit n (drop_bit lo (w OR f))) :: u64) = take_bit (n + 2) v"
  proof (rule bit_word_eqI)
    fix i assume i: "i < LENGTH(64)"
    consider "i = 0" | "i = 1" | j where "i = j + 2"
      by (metis One_nat_def Suc_1 add.commute add_2_eq_Suc not0_implies_Suc)
    then show "bit (push_bit 2 (ucast (take_bit n (drop_bit lo (w OR f)))) :: u64) i = bit (take_bit (n + 2) v) i"
    proof cases
      case (3 j)
      then show ?thesis using i w [of j] f [of j] assms(4) by (auto simp: bit_simps)
    qed (use assms(2,3) in \<open>simp_all add: bit_simps\<close>)
  qed
  then have "branch_disp lo n (w OR f) = signed_take_bit (n + 1) (take_bit (n + 2) v)"
    by (simp add: branch_disp_def)
  also have "\<dots> = signed_take_bit (n + 1) v" by (rule bit_word_eqI) (auto simp: bit_simps min_def)
  also have "\<dots> = v" by (rule isInt_signed_take_bit) (use assms(1) in simp)
  finally show ?thesis .
qed

lemma branch_masks:
  "k < 26 \<Longrightarrow> bit (0x0FFFFFFC :: u64) (k + 2)" "k < 19 \<Longrightarrow> bit (0x001FFFFC :: u64) (k + 2)"
  "k < 14 \<Longrightarrow> bit (0x0000FFFC :: u64) (k + 2)"
  by (auto simp: numeral_eq_Suc less_Suc_eq)

lemma branch_fields:
  "k < 26 \<Longrightarrow> bit (ucast (drop_bit 2 ((v :: u64) AND 0x0FFFFFFC)) :: u32) (0 + k) = bit v (k + 2)"
  "k < 19 \<Longrightarrow> bit (ucast (push_bit 3 (v AND 0x001FFFFC)) :: u32) (5 + k) = bit v (k + 2)"
  "k < 14 \<Longrightarrow> bit (ucast (push_bit 3 (v AND 0x0000FFFC)) :: u32) (5 + k) = bit v (k + 2)"
proof -
  have "5 + k - 3 = k + 2" by simp
  then show "k < 26 \<Longrightarrow> bit (ucast (drop_bit 2 (v AND 0x0FFFFFFC)) :: u32) (0 + k) = bit v (k + 2)"
    "k < 19 \<Longrightarrow> bit (ucast (push_bit 3 (v AND 0x001FFFFC)) :: u32) (5 + k) = bit v (k + 2)"
    "k < 14 \<Longrightarrow> bit (ucast (push_bit 3 (v AND 0x0000FFFC)) :: u32) (5 + k) = bit v (k + 2)"
    using branch_masks [of k]
    by (simp_all only: bit_unsigned_iff bit_push_bit_iff bit_drop_bit_eq bit_and_iff o_apply)
      (auto simp: possible_bit_word add.commute)
qed

section \<open>Properties of single relocations\<close>

text \<open>
  C23: an x64 \<open>REL32_k\<close> relocation makes the instruction that ends \<open>k\<close> bytes after the field
  refer to the symbol: the address of the next instruction plus the patched field is the
  symbol's address plus the addend that was in the field, modulo \<open>2 ^ 32\<close>. There is no
  diagnostic and no other byte changes.
\<close>

theorem applyRelX64_rip_relative:
  assumes "k \<le> 5" and "off + 4 \<le> length buf"
  shows "\<exists>buf'. applyRelX64 sec numOS off (4 + of_nat k) os s p imageBase buf = ([], buf') \<and>
    ucast (p + 4 + of_nat k) + read32le buf' off = ucast s + read32le buf off \<and>
    length buf' = length buf \<and>
    (\<forall>i < length buf. i < off \<or> off + 4 \<le> i \<longrightarrow> buf' ! i = buf ! i)"
proof -
  have "applyRelX64 sec numOS off (4 + of_nat k) os s p imageBase buf =
      ([], add32 buf off (ucast (s - p - (4 + of_nat k))))"
  proof -
    have "k = 0 \<or> k = 1 \<or> k = 2 \<or> k = 3 \<or> k = 4 \<or> k = 5" using assms(1) by linarith
    then show ?thesis by (elim disjE) (simp_all add: applyRelX64_def)
  qed
  moreover have "ucast (s - p - (4 + of_nat k)) = (ucast s - ucast (p + 4 + of_nat k) :: u32)"
    by (simp add: ucast_word_diff add.assoc diff_diff_eq)
  ultimately show ?thesis using assms(2) by (auto simp: add32_def le_frame)
qed

text \<open>
  \<open>applyMOV32T\<close> adds the relocation value to the 32-bit constant of a MOVW/MOVT pair and
  reports an error exactly when the two instructions are not a MOVW and a MOVT.
\<close>

theorem applyMOV32T_adds:
  assumes "off + 8 \<le> length buf"
  shows "thumb_mov32 (snd (applyMOV32T off v buf)) off = thumb_mov32 buf off + v \<and>
    (fst (applyMOV32T off v buf) = [] \<longleftrightarrow>
       read16le buf off AND 0xfbf0 = 0xf240 \<and> read16le buf (off + 2) AND 0x8000 = 0 \<and>
       read16le buf (off + 4) AND 0xfbf0 = 0xf2c0 \<and> read16le buf (off + 6) AND 0x8000 = 0)"
proof -
  have "fst (applyMOV32T off v buf) = fst (readMOV off False buf) @ fst (readMOV (off + 4) True buf)"
    by (simp add: applyMOV32T_def Let_def case_prod_unfold)
  then show ?thesis
    using thumb_mov32_applyMOV32T [OF assms] by (simp add: readMOV_errors add.commute [of 6])
qed

text \<open>
  \<open>applyArm64Addr\<close> with shift 12 makes ADRP compute the page of the symbol (plus the addend
  in the immediate) whenever that page is within reach, and touches only the immediate
  bits of the instruction.
\<close>

theorem applyArm64Addr_page:
  assumes "off + 4 \<le> length buf"
    and "isInt 21 (drop_bit 12 (s + adr_imm (read32le buf off)) - drop_bit 12 p)"
  shows "adrp_result p (read32le (applyArm64Addr off s p 12 buf) off) =
      (s + adr_imm (read32le buf off)) AND NOT 0xfff \<and>
    read32le (applyArm64Addr off s p 12 buf) off AND 0x9F00001F = read32le buf off AND 0x9F00001F"
proof -
  let ?s = "s + adr_imm (read32le buf off)"
  let ?d = "drop_bit 12 ?s - drop_bit 12 p"
  have rd: "read32le (applyArm64Addr off s p 12 buf) off =
      (read32le buf off AND NOT 0x60FFFFE0) OR ucast (push_bit 29 (?d AND 0x3)) OR ucast (push_bit 3 (?d AND 0x1FFFFC))"
    using assms(1) by (simp only: applyArm64Addr_def Let_def adr_decode le32.rd_wr)
  have "isInt (Suc 20) ?d" using assms(2) by simp
  then have "adr_imm (read32le (applyArm64Addr off s p 12 buf) off) = ?d"
    by (simp only: rd adr_encode isInt_signed_take_bit)
  moreover have "push_bit 12 ?d = (?s AND NOT 0xfff) - (p AND NOT 0xfff)"
    using push_drop_word [of 12 ?s] push_drop_word [of 12 p]
    by (simp add: push_bit_eq_mult right_diff_distrib mask_eq_exp_minus_1 mult.commute left_diff_distrib)
  ultimately show ?thesis
    by (simp add: adrp_result_def) (simp only: rd adr_other_bits)
qed

text \<open>
  the AArch64 branch relocations report an error exactly when the displacement does not
  fit, and otherwise, on an instruction with an empty displacement field and a multiple of
  four, encode it exactly.
\<close>

lemma applyArm64Branch_target:
  assumes "off + 4 \<le> length buf" and "\<not> bit v 0" and "\<not> bit v 1"
  shows "(fst (applyArm64Branch26 off v buf) = [] \<longleftrightarrow> isInt 28 v) \<and>
    (fst (applyArm64Branch19 off v buf) = [] \<longleftrightarrow> isInt 21 v) \<and>
    (fst (applyArm64Branch14 off v buf) = [] \<longleftrightarrow> isInt 16 v) \<and>
    (isInt 28 v \<longrightarrow> take_bit 26 (drop_bit 0 (read32le buf off)) = 0 \<longrightarrow>
       branch_disp 0 26 (read32le (snd (applyArm64Branch26 off v buf)) off) = v) \<and>
    (isInt 21 v \<longrightarrow> take_bit 19 (drop_bit 5 (read32le buf off)) = 0 \<longrightarrow>
       branch_disp 5 19 (read32le (snd (applyArm64Branch19 off v buf)) off) = v) \<and>
    (isInt 16 v \<longrightarrow> take_bit 14 (drop_bit 5 (read32le buf off)) = 0 \<longrightarrow>
       branch_disp 5 14 (read32le (snd (applyArm64Branch14 off v buf)) off) = v)"
proof (intro conjI impI)
  assume "isInt 28 v" "take_bit 26 (drop_bit 0 (read32le buf off)) = 0"
  then show "branch_disp 0 26 (read32le (snd (applyArm64Branch26 off v buf)) off) = v"
    using branch_disp_encode [of 26 v 0 "read32le buf off", OF _ assms(2,3) _ _ branch_fields(1)] assms(1)
    by (simp add: applyArm64Branch26_def del: drop_bit_0)
next
  assume "isInt 21 v" "take_bit 19 (drop_bit 5 (read32le buf off)) = 0"
  then show "branch_disp 5 19 (read32le (snd (applyArm64Branch19 off v buf)) off) = v"
    using branch_disp_encode [of 19 v 5 "read32le buf off", OF _ assms(2,3) _ _ branch_fields(2)] assms(1)
    by (simp add: applyArm64Branch19_def)
next
  assume "isInt 16 v" "take_bit 14 (drop_bit 5 (read32le buf off)) = 0"
  then show "branch_disp 5 14 (read32le (snd (applyArm64Branch14 off v buf)) off) = v"
    using branch_disp_encode [of 14 v 5 "read32le buf off", OF _ assms(2,3) _ _ branch_fields(3)] assms(1)
    by (simp add: applyArm64Branch14_def)
qed (simp_all add: applyArm64Branch26_def applyArm64Branch19_def applyArm64Branch14_def)

text \<open>
  the Thumb \<open>BRANCH24T\<close> relocation reports an error exactly when the displacement does not
  fit in 25 bits, and otherwise, on a branch whose displacement bits in the first halfword
  are clear, encodes the even displacement exactly.
\<close>

theorem applyBranch24T_target:
  assumes "off + 4 \<le> length buf"
  shows "(fst (applyBranch24T off v buf) = [] \<longleftrightarrow> isInt 25 v) \<and>
    (isInt 25 v \<longrightarrow> \<not> bit v 0 \<longrightarrow> read16le buf off AND 0x7ff = 0 \<longrightarrow>
      thumb_branch24 (read16le (snd (applyBranch24T off v buf)) off)
        (read16le (snd (applyBranch24T off v buf)) (off + 2)) = v)"
proof -
  let ?w = "read16le buf off"
  let ?buf = "snd (applyBranch24T off v buf)"
  have r: "read16le (write16le buf off x) (off + 2) = read16le buf (off + 2)" for x
    using assms by (simp add: le16.rd_wr_disjoint)
  have buf: "?buf = write16le (or16 buf off (ucast (push_bit 10 (if sint v < 0 then 1 else 0 :: u32) OR
      (signed_drop_bit 12 v AND 0x3ff)))) (off + 2) (branch24_op2 (read16le buf (off + 2)) v)"
    by (simp only: applyBranch24T_def Let_def snd_conv branch24_op2_def or16_def r)
  have "read16le ?buf off = branch24_op1 ?w v" "read16le ?buf (off + 2) = branch24_op2 (read16le buf (off + 2)) v"
    using assms unfolding buf by (simp_all add: or16_def le16.rd_wr_disjoint branch24_op1_def)
  then show ?thesis
    using branch24_encode by (auto simp: applyBranch24T_def Let_def)
qed

section \<open>Examples\<close>

theorem applyRelX64_rip_relative_witness:
  "\<exists>buf'. applyRelX64 ''.text'' 1 0 4 None 0x2000 0x1000 0x140000000 [0, 0, 0, 0] = ([], buf') \<and>
     0x1004 + read32le buf' 0 = 0x2000 + read32le [0, 0, 0, 0] 0"
proof -
  have "ucast (0x2000 :: u64) = (0x2000 :: u32)" "ucast (0x1004 :: u64) = (0x1004 :: u32)"
    by (simp_all add: ucast_down_no is_down)
  then show ?thesis
    using applyRelX64_rip_relative [of 0 0 "[0, 0, 0, 0]" "''.text''" 1 None "0x2000" "0x1000" "0x140000000"] by auto
qed

lemma adr_imm_0 [simp]: "adr_imm 0 = 0"
  by (simp add: adr_imm_def)

lemma read32le_zero [simp]: "read32le [0, 0, 0, 0] 0 = 0"
  by (simp add: read32le_def sub_def)

theorem applyBranch24T_target_witness:
  "thumb_branch24 (read16le (snd (applyBranch24T 0 0x1000 [0, 0xf0, 0, 0xd0])) 0)
     (read16le (snd (applyBranch24T 0 0x1000 [0, 0xf0, 0, 0xd0])) 2) = 0x1000"
proof -
  have "read16le [0, 0xf0, 0, 0xd0] 0 AND 0x7ff = 0"
    unfolding read16le_def sub_def by code_simp
  then show ?thesis
    using applyBranch24T_target [of 0 "[0, 0xf0, 0, 0xd0]" "0x1000"] by (simp add: isInt_def flip: numeral_2_eq_2)
qed

end
