(* ===== verification/SectionWrite.thy ===== *)
theory SectionWrite
  imports Reloc
begin

text \<open>
  Writing a section to the output, \<open>SectionChunk::writeTo\<close>, \<open>applyRelocation\<close> and
  \<open>writeAndRelocateSubsection\<close> of \<open>lld/COFF/Chunks.cpp\<close>. The second copies and relocates a
  section piece by piece (the PDB writer uses it on debug subsections) and carries the index
  of the next relocation from piece to piece; the theorem says that on sorted relocations
  that do not straddle a boundary the pieces are the pieces of what \<open>writeTo\<close> writes. The
  locale \<open>patcher\<close> is what both need of a relocation: it reads and writes a bounded window.
\<close>

unbundle bit_operations_syntax

section \<open>The code\<close>

record section_data =
  sn_name :: string
  sn_rva :: u32
  sn_hasData :: bool
  sn_size :: nat
  sn_contents :: buffer
  sn_relocs :: "coff_relocation list"

text \<open>What a relocation consults outside its section: the symbols of the object file, the
  output section a chunk was placed in, and the configuration.\<close>

record reloc_env =
  re_getSymbol :: "u32 \<Rightarrow> symbol option"
  re_getOutputSection :: "chunk_id \<Rightarrow> output_section option"
  re_store :: store
  re_imageBase :: u64
  re_numOutputSections :: u32
  re_mingw :: bool
  re_arch :: arch

definition maybeReportRelocationToDiscarded :: "reloc_env \<Rightarrow> section_data \<Rightarrow> reloc_error list" where
  "maybeReportRelocationToDiscarded env sec =
     (if isCodeView (sn_name sec) \<or> isDWARF_name (sn_name sec) \<or> re_mingw env then []
      else [RelocationToDiscarded])"

fun is_absolute_or_synthetic :: "symbol_body \<Rightarrow> bool" where
  "is_absolute_or_synthetic (DefinedAbsolute _) = True"
| "is_absolute_or_synthetic (DefinedSynthetic _ _) = True"
| "is_absolute_or_synthetic _ = False"

text \<open>The switch on the architecture.\<close>

definition applyRel ::
  "reloc_env \<Rightarrow> section_data \<Rightarrow> nat \<Rightarrow> u16 \<Rightarrow> output_section option \<Rightarrow> u64 \<Rightarrow> u64 \<Rightarrow> buffer \<Rightarrow> written" where
  "applyRel env sec off type os s p buf =
     (case re_arch env of
        x86_64 \<Rightarrow> applyRelX64 (sn_name sec) (re_numOutputSections env) off type os s p (re_imageBase env) buf
      | x86 \<Rightarrow> applyRelX86 (sn_name sec) (re_numOutputSections env) off type os s p (re_imageBase env) buf
      | thumb \<Rightarrow> applyRelARM (sn_name sec) (re_numOutputSections env) off type os s p (re_imageBase env) buf
      | aarch64 \<Rightarrow> applyRelARM64 (sn_name sec) (re_numOutputSections env) off type os s p (re_imageBase env) buf)"

definition applyRelocation :: "reloc_env \<Rightarrow> section_data \<Rightarrow> nat \<Rightarrow> coff_relocation \<Rightarrow> buffer \<Rightarrow> written" where
  "applyRelocation env sec off rel buf =
     (case re_getSymbol env (SymbolTableIndex rel) of
        None \<Rightarrow> (maybeReportRelocationToDiscarded env sec, buf)
      | Some d \<Rightarrow>
          if \<not> is_Defined (sy_body d) then (maybeReportRelocationToDiscarded env sec, buf)
          else
            (let c = getChunk (re_store env) (sy_body d);
                 os = Option.bind c (re_getOutputSection env)
             in if os = None \<and> \<not> is_absolute_or_synthetic (sy_body d)
                then (maybeReportRelocationToDiscarded env sec, buf)
                else
                  (let s = getRVA (re_imageBase env) (re_store env) (sy_body d);
                       p = ucast (sn_rva sec + VirtualAddress rel)
                   in applyRel env sec off (rel_Type rel) os s p buf)))"

text \<open>\<open>writeTo\<close> at offset \<open>base\<close> of the output.\<close>

definition write_rel :: "reloc_env \<Rightarrow> section_data \<Rightarrow> nat \<Rightarrow> coff_relocation \<Rightarrow> written \<Rightarrow> written" where
  "write_rel env sec base rel eb =
     (let (errs, buf) = eb in
      if unat (VirtualAddress rel) \<ge> sn_size sec then (errs @ [BeyondSection], buf)
      else (let (e, buf') = applyRelocation env sec (base + unat (VirtualAddress rel)) rel buf in (errs @ e, buf')))"

definition writeTo :: "reloc_env \<Rightarrow> section_data \<Rightarrow> nat \<Rightarrow> buffer \<Rightarrow> written" where
  "writeTo env sec base buf =
     (if \<not> sn_hasData sec then ([], buf)
      else fold (write_rel env sec base) (sn_relocs sec) ([], put buf base (sn_contents sec)))"

text \<open>\<open>sortRelocations\<close>: nothing to do on a sorted table; otherwise a sorted copy. The order
  \<open>llvm::sort\<close> gives relocations at one address is not specified; the copy here is stable.\<close>

definition sortRelocations :: "section_data \<Rightarrow> section_data" where
  "sortRelocations sec =
     (if sorted_wrt (\<lambda>l r. unat (VirtualAddress l) \<le> unat (VirtualAddress r)) (sn_relocs sec) then sec
      else sec\<lparr>sn_relocs := sort_key (\<lambda>r. unat (VirtualAddress r)) (sn_relocs sec)\<rparr>)"

text \<open>The relocation loop of \<open>writeAndRelocateSubsection\<close> on the relocations that are left;
  the result holds the relocations the next piece starts with.\<close>

fun subsection_loop ::
  "reloc_env \<Rightarrow> section_data \<Rightarrow> nat \<Rightarrow> nat \<Rightarrow> coff_relocation list \<Rightarrow> written \<Rightarrow> written \<times> coff_relocation list" where
  "subsection_loop env sec vaBegin vaEnd [] eb = (eb, [])"
| "subsection_loop env sec vaBegin vaEnd (rel # rels) eb =
     (if unat (VirtualAddress rel) < vaBegin then subsection_loop env sec vaBegin vaEnd rels eb
      else if unat (VirtualAddress rel + 1) \<ge> vaEnd then (eb, rel # rels)
      else
        (let (e, buf') = applyRelocation env sec (unat (VirtualAddress rel) - vaBegin) rel (snd eb)
         in subsection_loop env sec vaBegin vaEnd rels (fst eb @ e, buf')))"

definition writeAndRelocateSubsection ::
  "reloc_env \<Rightarrow> section_data \<Rightarrow> buffer \<Rightarrow> nat \<Rightarrow> nat \<Rightarrow> coff_relocation list \<Rightarrow> written \<times> coff_relocation list" where
  "writeAndRelocateSubsection env sec contents vaBegin vaEnd next =
     subsection_loop env sec vaBegin vaEnd next ([], sub contents vaBegin (vaEnd - vaBegin))"

text \<open>A section written piece by piece, as the debug subsection visitor does: the pieces have
  the lengths \<open>ns\<close> and follow each other from \<open>vaBegin\<close>.\<close>

fun write_pieces ::
  "reloc_env \<Rightarrow> section_data \<Rightarrow> buffer \<Rightarrow> nat \<Rightarrow> nat list \<Rightarrow> coff_relocation list \<Rightarrow> written" where
  "write_pieces env sec contents vaBegin [] next = ([], [])"
| "write_pieces env sec contents vaBegin (n # ns) next =
     (let ((e1, out), next') = writeAndRelocateSubsection env sec contents vaBegin (vaBegin + n) next;
          (e2, rest) = write_pieces env sec contents (vaBegin + n) ns next'
      in (e1 @ e2, out @ rest))"

section \<open>Operations on a window of the buffer\<close>

definition local_op :: "nat \<Rightarrow> (nat \<Rightarrow> buffer \<Rightarrow> 'e \<times> buffer) \<Rightarrow> bool" where
  "local_op n F \<longleftrightarrow> (\<forall>off buf. off + n \<le> length buf \<longrightarrow>
     length (snd (F 0 (sub buf off n))) = n \<and>
     F off buf = (fst (F 0 (sub buf off n)), put buf off (snd (F 0 (sub buf off n)))))"

lemma local_opI:
  assumes "\<And>off buf. off + n \<le> length buf \<Longrightarrow> length (snd (F 0 (sub buf off n))) = n"
    and "\<And>off buf. off + n \<le> length buf \<Longrightarrow>
      F off buf = (fst (F 0 (sub buf off n)), put buf off (snd (F 0 (sub buf off n))))"
  shows "local_op n F"
  unfolding local_op_def using assms by blast

lemma local_opD:
  assumes "local_op n F" and "off + n \<le> length buf" and "F 0 (sub buf off n) = (e, w)"
  shows "length w = n" "F off buf = (e, put buf off w)"
proof -
  have "length (snd (F 0 (sub buf off n))) = n \<and>
      F off buf = (fst (F 0 (sub buf off n)), put buf off (snd (F 0 (sub buf off n))))"
    using assms(1,2) unfolding local_op_def by blast
  then show "length w = n" "F off buf = (e, put buf off w)" unfolding assms(3) by simp_all
qed

lemma sub_sub: "off + n \<le> length buf \<Longrightarrow> k + m \<le> n \<Longrightarrow> sub (sub buf off n) k m = sub buf (off + k) m"
  by (simp add: sub_def drop_take take_take min_def add.commute)

lemma sub_full [simp]: "sub buf 0 (length buf) = buf"
  by (simp add: sub_def)

lemma put_sub_window:
  assumes "off + n \<le> length buf" and "k + length w \<le> n"
  shows "put buf off (put (sub buf off n) k w) = put buf (off + k) w"
proof (rule nth_equalityI)
  have l: "length (put (sub buf off n) k w) = n" using assms by simp
  then show "length (put buf off (put (sub buf off n) k w)) = length (put buf (off + k) w)" using assms by simp
  fix i assume "i < length (put buf off (put (sub buf off n) k w))"
  then have i: "i < length buf" using assms l by simp
  show "put buf off (put (sub buf off n) k w) ! i = put buf (off + k) w ! i"
    using assms i l by (auto simp: put_nth) (auto simp: sub_def)
qed

lemma local_const [simp]: "local_op n (\<lambda>off buf. (e, buf))"
  by (rule local_opI) (simp_all add: put_sub_id)

text \<open>A window inside a larger one, two operations in sequence, and an operation chosen by the
  contents of the window.\<close>

lemma local_at:
  assumes "local_op m F" and "k + m \<le> n"
  shows "local_op n (\<lambda>off. F (off + k))"
proof (rule local_opI)
  fix off buf assume b: "off + n \<le> length (buf :: buffer)"
  let ?w = "sub buf off n"
  have w: "k + m \<le> length ?w" "off + k + m \<le> length buf" using b assms(2) by simp_all
  have s: "sub ?w k m = sub buf (off + k) m" using b assms(2) by (rule sub_sub)
  obtain e v where v: "F 0 (sub buf (off + k) m) = (e, v)" by fastforce
  have F: "length v = m" "F (off + k) buf = (e, put buf (off + k) v)" "F k ?w = (e, put ?w k v)"
    using local_opD [OF assms(1) w(2) v] local_opD [OF assms(1) w(1)] v s by simp_all
  show "length (snd (F (0 + k) (sub buf off n))) = n" using F w b by simp
  show "F (off + k) buf = (fst (F (0 + k) ?w), put buf off (snd (F (0 + k) ?w)))"
    using F put_sub_window [OF b, of k v] assms(2) by simp
qed

lemma local_seq:
  assumes "local_op n F" and "local_op n G"
  shows "local_op n (\<lambda>off buf. let (e1, b1) = F off buf; (e2, b2) = G off b1 in (e1 @ e2, b2))"
proof (rule local_opI)
  fix off buf assume b: "off + n \<le> length (buf :: buffer)"
  let ?w = "sub buf off n"
  obtain e1 w1 where w1: "F 0 ?w = (e1, w1)" by fastforce
  then have F: "length w1 = n" "F off buf = (e1, put buf off w1)" using local_opD [OF assms(1) b] by blast+
  obtain e2 w2 where w2: "G 0 w1 = (e2, w2)" by fastforce
  have "sub (put buf off w1) off n = w1" using F(1) b by (simp add: sub_put_same')
  then have G: "length w2 = n" "G off (put buf off w1) = (e2, put (put buf off w1) off w2)"
    using local_opD [OF assms(2), of off "put buf off w1"] b F(1) w2 by simp_all
  show "length (snd (let (e1, b1) = F 0 ?w; (e2, b2) = G 0 b1 in (e1 @ e2, b2))) = n"
    using w1 w2 G by simp
  show "(let (e1, b1) = F off buf; (e2, b2) = G off b1 in (e1 @ e2, b2)) =
      (fst (let (e1, b1) = F 0 ?w; (e2, b2) = G 0 b1 in (e1 @ e2, b2)),
       put buf off (snd (let (e1, b1) = F 0 ?w; (e2, b2) = G 0 b1 in (e1 @ e2, b2))))"
    using w1 w2 F G b by (simp add: put_put_same)
qed

lemma local_dep:
  assumes "\<And>x. local_op n (G x)" and "\<And>off buf. off + n \<le> length buf \<Longrightarrow> h off buf = h 0 (sub buf off n)"
  shows "local_op n (\<lambda>off buf. G (h off buf) off buf)"
  unfolding local_op_def
proof (intro allI impI)
  fix off buf assume b: "off + n \<le> length (buf :: buffer)"
  obtain e w where w: "G (h 0 (sub buf off n)) 0 (sub buf off n) = (e, w)" by fastforce
  show "length (snd (G (h 0 (sub buf off n)) 0 (sub buf off n))) = n \<and> G (h off buf) off buf =
      (fst (G (h 0 (sub buf off n)) 0 (sub buf off n)), put buf off (snd (G (h 0 (sub buf off n)) 0 (sub buf off n))))"
    using local_opD [OF assms(1) b w] w assms(2) [OF b] by simp
qed

lemma put_full: "length w = length ys \<Longrightarrow> put w 0 ys = ys"
  by (simp add: put_def)

lemma read_window:
  "off + n \<le> length buf \<Longrightarrow> k + 2 \<le> n \<Longrightarrow> read16le (sub buf off n) k = read16le buf (off + k)"
  "off + n \<le> length buf \<Longrightarrow> k + 4 \<le> n \<Longrightarrow> read32le (sub buf off n) k = read32le buf (off + k)"
  "off + n \<le> length buf \<Longrightarrow> k + 8 \<le> n \<Longrightarrow> read64le (sub buf off n) k = read64le buf (off + k)"
  by (simp_all add: field_defs sub_sub)

lemma local16: "local_op 2 (\<lambda>off buf. (e (read16le buf off), write16le buf off (f (read16le buf off))))"
  by (rule local_opI) (simp_all add: read_window [where k = 0, simplified] write16le_def put_full)

lemma local32: "local_op 4 (\<lambda>off buf. (e (read32le buf off), write32le buf off (f (read32le buf off))))"
  by (rule local_opI) (simp_all add: read_window [where k = 0, simplified] write32le_def put_full)

lemma local64: "local_op 8 (\<lambda>off buf. (e (read64le buf off), write64le buf off (f (read64le buf off))))"
  by (rule local_opI) (simp_all add: read_window [where k = 0, simplified] write64le_def put_full)

lemma local_fields:
  "local_op 2 (\<lambda>off buf. (e, add16 buf off v2))" "local_op 4 (\<lambda>off buf. (e, add32 buf off v4))"
  "local_op 8 (\<lambda>off buf. (e, add64 buf off v8))" "local_op 2 (\<lambda>off buf. (e, or16 buf off v2))"
  "local_op 4 (\<lambda>off buf. (e, or32 buf off v4))"
  using local16 [of "\<lambda>_. e" "\<lambda>x. x + v2"] local16 [of "\<lambda>_. e" "\<lambda>x. x OR v2"] local64 [of "\<lambda>_. e" "\<lambda>x. x + v8"]
    local32 [of "\<lambda>_. e" "\<lambda>x. x + v4"] local32 [of "\<lambda>_. e" "\<lambda>x. x OR v4"]
  by (simp_all add: field_ops)

lemma local_secrel: "local_op 4 (\<lambda>off. applySecRel sec off os s)"
proof (cases os)
  case (Some o')
  then show ?thesis
    by (cases "s - os_RVA o' > 0xFFFFFFFF") (simp_all add: applySecRel_def [abs_def] checkSecRel_def Let_def local_fields)
qed (simp add: applySecRel_def [abs_def] checkSecRel_def)

lemma local_secidx: "local_op 2 (\<lambda>off buf. ([], applySecIdx off os numOS buf))"
  by (cases os) (simp_all add: applySecIdx_def [abs_def] local_fields)

lemma local32I:
  assumes "\<And>off buf. F off buf = (e (read32le buf off), write32le buf off (f (read32le buf off)))"
  shows "local_op 4 F"
proof -
  have "F = (\<lambda>off buf. (e (read32le buf off), write32le buf off (f (read32le buf off))))"
    using assms by (intro ext)
  then show ?thesis using local32 by simp
qed

lemma local_arm64_addr: "local_op 4 (\<lambda>off buf. ([], applyArm64Addr off s p sh buf))"
  by (rule local32I [where e = "\<lambda>_. []" and f = "\<lambda>orig.
        let imm = drop_bit sh (s + signed_take_bit 20 (ucast ((drop_bit 29 orig AND 0x3) OR (drop_bit 3 orig AND 0x1FFFFC)))) -
              drop_bit sh p
        in (orig AND NOT 0x60FFFFE0) OR ucast (push_bit 29 (imm AND 0x3)) OR ucast (push_bit 3 (imm AND 0x1FFFFC))"])
    (simp only: applyArm64Addr_def Let_def)

lemma local_arm64_imm: "local_op 4 (\<lambda>off buf. (e (read32le buf off), applyArm64Imm off (g (read32le buf off)) (k (read32le buf off)) buf))"
  by (rule local32I [where e = e and f = "\<lambda>orig.
        (orig AND NOT 0x3FFC00) OR
        ucast (push_bit 10 ((g orig + ucast (drop_bit 10 orig AND 0xFFF)) AND drop_bit (k orig) 0xFFF))"])
    (simp only: applyArm64Imm_def Let_def)

lemma local_arm64_ldr: "local_op 4 (\<lambda>off. applyArm64Ldr off imm)"
proof -
  let ?size = "\<lambda>orig :: u32. if orig AND 0x4800000 = 0x4800000 then unat (drop_bit 30 orig) + 4 else unat (drop_bit 30 orig)"
  have "(\<lambda>off. applyArm64Ldr off imm) = (\<lambda>off buf.
      ((\<lambda>orig. if imm AND (2 ^ ?size orig - 1) \<noteq> 0 then [MisalignedLdr] else []) (read32le buf off),
       applyArm64Imm off (drop_bit (?size (read32le buf off)) imm) (?size (read32le buf off)) buf))"
    by (intro ext) (simp only: applyArm64Ldr_def Let_def)
  then show ?thesis using local_arm64_imm [of _ "\<lambda>orig. drop_bit (?size orig) imm" ?size] by simp
qed

lemma local_arm64_branch:
  "local_op 4 (\<lambda>off. applyArm64Branch26 off v)" "local_op 4 (\<lambda>off. applyArm64Branch19 off v)"
  "local_op 4 (\<lambda>off. applyArm64Branch14 off v)"
  unfolding applyArm64Branch26_def applyArm64Branch19_def applyArm64Branch14_def
  by (rule local_fields)+

lemma local_arm64_imm_const: "local_op 4 (\<lambda>off buf. ([], applyArm64Imm off imm k buf))"
  using local_arm64_imm [of "\<lambda>_. []" "\<lambda>_. imm" "\<lambda>_. k"] by simp

lemma local_arm64_low: "local_op 4 (\<lambda>off. applySecRelLow12A sec off os s)"
  by (cases os) (simp_all add: applySecRelLow12A_def [abs_def] checkSecRel_def local_arm64_imm_const)

lemma local_arm64_secldr: "local_op 4 (\<lambda>off. applySecRelLdr sec off os s)"
  by (cases os) (simp_all add: applySecRelLdr_def [abs_def] checkSecRel_def local_arm64_ldr)

lemma local_arm64_high: "local_op 4 (\<lambda>off. applySecRelHigh12A sec off os s)"
proof (cases os)
  case (Some o')
  let ?imm = "\<lambda>orig. drop_bit 12 (s + ucast (drop_bit 10 (orig :: u32) AND 0xFFF) - os_RVA o')"
  let ?G = "\<lambda>orig off buf. if 0xfff < ?imm orig then ([SecRelHighOverflow], buf)
      else ([], write32le buf off ((orig AND NOT 0x3FFC00) OR ucast (push_bit 10 (?imm orig))))"
  have "local_op 4 (?G orig)" for orig
    using local32 [of "\<lambda>_. []" "\<lambda>_. (orig AND NOT 0x3FFC00) OR ucast (push_bit 10 (?imm orig))"]
    by (cases "0xfff < ?imm orig") simp_all
  then have "local_op 4 (\<lambda>off buf. ?G (read32le buf off) off buf)"
    by (rule local_dep [where h = "\<lambda>off buf. read32le buf off"]) (simp add: read_window [where k = 0, simplified])
  moreover have "(\<lambda>off. applySecRelHigh12A sec off os s) = (\<lambda>off buf. ?G (read32le buf off) off buf)"
    using Some by (intro ext) (simp only: applySecRelHigh12A_def checkSecRel_def Let_def, simp)
  ultimately show ?thesis by simp
qed (simp add: applySecRelHigh12A_def [abs_def] checkSecRel_def)

section \<open>Thumb relocations are local\<close>

lemma local_seq0:
  assumes "local_op n (\<lambda>off buf. ([] :: reloc_error list, f off buf))" and "local_op n (\<lambda>off buf. (e :: reloc_error list, g off buf))"
  shows "local_op n (\<lambda>off buf. (e, g off (f off buf)))"
  using local_seq [OF assms] by simp

lemma local_branch20: "local_op 4 (\<lambda>off. applyBranch20T off v)"
  unfolding applyBranch20T_def [abs_def] Let_def
  by (rule local_seq0 [OF local_at [OF local_fields(4), of 0 4, simplified] local_at [OF local_fields(4), of 2 4]])
    simp_all

lemma local16_at:
  assumes "k + 2 \<le> n"
  shows "local_op n (\<lambda>off buf. (e, write16le buf (off + k) (f (read16le buf (off + k)))))"
  using local_at [OF local16 assms, of "\<lambda>_. e" f] by simp

lemma local_branch24: "local_op 4 (\<lambda>off. applyBranch24T off v)"
proof -
  let ?e = "if isInt 25 v then [] else [RelocationOutOfRange]"
  let ?s = "if sint v < 0 then 1 else 0 :: u32"
  let ?v1 = "ucast (push_bit 10 ?s OR (signed_drop_bit 12 v AND 0x3ff)) :: u16"
  let ?f = "\<lambda>w :: u16. ucast ((ucast w AND 0xd000) OR push_bit 13 ((signed_drop_bit 23 (NOT v) AND 1) XOR ?s) OR
      push_bit 11 ((signed_drop_bit 22 (NOT v) AND 1) XOR ?s) OR (signed_drop_bit 1 v AND 0x7ff)) :: u16"
  have "local_op 4 (\<lambda>off buf. ([] :: reloc_error list, or16 buf off ?v1))"
    using local_at [OF local_fields(4), of 0 4 "[]" ?v1] by (simp only: add_0_right) simp
  moreover have "local_op 4 (\<lambda>off buf. (?e, write16le buf (off + 2) (?f (read16le buf (off + 2)))))"
    by (rule local16_at) simp
  ultimately have "local_op 4 (\<lambda>off buf. (?e, write16le (or16 buf off ?v1) (off + 2)
      (?f (read16le (or16 buf off ?v1) (off + 2)))))"
    by (rule local_seq0)
  moreover have "(\<lambda>off. applyBranch24T off v) = (\<lambda>off buf. (?e, write16le (or16 buf off ?v1) (off + 2)
      (?f (read16le (or16 buf off ?v1) (off + 2)))))"
    by (intro ext) (simp only: applyBranch24T_def Let_def)
  ultimately show ?thesis by simp
qed

lemma local_mov: "local_op 4 (\<lambda>off buf. (e :: reloc_error list, applyMOV off v buf))"
  unfolding applyMOV_def [abs_def] Let_def
  by (rule local_seq0 [where f = "\<lambda>off buf. write16le buf off (mov_op1 (read16le buf off) v)"
        and g = "\<lambda>off buf. write16le buf (off + 2) (mov_op2 (read16le buf (off + 2)) v)"])
    (use local16_at [of 0 4 "[]" "\<lambda>w. mov_op1 w v"] local16_at [of 2 4 e "\<lambda>w. mov_op2 w v"] in simp_all)

lemma local_mov32: "local_op 8 (\<lambda>off. applyMOV32T off v)"
proof -
  let ?G = "\<lambda>x off buf. (fst x :: reloc_error list, applyMOV (off + 4) (ucast (drop_bit 16 (snd x :: u32))) (applyMOV off (ucast (snd x)) buf))"
  let ?h = "\<lambda>off buf. (fst (readMOV off False buf) @ fst (readMOV (off + 4) True buf),
      v + (ucast (snd (readMOV off False buf)) OR push_bit 16 (ucast (snd (readMOV (off + 4) True buf)))))"
  have "local_op 8 (?G x)" for x :: "reloc_error list \<times> u32"
    using local_seq0 [OF local_at [OF local_mov, of 0 8 "[]" "ucast (snd x)"]
        local_at [OF local_mov, of 4 8 "fst x" "ucast (drop_bit 16 (snd x))"]] by simp
  moreover have "?h off buf = ?h 0 (sub buf off 8)" if "off + 8 \<le> length buf" for off buf
  proof -
    have "readMOV (off + k) t buf = readMOV k t (sub buf off 8)" if "k + 4 \<le> 8" for k t
      using \<open>off + 8 \<le> length buf\<close> that
      by (simp add: readMOV_def Let_def read_window [of off 8] add.assoc)
    from this [of 0] this [of 4] show ?thesis by simp
  qed
  ultimately have "local_op 8 (\<lambda>off buf. ?G (?h off buf) off buf)"
    by (rule local_dep [where h = ?h])
  moreover have "(\<lambda>off. applyMOV32T off v) = (\<lambda>off buf. ?G (?h off buf) off buf)"
    by (intro ext) (simp add: applyMOV32T_def Let_def case_prod_unfold)
  ultimately show ?thesis by simp
qed

section \<open>Widths of the relocations\<close>

definition rel_width :: "arch \<Rightarrow> u16 \<Rightarrow> nat" where
  "rel_width a type =
     (case a of
        x86_64 \<Rightarrow> if type = 1 then 8 else if type = 0xA then 2 else 4
      | x86 \<Rightarrow> if type = 0xA then 2 else 4
      | thumb \<Rightarrow> if type = 0x11 then 8 else if type = 0xE then 2 else 4
      | aarch64 \<Rightarrow> if type = 0xE then 8 else if type = 0xD then 2 else 4)"

lemmas local_rules = local_fields local_const local_secrel local_secidx local_arm64_addr local_arm64_imm_const
  local_arm64_ldr local_arm64_branch local_arm64_low local_arm64_secldr local_arm64_high local_branch20
  local_branch24 local_mov32

lemma local_if:
  assumes "c \<Longrightarrow> local_op n F" and "\<not> c \<Longrightarrow> local_op n G"
  shows "local_op n (\<lambda>off buf. if c then F off buf else G off buf)"
  using assms by (cases c) simp_all

lemma local_applyRelX64: "local_op (rel_width x86_64 type) (\<lambda>off. applyRelX64 sec numOS off type os s p ib)"
  unfolding applyRelX64_def [abs_def] by (intro local_if) (simp_all add: rel_width_def local_rules)

lemma local_applyRelX86: "local_op (rel_width x86 type) (\<lambda>off. applyRelX86 sec numOS off type os s p ib)"
  unfolding applyRelX86_def [abs_def] by (intro local_if) (simp_all add: rel_width_def local_rules)

lemma local_applyRelARM: "local_op (rel_width thumb type) (\<lambda>off. applyRelARM sec numOS off type os s p ib)"
  unfolding applyRelARM_def [abs_def] Let_def by (intro local_if) (simp_all add: rel_width_def local_rules)

lemma local_applyRelARM64: "local_op (rel_width aarch64 type) (\<lambda>off. applyRelARM64 sec numOS off type os s p ib)"
  unfolding applyRelARM64_def [abs_def] by (intro local_if) (simp_all add: rel_width_def local_rules)

lemma local_applyRelocation:
  "local_op (rel_width (re_arch env) (rel_Type rel)) (\<lambda>off. applyRelocation env sec off rel)"
proof -
  have "local_op (rel_width (re_arch env) type) (\<lambda>off. applyRel env sec off type os s p)" for type os s p
    unfolding applyRel_def [abs_def]
    by (cases "re_arch env") (simp_all add: local_applyRelX64 local_applyRelX86 local_applyRelARM local_applyRelARM64)
  then show ?thesis
    unfolding applyRelocation_def [abs_def] Let_def
    by (cases "re_getSymbol env (SymbolTableIndex rel)") (simp_all add: local_if)
qed

section \<open>Patching a buffer in pieces\<close>

locale patcher =
  fixes patch :: "'r \<Rightarrow> nat \<Rightarrow> buffer \<Rightarrow> 'e list \<times> buffer"
    and width :: "'r \<Rightarrow> nat"
    and addr :: "'r \<Rightarrow> nat"
  assumes patch_local: "local_op (width r) (patch r)"
begin

lemma patch_append_left:
  assumes "off + width r \<le> length A" and "patch r off A = (e, A')"
  shows "patch r off (A @ B) = (e, A' @ B) \<and> length A' = length A"
proof -
  obtain f w where w: "patch r 0 (sub A off (width r)) = (f, w)" by fastforce
  note A = local_opD [OF patch_local assms(1) w]
  have "sub (A @ B) off (width r) = sub A off (width r)" using assms(1) by (simp add: sub_def)
  then have "patch r off (A @ B) = (f, put (A @ B) off w)"
    using local_opD(2) [OF patch_local, of off r "A @ B"] assms(1) w by simp
  moreover have "put (A @ B) off w = put A off w @ B" using assms(1) A(1) by (simp add: put_def)
  ultimately show ?thesis using A assms by simp
qed

lemma patch_append_right:
  assumes "length A \<le> off" and "off + width r \<le> length A + length B" and "patch r (off - length A) B = (e, B')"
  shows "patch r off (A @ B) = (e, A @ B') \<and> length B' = length B"
proof -
  have b: "off - length A + width r \<le> length B" using assms(1,2) by simp
  obtain f w where w: "patch r 0 (sub B (off - length A) (width r)) = (f, w)" by fastforce
  note B = local_opD [OF patch_local b w]
  have "sub (A @ B) off (width r) = sub B (off - length A) (width r)" using assms(1) by (simp add: sub_def)
  then have "patch r off (A @ B) = (f, put (A @ B) off w)"
    using local_opD(2) [OF patch_local, of off r "A @ B"] assms(2) w by simp
  moreover have "put (A @ B) off w = A @ put B (off - length A) w" using assms(1) by (simp add: put_def)
  ultimately show ?thesis using B b assms by simp
qed

text \<open>A run of patches at addresses relative to \<open>base\<close>.\<close>

definition run :: "nat \<Rightarrow> 'r list \<Rightarrow> 'e list \<times> buffer \<Rightarrow> 'e list \<times> buffer" where
  "run base rs eb = fold (\<lambda>r (e, b). let (e', b') = patch r (addr r - base) b in (e @ e', b')) rs eb"

lemma run_simps [simp]:
  "run base [] eb = eb"
  "run base (r # rs) (e, b) = run base rs (e @ fst (patch r (addr r - base) b), snd (patch r (addr r - base) b))"
  by (simp_all add: run_def case_prod_unfold Let_def)

lemma run_left:
  assumes "\<forall>r\<in>set rs. base \<le> addr r \<and> addr r + width r \<le> base + length A"
  shows "run base rs (e, A @ B) = (fst (run base rs (e, A)), snd (run base rs (e, A)) @ B) \<and>
    length (snd (run base rs (e, A))) = length A"
  using assms
proof (induction rs arbitrary: e A)
  case (Cons r rs)
  obtain f A' where A': "patch r (addr r - base) A = (f, A')" by fastforce
  have "patch r (addr r - base) (A @ B) = (f, A' @ B)" "length A' = length A"
    using patch_append_left [OF _ A', of B] Cons.prems by auto
  then show ?case using Cons A' by simp
qed simp

lemma run_right:
  assumes "\<forall>r\<in>set rs. base + length A \<le> addr r \<and> addr r + width r \<le> base + length A + length B"
  shows "run base rs (e, A @ B) = (fst (run (base + length A) rs (e, B)), A @ snd (run (base + length A) rs (e, B)))"
  using assms
proof (induction rs arbitrary: e B)
  case (Cons r rs)
  obtain f B' where B': "patch r (addr r - base - length A) B = (f, B')" by fastforce
  have "patch r (addr r - base) (A @ B) = (f, A @ B')" "length B' = length B"
    using patch_append_right [OF _ _ B'] Cons.prems by auto
  then show ?case using Cons B' by (simp add: diff_diff_eq)
qed simp

lemma run_errors: "run base rs (e, b) = (e @ fst (run base rs ([], b)), snd (run base rs ([], b)))"
proof (induction rs arbitrary: e b)
  case (Cons r rs)
  let ?p = "patch r (addr r - base) b"
  have "run base rs (e @ fst ?p, snd ?p) = (e @ fst ?p @ fst (run base rs ([], snd ?p)), snd (run base rs ([], snd ?p)))"
    using Cons [of "e @ fst ?p" "snd ?p"] by simp
  moreover have "run base rs ([] @ fst ?p, snd ?p) = (fst ?p @ fst (run base rs ([], snd ?p)), snd (run base rs ([], snd ?p)))"
    using Cons [of "[] @ fst ?p" "snd ?p"] by simp
  ultimately show ?case by (simp only: run_simps) simp
qed simp

lemma run_append: "run base (rs @ rs') eb = run base rs' (run base rs eb)"
  by (simp add: run_def)

text \<open>Patches below a boundary and patches above it act on the two halves separately.\<close>

lemma run_split:
  assumes "\<forall>r\<in>set rs1. base \<le> addr r \<and> addr r + width r \<le> base + length A"
    and "\<forall>r\<in>set rs2. base + length A \<le> addr r \<and> addr r + width r \<le> base + length A + length B"
  shows "run base (rs1 @ rs2) ([], A @ B) =
    (let (e1, A') = run base rs1 ([], A); (e2, B') = run (base + length A) rs2 ([], B) in (e1 @ e2, A' @ B'))"
proof -
  obtain e1 A' where A': "run base rs1 ([], A) = (e1, A')" by fastforce
  have l: "run base rs1 ([], A @ B) = (e1, A' @ B)" "length A' = length A"
    using run_left [OF assms(1), of "[]" B] A' by simp_all
  have "run base rs2 (e1, A' @ B) = (fst (run (base + length A) rs2 (e1, B)), A' @ snd (run (base + length A) rs2 (e1, B)))"
    using run_right [of rs2 base A' B e1] assms(2) l(2) by simp
  then show ?thesis
    using A' l(1) run_errors [of "base + length A" rs2 e1 B] by (simp add: run_append case_prod_unfold Let_def)
qed

end

text \<open>Relocations are such patches.\<close>

definition va :: "coff_relocation \<Rightarrow> nat" where
  "va rel = unat (VirtualAddress rel)"

definition rwidth :: "reloc_env \<Rightarrow> coff_relocation \<Rightarrow> nat" where
  "rwidth env rel = rel_width (re_arch env) (rel_Type rel)"

interpretation rels: patcher "\<lambda>rel off. applyRelocation env sec off rel" "rwidth env" va for env sec
  by unfold_locales (simp add: rwidth_def local_applyRelocation)

lemma rwidth_ge_2: "2 \<le> rwidth env rel"
  by (simp add: rwidth_def rel_width_def split: arch.splits)

text \<open>A relocation lies inside one of the pieces.\<close>

fun in_piece :: "reloc_env \<Rightarrow> nat \<Rightarrow> nat list \<Rightarrow> coff_relocation \<Rightarrow> bool" where
  "in_piece env b [] rel = False"
| "in_piece env b (n # ns) rel \<longleftrightarrow> b \<le> va rel \<and> va rel + rwidth env rel \<le> b + n \<or> in_piece env (b + n) ns rel"

lemma in_piece_bounds: "in_piece env b ns rel \<Longrightarrow> b \<le> va rel \<and> va rel + rwidth env rel \<le> b + sum_list ns"
  by (induction ns arbitrary: b) fastforce+

text \<open>The relocation loop of a piece applies the relocations of the piece and stops at the
  first one beyond it.\<close>

lemma unat_succ_va: "va r + 1 < 2 ^ 32 \<Longrightarrow> unat (VirtualAddress r + 1) = va r + 1"
  by (simp add: va_def unat_word_ariths)

lemma subsection_loop_run:
  assumes "\<forall>r\<in>set rs1. b \<le> va r \<and> va r + rwidth env r \<le> e" and "\<forall>r\<in>set rs2. e \<le> va r \<and> va r + 1 < 2 ^ 32"
    and "e < 2 ^ 32" and "b \<le> e"
  shows "subsection_loop env sec b e (rs1 @ rs2) eb = (rels.run env sec b rs1 eb, rs2)"
  using assms(1)
proof (induction rs1 arbitrary: eb)
  case Nil
  show ?case
  proof (cases rs2)
    case (Cons r rs)
    then have "b \<le> va r" "e \<le> va r" "va r + 1 < 2 ^ 32" using assms by auto
    then have "\<not> unat (VirtualAddress r) < b" "e \<le> unat (VirtualAddress r + 1)"
      using unat_succ_va [of r] by (simp_all add: va_def)
    then show ?thesis using Cons by simp
  qed simp
next
  case (Cons r rs1)
  have r: "b \<le> va r" "va r + 2 \<le> e" using Cons.prems rwidth_ge_2 [of env r] by auto
  then have "\<not> unat (VirtualAddress r) < b" "\<not> e \<le> unat (VirtualAddress r + 1)"
    using unat_succ_va [of r] assms(3) by (simp_all add: va_def)
  then show ?case
    using Cons by (cases eb) (simp add: case_prod_unfold Let_def flip: va_def)
qed

lemma write_pieces_run:
  assumes "sorted (map va next)" and "\<forall>r\<in>set next. in_piece env b ns r"
    and "b + sum_list ns = length contents" and "length contents < 2 ^ 32"
  shows "write_pieces env sec contents b ns next = rels.run env sec b next ([], drop b contents)"
  using assms
proof (induction ns arbitrary: b "next")
  case Nil
  then have "next = []" by (cases "next") auto
  then show ?case using Nil by simp
next
  case (Cons n ns)
  let ?rs1 = "takeWhile (\<lambda>r. va r < b + n) next" and ?rs2 = "dropWhile (\<lambda>r. va r < b + n) next"
  have sp: "next = ?rs1 @ ?rs2" by simp
  have 1: "\<forall>r\<in>set ?rs1. b \<le> va r \<and> va r + rwidth env r \<le> b + n"
    using Cons.prems(2) in_piece_bounds [of env "b + n" ns] by (fastforce dest: set_takeWhileD)
  have ge: "b + n \<le> va r" if "r \<in> set ?rs2" for r
    using that Cons.prems(1)
  proof (induction "next")
    case (Cons x xs)
    then show ?case by (cases "va x < b + n") auto
  qed simp
  then have 2: "\<forall>r\<in>set ?rs2. in_piece env (b + n) ns r"
  proof (intro ballI)
    fix r assume r: "r \<in> set ?rs2"
    then have "in_piece env b (n # ns) r" using Cons.prems(2) by (blast dest: set_dropWhileD)
    then show "in_piece env (b + n) ns r" using ge [OF r] rwidth_ge_2 [of env r] by auto
  qed
  have b2: "\<forall>r\<in>set ?rs2. b + n \<le> va r \<and> va r + rwidth env r \<le> length contents"
    using 2 in_piece_bounds [of env "b + n" ns] Cons.prems(3) by (simp add: add.assoc)
  have b3: "\<forall>r\<in>set ?rs2. b + n \<le> va r \<and> va r + 1 < 2 ^ 32"
  proof (intro ballI)
    fix r assume "r \<in> set ?rs2"
    then show "b + n \<le> va r \<and> va r + 1 < 2 ^ 32"
      using b2 rwidth_ge_2 [of env r] Cons.prems(4) by fastforce
  qed
  have loop: "subsection_loop env sec b (b + n) next eb = (rels.run env sec b ?rs1 eb, ?rs2)" for eb
    using subsection_loop_run [OF 1 b3, of sec eb] Cons.prems(3,4) by simp
  have "sorted (map va ?rs2)"
    using Cons.prems(1) sp by (metis map_append sorted_append)
  then have IH: "write_pieces env sec contents (b + n) ns ?rs2 = rels.run env sec (b + n) ?rs2 ([], drop (b + n) contents)"
    using Cons.IH 2 Cons.prems(3,4) by simp
  have A: "length (sub contents b n) = n" "sub contents b n @ drop (b + n) contents = drop b contents"
  proof -
    show "length (sub contents b n) = n" using Cons.prems(3) by simp
    have "drop (b + n) contents = drop n (drop b contents)" by (simp add: add.commute)
    then show "sub contents b n @ drop (b + n) contents = drop b contents" by (simp add: sub_def del: drop_drop)
  qed
  have "rels.run env sec b (?rs1 @ ?rs2) ([], sub contents b n @ drop (b + n) contents) =
      (let (e1, A') = rels.run env sec b ?rs1 ([], sub contents b n);
           (e2, B') = rels.run env sec (b + n) ?rs2 ([], drop (b + n) contents) in (e1 @ e2, A' @ B'))"
    using rels.run_split [of ?rs1 b env "sub contents b n" ?rs2 "drop (b + n) contents" sec] 1 b2 A(1) Cons.prems(3) by simp
  then show ?case
    using loop IH A sp by (simp add: writeAndRelocateSubsection_def case_prod_unfold Let_def)
qed

lemma writeTo_run:
  assumes "sn_hasData sec" and "\<forall>r\<in>set (sn_relocs sec). va r < sn_size sec" and "length buf = length (sn_contents sec)"
  shows "writeTo env sec 0 buf = rels.run env sec 0 (sn_relocs sec) ([], sn_contents sec)"
proof -
  have "fold (write_rel env sec 0) rs eb = rels.run env sec 0 rs eb" if "\<forall>r\<in>set rs. va r < sn_size sec" for rs eb
    using that by (induction rs arbitrary: eb) (auto simp: write_rel_def va_def case_prod_unfold Let_def)
  then show ?thesis using assms by (simp add: writeTo_def put_full)
qed

section \<open>Properties\<close>

text \<open>
  C18: writing a section piece by piece gives the bytes and diagnostics of writing it whole: when
  the relocations are sorted and each lies inside one of the pieces that make up the
  section, the concatenation of what \<open>writeAndRelocateSubsection\<close> writes, with the next
  relocation handed from piece to piece, is what \<open>writeTo\<close> writes.
\<close>

theorem write_pieces_writeTo:
  assumes "sn_hasData sec" and "sn_size sec = length (sn_contents sec)" and "length buf = sn_size sec"
    and "sn_size sec < 2 ^ 32" and "sum_list ns = sn_size sec"
    and "sorted (map (\<lambda>r. unat (VirtualAddress r)) (sn_relocs sec))"
    and "list_all (in_piece env 0 ns) (sn_relocs sec)"
  shows "write_pieces env sec (sn_contents sec) 0 ns (sn_relocs sec) = writeTo env sec 0 buf"
proof -
  have va: "map (\<lambda>r. unat (VirtualAddress r)) (sn_relocs sec) = map va (sn_relocs sec)" by (simp add: va_def)
  have "\<forall>r\<in>set (sn_relocs sec). va r < sn_size sec"
  proof
    fix r assume "r \<in> set (sn_relocs sec)"
    then show "va r < sn_size sec"
      using assms(5,7) in_piece_bounds [of env 0 ns r] rwidth_ge_2 [of env r] by (simp add: list_all_iff)
  qed
  then show ?thesis
    using write_pieces_run [of "sn_relocs sec" env 0 ns "sn_contents sec" sec] writeTo_run [of sec buf env] assms va
    by (simp add: list_all_iff)
qed

text \<open>
  C22: a section write stays inside its window: when every relocation field lies inside the section,
  \<open>writeTo\<close> at \<open>base\<close> changes no byte of the output outside the section's range.
\<close>

theorem writeTo_frame:
  assumes "sn_size sec = length (sn_contents sec)" and "base + sn_size sec \<le> length buf"
    and "list_all (\<lambda>r. unat (VirtualAddress r) + rel_width (re_arch env) (rel_Type r) \<le> sn_size sec) (sn_relocs sec)"
  shows "length (snd (writeTo env sec base buf)) = length buf \<and>
    (\<forall>i. i < length buf \<longrightarrow> i < base \<or> base + sn_size sec \<le> i \<longrightarrow> snd (writeTo env sec base buf) ! i = buf ! i)"
proof -
  let ?out = "\<lambda>b. length b = length buf \<and>
    (\<forall>i. i < length buf \<longrightarrow> i < base \<or> base + sn_size sec \<le> i \<longrightarrow> b ! i = buf ! i)"
  have step: "?out (snd (write_rel env sec base r eb))"
    if "?out (snd eb)" "unat (VirtualAddress r) + rel_width (re_arch env) (rel_Type r) \<le> sn_size sec" for r eb
  proof -
    let ?off = "base + unat (VirtualAddress r)" and ?n = "rel_width (re_arch env) (rel_Type r)"
    have b: "?off + ?n \<le> length (snd eb)" using that assms(2) by simp
    obtain e w where w: "applyRelocation env sec 0 r (sub (snd eb) ?off ?n) = (e, w)" by fastforce
    note l = local_opD [OF local_applyRelocation b w]
    show ?thesis
      using that l b by (auto simp: write_rel_def case_prod_unfold Let_def put_nth)
  qed
  have "?out (snd (fold (write_rel env sec base) rs eb))" if "?out (snd eb)"
    "list_all (\<lambda>r. unat (VirtualAddress r) + rel_width (re_arch env) (rel_Type r) \<le> sn_size sec) rs" for rs eb
    using that
  proof (induction rs arbitrary: eb)
    case (Cons r rs)
    have "?out (snd (write_rel env sec base r eb))" using step Cons.prems by simp
    from Cons.IH [OF this] show ?case using Cons.prems(2) by simp
  qed simp
  moreover have "?out (put buf base (sn_contents sec))"
    using assms(1,2) by (auto simp: put_nth)
  ultimately show ?thesis using assms(3) by (simp add: writeTo_def)
qed

section \<open>Examples\<close>

definition reloc_sample_env :: reloc_env where
  "reloc_sample_env = \<lparr>re_getSymbol = (\<lambda>_. None), re_getOutputSection = (\<lambda>_. None),
     re_store = \<lparr>syms = [], chunks = [], importFiles = []\<rparr>, re_imageBase = 0x140000000,
     re_numOutputSections = 1, re_mingw = False, re_arch = x86_64\<rparr>"

definition reloc_sample_section :: section_data where
  "reloc_sample_section = \<lparr>sn_name = ''.text'', sn_rva = 0x1000, sn_hasData = True, sn_size = 8,
     sn_contents = replicate 8 0, sn_relocs = [\<lparr>VirtualAddress = 4, SymbolTableIndex = 0, rel_Type = 4\<rparr>]\<rparr>"

theorem write_pieces_writeTo_witness:
  "write_pieces reloc_sample_env reloc_sample_section (replicate 8 0) 0 [4, 4] (sn_relocs reloc_sample_section) =
   writeTo reloc_sample_env reloc_sample_section 0 (replicate 8 0xcc)"
  using write_pieces_writeTo [of reloc_sample_section "replicate 8 0xcc" "[4, 4]" reloc_sample_env]
  by (simp add: reloc_sample_section_def reloc_sample_env_def va_def rwidth_def rel_width_def)

theorem writeTo_frame_witness:
  "snd (writeTo reloc_sample_env reloc_sample_section 2 (replicate 12 0xcc)) ! 1 = 0xcc"
  using writeTo_frame [of reloc_sample_section 2 "replicate 12 0xcc" reloc_sample_env]
  by (simp add: reloc_sample_section_def reloc_sample_env_def rel_width_def)

end
