(* ===== verification/SymbolTable.thy ===== *)
theory SymbolTable
  imports Symbols StrRef
begin

text \<open>
  Name resolution, \<open>lld/COFF/SymbolTable.cpp\<close>: the symbol map, the \<open>add*\<close> operations that
  input files call for every symbol they mention, lazy loading from archives, lookup with
  name mangling, and the report of unresolved symbols. The table owns the symbol store of
  \<open>Symbols\<close>; requests to load archive members and diagnostics are recorded in order.
  The names ARM64EC pairs a function with (\<open>getArm64ECMangledFunctionName\<close> and its inverse)
  are parameters of the environment.
\<close>

section \<open>State\<close>

datatype machine = I386 | AMD64 | ARMNT | ARM64 | ARM64EC | ARM64X

fun isArm64EC :: "machine \<Rightarrow> bool" where
  "isArm64EC ARM64EC = True"
| "isArm64EC ARM64X = True"
| "isArm64EC _ = False"

text \<open>Requests to load: \<open>ArchiveFile::addMember\<close>, \<open>driver.addFile\<close> of a lazy object and
  \<open>DLLFile::makeImport\<close>.\<close>

datatype load_request = AddMember file_id nat | AddFile file_id | MakeImport file_id nat

datatype sym_diag = DuplicateSymbol sym_id | UndefinedSymbol sym_id | LocallyDefinedImported sym_id sym_id
  | UnableToImport sym_id

record st_env =
  se_machine :: machine
  se_isBitcode :: "file_id \<Rightarrow> bool"
  se_mangled :: "string \<Rightarrow> string option"
  se_demangled :: "string \<Rightarrow> string option"
  se_autoImport :: bool
  se_forceUnresolved :: bool
  se_warnLocallyDefinedImported :: bool
  se_wordsize :: nat

record symtab =
  st_store :: store
  symMap :: "(string \<times> sym_id) list"
  lazyFiles :: "file_id list"
  gcroot :: "sym_id list"
  expSymbols :: "sym_id list"
  loads :: "load_request list"
  diags :: "sym_diag list"

definition isEC :: "st_env \<Rightarrow> bool" where
  "isEC env \<longleftrightarrow> se_machine env = ARM64EC"

abbreviation st_syms :: "symtab \<Rightarrow> symbol list" where
  "st_syms st \<equiv> syms (st_store st)"

definition get_sym :: "symtab \<Rightarrow> sym_id \<Rightarrow> symbol" where
  "get_sym st i = st_syms st ! i"

definition set_sym :: "sym_id \<Rightarrow> symbol \<Rightarrow> symtab \<Rightarrow> symtab" where
  "set_sym i s st = st\<lparr>st_store := (st_store st)\<lparr>syms := (st_syms st)[i := s]\<rparr>\<rparr>"

definition upd_sym :: "sym_id \<Rightarrow> (symbol \<Rightarrow> symbol) \<Rightarrow> symtab \<Rightarrow> symtab" where
  "upd_sym i f st = set_sym i (f (get_sym st i)) st"

definition replace_sym :: "sym_id \<Rightarrow> symbol \<Rightarrow> symtab \<Rightarrow> symtab" where
  "replace_sym i T st = upd_sym i (\<lambda>s. replaceSymbol s T) st"

definition request :: "load_request \<Rightarrow> symtab \<Rightarrow> symtab" where
  "request l st = st\<lparr>loads := loads st @ [l]\<rparr>"

text \<open>\<open>reportDuplicate\<close>: an error, or a warning under \<open>/force:multiple\<close>.\<close>

definition reportDuplicate :: "sym_id \<Rightarrow> symtab \<Rightarrow> symtab" where
  "reportDuplicate s st = st\<lparr>diags := diags st @ [DuplicateSymbol s]\<rparr>"

section \<open>Lookup and insertion\<close>

definition find :: "symtab \<Rightarrow> string \<Rightarrow> sym_id option" where
  "find st name = map_of (symMap st) name"

definition findUnderscore :: "st_env \<Rightarrow> symtab \<Rightarrow> string \<Rightarrow> sym_id option" where
  "findUnderscore env st name = (if se_machine env = I386 then find st (CHR ''_'' # name) else find st name)"

text \<open>\<open>insert\<close>: a new entry gets fresh storage whose contents every caller overwrites.\<close>

definition insert_name :: "st_env \<Rightarrow> string \<Rightarrow> symtab \<Rightarrow> (sym_id \<times> bool) \<times> symtab" where
  "insert_name env name st =
     (case find st name of
        Some i \<Rightarrow> ((i, False), st)
      | None \<Rightarrow>
          (let i = length (st_syms st);
               st1 = st\<lparr>st_store := (st_store st)\<lparr>syms := st_syms st @ [new_symbol name (Undefined None)]\<rparr>,
                        symMap := symMap st @ [(name, i)]\<rparr>
           in ((i, True), if isEC env \<and> starts_with name ''EXP+'' then st1\<lparr>expSymbols := expSymbols st1 @ [i]\<rparr> else st1)))"

definition insert_file :: "st_env \<Rightarrow> string \<Rightarrow> file_id option \<Rightarrow> symtab \<Rightarrow> (sym_id \<times> bool) \<times> symtab" where
  "insert_file env name f st =
     (let ((s, wasInserted), st1) = insert_name env name st in
      if (case f of None \<Rightarrow> True | Some f' \<Rightarrow> \<not> se_isBitcode env f')
      then ((s, wasInserted), upd_sym s (\<lambda>y. y\<lparr>isUsedInRegularObj := True\<rparr>) st1)
      else ((s, wasInserted), st1))"

section \<open>Lazy symbols\<close>

definition forceLazy :: "sym_id \<Rightarrow> symtab \<Rightarrow> symtab" where
  "forceLazy s st =
     (let st1 = upd_sym s (\<lambda>y. y\<lparr>pendingArchiveLoad := True\<rparr>) st in
      case sy_body (get_sym st s) of
        LazyArchive f m \<Rightarrow> request (AddMember f m) st1
      | LazyObject f \<Rightarrow>
          if f \<notin> set (lazyFiles st1) then st1
          else request (AddFile f) (st1\<lparr>lazyFiles := removeAll f (lazyFiles st1)\<rparr>)
      | LazyDLLSymbol f d \<Rightarrow> request (MakeImport f d) st1
      | _ \<Rightarrow> st1)"

definition addUndefined :: "st_env \<Rightarrow> string \<Rightarrow> file_id option \<Rightarrow> bool \<Rightarrow> symtab \<Rightarrow> sym_id \<times> symtab" where
  "addUndefined env name f overrideLazy st =
     (let ((s, wasInserted), st1) = insert_file env name f st;
          lazy = isLazy (sy_body (get_sym st1 s))
      in if wasInserted \<or> (lazy \<and> overrideLazy) then (s, replace_sym s (new_symbol name (Undefined None)) st1)
         else if lazy then (s, forceLazy s st1)
         else (s, st1))"

text \<open>On ARM64EC a GC root is also tied to its mangled or demangled form by an
  anti-dependency alias.\<close>

definition setWeakAlias :: "sym_id \<Rightarrow> bool \<Rightarrow> symbol \<Rightarrow> symbol" where
  "setWeakAlias t antiDep y = y\<lparr>sy_body := Undefined (Some t), isAntiDep := antiDep\<rparr>"

definition no_alias :: "symbol_body \<Rightarrow> bool" where
  "no_alias b \<longleftrightarrow> b = Undefined None"

definition alias_root :: "st_env \<Rightarrow> string \<Rightarrow> sym_id \<Rightarrow> symtab \<Rightarrow> symtab" where
  "alias_root env name b st =
     (case se_mangled env name of
        Some mangledName \<Rightarrow>
          if no_alias (sy_body (get_sym st b))
          then (let (t, st1) = addUndefined env mangledName None False st in upd_sym b (setWeakAlias t True) st1)
          else st
      | None \<Rightarrow>
          (case se_demangled env name of
             Some demangledName \<Rightarrow>
               (let (us, st1) = addUndefined env demangledName None False st in
                if no_alias (sy_body (get_sym st1 us)) then upd_sym us (setWeakAlias b True) st1 else st1)
           | None \<Rightarrow> st))"

definition set_root :: "sym_id \<Rightarrow> symtab \<Rightarrow> symtab" where
  "set_root b st =
     (if isGCRoot (get_sym st b) then st
      else (upd_sym b (\<lambda>y. y\<lparr>isGCRoot := True\<rparr>) st)\<lparr>gcroot := gcroot st @ [b]\<rparr>)"

definition addGCRoot :: "st_env \<Rightarrow> string \<Rightarrow> bool \<Rightarrow> symtab \<Rightarrow> sym_id \<times> symtab" where
  "addGCRoot env name aliasEC st =
     (let (b, st1) = addUndefined env name None False st;
          st2 = set_root b st1
      in (b, if aliasEC \<and> isEC env then alias_root env name b st2 else st2))"

text \<open>\<open>checkLazyECPair\<close>: is a lazy definition allowed given the paired name? The last argument
  tells whether a symbol is the caller's kind of lazy symbol from the caller's file.\<close>

definition checkLazyECPair :: "st_env \<Rightarrow> string \<Rightarrow> (symbol_body \<Rightarrow> bool) \<Rightarrow> symtab \<Rightarrow> bool" where
  "checkLazyECPair env name same st =
     (if starts_with name ''__imp_'' then True
      else
        (case (case se_mangled env name of Some m \<Rightarrow> Some m | None \<Rightarrow> se_demangled env name) of
           None \<Rightarrow> True
         | Some pairName \<Rightarrow>
             (case find st pairName of
                None \<Rightarrow> True
              | Some i \<Rightarrow>
                  (let s = get_sym st i in
                   if pendingArchiveLoad s then False
                   else case sy_body s of
                     Undefined a \<Rightarrow> a = None \<or> isAntiDep s
                   | b \<Rightarrow> same b))))"

definition isECAlias :: "st_env \<Rightarrow> symbol \<Rightarrow> bool" where
  "isECAlias env s \<longleftrightarrow> \<not> no_alias (sy_body s) \<and> isAntiDep s \<and> isArm64EC (se_machine env)"

text \<open>Whether an existing symbol still waits for a definition: undefined, without an ordinary
  weak alias, and not already being loaded.\<close>

definition wants_load :: "st_env \<Rightarrow> symbol \<Rightarrow> bool" where
  "wants_load env s \<longleftrightarrow> is_Undefined (sy_body s) \<and>
     (no_alias (sy_body s) \<or> isECAlias env s) \<and> \<not> pendingArchiveLoad s"

definition addLazyArchive :: "st_env \<Rightarrow> file_id \<Rightarrow> nat \<Rightarrow> string \<Rightarrow> symtab \<Rightarrow> symtab" where
  "addLazyArchive env f member name st =
     (if isEC env \<and> \<not> checkLazyECPair env name (\<lambda>b. case b of LazyArchive f' _ \<Rightarrow> f' = f | _ \<Rightarrow> False) st then st
      else
        (let ((s, wasInserted), st1) = insert_name env name st in
         if wasInserted then replace_sym s (new_symbol name (LazyArchive f member)) st1
         else if wants_load env (get_sym st1 s)
         then request (AddMember f member) (upd_sym s (\<lambda>y. y\<lparr>pendingArchiveLoad := True\<rparr>) st1)
         else st1))"

definition addLazyObject :: "st_env \<Rightarrow> file_id \<Rightarrow> string \<Rightarrow> symtab \<Rightarrow> symtab" where
  "addLazyObject env f n st =
     (if isEC env \<and> \<not> checkLazyECPair env n (\<lambda>b. case b of LazyObject f' \<Rightarrow> f' = f | _ \<Rightarrow> False) st then st
      else
        (let ((s, wasInserted), st1) = insert_file env n (Some f) st in
         if wasInserted then replace_sym s (new_symbol n (LazyObject f)) st1
         else if wants_load env (get_sym st1 s)
         then request (AddFile f)
           ((upd_sym s (\<lambda>y. y\<lparr>pendingArchiveLoad := True\<rparr>) st1)\<lparr>lazyFiles := removeAll f (lazyFiles st1)\<rparr>)
         else st1))"

definition addLazyDLLSymbol :: "st_env \<Rightarrow> file_id \<Rightarrow> nat \<Rightarrow> string \<Rightarrow> symtab \<Rightarrow> symtab" where
  "addLazyDLLSymbol env f d n st =
     (let ((s, wasInserted), st1) = insert_name env n st in
      if wasInserted then replace_sym s (new_symbol n (LazyDLLSymbol f d)) st1
      else if wants_load env (get_sym st1 s)
      then request (MakeImport f d) (upd_sym s (\<lambda>y. y\<lparr>pendingArchiveLoad := True\<rparr>) st1)
      else st1)"

section \<open>Definitions\<close>

definition mark_used :: "sym_id \<Rightarrow> symtab \<Rightarrow> symtab" where
  "mark_used s st = upd_sym s (\<lambda>y. y\<lparr>isUsedInRegularObj := True\<rparr>) st"

text \<open>A slot that a definition may take without a conflict.\<close>

definition is_open :: "bool \<Rightarrow> symbol \<Rightarrow> bool" where
  "is_open wasInserted s \<longleftrightarrow> wasInserted \<or> is_Undefined (sy_body s) \<or> isLazy (sy_body s)"

definition addAbsolute :: "st_env \<Rightarrow> string \<Rightarrow> u64 \<Rightarrow> bool \<Rightarrow> symtab \<Rightarrow> sym_id \<times> symtab" where
  "addAbsolute env n va ext st =
     (let ((s, wasInserted), st0) = insert_file env n None st;
          st1 = mark_used s st0;
          y = get_sym st1 s
      in (s,
          if is_open wasInserted y then replace_sym s ((new_symbol n (DefinedAbsolute va))\<lparr>isExternal := ext\<rparr>) st1
          else case sy_body y of
            DefinedAbsolute va' \<Rightarrow> if va' \<noteq> va then reportDuplicate s st1 else st1
          | b \<Rightarrow> if is_DefinedCOFF b then st1 else reportDuplicate s st1))"

definition addSynthetic :: "st_env \<Rightarrow> string \<Rightarrow> chunk_id option \<Rightarrow> symtab \<Rightarrow> sym_id \<times> symtab" where
  "addSynthetic env n c st =
     (let ((s, wasInserted), st0) = insert_file env n None st;
          st1 = mark_used s st0;
          y = get_sym st1 s
      in (s,
          if is_open wasInserted y then replace_sym s (new_symbol n (DefinedSynthetic c 0)) st1
          else if is_DefinedCOFF (sy_body y) then st1
          else reportDuplicate s st1))"

definition regular_symbol :: "file_id \<Rightarrow> string \<Rightarrow> bool \<Rightarrow> u32 \<Rightarrow> chunk_id option \<Rightarrow> bool \<Rightarrow> symbol" where
  "regular_symbol f n comdat v c weak =
     (new_symbol n (DefinedRegular f v c))\<lparr>isExternal := True, isCOMDAT := comdat, isWeak := weak\<rparr>"

definition addRegular :: "st_env \<Rightarrow> file_id \<Rightarrow> string \<Rightarrow> u32 \<Rightarrow> chunk_id option \<Rightarrow> bool \<Rightarrow> symtab \<Rightarrow> sym_id \<times> symtab" where
  "addRegular env f n v c weak st =
     (let ((s, wasInserted), st1) = insert_file env n (Some f) st;
          y = get_sym st1 s
      in (s,
          if wasInserted \<or> \<not> is_DefinedRegular (sy_body y) \<or> isWeak y
          then replace_sym s (regular_symbol f n False v c weak) st1
          else if \<not> weak then reportDuplicate s st1
          else st1))"

definition addComdat :: "st_env \<Rightarrow> file_id \<Rightarrow> string \<Rightarrow> u32 \<Rightarrow> symtab \<Rightarrow> (sym_id \<times> bool) \<times> symtab" where
  "addComdat env f n v st =
     (let ((s, wasInserted), st1) = insert_file env n (Some f) st;
          y = get_sym st1 s
      in if wasInserted \<or> \<not> is_DefinedRegular (sy_body y)
         then ((s, True), replace_sym s (regular_symbol f n True v None False) st1)
         else ((s, False), if \<not> isCOMDAT y then reportDuplicate s st1 else st1))"

text \<open>A common symbol keeps its chunk alive when it is constructed.\<close>

definition replace_common :: "sym_id \<Rightarrow> file_id \<Rightarrow> string \<Rightarrow> u64 \<Rightarrow> chunk_id option \<Rightarrow> symtab \<Rightarrow> symtab" where
  "replace_common s f n sz c st =
     (let st1 = replace_sym s (new_symbol n (DefinedCommon f sz c)) st in
      case c of
        None \<Rightarrow> st1
      | Some i \<Rightarrow> st1\<lparr>st_store := (st_store st1)\<lparr>chunks :=
            (chunks (st_store st1))[i := (chunks (st_store st1) ! i)\<lparr>ck_live := True\<rparr>]\<rparr>\<rparr>)"

definition addCommon :: "st_env \<Rightarrow> file_id \<Rightarrow> string \<Rightarrow> u64 \<Rightarrow> chunk_id option \<Rightarrow> symtab \<Rightarrow> sym_id \<times> symtab" where
  "addCommon env f n sz c st =
     (let ((s, wasInserted), st1) = insert_file env n (Some f) st;
          y = get_sym st1 s
      in (s,
          if wasInserted \<or> \<not> is_DefinedCOFF (sy_body y) then replace_common s f n sz c st1
          else case sy_body y of
            DefinedCommon _ sz' _ \<Rightarrow> if sz > sz' then replace_common s f n sz c st1 else st1
          | _ \<Rightarrow> st1))"

definition addImportData :: "st_env \<Rightarrow> string \<Rightarrow> file_id \<Rightarrow> chunk_id option \<Rightarrow> symtab \<Rightarrow> sym_id option \<times> symtab" where
  "addImportData env n f location st =
     (let ((s, wasInserted), st0) = insert_file env n None st;
          st1 = mark_used s st0
      in if is_open wasInserted (get_sym st1 s)
         then (Some s, replace_sym s (new_symbol n (DefinedImportData f location)) st1)
         else (None, reportDuplicate s st1))"

definition addImportThunk :: "st_env \<Rightarrow> string \<Rightarrow> file_id \<Rightarrow> chunk_id \<Rightarrow> symtab \<Rightarrow> sym_id option \<times> symtab" where
  "addImportThunk env n f chunk st =
     (let ((s, wasInserted), st0) = insert_file env n None st;
          st1 = mark_used s st0
      in if is_open wasInserted (get_sym st1 s)
         then (Some s, replace_sym s (new_symbol n (DefinedImportThunk f chunk)) st1)
         else (None, reportDuplicate s st1))"

section \<open>The invariant of the table\<close>

definition wf_symtab :: "symtab \<Rightarrow> bool" where
  "wf_symtab st \<longleftrightarrow> distinct (map fst (symMap st)) \<and> distinct (map snd (symMap st)) \<and>
     list_all (\<lambda>e. snd e < length (st_syms st) \<and> sy_name (get_sym st (snd e)) = fst e) (symMap st)"

text \<open>A definition that only \<open>addRegular\<close> with another strong definition would contest.\<close>

definition strong :: "symbol \<Rightarrow> bool" where
  "strong s \<longleftrightarrow> is_DefinedRegular (sy_body s) \<and> \<not> isWeak s"

text \<open>How a slot may change: its name stays, a definition stays a definition, and a strong
  definition keeps its body.\<close>

definition slot_le :: "symbol \<Rightarrow> symbol \<Rightarrow> bool" where
  "slot_le y y' \<longleftrightarrow> sy_name y' = sy_name y \<and> (is_Defined (sy_body y) \<longrightarrow> is_Defined (sy_body y')) \<and>
     (strong y \<longrightarrow> strong y' \<and> sy_body y' = sy_body y)"

definition evolves :: "symtab \<Rightarrow> symtab \<Rightarrow> bool" where
  "evolves st st' \<longleftrightarrow> length (st_syms st) \<le> length (st_syms st') \<and>
     (\<forall>n i. find st n = Some i \<longrightarrow> find st' n = Some i) \<and>
     (\<forall>i < length (st_syms st). slot_le (get_sym st i) (get_sym st' i))"

lemma slot_le_refl [simp]: "slot_le y y"
  by (simp add: slot_le_def)

lemma slot_le_trans: "slot_le a b \<Longrightarrow> slot_le b c \<Longrightarrow> slot_le a c"
  by (auto simp: slot_le_def)

lemma evolves_refl [simp]: "evolves st st"
  by (simp add: evolves_def)

lemma evolves_trans: "evolves a b \<Longrightarrow> evolves b c \<Longrightarrow> evolves a c"
  unfolding evolves_def by (meson le_trans less_le_trans slot_le_trans)

definition good_step :: "symtab \<Rightarrow> symtab \<Rightarrow> bool" where
  "good_step st st' \<longleftrightarrow> (wf_symtab st \<longrightarrow> wf_symtab st' \<and> evolves st st')"

lemma good_refl [simp]: "good_step st st"
  by (simp add: good_step_def)

lemma good_trans: "good_step a b \<Longrightarrow> good_step b c \<Longrightarrow> good_step a c"
  by (auto simp: good_step_def intro: evolves_trans)

text \<open>Parts of the state the invariant does not look at.\<close>

lemma good_frame:
  assumes "good_step st st'" and "symMap st'' = symMap st'" and "st_syms st'' = st_syms st'"
  shows "good_step st st''"
  using assms by (simp add: good_step_def wf_symtab_def evolves_def find_def get_sym_def)

lemma upd_sym_facts [simp]:
  "symMap (upd_sym i f st) = symMap st" "length (st_syms (upd_sym i f st)) = length (st_syms st)"
  "find (upd_sym i f st) n = find st n" "loads (upd_sym i f st) = loads st" "diags (upd_sym i f st) = diags st"
  "lazyFiles (upd_sym i f st) = lazyFiles st" "gcroot (upd_sym i f st) = gcroot st"
  by (simp_all add: upd_sym_def set_sym_def find_def)

lemma get_upd_sym: "i < length (st_syms st) \<Longrightarrow> get_sym (upd_sym i f st) j = (if j = i then f (get_sym st i) else get_sym st j)"
  by (simp add: upd_sym_def set_sym_def get_sym_def)

lemma good_upd:
  assumes "slot_le (get_sym st i) (f (get_sym st i))"
  shows "good_step st (upd_sym i f st)"
proof (cases "i < length (st_syms st)")
  case True
  have "sy_name (f (get_sym st i)) = sy_name (get_sym st i)" using assms by (simp add: slot_le_def)
  then have "wf_symtab (upd_sym i f st)" if "wf_symtab st"
    using that by (auto simp: wf_symtab_def get_upd_sym [OF True] list_all_iff)
  moreover have "evolves st (upd_sym i f st)"
    using assms by (simp add: evolves_def get_upd_sym [OF True])
  ultimately show ?thesis by (simp add: good_step_def)
next
  case False
  then have "upd_sym i f st = st" by (simp add: upd_sym_def set_sym_def list_update_beyond)
  then show ?thesis by simp
qed

lemma good_flags:
  "good_step st (upd_sym i (\<lambda>y. y\<lparr>isUsedInRegularObj := b\<rparr>) st)"
  "good_step st (upd_sym i (\<lambda>y. y\<lparr>pendingArchiveLoad := b\<rparr>) st)"
  "good_step st (upd_sym i (\<lambda>y. y\<lparr>isGCRoot := b\<rparr>) st)"
  by (rule good_upd, simp add: slot_le_def strong_def)+

lemma wf_find:
  assumes "wf_symtab st" and "find st n = Some i"
  shows "i < length (st_syms st)" "sy_name (get_sym st i) = n"
proof -
  have "(n, i) \<in> set (symMap st)" using assms(2) by (simp add: find_def map_of_SomeD)
  then have "i < length (st_syms st) \<and> sy_name (get_sym st i) = n"
    using assms(1) by (fastforce simp: wf_symtab_def list_all_iff)
  then show "i < length (st_syms st)" "sy_name (get_sym st i) = n" by auto
qed

lemma find_None_fst: "find st n = None \<longleftrightarrow> n \<notin> fst ` set (symMap st)"
  by (simp add: find_def map_of_eq_None_iff)

text \<open>Insertion.\<close>

definition inserted :: "st_env \<Rightarrow> string \<Rightarrow> symtab \<Rightarrow> symtab" where
  "inserted env n st = snd (insert_name env n st)"

lemma insert_name_Some: "find st n = Some i \<Longrightarrow> insert_name env n st = ((i, False), st)"
  by (simp add: insert_name_def)

lemma insert_name_None:
  assumes "find st n = None"
  shows "insert_name env n st = ((length (st_syms st), True), inserted env n st)"
    and "st_syms (inserted env n st) = st_syms st @ [new_symbol n (Undefined None)]"
    and "symMap (inserted env n st) = symMap st @ [(n, length (st_syms st))]"
    and "loads (inserted env n st) = loads st" and "diags (inserted env n st) = diags st"
  using assms by (simp_all add: insert_name_def inserted_def Let_def)

lemma find_inserted:
  "find st n = None \<Longrightarrow> find (inserted env n st) m = (if m = n then Some (length (st_syms st)) else find st m)"
  by (auto simp: find_def insert_name_None map_add_def split: option.splits)

lemma get_inserted:
  assumes "find st n = None"
  shows "get_sym (inserted env n st) (length (st_syms st)) = new_symbol n (Undefined None)"
    and "i < length (st_syms st) \<Longrightarrow> get_sym (inserted env n st) i = get_sym st i"
  using insert_name_None(2) [OF assms, of env] by (simp_all add: get_sym_def nth_append)

lemma good_inserted:
  assumes "find st n = None"
  shows "good_step st (inserted env n st)"
proof -
  have "wf_symtab (inserted env n st)" if wf: "wf_symtab st"
  proof -
    have e: "snd e < length (st_syms st) \<and> sy_name (get_sym st (snd e)) = fst e" if "e \<in> set (symMap st)" for e
      using wf that by (simp add: wf_symtab_def list_all_iff)
    then have "length (st_syms st) \<notin> snd ` set (symMap st)" by (metis imageE less_irrefl)
    moreover have "sy_name (get_sym (inserted env n st) (snd e)) = fst e" if "e \<in> set (symMap st)" for e
      using e [OF that] get_inserted(2) [OF assms, of "snd e" env] by simp
    moreover have "sy_name (get_sym (inserted env n st) (length (st_syms st))) = n"
      using get_inserted(1) [OF assms, of env] by (simp add: new_symbol_def)
    ultimately show ?thesis
      using wf assms e unfolding wf_symtab_def insert_name_None(2,3) [OF assms] list_all_iff find_None_fst
      by (auto simp: less_SucI)
  qed
  moreover have "evolves st (inserted env n st)"
    using find_inserted [OF assms] get_inserted(2) [OF assms] assms insert_name_None(2) [OF assms]
    by (simp add: evolves_def)
  ultimately show ?thesis by (simp add: good_step_def)
qed

lemma insert_name_good:
  assumes "insert_name env n st = ((s, w), st1)"
  shows "good_step st st1" "find st1 n = Some s" "w \<longleftrightarrow> find st n = None"
    "w \<Longrightarrow> get_sym st1 s = new_symbol n (Undefined None)" "\<not> w \<Longrightarrow> st1 = st"
    "loads st1 = loads st" "diags st1 = diags st"
proof -
  have "good_step st st1 \<and> find st1 n = Some s \<and> (w \<longleftrightarrow> find st n = None) \<and>
      (w \<longrightarrow> get_sym st1 s = new_symbol n (Undefined None)) \<and> (\<not> w \<longrightarrow> st1 = st) \<and>
      loads st1 = loads st \<and> diags st1 = diags st"
  proof (cases "find st n")
    case None
    then have "s = length (st_syms st)" "w" "st1 = inserted env n st"
      using assms insert_name_None(1) [OF None, of env] by auto
    then show ?thesis
      using None good_inserted [OF None] find_inserted [OF None] get_inserted(1) [OF None] insert_name_None(4,5) [OF None]
      by simp
  next
    case (Some i)
    then show ?thesis using assms insert_name_Some [OF Some, of env] by auto
  qed
  then show "good_step st st1" "find st1 n = Some s" "w \<longleftrightarrow> find st n = None"
    "w \<Longrightarrow> get_sym st1 s = new_symbol n (Undefined None)" "\<not> w \<Longrightarrow> st1 = st"
    "loads st1 = loads st" "diags st1 = diags st" by auto
qed

text \<open>The part of a symbol that decides resolution.\<close>

definition core :: "symbol \<Rightarrow> symbol_body \<times> bool \<times> bool \<times> bool \<times> bool" where
  "core y = (sy_body y, isWeak y, isCOMDAT y, pendingArchiveLoad y, isAntiDep y)"

lemma insert_file_good:
  assumes "insert_file env n f st = ((s, w), st1)" and "wf_symtab st"
  shows "good_step st st1" "wf_symtab st1" "find st1 n = Some s" "w \<longleftrightarrow> find st n = None"
    "s < length (st_syms st1)" "sy_name (get_sym st1 s) = n"
    "w \<Longrightarrow> core (get_sym st1 s) = core (new_symbol n (Undefined None))" "\<not> w \<Longrightarrow> core (get_sym st1 s) = core (get_sym st s)"
    "loads st1 = loads st" "diags st1 = diags st"
proof -
  obtain st0 where st0: "insert_name env n st = ((s, w), st0)"
    "st1 = st0 \<or> st1 = upd_sym s (\<lambda>y. y\<lparr>isUsedInRegularObj := True\<rparr>) st0"
    using assms(1) by (cases "insert_name env n st") (auto simp: insert_file_def Let_def split: if_splits)
  note i = insert_name_good [OF st0(1)]
  have wf0: "wf_symtab st0" using i(1) assms(2) by (simp add: good_step_def)
  note f0 = wf_find [OF wf0 i(2)]
  show g: "good_step st st1" using st0(2) i(1) good_flags(1) good_trans by blast
  show wf: "wf_symtab st1" using g assms(2) by (simp add: good_step_def)
  show f: "find st1 n = Some s" using st0(2) i(2) by auto
  show "w \<longleftrightarrow> find st n = None" by (rule i(3))
  show "s < length (st_syms st1)" "sy_name (get_sym st1 s) = n" by (rule wf_find [OF wf f])+
  have c: "core (get_sym st1 s) = core (get_sym st0 s)" using st0(2) f0(1) by (auto simp: get_upd_sym core_def)
  show "w \<Longrightarrow> core (get_sym st1 s) = core (new_symbol n (Undefined None))" using c i(4) by simp
  show "\<not> w \<Longrightarrow> core (get_sym st1 s) = core (get_sym st s)" using c i(5) by simp
  show "loads st1 = loads st" "diags st1 = diags st" using st0(2) i(6,7) by auto
qed

lemma good_replace:
  assumes "sy_name T = sy_name (get_sym st s)" and "\<not> strong (get_sym st s)"
    and "is_Defined (sy_body (get_sym st s)) \<Longrightarrow> is_Defined (sy_body T)"
  shows "good_step st (replace_sym s T st)"
  unfolding replace_sym_def
  by (rule good_upd) (use assms in \<open>simp add: slot_le_def replaceSymbol_def\<close>)

lemma good_report: "good_step st st' \<Longrightarrow> good_step st (reportDuplicate s st')"
  by (erule good_frame) (simp_all add: reportDuplicate_def)

lemma good_request: "good_step st st' \<Longrightarrow> good_step st (request l st')"
  by (erule good_frame) (simp_all add: request_def)

lemma is_open_not_defined: "is_open False y \<Longrightarrow> \<not> is_Defined (sy_body y)"
  using symbol_classes(1) [of "sy_body y"] by (simp add: is_open_def)

lemma not_defined_not_strong: "\<not> is_Defined (sy_body y) \<Longrightarrow> \<not> strong y"
  by (cases "sy_body y") (simp_all add: strong_def)

lemma new_symbol_simps [simp]:
  "sy_name (new_symbol n b) = n" "sy_body (new_symbol n b) = b" "isWeak (new_symbol n b) = False"
  "pendingArchiveLoad (new_symbol n b) = False"
  by (simp_all add: new_symbol_def)

lemma inserted_not_defined:
  assumes "insert_file env n f st = ((s, True), st1)" and "wf_symtab st"
  shows "\<not> is_Defined (sy_body (get_sym st1 s))"
  using insert_file_good(7) [OF assms] by (simp add: core_def)

section \<open>Every operation keeps the invariant\<close>

lemma good_insert_file:
  assumes i: "insert_file env n f st = ((s, w), st1)"
    and "\<lbrakk>sy_name (get_sym st1 s) = n; w \<Longrightarrow> \<not> is_Defined (sy_body (get_sym st1 s))\<rbrakk> \<Longrightarrow> good_step st1 st2"
  shows "good_step st st2"
proof -
  have "good_step st st2" if wf: "wf_symtab st"
  proof (rule good_trans [OF insert_file_good(1) [OF i wf]])
    show "good_step st1 st2"
      using assms(2) insert_file_good(6) [OF i wf] inserted_not_defined [of env n f st s st1] i wf by (cases w) auto
  qed
  then show ?thesis by (simp add: good_step_def)
qed

lemma good_insert_name:
  assumes i: "insert_name env n st = ((s, w), st1)"
    and "\<lbrakk>sy_name (get_sym st1 s) = n; w \<Longrightarrow> \<not> is_Defined (sy_body (get_sym st1 s))\<rbrakk> \<Longrightarrow> good_step st1 st2"
  shows "good_step st st2"
proof -
  have "good_step st st2" if wf: "wf_symtab st"
  proof (rule good_trans [OF insert_name_good(1) [OF i]])
    have "wf_symtab st1" using insert_name_good(1) [OF i] wf by (simp add: good_step_def)
    then show "good_step st1 st2"
      using assms(2) wf_find(2) [OF _ insert_name_good(2) [OF i]] insert_name_good(4) [OF i] by simp
  qed
  then show ?thesis by (simp add: good_step_def)
qed

lemma good_forceLazy: "good_step st (forceLazy s st)"
proof -
  have "good_step st (request l ((upd_sym s (\<lambda>y. y\<lparr>pendingArchiveLoad := True\<rparr>) st)\<lparr>lazyFiles := fs\<rparr>))" for l fs
    by (rule good_request, rule good_frame [OF good_flags(2)]) simp_all
  moreover have "good_step st (request l (upd_sym s (\<lambda>y. y\<lparr>pendingArchiveLoad := True\<rparr>) st))" for l
    by (rule good_request [OF good_flags(2)])
  ultimately show ?thesis
    using good_flags(2) by (cases "sy_body (get_sym st s)") (simp_all add: forceLazy_def Let_def)
qed

lemma good_mark_used: "good_step st (mark_used s st)"
  unfolding mark_used_def by (rule good_flags)

lemma mark_used_simps [simp]:
  "sy_body (get_sym (mark_used s st) i) = sy_body (get_sym st i)"
  "sy_name (get_sym (mark_used s st) i) = sy_name (get_sym st i)"
  "isWeak (get_sym (mark_used s st) i) = isWeak (get_sym st i)"
  "strong (get_sym (mark_used s st) i) = strong (get_sym st i)"
  "loads (mark_used s st) = loads st" "diags (mark_used s st) = diags st"
proof -
  have "get_sym (mark_used s st) i = get_sym st i \<or>
      get_sym (mark_used s st) i = (get_sym st i)\<lparr>isUsedInRegularObj := True\<rparr>"
    unfolding mark_used_def upd_sym_def set_sym_def get_sym_def
    by (cases "s < length (st_syms st)"; cases "i = s") (simp_all add: list_update_beyond)
  then show "sy_body (get_sym (mark_used s st) i) = sy_body (get_sym st i)"
    "sy_name (get_sym (mark_used s st) i) = sy_name (get_sym st i)"
    "isWeak (get_sym (mark_used s st) i) = isWeak (get_sym st i)"
    "strong (get_sym (mark_used s st) i) = strong (get_sym st i)"
    by (auto simp: strong_def)
qed (simp_all add: mark_used_def)

lemma good_addUndefined: "good_step st (snd (addUndefined env n f ov st))"
proof -
  obtain s w st1 where i: "insert_file env n f st = ((s, w), st1)" by (metis prod.exhaust)
  show ?thesis
    by (rule good_insert_file [OF i])
      (use symbol_classes(1) [of "sy_body (get_sym st1 s)"] in
        \<open>auto simp: addUndefined_def i Let_def not_defined_not_strong intro!: good_replace good_forceLazy\<close>)
qed

lemma open_not_defined:
  assumes "is_open w (get_sym st s)" and "w \<Longrightarrow> \<not> is_Defined (sy_body (get_sym st s))"
  shows "\<not> is_Defined (sy_body (get_sym st s))"
  using assms is_open_not_defined [of "get_sym st s"] by (cases w) auto

lemma good_take_slot:
  assumes "is_open w (get_sym (mark_used s st) s)" and "w \<Longrightarrow> \<not> is_Defined (sy_body (get_sym st s))"
    and "sy_name T = sy_name (get_sym st s)"
  shows "good_step st (replace_sym s T (mark_used s st))"
proof -
  have "\<not> is_Defined (sy_body (get_sym st s))"
    using open_not_defined [of w "mark_used s st" s] assms(1,2) by simp
  then show ?thesis
    using not_defined_not_strong [of "get_sym st s"] assms(3)
    by (intro good_trans [OF good_mark_used good_replace]) simp_all
qed

lemma good_addAbsolute: "good_step st (snd (addAbsolute env n v ext st))"
proof -
  obtain s w st1 where i: "insert_file env n None st = ((s, w), st1)" by (metis prod.exhaust)
  have "good_step st1 (snd (addAbsolute env n v ext st))"
    if "sy_name (get_sym st1 s) = n" "w \<Longrightarrow> \<not> is_Defined (sy_body (get_sym st1 s))"
    using that good_take_slot [of w s st1] good_mark_used [of st1 s] good_report [OF good_mark_used [of st1 s]]
    by (auto simp: addAbsolute_def i Let_def split: symbol_body.splits)
  then show ?thesis by (rule good_insert_file [OF i])
qed

lemma good_addSynthetic: "good_step st (snd (addSynthetic env n c st))"
proof -
  obtain s w st1 where i: "insert_file env n None st = ((s, w), st1)" by (metis prod.exhaust)
  have "good_step st1 (snd (addSynthetic env n c st))"
    if "sy_name (get_sym st1 s) = n" "w \<Longrightarrow> \<not> is_Defined (sy_body (get_sym st1 s))"
    using that good_take_slot [of w s st1] good_mark_used [of st1 s] good_report [OF good_mark_used [of st1 s]]
    by (auto simp: addSynthetic_def i Let_def)
  then show ?thesis by (rule good_insert_file [OF i])
qed

lemma good_addImportData: "good_step st (snd (addImportData env n f l st))"
proof -
  obtain s w st1 where i: "insert_file env n None st = ((s, w), st1)" by (metis prod.exhaust)
  have "good_step st1 (snd (addImportData env n f l st))"
    if "sy_name (get_sym st1 s) = n" "w \<Longrightarrow> \<not> is_Defined (sy_body (get_sym st1 s))"
    using that good_take_slot [of w s st1] good_report [OF good_mark_used [of st1 s]]
    by (auto simp: addImportData_def i Let_def)
  then show ?thesis by (rule good_insert_file [OF i])
qed

lemma good_addImportThunk: "good_step st (snd (addImportThunk env n f c st))"
proof -
  obtain s w st1 where i: "insert_file env n None st = ((s, w), st1)" by (metis prod.exhaust)
  have "good_step st1 (snd (addImportThunk env n f c st))"
    if "sy_name (get_sym st1 s) = n" "w \<Longrightarrow> \<not> is_Defined (sy_body (get_sym st1 s))"
    using that good_take_slot [of w s st1] good_report [OF good_mark_used [of st1 s]]
    by (auto simp: addImportThunk_def i Let_def)
  then show ?thesis by (rule good_insert_file [OF i])
qed

lemma regular_symbol_simps [simp]:
  "sy_name (regular_symbol f n k v c w) = n" "sy_body (regular_symbol f n k v c w) = DefinedRegular f v c"
  "isWeak (regular_symbol f n k v c w) = w" "isCOMDAT (regular_symbol f n k v c w) = k"
  by (simp_all add: regular_symbol_def)

lemma good_addRegular: "good_step st (snd (addRegular env f n v c weak st))"
proof -
  obtain s w st1 where i: "insert_file env n (Some f) st = ((s, w), st1)" by (metis prod.exhaust)
  have "good_step st1 (snd (addRegular env f n v c weak st))"
    if "sy_name (get_sym st1 s) = n" "w \<Longrightarrow> \<not> is_Defined (sy_body (get_sym st1 s))"
    using that not_defined_not_strong [of "get_sym st1 s"]
    by (auto simp: addRegular_def i Let_def strong_def intro!: good_replace good_report)
  then show ?thesis by (rule good_insert_file [OF i])
qed

lemma good_addComdat: "good_step st (snd (addComdat env f n v st))"
proof -
  obtain s w st1 where i: "insert_file env n (Some f) st = ((s, w), st1)" by (metis prod.exhaust)
  have "good_step st1 (snd (addComdat env f n v st))"
    if "sy_name (get_sym st1 s) = n" "w \<Longrightarrow> \<not> is_Defined (sy_body (get_sym st1 s))"
    using that not_defined_not_strong [of "get_sym st1 s"]
    by (auto simp: addComdat_def i Let_def strong_def intro!: good_replace good_report)
  then show ?thesis by (rule good_insert_file [OF i])
qed

lemma good_replace_common:
  assumes "sy_name (get_sym st s) = n" and "\<not> strong (get_sym st s)"
  shows "good_step st (replace_common s f n sz c st)"
proof -
  have "good_step st (replace_sym s (new_symbol n (DefinedCommon f sz c)) st)"
    using assms by (intro good_replace) simp_all
  then show ?thesis
    by (cases c) (auto simp: replace_common_def Let_def intro: good_frame)
qed

lemma good_addCommon: "good_step st (snd (addCommon env f n sz c st))"
proof -
  obtain s w st1 where i: "insert_file env n (Some f) st = ((s, w), st1)" by (metis prod.exhaust)
  have "good_step st1 (snd (addCommon env f n sz c st))"
    if "sy_name (get_sym st1 s) = n" "w \<Longrightarrow> \<not> is_Defined (sy_body (get_sym st1 s))"
    using that not_defined_not_strong [of "get_sym st1 s"]
    by (cases "sy_body (get_sym st1 s)")
      (auto simp: addCommon_def i Let_def strong_def intro!: good_replace_common)
  then show ?thesis by (rule good_insert_file [OF i])
qed

lemma good_pending: "good_step st (request l (upd_sym s (\<lambda>y. y\<lparr>pendingArchiveLoad := True\<rparr>) st))"
  by (rule good_request [OF good_flags(2)])

lemma good_addLazyArchive: "good_step st (addLazyArchive env f m n st)"
proof (cases "isEC env \<and> \<not> checkLazyECPair env n (\<lambda>b. case b of LazyArchive f' _ \<Rightarrow> f' = f | _ \<Rightarrow> False) st")
  case False
  obtain s w st1 where i: "insert_name env n st = ((s, w), st1)" by (metis prod.exhaust)
  have "good_step st1 (addLazyArchive env f m n st)"
    if "sy_name (get_sym st1 s) = n" "w \<Longrightarrow> \<not> is_Defined (sy_body (get_sym st1 s))"
    using that not_defined_not_strong [of "get_sym st1 s"] good_pending False
    by (auto simp: addLazyArchive_def i Let_def intro!: good_replace)
  then show ?thesis by (rule good_insert_name [OF i])
qed (simp add: addLazyArchive_def)

lemma good_addLazyDLLSymbol: "good_step st (addLazyDLLSymbol env f d n st)"
proof -
  obtain s w st1 where i: "insert_name env n st = ((s, w), st1)" by (metis prod.exhaust)
  have "good_step st1 (addLazyDLLSymbol env f d n st)"
    if "sy_name (get_sym st1 s) = n" "w \<Longrightarrow> \<not> is_Defined (sy_body (get_sym st1 s))"
    using that not_defined_not_strong [of "get_sym st1 s"] good_pending
    by (auto simp: addLazyDLLSymbol_def i Let_def intro!: good_replace)
  then show ?thesis by (rule good_insert_name [OF i])
qed

lemma good_addLazyObject: "good_step st (addLazyObject env f n st)"
proof (cases "isEC env \<and> \<not> checkLazyECPair env n (\<lambda>b. case b of LazyObject f' \<Rightarrow> f' = f | _ \<Rightarrow> False) st")
  case False
  obtain s w st1 where i: "insert_file env n (Some f) st = ((s, w), st1)" by (metis prod.exhaust)
  have "good_step st1 (request l ((upd_sym s (\<lambda>y. y\<lparr>pendingArchiveLoad := True\<rparr>) st1)\<lparr>lazyFiles := fs\<rparr>))" for l fs
    by (rule good_request, rule good_frame [OF good_flags(2)]) simp_all
  then have "good_step st1 (addLazyObject env f n st)"
    if "sy_name (get_sym st1 s) = n" "w \<Longrightarrow> \<not> is_Defined (sy_body (get_sym st1 s))"
    using that not_defined_not_strong [of "get_sym st1 s"] False
    by (auto simp: addLazyObject_def i Let_def intro!: good_replace)
  then show ?thesis by (rule good_insert_file [OF i])
qed (simp add: addLazyObject_def)

lemma good_setWeakAlias:
  "no_alias (sy_body (get_sym st b)) \<Longrightarrow> good_step st (upd_sym b (setWeakAlias t a) st)"
  by (rule good_upd) (simp add: slot_le_def setWeakAlias_def strong_def no_alias_def)

lemma get_insert_file:
  assumes "insert_file env n f st = ((s, w), st1)" and "wf_symtab st" and "i < length (st_syms st)"
  shows "core (get_sym st1 i) = core (get_sym st i)"
proof -
  obtain st0 where st0: "insert_name env n st = ((s, w), st0)"
    "st1 = st0 \<or> st1 = upd_sym s (\<lambda>y. y\<lparr>isUsedInRegularObj := True\<rparr>) st0"
    using assms(1) by (cases "insert_name env n st") (auto simp: insert_file_def Let_def split: if_splits)
  have "wf_symtab st0" using insert_name_good(1) [OF st0(1)] assms(2) by (simp add: good_step_def)
  then have "s < length (st_syms st0)" using wf_find(1) insert_name_good(2) [OF st0(1)] by blast
  moreover have "core (get_sym st0 i) = core (get_sym st i)"
  proof (cases "find st n")
    case None
    then have "st0 = inserted env n st" using st0(1) insert_name_None(1) [OF None, of env] by simp
    then show ?thesis using get_inserted(2) [OF None assms(3)] by simp
  qed (use st0(1) insert_name_Some in auto)
  moreover have "core (y\<lparr>isUsedInRegularObj := True\<rparr>) = core y" for y by (simp add: core_def)
  ultimately show ?thesis using st0(2) by (cases "i = s") (auto simp: get_upd_sym)
qed

lemma addUndefined_no_alias:
  assumes "wf_symtab st" and "i < length (st_syms st)" and "no_alias (sy_body (get_sym st i))"
  shows "no_alias (sy_body (get_sym (snd (addUndefined env n f False st)) i))"
proof -
  obtain s w st1 where ins: "insert_file env n f st = ((s, w), st1)" by (metis prod.exhaust)
  have c: "no_alias (sy_body (get_sym st1 i))"
    using get_insert_file [OF ins assms(1,2)] assms(3) by (simp add: core_def)
  have s: "s < length (st_syms st1)" by (rule insert_file_good(5) [OF ins assms(1)])
  show ?thesis
  proof (cases "i = s")
    case True
    then show ?thesis
      using c s by (auto simp: addUndefined_def ins Let_def replace_sym_def get_upd_sym no_alias_def replaceSymbol_def)
  next
    case False
    have "get_sym (forceLazy s st1) i = get_sym st1 i"
      using False s by (auto simp: forceLazy_def Let_def request_def get_sym_def upd_sym_def set_sym_def split: symbol_body.splits)
    then show ?thesis
      using c s False by (auto simp: addUndefined_def ins Let_def replace_sym_def get_upd_sym)
  qed
qed

lemma addUndefined_slot:
  assumes "wf_symtab st"
  shows "find (snd (addUndefined env n f ov st)) n = Some (fst (addUndefined env n f ov st))"
proof -
  obtain s w st1 where ins: "insert_file env n f st = ((s, w), st1)" by (metis prod.exhaust)
  have "find st1 n = Some s" by (rule insert_file_good(3) [OF ins assms])
  moreover have "find (forceLazy s st1) n = find st1 n"
    by (auto simp: forceLazy_def Let_def request_def find_def split: symbol_body.splits)
  ultimately show ?thesis by (auto simp: addUndefined_def ins Let_def replace_sym_def)
qed

lemma good_alias_root:
  assumes "wf_symtab st" and "b < length (st_syms st)"
  shows "good_step st (alias_root env n b st)"
proof (cases "se_mangled env n")
  case (Some k)
  obtain t st1 where u: "addUndefined env k None False st = (t, st1)" by fastforce
  have g: "good_step st st1" using good_addUndefined [of st env k None False] u by simp
  have "good_step st (upd_sym b (setWeakAlias t True) st1)" if "no_alias (sy_body (get_sym st b))"
    using good_trans [OF g good_setWeakAlias] addUndefined_no_alias [OF assms that, of env k None] u by simp
  then show ?thesis using Some u by (simp add: alias_root_def)
next
  case None
  show ?thesis
  proof (cases "se_demangled env n")
    case (Some k)
    obtain us st1 where u: "addUndefined env k None False st = (us, st1)" by fastforce
    have g: "good_step st st1" using good_addUndefined [of st env k None False] u by simp
    then show ?thesis
      using None Some u good_trans [OF g good_setWeakAlias] by (simp add: alias_root_def)
  qed (simp add: alias_root_def None)
qed

lemma good_set_root: "good_step st (set_root b st)"
  by (auto simp: set_root_def intro: good_frame [OF good_flags(3)])

lemma good_addGCRoot: "good_step st (snd (addGCRoot env n ec st))"
proof -
  obtain b st1 where u: "addUndefined env n None False st = (b, st1)" by fastforce
  have "good_step st (snd (addGCRoot env n ec st))" if wf: "wf_symtab st"
  proof -
    have g2: "good_step st (set_root b st1)"
      using good_trans [OF good_addUndefined [of st env n None False] good_set_root] u by simp
    then have wf2: "wf_symtab (set_root b st1)" using wf by (simp add: good_step_def)
    have "find st1 n = Some b" using addUndefined_slot [OF wf, of env n None False] u by simp
    then have "find (set_root b st1) n = Some b" by (simp add: set_root_def find_def)
    then have "b < length (st_syms (set_root b st1))" by (rule wf_find(1) [OF wf2])
    from good_trans [OF g2 good_alias_root [OF wf2 this]] g2 show ?thesis
      by (simp add: addGCRoot_def u Let_def)
  qed
  then show ?thesis by (simp add: good_step_def)
qed

section \<open>Sequences of operations\<close>

datatype sym_op =
    OpUndefined string "file_id option" bool
  | OpGCRoot string bool
  | OpLazyArchive file_id nat string
  | OpLazyObject file_id string
  | OpLazyDLLSymbol file_id nat string
  | OpAbsolute string u64 bool
  | OpSynthetic string "chunk_id option"
  | OpRegular file_id string u32 "chunk_id option" bool
  | OpComdat file_id string u32
  | OpCommon file_id string u64 "chunk_id option"
  | OpImportData string file_id "chunk_id option"
  | OpImportThunk string file_id chunk_id

fun apply_op :: "st_env \<Rightarrow> sym_op \<Rightarrow> symtab \<Rightarrow> symtab" where
  "apply_op env (OpUndefined n f ov) st = snd (addUndefined env n f ov st)"
| "apply_op env (OpGCRoot n ec) st = snd (addGCRoot env n ec st)"
| "apply_op env (OpLazyArchive f m n) st = addLazyArchive env f m n st"
| "apply_op env (OpLazyObject f n) st = addLazyObject env f n st"
| "apply_op env (OpLazyDLLSymbol f d n) st = addLazyDLLSymbol env f d n st"
| "apply_op env (OpAbsolute n v ext) st = snd (addAbsolute env n v ext st)"
| "apply_op env (OpSynthetic n c) st = snd (addSynthetic env n c st)"
| "apply_op env (OpRegular f n v c weak) st = snd (addRegular env f n v c weak st)"
| "apply_op env (OpComdat f n v) st = snd (addComdat env f n v st)"
| "apply_op env (OpCommon f n sz c) st = snd (addCommon env f n sz c st)"
| "apply_op env (OpImportData n f l) st = snd (addImportData env n f l st)"
| "apply_op env (OpImportThunk n f c) st = snd (addImportThunk env n f c st)"

text \<open>What a client of the table may rely on: every operation is a good step, so any sequence
  of them is.\<close>

locale resolver =
  fixes step :: "'op \<Rightarrow> symtab \<Rightarrow> symtab"
  assumes step_good: "good_step st (step x st)"
begin

lemma run_good: "good_step st (fold step xs st)"
proof (induction xs arbitrary: st)
  case (Cons x xs)
  show ?case using good_trans [OF step_good Cons] by simp
qed simp

lemma definition_stays:
  assumes "wf_symtab st" and "find st n = Some i"
  shows "find (fold step xs st) n = Some i" "slot_le (get_sym st i) (get_sym (fold step xs st) i)"
  using run_good [of st xs] assms wf_find(1) [OF assms] by (auto simp: good_step_def evolves_def)

end

interpretation table: resolver "apply_op env" for env
proof
  fix st x
  show "good_step st (apply_op env x st)"
    by (cases x) (simp_all add: good_addUndefined good_addGCRoot good_addLazyArchive good_addLazyObject
        good_addLazyDLLSymbol good_addAbsolute good_addSynthetic good_addRegular good_addComdat good_addCommon
        good_addImportData good_addImportThunk)
qed

section \<open>Properties\<close>

text \<open>
  C6: whatever sequence of symbols the input files add, the table stays well formed, a name
  keeps its slot, a defined symbol stays defined, and the first strong regular definition
  of a name keeps its file, section and value: later undefined, lazy, absolute, common,
  COMDAT, import and regular additions do not displace it.
\<close>

theorem resolution_stable:
  assumes "wf_symtab st" and "find st n = Some i"
  shows "wf_symtab (fold (apply_op env) ops st) \<and> find (fold (apply_op env) ops st) n = Some i \<and>
    (is_Defined (sy_body (get_sym st i)) \<longrightarrow> is_Defined (sy_body (get_sym (fold (apply_op env) ops st) i))) \<and>
    (is_DefinedRegular (sy_body (get_sym st i)) \<and> \<not> isWeak (get_sym st i) \<longrightarrow>
       sy_body (get_sym (fold (apply_op env) ops st) i) = sy_body (get_sym st i))"
  using table.definition_stays [OF assms, of env ops] table.run_good [of st env ops] assms(1)
  by (auto simp: good_step_def slot_le_def strong_def)

lemma replace_get: "i < length (st_syms st) \<Longrightarrow> sy_body (get_sym (replace_sym i T st) i) = sy_body T"
  by (simp add: replace_sym_def get_upd_sym replaceSymbol_def)

text \<open>
  C33: a second strong definition of a name is reported as a duplicate, exactly once, and does
  not replace the first.
\<close>

theorem addRegular_duplicate:
  assumes "wf_symtab st" and "find st n = Some i" and "is_DefinedRegular (sy_body (get_sym st i))"
    and "\<not> isWeak (get_sym st i)"
  shows "diags (snd (addRegular env f n v c False st)) = diags st @ [DuplicateSymbol i] \<and>
    sy_body (get_sym (snd (addRegular env f n v c False st)) i) = sy_body (get_sym st i)"
proof -
  obtain s w st1 where ins: "insert_file env n (Some f) st = ((s, w), st1)" by (metis prod.exhaust)
  note g = insert_file_good [OF ins assms(1)]
  have w: "\<not> w" "s = i"
    using g(3,4) assms(2) g(1) assms(1) by (auto simp: good_step_def evolves_def)
  have "core (get_sym st1 i) = core (get_sym st i)" using g(8) w by simp
  then have "sy_body (get_sym st1 i) = sy_body (get_sym st i)" "isWeak (get_sym st1 i) = isWeak (get_sym st i)"
    by (simp_all add: core_def)
  then show ?thesis
    using assms(3,4) w g(10) by (simp add: addRegular_def ins Let_def reportDuplicate_def get_sym_def)
qed

text \<open>The size of the common symbol a slot holds.\<close>

fun common_size :: "symbol_body \<Rightarrow> u64 option" where
  "common_size (DefinedCommon _ sz _) = Some sz"
| "common_size _ = None"

lemma addCommon_size:
  assumes "wf_symtab st" and "find st n = Some i" and "common_size (sy_body (get_sym st i)) = Some m"
  shows "wf_symtab (snd (addCommon env f n sz c st)) \<and> find (snd (addCommon env f n sz c st)) n = Some i \<and>
    common_size (sy_body (get_sym (snd (addCommon env f n sz c st)) i)) = Some (max m sz)"
proof -
  obtain s w st1 where ins: "insert_file env n (Some f) st = ((s, w), st1)" by (metis prod.exhaust)
  note g = insert_file_good [OF ins assms(1)]
  have w: "\<not> w" "s = i" using g(1,3,4) assms(1,2) by (auto simp: good_step_def evolves_def)
  have i: "i < length (st_syms st1)" using g(5) w by simp
  have b: "sy_body (get_sym st1 i) = sy_body (get_sym st i)" using g(8) w by (simp add: core_def)
  then obtain f' c' where B: "sy_body (get_sym st1 i) = DefinedCommon f' m c'"
    using assms(3) by (cases "sy_body (get_sym st i)") auto
  have r: "sy_body (get_sym (replace_common i f n sz c st1) i) = DefinedCommon f sz c"
    using i by (cases c) (simp_all add: replace_common_def Let_def get_sym_def,
        simp_all add: replace_sym_def upd_sym_def set_sym_def replaceSymbol_def)
  have "wf_symtab (snd (addCommon env f n sz c st))" "find (snd (addCommon env f n sz c st)) n = Some i"
    using good_addCommon [of st env f n sz c] assms(1,2) by (auto simp: good_step_def evolves_def)
  moreover have "common_size (sy_body (get_sym (snd (addCommon env f n sz c st)) i)) = Some (max m sz)"
    using B r w by (auto simp: addCommon_def ins Let_def max_def)
  ultimately show ?thesis by simp
qed

text \<open>
  common symbols of one name merge to the largest: after any list of tentative definitions on
  top of one of size \<open>m\<close>, the slot holds a common symbol whose size is the maximum.
\<close>

lemma addCommon_max:
  assumes "wf_symtab st" and "find st n = Some i" and "common_size (sy_body (get_sym st i)) = Some m"
  shows "common_size (sy_body (get_sym (fold (\<lambda>(f, sz, c) st. snd (addCommon env f n sz c st)) xs st) i)) =
    Some (Max (insert m ((\<lambda>(f, sz, c). sz) ` set xs)))"
  using assms
proof (induction xs arbitrary: st m)
  case (Cons x xs)
  obtain f sz c where x: "x = (f, sz, c)" by (metis prod.exhaust)
  have "Max (insert (max m sz) A) = Max (insert m (insert sz A))" if "finite A" for A :: "u64 set"
    using that by (cases "A = {}") (simp_all add: max.assoc)
  then show ?case using Cons.IH addCommon_size [OF Cons.prems, of env f sz c] x by simp
qed simp

text \<open>
  C32: a reference and an archive member that defines it meet in either order: whether the
  undefined symbol or the lazy symbol is added first, the member is requested exactly once.
\<close>

theorem lazy_rendezvous:
  assumes "wf_symtab st" and "find st n = None" and "\<not> isEC env"
  shows "loads (addLazyArchive env a m n (snd (addUndefined env n f False st))) = loads st @ [AddMember a m] \<and>
    loads (snd (addUndefined env n f False (addLazyArchive env a m n st))) = loads st @ [AddMember a m]"
proof
  obtain s w st1 where ins: "insert_file env n f st = ((s, w), st1)" by (metis prod.exhaust)
  note g = insert_file_good [OF ins assms(1)]
  let ?st = "replace_sym s (new_symbol n (Undefined None)) st1"
  have u: "addUndefined env n f False st = (s, ?st)" using g(4) assms(2) by (simp add: addUndefined_def ins)
  have f: "find ?st n = Some s" using g(3) by (simp add: replace_sym_def)
  have "wants_load env (get_sym ?st s)"
    using g(5) by (simp add: replace_sym_def get_upd_sym replaceSymbol_def wants_load_def no_alias_def)
  then show "loads (addLazyArchive env a m n (snd (addUndefined env n f False st))) = loads st @ [AddMember a m]"
    using assms(3) g(9) insert_name_Some [OF f, of env] by (simp add: u addLazyArchive_def request_def replace_sym_def)
next
  let ?s = "length (st_syms st)" and ?base = "inserted env n st"
  let ?st = "replace_sym ?s (new_symbol n (LazyArchive a m)) ?base"
  have l: "addLazyArchive env a m n st = ?st"
    using assms(3) insert_name_None(1) [OF assms(2), of env] by (simp add: addLazyArchive_def)
  have wf: "wf_symtab ?st" using good_addLazyArchive [of st env a m n] l assms(1) by (simp add: good_step_def)
  have f: "find ?st n = Some ?s" using find_inserted [OF assms(2)] by (simp add: replace_sym_def)
  obtain s w st1 where ins: "insert_file env n f ?st = ((s, w), st1)" by (metis prod.exhaust)
  note g = insert_file_good [OF ins wf]
  have w: "\<not> w" "s = ?s" using g(1,3,4) wf f by (auto simp: good_step_def evolves_def)
  have "sy_body (get_sym st1 ?s) = sy_body (get_sym ?st ?s)" using g(8) w by (simp add: core_def)
  also have "\<dots> = LazyArchive a m"
    using replace_get [of ?s ?base] insert_name_None(2) [OF assms(2), of env] by simp
  finally have "snd (addUndefined env n f False ?st) = forceLazy ?s st1"
    "loads (forceLazy ?s st1) = loads st1 @ [AddMember a m]"
    using w by (simp_all add: addUndefined_def ins forceLazy_def Let_def request_def)
  moreover have "loads ?st = loads st" using insert_name_None(4) [OF assms(2), of env] by (simp add: replace_sym_def)
  ultimately show "loads (snd (addUndefined env n f False (addLazyArchive env a m n st))) = loads st @ [AddMember a m]"
    using g(9) by (simp add: l)
qed

section \<open>Examples\<close>

definition st_sample_env :: st_env where
  "st_sample_env = \<lparr>se_machine = AMD64, se_isBitcode = (\<lambda>_. False), se_mangled = (\<lambda>_. None),
     se_demangled = (\<lambda>_. None), se_autoImport = False, se_forceUnresolved = False,
     se_warnLocallyDefinedImported = True, se_wordsize = 8\<rparr>"

definition st_sample :: "symbol_body \<Rightarrow> symtab" where
  "st_sample b = \<lparr>st_store = \<lparr>syms = [new_symbol ''f'' b], chunks = [], importFiles = []\<rparr>,
     symMap = [(''f'', 0)], lazyFiles = [], gcroot = [], expSymbols = [], loads = [], diags = []\<rparr>"

lemma st_sample_facts:
  "wf_symtab (st_sample b)" "find (st_sample b) ''f'' = Some 0" "get_sym (st_sample b) 0 = new_symbol ''f'' b"
  "find (st_sample b) ''g'' = None"
  by (simp_all add: wf_symtab_def st_sample_def find_def get_sym_def)

theorem resolution_stable_witness:
  "sy_body (get_sym (fold (apply_op st_sample_env) [OpCommon 1 ''f'' 8 None, OpUndefined ''f'' None False]
      (st_sample (DefinedRegular 0 4 None))) 0) = DefinedRegular 0 4 None"
  using resolution_stable [OF st_sample_facts(1) st_sample_facts(2), of st_sample_env
      "[OpCommon 1 ''f'' 8 None, OpUndefined ''f'' None False]" "DefinedRegular 0 4 None"]
  by (simp add: st_sample_facts)

theorem addRegular_duplicate_witness:
  "diags (snd (addRegular st_sample_env 1 ''f'' 0 None False (st_sample (DefinedRegular 0 4 None)))) = [DuplicateSymbol 0]"
  using addRegular_duplicate [OF st_sample_facts(1,2), of "DefinedRegular 0 4 None" st_sample_env 1 0 None]
  by (simp add: st_sample_facts) (simp add: st_sample_def)

theorem lazy_rendezvous_witness:
  "loads (snd (addUndefined st_sample_env ''g'' None False
      (addLazyArchive st_sample_env 3 7 ''g'' (st_sample (DefinedAbsolute 0))))) = [AddMember 3 7]"
proof -
  have "\<not> isEC st_sample_env" by (simp add: isEC_def st_sample_env_def)
  from lazy_rendezvous [OF st_sample_facts(1) st_sample_facts(4) this] show ?thesis
    by (simp add: st_sample_def)
qed

end
