(* ===== verification/BaseRelocs.thy ===== *)
theory BaseRelocs
  imports SectionWrite SymbolTable
begin

text \<open>
  Base relocations: which fields of a section need one (\<open>getBaserelType\<close>, \<open>getBaserels\<close> of
  \<open>Chunks.cpp\<close>), how \<open>Writer::addBaserelBlocks\<close> groups them by page, and the bytes a
  \<open>BaserelChunk\<close> holds. The reader of the table, as the Windows loader reads it, is defined
  here to state that the table says what was collected.
\<close>

unbundle bit_operations_syntax

section \<open>The code\<close>

record Baserel =
  br_rva :: u32
  br_type :: byte

definition is64Bit :: "machine \<Rightarrow> bool" where
  "is64Bit m \<longleftrightarrow> m = AMD64 \<or> m = ARM64 \<or> isArm64EC m"

definition getDefaultType :: "machine \<Rightarrow> byte" where
  "getDefaultType m = (if is64Bit m then 10 else 3)"

definition getBaserelType :: "coff_relocation \<Rightarrow> arch \<Rightarrow> byte" where
  "getBaserelType rel a =
     (case a of
        x86_64 \<Rightarrow> if rel_Type rel = 0x0001 then 10 else if rel_Type rel = 0x0002 then 3 else 0
      | x86 \<Rightarrow> if rel_Type rel = 0x0006 then 3 else 0
      | thumb \<Rightarrow> if rel_Type rel = 0x0001 then 3 else if rel_Type rel = 0x0011 then 7 else 0
      | aarch64 \<Rightarrow> if rel_Type rel = 0x000E then 10 else 0)"

fun is_DefinedAbsolute :: "symbol_body \<Rightarrow> bool" where
  "is_DefinedAbsolute (DefinedAbsolute _) = True"
| "is_DefinedAbsolute _ = False"

text \<open>\<open>SectionChunk::getBaserels\<close>, the body of its loop first. The last argument is the extra entry
  for the CHPE metadata pointer of a hybrid image, when this section holds the native load
  configuration.\<close>

definition rel_baserel :: "reloc_env \<Rightarrow> section_data \<Rightarrow> coff_relocation \<Rightarrow> Baserel list" where
  "rel_baserel env sec rel =
     (let ty = getBaserelType rel (re_arch env) in
      if ty = 0 then []
      else case re_getSymbol env (SymbolTableIndex rel) of
        None \<Rightarrow> []
      | Some target \<Rightarrow>
          if \<not> is_Defined (sy_body target) \<or> is_DefinedAbsolute (sy_body target) then []
          else [\<lparr>br_rva = sn_rva sec + VirtualAddress rel, br_type = ty\<rparr>])"

definition getBaserels :: "reloc_env \<Rightarrow> section_data \<Rightarrow> u32 option \<Rightarrow> Baserel list \<Rightarrow> Baserel list" where
  "getBaserels env sec chpe res =
     res @ concat (map (rel_baserel env sec) (sn_relocs sec)) @
     (case chpe of Some rva \<Rightarrow> [\<lparr>br_rva = rva, br_type = 10\<rparr>] | None \<Rightarrow> [])"

text \<open>The constructor of \<open>BaserelChunk\<close>: header, then one halfword per entry, in a zeroed
  buffer whose size is rounded up to four bytes.\<close>

definition baserel_entry :: "u32 \<Rightarrow> Baserel \<Rightarrow> u16" where
  "baserel_entry page r = ucast (push_bit 12 (ucast (br_type r) :: u32) OR (br_rva r - page))"

fun baserel_entries :: "u32 \<Rightarrow> nat \<Rightarrow> Baserel list \<Rightarrow> buffer \<Rightarrow> buffer" where
  "baserel_entries page p [] data = data"
| "baserel_entries page p (r # rs) data = baserel_entries page (p + 2) rs (write16le data p (baserel_entry page r))"

definition BaserelChunk :: "u32 \<Rightarrow> Baserel list \<Rightarrow> buffer" where
  "BaserelChunk page rs =
     (let data = replicate (alignTo (length rs * 2 + 8) 4) 0;
          data1 = write32le data 0 page;
          data2 = write32le data1 4 (of_nat (length data1))
      in baserel_entries page 8 rs data2)"

definition page_of :: "u32 \<Rightarrow> u32" where
  "page_of rva = rva AND NOT 0xfff"

text \<open>The loop of \<open>addBaserelBlocks\<close>: \<open>grp\<close> is \<open>v[i..<j]\<close>, the run of entries not yet written.\<close>

fun baserel_blocks :: "u32 \<Rightarrow> Baserel list \<Rightarrow> Baserel list \<Rightarrow> (u32 \<times> Baserel list) list" where
  "baserel_blocks page grp [] = [(page, grp)]"
| "baserel_blocks page grp (r # rs) =
     (if page_of (br_rva r) = page then baserel_blocks page (grp @ [r]) rs
      else (page, grp) # baserel_blocks (page_of (br_rva r)) [r] rs)"

text \<open>The first page is taken from the first entry before the vector is sorted.\<close>

definition addBaserelBlocks :: "Baserel list \<Rightarrow> (u32 \<times> Baserel list) list" where
  "addBaserelBlocks v =
     (let page = page_of (br_rva (v ! 0)) in
      case sort_key (\<lambda>r. unat (br_rva r)) v of
        [] \<Rightarrow> []
      | r # rs \<Rightarrow> baserel_blocks page [r] rs)"

text \<open>\<open>Writer::addBaserels\<close>: a section is its characteristics and, for each of its chunks, what
  the chunk's \<open>getBaserels\<close> appends. A discardable section gets no base relocations.\<close>

definition addBaserels :: "bool \<Rightarrow> (u32 \<times> Baserel list list) list \<Rightarrow> (u32 \<times> Baserel list) list" where
  "addBaserels relocatable secs =
     (if \<not> relocatable then []
      else concat (map (\<lambda>(characteristics, chunks).
             if characteristics AND 0x02000000 \<noteq> 0 then []
             else let v = concat chunks in if v = [] then [] else addBaserelBlocks v) secs))"

definition reloc_bytes :: "(u32 \<times> Baserel list) list \<Rightarrow> buffer" where
  "reloc_bytes bs = concat (map (\<lambda>(page, rs). BaserelChunk page rs) bs)"

section \<open>Reading the table\<close>

fun read_entries :: "u32 \<Rightarrow> buffer \<Rightarrow> Baserel list" where
  "read_entries page (a # b # bs) =
     (let e = word_of_bytes [a, b] :: u16 in
      if drop_bit 12 e = 0 then read_entries page bs
      else \<lparr>br_rva = page + ucast (e AND 0xfff), br_type = ucast (drop_bit 12 e)\<rparr> # read_entries page bs)"
| "read_entries page _ = []"

function parse_relocs :: "buffer \<Rightarrow> Baserel list" where
  "parse_relocs buf =
     (let n = unat (read32le buf 4) in
      if n < 8 \<or> length buf < n then []
      else read_entries (read32le buf 0) (sub buf 8 (n - 8)) @ parse_relocs (drop n buf))"
  by pat_completeness auto
termination by (relation "measure length") auto

declare parse_relocs.simps [simp del]

section \<open>One block\<close>

definition entry_bytes :: "u32 \<Rightarrow> Baserel list \<Rightarrow> buffer" where
  "entry_bytes page rs = concat (map (\<lambda>r. bytes_of 2 (baserel_entry page r)) rs)"

lemma length_entry_bytes [simp]: "length (entry_bytes page rs) = 2 * length rs"
  by (induction rs) (simp_all add: entry_bytes_def)

lemma put_put_adjacent:
  assumes "p + length xs + length ys \<le> length d"
  shows "put (put d p xs) (p + length xs) ys = put d p (xs @ ys)"
  using assms by (simp add: put_def add.assoc add.commute add.left_commute)

lemma baserel_entries_put:
  "p + 2 * length rs \<le> length data \<Longrightarrow> baserel_entries page p rs data = put data p (entry_bytes page rs)"
proof (induction rs arbitrary: p data)
  case Nil
  then show ?case by (simp add: put_def entry_bytes_def)
next
  case (Cons r rs)
  have "baserel_entries page (p + 2) rs (put data p (bytes_of 2 (baserel_entry page r))) =
      put (put data p (bytes_of 2 (baserel_entry page r))) (p + 2) (entry_bytes page rs)"
    using Cons by simp
  also have "\<dots> = put data p (bytes_of 2 (baserel_entry page r) @ entry_bytes page rs)"
    using put_put_adjacent [of p "bytes_of 2 (baserel_entry page r)" "entry_bytes page rs" data] Cons.prems by simp
  finally show ?case by (simp add: write16le_def entry_bytes_def)
qed

definition block_size :: "Baserel list \<Rightarrow> nat" where
  "block_size rs = alignTo (length rs * 2 + 8) 4"

lemma block_size_cases: "block_size rs = 2 * length rs + 8 \<or> block_size rs = 2 * length rs + 10"
proof -
  have "4 dvd block_size rs" "2 * length rs + 8 \<le> block_size rs" "block_size rs < 2 * length rs + 8 + 4"
    using alignTo_dvd [of 4 "length rs * 2 + 8"] alignTo_ge [of 4 "length rs * 2 + 8"] alignTo_less [of 4 "length rs * 2 + 8"]
    by (simp_all add: block_size_def mult.commute)
  then show ?thesis by presburger
qed

lemma BaserelChunk_bytes:
  "BaserelChunk page rs = bytes_of 4 page @ bytes_of 4 (of_nat (block_size rs) :: u32) @ entry_bytes page rs @
     replicate (block_size rs - (2 * length rs + 8)) 0"
proof -
  let ?N = "block_size rs"
  let ?d = "replicate ?N 0 :: buffer" and ?a = "bytes_of 4 page" and ?b = "bytes_of 4 (of_nat ?N :: u32)" and ?e = "entry_bytes page rs"
  have N: "8 + 2 * length rs \<le> ?N" using block_size_cases [of rs] by auto
  have l: "length (put ?d 0 ?a) = ?N" "length (put (put ?d 0 ?a) 4 ?b) = ?N" using N by simp_all
  have "BaserelChunk page rs = put (put (put ?d 0 ?a) 4 ?b) 8 ?e"
    using l N by (simp add: BaserelChunk_def Let_def write32le_def baserel_entries_put flip: block_size_def)
  also have "put (put ?d 0 ?a) 4 ?b = put ?d 0 (?a @ ?b)"
    using put_put_adjacent [of 0 ?a ?b ?d] N by simp
  also have "put (put ?d 0 (?a @ ?b)) 8 ?e = put ?d 0 ((?a @ ?b) @ ?e)"
    using put_put_adjacent [of 0 "?a @ ?b" ?e ?d] N by simp
  also have "\<dots> = ?a @ ?b @ ?e @ replicate (?N - (2 * length rs + 8)) 0"
    by (simp add: put_def add.commute)
  finally show ?thesis .
qed

definition entry_ok :: "u32 \<Rightarrow> Baserel \<Rightarrow> bool" where
  "entry_ok page r \<longleftrightarrow> page_of (br_rva r) = page \<and> 0 < br_type r \<and> br_type r < 16"

lemma type_bits: "br_type r < 16 \<Longrightarrow> 4 \<le> k \<Longrightarrow> \<not> bit (br_type r) k"
proof -
  assume "br_type r < 16" "4 \<le> k"
  then have "take_bit 4 (br_type r) = br_type r"
    by (simp add: word_less_nat_alt take_bit_eq_mod word_unat_eq_iff unat_mod_distrib)
  then show ?thesis using \<open>4 \<le> k\<close> by (metis bit_take_bit_iff not_le)
qed

lemma entry_fields:
  assumes "entry_ok page r"
  shows "drop_bit 12 (baserel_entry page r) = ucast (br_type r)"
    and "page + ucast (baserel_entry page r AND 0xfff) = br_rva r"
proof -
  have page: "page = br_rva r AND NOT 0xfff" using assms by (simp add: entry_ok_def page_of_def)
  have t: "\<not> bit (br_type r) k" if "4 \<le> k" for k using assms type_bits [of r k] that by (simp add: entry_ok_def)
  have "br_rva r = (br_rva r AND NOT 0xfff) OR (br_rva r AND 0xfff)"
    by (rule bits_eqI32, unfold nat32) (simp add: bit_simps)
  moreover have "(br_rva r AND NOT 0xfff) AND (br_rva r AND 0xfff) = 0"
    by (rule bits_eqI32, unfold nat32) (simp add: bit_simps)
  ultimately have sum: "page + (br_rva r AND 0xfff) = br_rva r"
    using page by (metis disjunctive_add_eq_or)
  then have d: "br_rva r - page = br_rva r AND 0xfff" by (metis add_diff_cancel_left')
  show "drop_bit 12 (baserel_entry page r) = ucast (br_type r)"
    unfolding baserel_entry_def d by (rule bits_eqI16, unfold nat16) (simp add: bit_simps t)
  have "ucast (baserel_entry page r AND 0xfff) = br_rva r AND 0xfff"
    unfolding baserel_entry_def d by (rule bits_eqI32, unfold nat32) (simp add: bit_simps)
  then show "page + ucast (baserel_entry page r AND 0xfff) = br_rva r" using sum by simp
qed

lemma bytes_of_2: "bytes_of 2 w = [ucast w, ucast (drop_bit 8 w)]"
  by (simp add: bytes_of_def numeral_2_eq_2)

lemma entry_roundtrip:
  assumes "entry_ok page r"
  shows "read_entries page (bytes_of 2 (baserel_entry page r) @ zs) = r # read_entries page zs"
proof -
  let ?e = "baserel_entry page r"
  have b: "bytes_of 2 ?e = [ucast ?e, ucast (drop_bit 8 ?e)]" by (rule bytes_of_2)
  have "word_of_bytes (bytes_of 2 ?e) = ?e" by simp
  then have w: "word_of_bytes [ucast ?e, ucast (drop_bit 8 ?e)] = ?e" by (simp only: b)
  have uc: "ucast (ucast (br_type r) :: u16) = br_type r" by (rule bit_word_eqI) (simp add: bit_simps)
  then have nz: "(ucast (br_type r) :: u16) \<noteq> 0" using assms unfolding entry_ok_def by force
  show ?thesis using assms nz by (simp add: b w Let_def entry_fields uc del: word_of_bytes.simps)
qed

lemma read_entries_entry_bytes:
  assumes "\<And>r. r \<in> set rs \<Longrightarrow> entry_ok page r"
  shows "read_entries page (entry_bytes page rs @ zs) = rs @ read_entries page zs"
  using assms
proof (induction rs)
  case Nil
  then show ?case by (simp add: entry_bytes_def)
next
  case (Cons r rs)
  have "entry_bytes page (r # rs) @ zs = bytes_of 2 (baserel_entry page r) @ (entry_bytes page rs @ zs)"
    by (simp add: entry_bytes_def)
  then show ?case using Cons by (simp only: entry_roundtrip list.set_intros append_Cons Cons.IH)
qed

lemma read_entries_padding:
  "k = 0 \<or> k = 2 \<Longrightarrow> read_entries page (replicate k 0) = []"
  by (auto simp: numeral_2_eq_2 Let_def)

lemma parse_relocs_block:
  assumes ok: "\<And>r. r \<in> set rs \<Longrightarrow> entry_ok page r" and size: "2 * length rs + 10 < 2 ^ 32"
  shows "parse_relocs (BaserelChunk page rs @ rest) = rs @ parse_relocs rest"
proof -
  let ?N = "block_size rs" and ?buf = "BaserelChunk page rs @ rest"
  let ?pad = "replicate (?N - (2 * length rs + 8)) 0 :: buffer"
  have N: "?N = 2 * length rs + 8 \<or> ?N = 2 * length rs + 10" by (rule block_size_cases)
  then have u: "unat (of_nat ?N :: u32) = ?N" using size by (auto simp: unat_of_nat)
  have len: "length (BaserelChunk page rs) = ?N" using N by (auto simp: BaserelChunk_bytes)
  have s0: "sub ?buf 0 4 = bytes_of 4 page" by (simp add: BaserelChunk_bytes sub_def)
  have s4: "sub ?buf 4 4 = bytes_of 4 (of_nat ?N :: u32)" by (simp add: BaserelChunk_bytes sub_def)
  have s8: "sub ?buf 8 (?N - 8) = entry_bytes page rs @ ?pad"
    using N by (auto simp: BaserelChunk_bytes sub_def)
  have r: "read32le ?buf 0 = page" "read32le ?buf 4 = of_nat ?N"
    by (simp_all add: read32le_def s0 s4)
  have "read_entries page (entry_bytes page rs @ ?pad) = rs"
    using ok N by (auto simp: read_entries_entry_bytes read_entries_padding)
  moreover have "drop ?N ?buf = rest" by (simp flip: len)
  moreover have "\<not> (?N < 8 \<or> length ?buf < ?N)" using N len by auto
  ultimately show ?thesis
    by (subst parse_relocs.simps) (simp add: r u s8 Let_def)
qed

section \<open>The blocks of a table\<close>

lemma baserel_blocks_entries: "concat (map snd (baserel_blocks page grp rs)) = grp @ rs"
  by (induction page grp rs rule: baserel_blocks.induct) simp_all

lemma baserel_blocks_pages:
  assumes "\<And>r. r \<in> set grp \<Longrightarrow> page_of (br_rva r) = page" "(p, g) \<in> set (baserel_blocks page grp rs)" "r \<in> set g"
  shows "page_of (br_rva r) = p"
  using assms
proof (induction rs arbitrary: page grp)
  case Nil
  then show ?case by simp
next
  case (Cons x rs)
  show ?case
  proof (cases "page_of (br_rva x) = page")
    case True
    show ?thesis by (rule Cons.IH [of "grp @ [x]" page]) (use Cons.prems True in auto)
  next
    case False
    then consider "p = page" "g = grp" | "(p, g) \<in> set (baserel_blocks (page_of (br_rva x)) [x] rs)"
      using Cons.prems(2) by auto
    then show ?thesis
    proof cases
      case 1
      then show ?thesis using Cons.prems by simp
    next
      case 2
      then show ?thesis by (rule Cons.IH [of "[x]" "page_of (br_rva x)", rotated]) (use Cons.prems in auto)
    qed
  qed
qed

lemma parse_relocs_Nil [simp]: "parse_relocs [] = []"
  by (subst parse_relocs.simps) (simp add: read32le_def sub_def Let_def)

lemma parse_reloc_bytes:
  assumes "\<And>p g r. (p, g) \<in> set bs \<Longrightarrow> r \<in> set g \<Longrightarrow> entry_ok p r"
    and "\<And>p g. (p, g) \<in> set bs \<Longrightarrow> 2 * length g + 10 < 2 ^ 32"
  shows "parse_relocs (reloc_bytes bs) = concat (map snd bs)"
  using assms
proof (induction bs)
  case Nil
  then show ?case by (simp add: reloc_bytes_def)
next
  case (Cons b bs)
  obtain p g where b: "b = (p, g)" by fastforce
  have "reloc_bytes (b # bs) = BaserelChunk p g @ reloc_bytes bs" by (simp add: reloc_bytes_def b)
  moreover have "parse_relocs (BaserelChunk p g @ reloc_bytes bs) = g @ parse_relocs (reloc_bytes bs)"
    by (rule parse_relocs_block) (use Cons.prems(1) [of p g] Cons.prems(2) [of p g] b in auto)
  moreover have "parse_relocs (reloc_bytes bs) = concat (map snd bs)"
    by (rule Cons.IH) (use Cons.prems in \<open>meson list.set_intros(2)\<close>)+
  ultimately show ?case using b by simp
qed

lemma page_of_drop: "page_of x = push_bit 12 (drop_bit 12 x)"
  unfolding page_of_def by (rule bits_eqI32, unfold nat32) (simp add: bit_simps)

lemma unat_page_of: "unat (page_of x) = 4096 * (unat x div 4096)"
proof -
  have d: "unat (drop_bit 12 x) = unat x div 4096" by (simp add: unat_drop_bit_eq) (simp add: drop_bit_eq_div)
  have "unat x < 2 ^ 32" using unsigned_less [of x] by simp
  then have "4096 * (unat x div 4096) < 2 ^ 32" by linarith
  then show ?thesis unfolding page_of_drop
    by (simp add: unsigned_push_bit_eq d) (simp add: push_bit_eq_mult take_bit_eq_mod)
qed

lemma page_of_between:
  assumes "page_of y \<le> x" "x \<le> y"
  shows "page_of x = page_of y"
proof -
  have "4096 * (unat y div 4096) \<le> unat x" using assms(1) by (simp add: word_le_nat_alt unat_page_of)
  then have "unat x div 4096 = unat y div 4096"
    using assms(2) div_le_mono [of "unat x" "unat y" 4096] by (simp add: word_le_nat_alt less_eq_div_iff_mult_less_eq antisym mult.commute)
  then show ?thesis by (simp add: word_unat_eq_iff unat_page_of)
qed

lemma sorted_head_page:
  assumes "\<forall>r\<in>set v. page_of (br_rva (v ! 0)) \<le> br_rva r" "sort_key (\<lambda>r. unat (br_rva r)) v = r # rs"
  shows "page_of (br_rva r) = page_of (br_rva (v ! 0))"
proof (rule page_of_between)
  have S: "set (r # rs) = set v" "sorted (map (\<lambda>r. unat (br_rva r)) (r # rs))"
    using assms(2) by (metis set_sort, metis sorted_sort_key)
  then have v: "v ! 0 \<in> set (r # rs)" by (cases v) auto
  have "r \<in> set v" using S(1) by auto
  then show "page_of (br_rva (v ! 0)) \<le> br_rva r" using assms(1) by blast
  show "br_rva r \<le> br_rva (v ! 0)" using v S(2) by (auto simp: word_le_nat_alt)
qed

text \<open>What \<open>addBaserelBlocks\<close> needs of the entries it is given: the page of the first one is the
  lowest page, and each type fits the four bits of the table.\<close>

definition baserels_ok :: "Baserel list \<Rightarrow> bool" where
  "baserels_ok v \<longleftrightarrow> (\<forall>r\<in>set v. page_of (br_rva (v ! 0)) \<le> br_rva r \<and> 0 < br_type r \<and> br_type r < 16) \<and>
     2 * length v + 10 < 2 ^ 32"

lemma addBaserelBlocks_blocks:
  assumes "v \<noteq> []" "baserels_ok v"
  shows addBaserelBlocks_entries: "concat (map snd (addBaserelBlocks v)) = sort_key (\<lambda>r. unat (br_rva r)) v"
    and addBaserelBlocks_entry_ok: "(p, g) \<in> set (addBaserelBlocks v) \<Longrightarrow> x \<in> set g \<Longrightarrow> entry_ok p x"
    and addBaserelBlocks_length: "(p, g) \<in> set (addBaserelBlocks v) \<Longrightarrow> 2 * length g + 10 < 2 ^ 32"
proof -
  obtain r rs where s: "sort_key (\<lambda>r. unat (br_rva r)) v = r # rs"
    using assms(1) length_sort [of "\<lambda>r. unat (br_rva r)" v] by (cases "sort_key (\<lambda>r. unat (br_rva r)) v") auto
  let ?bs = "baserel_blocks (page_of (br_rva (v ! 0))) [r] rs"
  have bs: "addBaserelBlocks v = ?bs" using s by (simp add: addBaserelBlocks_def Let_def)
  have S: "set (r # rs) = set v" "length (r # rs) = length v" using s by (metis set_sort, metis length_sort)
  have entries: "concat (map snd ?bs) = r # rs" by (simp add: baserel_blocks_entries)
  show "concat (map snd (addBaserelBlocks v)) = sort_key (\<lambda>r. unat (br_rva r)) v" using bs s entries by simp
  show "entry_ok p x" if "(p, g) \<in> set (addBaserelBlocks v)" "x \<in> set g"
  proof -
    have "x \<in> set (concat (map snd ?bs))" using that bs by force
    then have "x \<in> set v" by (simp only: entries S(1))
    moreover have "page_of (br_rva r) = page_of (br_rva (v ! 0))"
      using sorted_head_page [OF _ s] assms(2) by (simp add: baserels_ok_def)
    then have "page_of (br_rva x) = p" using baserel_blocks_pages [of "[r]" _ p g rs x] that bs by simp
    ultimately show ?thesis using assms(2) by (simp add: entry_ok_def baserels_ok_def)
  qed
  show "2 * length g + 10 < 2 ^ 32" if "(p, g) \<in> set (addBaserelBlocks v)"
  proof -
    have "length g \<le> length (concat (map snd ?bs))"
      unfolding length_concat by (rule member_le_sum_list) (use that bs in force, simp)
    then show ?thesis using entries S(2) assms(2) by (simp add: baserels_ok_def)
  qed
qed

text \<open>The entries the table of an image has to hold, section by section.\<close>

definition expected_baserels :: "(u32 \<times> Baserel list list) list \<Rightarrow> Baserel list" where
  "expected_baserels secs =
     concat (map (\<lambda>(characteristics, chunks). sort_key (\<lambda>r. unat (br_rva r)) (concat chunks))
       (filter (\<lambda>(characteristics, chunks). characteristics AND 0x02000000 = 0) secs))"

text \<open>C14: the base relocation table holds what was collected, if in each section no entry lies on a page below the page of the
  first one collected: then reading the blocks that \<open>addBaserels\<close> emits, as a loader reads \<open>.reloc\<close>, gives for each section
  that is not discardable exactly the entries of its chunks, sorted by address. The types have to fit their four bits and the
  section must have fewer than \<open>2 ^ 31\<close> entries. Without the first condition the table is wrong, because the code takes the
  page of the first block before it sorts (\<open>addBaserelBlocks_page_before_sort\<close>).\<close>

theorem addBaserels_table:
  assumes "\<forall>(characteristics, chunks)\<in>set secs. baserels_ok (concat chunks)"
  shows "parse_relocs (reloc_bytes (addBaserels True secs)) = expected_baserels secs"
proof -
  let ?sec = "\<lambda>(characteristics, chunks). if characteristics AND 0x02000000 \<noteq> (0::u32) then []
     else let v = concat chunks in if v = [] then [] else addBaserelBlocks v"
  have "parse_relocs (reloc_bytes (addBaserels True secs)) = concat (map snd (addBaserels True secs))"
  proof (rule parse_reloc_bytes)
    fix p g assume "(p, g) \<in> set (addBaserels True secs)"
    then obtain ch cs where "(ch, cs) \<in> set secs" "concat cs \<noteq> []" and b: "(p, g) \<in> set (addBaserelBlocks (concat cs))"
      by (auto simp: addBaserels_def Let_def split: if_splits)
    with assms have ok: "concat cs \<noteq> []" "baserels_ok (concat cs)" by blast+
    show "2 * length g + 10 < 2 ^ 32" by (rule addBaserelBlocks_length [OF ok b])
    show "entry_ok p r" if "r \<in> set g" for r by (rule addBaserelBlocks_entry_ok [OF ok b that])
  qed
  moreover have "concat (map snd (concat (map ?sec secs))) = expected_baserels secs"
    using assms
  proof (induction secs)
    case Nil
    then show ?case by (simp add: expected_baserels_def)
  next
    case (Cons s secs)
    obtain ch cs where s: "s = (ch, cs)" by fastforce
    have "concat (map snd (?sec s)) = (if ch AND 0x02000000 = 0 then sort_key (\<lambda>r. unat (br_rva r)) (concat cs) else [])"
      using Cons.prems addBaserelBlocks_entries [of "concat cs"] by (cases "concat cs = []") (simp_all add: s Let_def del: concat_eq_Nil_conv)
    moreover have "concat (map snd (concat (map ?sec secs))) = expected_baserels secs" using Cons by simp
    ultimately show ?case by (simp add: expected_baserels_def s)
  qed
  ultimately show ?thesis by (simp add: addBaserels_def)
qed

definition sample_secs :: "(u32 \<times> Baserel list list) list" where
  "sample_secs = [(0x42000040, [[\<lparr>br_rva = 0x9000, br_type = 3\<rparr>]]),
     (0x40000040, [[\<lparr>br_rva = 0x1008, br_type = 10\<rparr>], [\<lparr>br_rva = 0x2ff8, br_type = 10\<rparr>, \<lparr>br_rva = 0x1ffc, br_type = 3\<rparr>]])]"

theorem addBaserels_table_witness:
  "parse_relocs (reloc_bytes (addBaserels True sample_secs)) =
     [\<lparr>br_rva = 0x1008, br_type = 10\<rparr>, \<lparr>br_rva = 0x1ffc, br_type = 3\<rparr>, \<lparr>br_rva = 0x2ff8, br_type = 10\<rparr>]"
proof -
  have h: "\<forall>(characteristics, chunks)\<in>set sample_secs. baserels_ok (concat chunks)"
    by (simp add: sample_secs_def baserels_ok_def page_of_def)
  then show ?thesis using addBaserels_table [of sample_secs] by (simp add: expected_baserels_def sample_secs_def)
qed

text \<open>The proviso is needed. When the first entry collected lies on a later page than another, the
  first block takes the page of the first entry collected but starts with the lowest one: the
  offset wraps, and the loader reads neither the address nor the type that was recorded.\<close>

lemma addBaserelBlocks_page_before_sort:
  "parse_relocs (reloc_bytes (addBaserelBlocks [\<lparr>br_rva = 0x2000, br_type = 3\<rparr>, \<lparr>br_rva = 0x1010, br_type = 3\<rparr>])) =
     [\<lparr>br_rva = 0x2010, br_type = 15\<rparr>, \<lparr>br_rva = 0x2000, br_type = 3\<rparr>]"
  by code_simp

section \<open>Loading at another address\<close>

text \<open>What the loader does at a field with a base relocation of a given type, when the image is
  loaded \<open>delta\<close> bytes away from the address it was linked for.\<close>

definition load_fixup :: "u64 \<Rightarrow> nat \<Rightarrow> Baserel \<Rightarrow> buffer \<Rightarrow> buffer" where
  "load_fixup delta off r buf =
     (if br_type r = 10 then add64 buf off delta
      else if br_type r = 3 then add32 buf off (ucast delta)
      else if br_type r = 7 then snd (applyMOV32T off (ucast delta) buf)
      else buf)"

lemma ucast_word_add: "ucast ((a :: u64) + b) = (ucast a + ucast b :: u32)"
  using ucast_word_diff [of "a + b" b] by simp

lemma add32_add32: "off + 4 \<le> length buf \<Longrightarrow> add32 (add32 buf off a) off b = add32 buf off (a + b)"
  by (simp add: add32_def add.assoc) (simp add: write32le_def put_put_same)

lemma add64_add64: "off + 8 \<le> length buf \<Longrightarrow> add64 (add64 buf off a) off b = add64 buf off (a + b)"
  by (simp add: add64_def add.assoc) (simp add: write64le_def put_put_same)

text \<open>The fixup of a Thumb pair adds to the constant in its two instructions.\<close>

lemma mov_op_again: "mov_op1 (mov_op1 a v) w = mov_op1 a w" "mov_op2 (mov_op2 b v) w = mov_op2 b w"
  unfolding mov_op1_def mov_op2_def by (rule bits_eqI16, unfold nat16, simp add: bit_simps)+

lemma applyMOV_fields:
  assumes "off + 4 \<le> length buf"
  shows "read16le (applyMOV off v buf) off = mov_op1 (read16le buf off) v"
    and "read16le (applyMOV off v buf) (off + 2) = mov_op2 (read16le buf (off + 2)) v"
  using assms by (simp_all add: applyMOV_def Let_def le16.rd_wr_disjoint)

lemma applyMOV32T_fields:
  fixes v :: u32
  assumes "off + 8 \<le> length buf"
  defines "c \<equiv> v + thumb_mov32 buf off" and "out \<equiv> snd (applyMOV32T off v buf)"
  shows "length out = length buf" "\<And>i. i < length buf \<Longrightarrow> i < off \<or> off + 8 \<le> i \<Longrightarrow> out ! i = buf ! i"
    and "map (read16le out) [off, off + 2, off + 4, off + 6] =
      [mov_op1 (read16le buf off) (ucast c), mov_op2 (read16le buf (off + 2)) (ucast c),
       mov_op1 (read16le buf (off + 4)) (ucast (drop_bit 16 c)), mov_op2 (read16le buf (off + 6)) (ucast (drop_bit 16 c))]"
proof -
  have b: "off + 4 \<le> length buf" "off + 4 + 4 \<le> length buf" using assms(1) by simp_all
  note p1 = applyMOV_props [OF b(1)] applyMOV_fields [OF b(1)]
  have b2: "off + 4 + 4 \<le> length (applyMOV off w buf)" for w using b p1(1) by simp
  note p2 = applyMOV_props [OF b2] applyMOV_fields [OF b2]
  have 2: "off + 6 = off + 4 + 2" by simp
  have "ucast (snd (readMOV off False buf)) OR push_bit 16 (ucast (snd (readMOV (off + 4) True buf))) = thumb_mov32 buf off"
    by (simp add: readMOV_value thumb_mov32_def 2 add.assoc)
  then have out: "out = applyMOV (off + 4) (ucast (drop_bit 16 c)) (applyMOV off (ucast c) buf)"
    by (simp only: out_def c_def applyMOV32T_def Let_def case_prod_unfold snd_conv)
  show "length out = length buf" using p1(1) p2(1) by (simp add: out)
  show "out ! i = buf ! i" if "i < length buf" "i < off \<or> off + 8 \<le> i" for i
    using p1(1,5) p2(5) that by (auto simp: out)
  have "read16le out q = read16le (applyMOV off (ucast c) buf) q" if "q + 2 \<le> off + 4" for q
    unfolding out using that assms(1) p1(1) by (intro read16le_applyMOV b2) simp_all
  moreover have "read16le (applyMOV off (ucast c) buf) q = read16le buf q" if "off + 4 \<le> q" "q + 2 \<le> length buf" for q
    using that by (intro read16le_applyMOV b(1)) simp_all
  ultimately show "map (read16le out) [off, off + 2, off + 4, off + 6] =
      [mov_op1 (read16le buf off) (ucast c), mov_op2 (read16le buf (off + 2)) (ucast c),
       mov_op1 (read16le buf (off + 4)) (ucast (drop_bit 16 c)), mov_op2 (read16le buf (off + 6)) (ucast (drop_bit 16 c))]"
    using assms(1) p1(6,7) p2(6) [of "ucast (drop_bit 16 c)" "ucast c"] p2(7) [of "ucast (drop_bit 16 c)" "ucast c"] unfolding 2
    by (simp add: out del: add_2_eq_Suc')
qed

lemma field_bytes: "P + 2 \<le> length buf \<Longrightarrow> sub buf P 2 = bytes_of 2 (read16le buf P)"
  using le16.wr_rd [of P buf] by (metis write16le_def length_bytes_of sub_put_same)

lemma eight_bytes_eqI:
  assumes "length xs = length ys" and "off + 8 \<le> length ys" and "\<And>i. i < length ys \<Longrightarrow> i < off \<or> off + 8 \<le> i \<Longrightarrow> xs ! i = ys ! i"
    and "map (read16le xs) [off, off + 2, off + 4, off + 6] = map (read16le ys) [off, off + 2, off + 4, off + 6]"
  shows "xs = ys"
proof (rule nth_equalityI)
  fix i assume i: "i < length xs"
  have f: "sub xs p 2 = sub ys p 2" if "p \<in> {off, off + 2, off + 4, off + 6}" for p
    using that assms(1,2,4) field_bytes [of p xs] field_bytes [of p ys] by auto
  show "xs ! i = ys ! i"
  proof (cases "i < off \<or> off + 8 \<le> i")
    case True
    then show ?thesis using assms(1,3) i by simp
  next
    case False
    define p where "p = off + 2 * ((i - off) div 2)"
    have "(i - off) div 2 \<in> {0, 1, 2, 3}" using False by auto
    then have p: "p \<in> {off, off + 2, off + 4, off + 6}" by (auto simp: p_def)
    have "i = p + (i - off) mod 2" using False by (simp add: p_def)
    then have "i - p < 2" "p \<le> i" by linarith+
    then have "sub xs p 2 ! (i - p) = xs ! i" "sub ys p 2 ! (i - p) = ys ! i" using i assms(1) by (simp_all add: sub_def)
    then show ?thesis using f [OF p] by simp
  qed
qed (rule assms(1))

lemma applyMOV32T_twice:
  assumes "off + 8 \<le> length buf"
  shows "snd (applyMOV32T off b (snd (applyMOV32T off a buf))) = snd (applyMOV32T off (a + b) buf)"
proof -
  let ?m = "snd (applyMOV32T off a buf)"
  note m = applyMOV32T_fields [OF assms, where v = a] and n = applyMOV32T_fields [OF assms, where v = "a + b"]
  have l: "off + 8 \<le> length ?m" using assms m(1) by simp
  note k = applyMOV32T_fields [OF l, where v = b]
  have v: "b + thumb_mov32 ?m off = a + b + thumb_mov32 buf off" using thumb_mov32_applyMOV32T [OF assms, of a] by simp
  show ?thesis
  proof (rule eight_bytes_eqI [where off = off])
    show "map (read16le (snd (applyMOV32T off b ?m))) [off, off + 2, off + 4, off + 6] =
        map (read16le (snd (applyMOV32T off (a + b) buf))) [off, off + 2, off + 4, off + 6]"
      using k(3) m(3) n(3) v by (simp add: mov_op_again del: add_2_eq_Suc')
  qed (use k(1,2) m(1,2) n(1,2) assms in simp_all)
qed

lemma applyMOV32T_errors: "applyMOV32T off b buf = (fst (applyMOV32T off a buf), snd (applyMOV32T off b buf))"
  by (simp add: applyMOV32T_def Let_def case_prod_unfold)

text \<open>The target of a relocation that is applied, rather than skipped as discarded.\<close>

definition placed_target :: "reloc_env \<Rightarrow> coff_relocation \<Rightarrow> symbol \<Rightarrow> bool" where
  "placed_target env rel d \<longleftrightarrow>
     re_getSymbol env (SymbolTableIndex rel) = Some d \<and> is_Defined (sy_body d) \<and>
     (Option.bind (getChunk (re_store env) (sy_body d)) (re_getOutputSection env) \<noteq> None \<or>
      is_absolute_or_synthetic (sy_body d))"

lemma applyRelocation_placed:
  "placed_target env rel d \<Longrightarrow> applyRelocation env sec off rel buf =
     applyRel env sec off (rel_Type rel) (Option.bind (getChunk (re_store env) (sy_body d)) (re_getOutputSection env))
       (getRVA (re_imageBase env) (re_store env) (sy_body d)) (ucast (sn_rva sec + VirtualAddress rel)) buf"
  unfolding placed_target_def applyRelocation_def Let_def by auto

lemma getRVA_rebase:
  "is_Defined b \<Longrightarrow> \<not> is_DefinedAbsolute b \<Longrightarrow> getRVA base' st b = getRVA base st b"
  by (cases b) simp_all

text \<open>The one type whose value depends on the image base but that gets no base relocation.\<close>

definition plain_relocation :: "arch \<Rightarrow> u16 \<Rightarrow> bool" where
  "plain_relocation a type \<longleftrightarrow> \<not> (a = aarch64 \<and> type = 0x0001)"

abbreviation rebase :: "u64 \<Rightarrow> reloc_env \<Rightarrow> reloc_env" where
  "rebase delta env \<equiv> env\<lparr>re_imageBase := re_imageBase env + delta\<rparr>"

lemma applyRel_rebase:
  assumes "off + 8 \<le> length buf" "plain_relocation (re_arch env) (rel_Type rel)" "br_type r = getBaserelType rel (re_arch env)"
  shows "applyRel (rebase delta env) sec off (rel_Type rel) os s p buf =
     map_prod id (load_fixup delta off r) (applyRel env sec off (rel_Type rel) os s p buf)"
proof -
  have "off + 4 \<le> length buf" using assms(1) by simp
  note adds = add32_add32 [OF this] add64_add64 [OF assms(1)] applyMOV32T_twice [OF assms(1)]
  show ?thesis
    using assms(2,3)
    by (cases "re_arch env")
      (auto simp: applyRel_def applyRelX64_def applyRelX86_def applyRelARM_def applyRelARM64_def Let_def
        getBaserelType_def load_fixup_def plain_relocation_def adds ucast_word_add add.assoc map_prod_def split_beta intro!: applyMOV32T_errors)
qed

lemma load_fixup_0 [simp]: "br_type r = 0 \<Longrightarrow> load_fixup delta off r = id"
  by (rule ext) (simp add: load_fixup_def)

lemma applyRel_absolute:
  assumes "plain_relocation (re_arch env) (rel_Type rel)" "getBaserelType rel (re_arch env) \<noteq> 0"
    and "\<And>i. os \<noteq> Some i"
  shows "applyRel (rebase delta env) sec off (rel_Type rel) os (vaddr - (re_imageBase env + delta)) p buf =
     applyRel env sec off (rel_Type rel) os (vaddr - re_imageBase env) p buf"
  using assms
  by (cases "re_arch env"; cases os)
    (auto simp: applyRel_def applyRelX64_def applyRelX86_def applyRelARM_def applyRelARM64_def Let_def
      getBaserelType_def plain_relocation_def split: if_splits)

text \<open>C13: base relocations are complete, for a relocation of a placed symbol within the output. Linking for an image base
  \<open>delta\<close> higher gives the same diagnostics and the same bytes as linking for the original base and then applying, as the
  loader does, exactly the base relocations that \<open>getBaserels\<close> records for the relocation, the pair of Thumb instructions
  included. Two cases are left out. The 32-bit absolute relocation of AArch64 has no base relocation although it stores an
  absolute address, so the equation fails for it. For an absolute symbol, which gets no base relocation, the relocation type
  has to be one with a fixup, whose field is indeed the same at every base; the fields of the other types hold a distance to
  the image, which changes.\<close>

theorem applyRelocation_rebase:
  assumes "placed_target env rel d" "off + 8 \<le> length buf" "plain_relocation (re_arch env) (rel_Type rel)"
    and "is_DefinedAbsolute (sy_body d) \<longrightarrow> getBaserelType rel (re_arch env) \<noteq> 0"
  shows "applyRelocation (rebase delta env) sec off rel buf =
     map_prod id (fold (load_fixup delta off) (rel_baserel env sec rel)) (applyRelocation env sec off rel buf)"
proof -
  have target: "re_getSymbol env (SymbolTableIndex rel) = Some d" "is_Defined (sy_body d)"
    and rb: "placed_target (rebase delta env) rel d"
    using assms(1) by (simp_all add: placed_target_def)
  note unfolded = applyRelocation_placed [OF assms(1)] applyRelocation_placed [OF rb]
  show ?thesis
  proof (cases "is_DefinedAbsolute (sy_body d)")
    case True
    then obtain vaddr where va: "sy_body d = DefinedAbsolute vaddr" by (cases "sy_body d") simp_all
    then have "rel_baserel env sec rel = []" using target by (simp add: rel_baserel_def Let_def)
    then show ?thesis using True assms(3,4) applyRel_absolute [of env rel None] by (simp add: unfolded va prod.map_id0)
  next
    case False
    let ?r = "\<lparr>br_rva = sn_rva sec + VirtualAddress rel, br_type = getBaserelType rel (re_arch env)\<rparr>"
    have "fold (load_fixup delta off) (rel_baserel env sec rel) = load_fixup delta off ?r"
      using target False by (cases "getBaserelType rel (re_arch env) = 0") (simp_all add: rel_baserel_def Let_def)
    then show ?thesis
      using applyRel_rebase [OF assms(2,3), of ?r] getRVA_rebase [OF target(2) False, of "re_imageBase env + delta" _ "re_imageBase env"]
      by (simp add: unfolded)
  qed
qed

definition rebase_sample_env :: reloc_env where
  "rebase_sample_env = reloc_sample_env\<lparr>re_getSymbol := (\<lambda>_. Some (new_symbol ''g'' (DefinedSynthetic None 0)))\<rparr>"

theorem applyRelocation_rebase_witness:
  "applyRelocation (rebase 0x10000 rebase_sample_env) reloc_sample_section 0
      \<lparr>VirtualAddress = 0, SymbolTableIndex = 0, rel_Type = 1\<rparr> (replicate 8 0) =
   map_prod id (fold (load_fixup 0x10000 0)
       (rel_baserel rebase_sample_env reloc_sample_section \<lparr>VirtualAddress = 0, SymbolTableIndex = 0, rel_Type = 1\<rparr>))
     (applyRelocation rebase_sample_env reloc_sample_section 0
       \<lparr>VirtualAddress = 0, SymbolTableIndex = 0, rel_Type = 1\<rparr> (replicate 8 0))"
  by (rule applyRelocation_rebase [of _ _ "new_symbol ''g'' (DefinedSynthetic None 0)"])
    (simp_all add: rebase_sample_env_def placed_target_def reloc_sample_env_def plain_relocation_def new_symbol_def)

end
