(* ===== verification/Partition.thy ===== *)
theory Partition
  imports Prelude
begin

text \<open>
  Partitions of a list as lists of groups, the abstract level of identical code folding
  (\<open>lld/COFF/ICF.cpp\<close>). \<open>groups\<close> splits one group by an equivalence the way \<open>segregate\<close> does,
  leader first; \<open>refine\<close> splits every group of a partition; \<open>runs\<close> reads the groups back from a
  list and the class numbers of its elements; \<open>number\<close> gives every element the index at which
  its group ends, as the linker numbers its classes.
\<close>

section \<open>Groups, runs and class numbers\<close>

function groups :: "('a \<Rightarrow> 'a \<Rightarrow> bool) \<Rightarrow> 'a list \<Rightarrow> 'a list list" where
  "groups E [] = []"
| "groups E (x # xs) = (x # filter (E x) xs) # groups E (filter (\<lambda>y. \<not> E x y) xs)"
  by pat_completeness auto
termination by (relation "measure (\<lambda>(E, xs). length xs)") (auto simp: le_imp_less_Suc)

definition refine :: "('a \<Rightarrow> 'a \<Rightarrow> bool) \<Rightarrow> 'a list list \<Rightarrow> 'a list list" where
  "refine E gs = concat (map (groups E) gs)"

function runs :: "('a \<Rightarrow> 'k) \<Rightarrow> 'a list \<Rightarrow> 'a list list" where
  "runs k [] = []"
| "runs k (x # xs) = (x # takeWhile (\<lambda>y. k y = k x) xs) # runs k (dropWhile (\<lambda>y. k y = k x) xs)"
  by pat_completeness auto
termination by (relation "measure (\<lambda>(k, xs). length xs)") (auto simp: length_dropWhile_le le_imp_less_Suc)

fun number :: "nat \<Rightarrow> 'a list list \<Rightarrow> ('a \<Rightarrow> u32) \<Rightarrow> 'a \<Rightarrow> u32" where
  "number b [] f = f"
| "number b (g # gs) f =
     number (b + length g) gs (\<lambda>x. if x \<in> set g then of_nat (b + length g) else f x)"

definition together :: "'a list list \<Rightarrow> 'a \<Rightarrow> 'a \<Rightarrow> bool" where
  "together gs x y \<longleftrightarrow> (\<exists>g\<in>set gs. x \<in> set g \<and> y \<in> set g)"

definition partition_ok :: "'a list list \<Rightarrow> bool" where
  "partition_ok gs \<longleftrightarrow> [] \<notin> set gs \<and> distinct (concat gs)"

lemma together_simps [simp]:
  "\<not> together [] x y"
  "together (g # gs) x y \<longleftrightarrow> x \<in> set g \<and> y \<in> set g \<or> together gs x y"
  "together (gs @ hs) x y \<longleftrightarrow> together gs x y \<or> together hs x y"
  by (auto simp: together_def)

lemma togetherD: "together gs x y \<Longrightarrow> x \<in> set (concat gs) \<and> y \<in> set (concat gs)"
  by (auto simp: together_def)

lemma together_refl: "x \<in> set (concat gs) \<Longrightarrow> together gs x x"
  by (auto simp: together_def)

lemma together_sym: "together gs x y \<Longrightarrow> together gs y x"
  by (auto simp: together_def)

lemma partition_ok_Cons [simp]:
  "partition_ok (g # gs) \<longleftrightarrow> g \<noteq> [] \<and> distinct g \<and> set g \<inter> set (concat gs) = {} \<and> partition_ok gs"
  by (auto simp: partition_ok_def)

lemma together_trans: "partition_ok gs \<Longrightarrow> together gs x y \<Longrightarrow> together gs y z \<Longrightarrow> together gs x z"
proof (induction gs)
  case (Cons g gs)
  then show ?case using togetherD [of gs x y] togetherD [of gs y z] by (auto simp del: set_concat)
qed simp

section \<open>Runs\<close>

lemma concat_runs [simp]: "concat (runs k xs) = xs"
  by (induction k xs rule: runs.induct) simp_all

lemma runs_nonempty [simp]: "[] \<notin> set (runs k xs)"
  by (induction k xs rule: runs.induct) simp_all

lemma partition_ok_runs: "distinct xs \<Longrightarrow> partition_ok (runs k xs)"
  by (simp add: partition_ok_def)

lemma runs_same_key: "together (runs k xs) x y \<Longrightarrow> k x = k y"
proof (induction k xs rule: runs.induct)
  case (2 k z zs)
  have "k w = k z" if "w \<in> set (z # takeWhile (\<lambda>y. k y = k z) zs)" for w
    using that by (auto dest: set_takeWhileD)
  then show ?case using 2 by (metis runs.simps(2) together_simps(2))
qed simp

lemma runs_append:
  assumes "\<And>x y. x \<in> set g \<Longrightarrow> y \<in> set g \<Longrightarrow> k x = k y" "g \<noteq> []"
    and "ys = [] \<or> k (hd ys) \<noteq> k (hd g)"
  shows "runs k (g @ ys) = g # runs k ys"
proof (cases g)
  case (Cons x xs)
  have xs: "\<And>y. y \<in> set xs \<Longrightarrow> k y = k x" using assms(1) Cons by simp
  have "takeWhile (\<lambda>y. k y = k x) ys = []" "dropWhile (\<lambda>y. k y = k x) ys = ys"
    using assms(3) Cons by (cases ys; simp)+
  then show ?thesis using xs by (simp add: Cons takeWhile_append2 dropWhile_append2)
qed (use assms in simp)

lemma runs_sorted:
  assumes "sorted (map k xs)" "x \<in> set xs" "y \<in> set xs" "(k x :: 'k :: linorder) = k y"
  shows "together (runs k xs) x y"
  using assms
proof (induction k xs rule: runs.induct)
  case (2 k z zs)
  let ?P = "\<lambda>y. k y = k z"
  have later: "k z < k w" if "w \<in> set (dropWhile ?P zs)" for w
  proof (cases "dropWhile ?P zs")
    case (Cons v vs)
    have "sorted (map k (dropWhile ?P zs))" using 2(2) by (simp add: sorted_map sorted_wrt_dropWhile)
    then have "k v \<le> k w" using that Cons by auto
    moreover have "k v \<noteq> k z" using Cons by (simp add: dropWhile_eq_Cons_conv)
    moreover have "v \<in> set zs" using Cons by (metis list.set_intros(1) set_dropWhileD)
    then have "k z \<le> k v" using 2(2) by simp
    ultimately show ?thesis by simp
  qed (use that in \<open>simp del: dropWhile_eq_Nil_conv\<close>)
  have split: "w \<in> set (z # zs) \<Longrightarrow> w \<in> set (z # takeWhile ?P zs) \<or> w \<in> set (dropWhile ?P zs)" for w
    by (metis Un_iff set_append set_ConsD list.set_intros takeWhile_dropWhile_id)
  have tw: "w \<in> set (z # takeWhile ?P zs) \<Longrightarrow> k w = k z" for w by (auto dest: set_takeWhileD)
  have "sorted (map k (dropWhile ?P zs))" using 2(2) by (simp add: sorted_map sorted_wrt_dropWhile)
  then show ?case
    using 2(1) split [OF 2(3)] split [OF 2(4)] 2(5) tw later by (metis less_irrefl runs.simps(2) together_simps(2))
qed simp

section \<open>Splitting by an equivalence\<close>

lemma mset_groups: "set (concat (groups E xs)) = set xs" "length (concat (groups E xs)) = length xs"
  by (induction E xs rule: groups.induct) (auto simp: sum_length_filter_compl)

lemma distinct_groups: "distinct xs \<Longrightarrow> partition_ok (groups E xs)"
proof (induction E xs rule: groups.induct)
  case (2 E x xs)
  then show ?case using mset_groups(1) [of E "filter (\<lambda>y. \<not> E x y) xs"] by auto
qed (simp add: partition_ok_def)

lemma groups_nonempty [simp]: "[] \<notin> set (groups E xs)"
  by (induction E xs rule: groups.induct) simp_all

lemma length_groups_pos: "xs \<noteq> [] \<Longrightarrow> Suc 0 \<le> length (groups E xs)"
  by (cases xs) simp_all

lemma groups_single: "length (groups E xs) = 1 \<Longrightarrow> groups E xs = [xs]"
proof (cases xs)
  case (Cons y ys)
  assume "length (groups E xs) = 1"
  then have "filter (\<lambda>z. \<not> E y z) ys = []"
    using Cons by (cases "filter (\<lambda>z. \<not> E y z) ys") simp_all
  then show ?thesis by (simp add: Cons filter_empty_conv)
qed simp

lemma groups_uniform: "(\<And>x y. x \<in> set g \<Longrightarrow> y \<in> set g \<Longrightarrow> E x y) \<Longrightarrow> length (groups E g) \<le> 1"
  by (cases g) (simp_all add: filter_False)

lemma set_concat_refine [simp]: "set (concat (refine E gs)) = set (concat gs)"
  by (induction gs) (simp_all add: refine_def mset_groups del: set_concat)

lemma length_concat_refine [simp]: "length (concat (refine E gs)) = length (concat gs)"
  by (induction gs) (simp_all add: refine_def mset_groups del: length_concat)

lemma refine_simps [simp]:
  "refine E [] = []" "refine E (g # gs) = groups E g @ refine E gs" "refine E (gs @ hs) = refine E gs @ refine E hs"
  by (simp_all add: refine_def)

lemma partition_ok_append:
  "partition_ok (gs @ hs) \<longleftrightarrow> partition_ok gs \<and> partition_ok hs \<and> set (concat gs) \<inter> set (concat hs) = {}"
  by (auto simp: partition_ok_def)

lemma partition_ok_refine: "partition_ok gs \<Longrightarrow> partition_ok (refine E gs)"
proof (induction gs)
  case (Cons g gs)
  then show ?case
    by (simp add: partition_ok_append distinct_groups mset_groups del: set_concat)
qed simp

text \<open>A pass either leaves the partition alone or makes it longer.\<close>

lemma length_refine: "[] \<notin> set gs \<Longrightarrow> length gs \<le> length (refine E gs)"
proof (induction gs)
  case (Cons g gs)
  then have "Suc 0 \<le> length (groups E g)" by (intro length_groups_pos) auto
  from add_mono [OF this Cons.IH] show ?case using Cons.prems by simp
qed simp

lemma refine_unchanged:
  "[] \<notin> set gs \<Longrightarrow> (\<forall>g\<in>set gs. length (groups E g) = 1) \<longleftrightarrow> length (refine E gs) = length gs"
proof (induction gs)
  case (Cons g gs)
  then have "Suc 0 \<le> length (groups E g)" by (intro length_groups_pos) auto
  moreover have "length gs \<le> length (refine E gs)" using Cons by (intro length_refine) simp
  moreover have "length (refine E (g # gs)) = length (groups E g) + length (refine E gs)" by simp
  ultimately have "length (refine E (g # gs)) = length (g # gs) \<longleftrightarrow>
      length (groups E g) = 1 \<and> length (refine E gs) = length gs"
    by (simp only: list.size) linarith
  then show ?case using Cons by (simp del: refine_simps)
qed simp

lemma refine_id: "\<forall>g\<in>set gs. length (groups E g) = 1 \<Longrightarrow> refine E gs = gs"
  by (induction gs) (simp_all add: groups_single)

lemma length_partition: "[] \<notin> set gs \<Longrightarrow> length gs \<le> length (concat gs)"
proof (induction gs)
  case (Cons g gs)
  then show ?case by (cases g) simp_all
qed simp

text \<open>The relation a split is done with.\<close>

locale equivalence =
  fixes E :: "'a \<Rightarrow> 'a \<Rightarrow> bool"
  assumes E_refl: "E x x"
    and E_sym: "E x y \<Longrightarrow> E y x"
    and E_trans: "E x y \<Longrightarrow> E y z \<Longrightarrow> E x z"
begin

lemma together_groups: "together (groups E xs) x y \<longleftrightarrow> x \<in> set xs \<and> y \<in> set xs \<and> E x y"
proof (induction "length xs" arbitrary: xs rule: less_induct)
  case less
  show ?case
  proof (cases xs)
    case (Cons z zs)
    have "length (filter (\<lambda>y. \<not> E z y) zs) < length xs" by (simp add: Cons le_imp_less_Suc)
    from less [OF this] have "together (groups E xs) x y \<longleftrightarrow>
        x \<in> set (z # filter (E z) zs) \<and> y \<in> set (z # filter (E z) zs) \<or>
        x \<in> set (filter (\<lambda>y. \<not> E z y) zs) \<and> y \<in> set (filter (\<lambda>y. \<not> E z y) zs) \<and> E x y"
      by (simp add: Cons)
    moreover have "x \<in> set (z # filter (E z) zs) \<longleftrightarrow> x \<in> set xs \<and> E z x" for x
      using E_refl by (auto simp: Cons)
    moreover have "x \<in> set (filter (\<lambda>y. \<not> E z y) zs) \<longleftrightarrow> x \<in> set xs \<and> \<not> E z x" for x
      using E_refl by (auto simp: Cons)
    moreover have "E x y" if "E z x" "E z y" using that E_sym E_trans by blast
    moreover have "E z x \<longleftrightarrow> E z y" if "E x y" using that E_sym E_trans by blast
    ultimately show ?thesis by auto
  qed simp
qed

lemma together_refine: "together (refine E gs) x y \<longleftrightarrow> together gs x y \<and> E x y"
  by (induction gs) (auto simp: together_groups)

end

section \<open>Class numbers\<close>

lemma unat_u32: "n < 2 ^ 32 \<Longrightarrow> unat (of_nat n :: u32) = n"
  by (simp add: unat_of_nat)

lemma number_outside: "x \<notin> set (concat gs) \<Longrightarrow> number b gs f x = f x"
  by (induction b gs f rule: number.induct) simp_all

lemma number_append: "number b (gs @ hs) f = number (b + length (concat gs)) hs (number b gs f)"
  by (induction b gs f rule: number.induct) (simp_all add: add.assoc)

lemma number_bound:
  assumes "[] \<notin> set gs" "x \<in> set (concat gs)" "b + length (concat gs) < 2 ^ 32" "distinct (concat gs)"
  shows "b < unat (number b gs f x) \<and> unat (number b gs f x) \<le> b + length (concat gs)"
  using assms
proof (induction b gs f rule: number.induct)
  case (2 b g gs f)
  show ?case
  proof (cases "x \<in> set (concat gs)")
    case True
    then show ?thesis using 2 by (fastforce simp del: set_concat)
  next
    case False
    then have "number b (g # gs) f x = of_nat (b + length g)" using 2(3) by (simp add: number_outside)
    moreover have "0 < length g" using 2(2) by auto
    moreover have "unat (of_nat (b + length g) :: u32) = b + length g"
      using 2(4) by (intro unat_u32) simp
    ultimately show ?thesis by simp
  qed
qed simp

lemma number_together:
  assumes "partition_ok gs" "b + length (concat gs) < 2 ^ 32" "x \<in> set (concat gs)" "y \<in> set (concat gs)"
  shows "number b gs f x = number b gs f y \<longleftrightarrow> together gs x y"
  using assms
proof (induction b gs f rule: number.induct)
  case (2 b g gs f)
  let ?f = "\<lambda>x. if x \<in> set g then of_nat (b + length g) else f x"
  have ok: "partition_ok gs" "b + length g + length (concat gs) < 2 ^ 32" "[] \<notin> set gs" "distinct (concat gs)"
    "set g \<inter> set (concat gs) = {}"
    using 2 by (auto simp: partition_ok_def)
  have small: "unat (of_nat (b + length g) :: u32) = b + length g" using 2(3) by (intro unat_u32) simp
  have inside: "number (b + length g) gs ?f w = of_nat (b + length g)" if "w \<in> set g" for w
    using that ok(5) by (subst number_outside) auto
  have above: "number (b + length g) gs ?f w \<noteq> of_nat (b + length g)" if "w \<in> set (concat gs)" for w
    using number_bound [OF ok(3) that ok(2,4), of ?f] small by auto
  have in_tail: "together gs x y \<Longrightarrow> x \<in> set (concat gs) \<and> y \<in> set (concat gs)" by (rule togetherD)
  show ?case
  proof (cases "x \<in> set g"; cases "y \<in> set g")
    assume "x \<in> set g" "y \<notin> set g"
    moreover from this have "y \<in> set (concat gs)" using 2(5) by simp
    ultimately show ?thesis using inside above in_tail ok(5) by fastforce
  next
    assume "x \<notin> set g" "y \<in> set g"
    moreover from this have "x \<in> set (concat gs)" using 2(4) by simp
    ultimately show ?thesis using inside above in_tail ok(5) by fastforce
  next
    assume "x \<notin> set g" "y \<notin> set g"
    then show ?thesis using 2(1) [OF ok(1,2)] 2(4,5) by simp
  qed (use inside in simp)
qed simp

text \<open>The numbers determine the groups: reading the runs of equal numbers gives the partition back.\<close>

lemma runs_number:
  assumes "partition_ok gs" "b + length (concat gs) < 2 ^ 32"
  shows "runs (number b gs f) (concat gs) = gs"
proof -
  let ?k = "number b gs f"
  have "runs ?k (concat hs) = hs" if "\<exists>pre. gs = pre @ hs" for hs
    using that
  proof (induction hs)
    case (Cons h hs)
    then obtain pre where pre: "gs = pre @ h # hs" by blast
    have nth: "?k x = ?k y \<longleftrightarrow> together gs x y" if "x \<in> set (concat gs)" "y \<in> set (concat gs)" for x y
      by (rule number_together [OF assms that])
    have "runs ?k (h @ concat hs) = h # runs ?k (concat hs)"
    proof (rule runs_append)
      show "h \<noteq> []" using assms(1) pre by (auto simp: partition_ok_def)
      show "?k x = ?k y" if "x \<in> set h" "y \<in> set h" for x y
        using that nth [of x y] pre by auto
      show "concat hs = [] \<or> ?k (hd (concat hs)) \<noteq> ?k (hd h)"
      proof (cases "concat hs")
        case (Cons z zs)
        have "z \<in> set (concat hs)" "hd h \<in> set h" using Cons \<open>h \<noteq> []\<close> by (simp_all del: set_concat)
        moreover have "\<not> together gs z (hd h)"
          using assms(1) calculation togetherD [of pre z "hd h"] togetherD [of hs z "hd h"] hd_in_set [of h]
          by (auto simp: pre partition_ok_append disjoint_iff simp del: set_concat)
        ultimately show ?thesis using nth [of z "hd h"] pre Cons by auto
      qed simp
    qed
    moreover have "runs ?k (concat hs) = hs" using Cons.IH pre by (metis append.assoc append_Cons append_Nil)
    ultimately show ?case by simp
  qed simp
  then show ?thesis by blast
qed

end
