(* ===== verification/ICF.thy ===== *)
theory ICF
  imports Partition Reloc SymbolTable
begin

text \<open>
  Identical code folding (\<open>lld/COFF/ICF.cpp\<close>) and \<open>SectionChunk::replace\<close> of \<open>Chunks.cpp\<close>. The state
  is that of class \<open>ICF\<close>: the vector of mergeable sections, the pass counter, the repeat flag
  and the two class numbers of every section, of which a pass reads the one of the counter's
  parity and writes the other. The content hash is an argument of the model. The parallel loops
  are sequential here: their iterations write disjoint data and read only what no iteration
  writes. The abstract level is a list of groups (theory \<open>Partition\<close>).
\<close>

unbundle bit_operations_syntax

section \<open>The code\<close>

text \<open>What the comparison reads of a section and of its object file.\<close>

record icf_section =
  is_OutputCharacteristics :: u32
  is_SizeOfRawData :: u32
  is_checksum :: u32
  is_contents :: buffer
  is_Machine :: machine
  is_relocs :: "coff_relocation list"
  is_getSymbol :: "u32 \<Rightarrow> sym_id option"
  is_isCOMDAT :: bool
  is_keepUnique :: bool
  is_sym :: "string option"

record icf_env =
  ie_all :: bool
  ie_machine :: machine
  ie_section :: "chunk_id \<Rightarrow> icf_section"
  ie_hash :: "buffer \<Rightarrow> u64"
  ie_getChunks :: "chunk_id list"
  ie_mergeSections :: "chunk_id list"

record icf_state =
  ic_store :: store
  ic_p2Align :: "chunk_id \<Rightarrow> nat"
  ic_chunks :: "chunk_id list"
  ic_cnt :: nat
  ic_repeat :: bool
  eqClass :: "nat \<Rightarrow> chunk_id \<Rightarrow> u32"

definition isEligible :: "icf_env \<Rightarrow> store \<Rightarrow> chunk_id \<Rightarrow> bool" where
  "isEligible env st c =
     (let sec = ie_section env c;
          writable = is_OutputCharacteristics sec AND 0x80000000 \<noteq> 0
      in if \<not> is_isCOMDAT sec \<or> \<not> ck_live (chunks st ! c) \<or> writable then False
         else if ie_all env \<and> is_OutputCharacteristics sec AND IMAGE_SCN_MEM_EXECUTE \<noteq> 0 then True
         else
           (let outSecName = fst (split_pair (ck_name (chunks st ! c)) ''$'') in
            if outSecName = ''.pdata'' \<or> outSecName = ''.xdata'' then True
            else
              (let itaniumVtablePrefix = (if ie_machine env = I386 then ''__ZTV'' else ''_ZTV'') in
               case is_sym sec of
                 Some n \<Rightarrow>
                   if starts_with n ''??_7'' \<or> starts_with n itaniumVtablePrefix then True
                   else \<not> is_keepUnique sec
               | None \<Rightarrow> \<not> is_keepUnique sec)))"

text \<open>\<open>dyn_cast<DefinedRegular>\<close> of a symbol: its value and its section. The code applies \<open>dyn_cast\<close>, which must not be given a null
  pointer, to the symbols of relocations without a test; a missing symbol is treated as one that is not regular here, so the
  results on \<open>equalsConstant\<close> and \<open>equalsVariable\<close> say what the code does for sections whose relocations all have a symbol.\<close>

definition regular_target :: "store \<Rightarrow> sym_id option \<Rightarrow> (u32 \<times> chunk_id option) option" where
  "regular_target st b =
     (case b of
        None \<Rightarrow> None
      | Some s \<Rightarrow>
          (case sy_body (syms st ! s) of
             DefinedRegular _ v data \<Rightarrow> Some (v, reg_chunk st data)
           | _ \<Rightarrow> None))"

definition getEntryThunk :: "store \<Rightarrow> chunk_id \<Rightarrow> sym_id option" where
  "getEntryThunk st c = (if ck_kind (chunks st ! c) = SectionECKind then ck_entryThunk (chunks st ! c) else None)"

abbreviation cur_class :: "icf_state \<Rightarrow> chunk_id \<Rightarrow> u32" where
  "cur_class st \<equiv> eqClass st (ic_cnt st mod 2)"

definition considerForICF :: "store \<Rightarrow> chunk_id \<Rightarrow> bool" where
  "considerForICF st assoc =
     (let Name = ck_name (chunks st ! assoc) in
      \<not> (starts_with Name ''.debug'' \<or> Name = ''.gfids$y'' \<or> Name = ''.giats$y'' \<or> Name = ''.gljmp$y''))"

definition icf_children :: "store \<Rightarrow> chunk_id \<Rightarrow> chunk_id list" where
  "icf_children st c = filter (considerForICF st) (ck_assocChildren (chunks st ! c))"

definition assocEquals :: "icf_state \<Rightarrow> chunk_id \<Rightarrow> chunk_id \<Rightarrow> bool" where
  "assocEquals st a b =
     list_all2 (\<lambda>ia ib. cur_class st ia = cur_class st ib)
       (icf_children (ic_store st) a) (icf_children (ic_store st) b)"

definition rel_symbol :: "icf_env \<Rightarrow> chunk_id \<Rightarrow> coff_relocation \<Rightarrow> sym_id option" where
  "rel_symbol env c r = is_getSymbol (ie_section env c) (SymbolTableIndex r)"

definition eq_constant :: "icf_env \<Rightarrow> icf_state \<Rightarrow> chunk_id \<Rightarrow> chunk_id \<Rightarrow> coff_relocation \<Rightarrow> coff_relocation \<Rightarrow> bool" where
  "eq_constant env st a b r1 r2 =
     (if rel_Type r1 \<noteq> rel_Type r2 \<or> VirtualAddress r1 \<noteq> VirtualAddress r2 then False
      else if rel_symbol env a r1 = rel_symbol env b r2 then True
      else
        (case (regular_target (ic_store st) (rel_symbol env a r1), regular_target (ic_store st) (rel_symbol env b r2)) of
           (Some (v1, c1), Some (v2, c2)) \<Rightarrow>
             v1 = v2 \<and> map_option (cur_class st) c1 = map_option (cur_class st) c2
         | _ \<Rightarrow> False))"

definition equalsConstant :: "icf_env \<Rightarrow> icf_state \<Rightarrow> chunk_id \<Rightarrow> chunk_id \<Rightarrow> bool" where
  "equalsConstant env st a b =
     (let x = ie_section env a; y = ie_section env b in
      if length (is_relocs x) \<noteq> length (is_relocs y) then False
      else if \<not> list_all2 (eq_constant env st a b) (is_relocs x) (is_relocs y) then False
      else is_OutputCharacteristics x = is_OutputCharacteristics y \<and>
           ck_name (chunks (ic_store st) ! a) = ck_name (chunks (ic_store st) ! b) \<and>
           is_SizeOfRawData x = is_SizeOfRawData y \<and> is_checksum x = is_checksum y \<and>
           is_contents x = is_contents y \<and> is_Machine x = is_Machine y \<and> assocEquals st a b)"

definition eqSym :: "icf_state \<Rightarrow> sym_id option \<Rightarrow> sym_id option \<Rightarrow> bool" where
  "eqSym st b1 b2 =
     (if b1 = b2 then True
      else
        (case (regular_target (ic_store st) b1, regular_target (ic_store st) b2) of
           (Some (v1, c1), Some (v2, c2)) \<Rightarrow> map_option (cur_class st) c1 = map_option (cur_class st) c2
         | _ \<Rightarrow> False))"

text \<open>The sections compared here passed \<open>equalsConstant\<close>, so the two relocation tables have the
  same length and the three-iterator \<open>std::equal\<close> reads all of both.\<close>

definition equalsVariable :: "icf_env \<Rightarrow> icf_state \<Rightarrow> chunk_id \<Rightarrow> chunk_id \<Rightarrow> bool" where
  "equalsVariable env st a b =
     (let e1 = getEntryThunk (ic_store st) a; e2 = getEntryThunk (ic_store st) b in
      if (e1 \<noteq> None \<or> e2 \<noteq> None) \<and> (e1 = None \<or> e2 = None \<or> \<not> eqSym st e1 e2) then False
      else list_all2 (\<lambda>r1 r2. eqSym st (rel_symbol env a r1) (rel_symbol env b r2))
             (is_relocs (ie_section env a)) (is_relocs (ie_section env b)) \<and>
           assocEquals st a b)"

definition icf_equal :: "icf_env \<Rightarrow> bool \<Rightarrow> icf_state \<Rightarrow> chunk_id \<Rightarrow> chunk_id \<Rightarrow> bool" where
  "icf_equal env constant st a b = (if constant then equalsConstant env st a b else equalsVariable env st a b)"

definition set_classes :: "nat \<Rightarrow> chunk_id list \<Rightarrow> u32 \<Rightarrow> icf_state \<Rightarrow> icf_state" where
  "set_classes k cs v st = st\<lparr>eqClass := (eqClass st)(k := (\<lambda>c. if c \<in> set cs then v else eqClass st k c))\<rparr>"

function segregate :: "icf_env \<Rightarrow> bool \<Rightarrow> nat \<Rightarrow> nat \<Rightarrow> icf_state \<Rightarrow> icf_state" where
  "segregate env constant lo hi st =
     (if lo < hi then
        (let cs = ic_chunks st;
             first = cs ! lo;
             rest = sub cs (lo + 1) (hi - (lo + 1));
             same = filter (icf_equal env constant st first) rest;
             other = filter (\<lambda>s. \<not> icf_equal env constant st first s) rest;
             mid = lo + 1 + length same;
             st1 = st\<lparr>ic_chunks := put cs (lo + 1) (same @ other)\<rparr>;
             st2 = set_classes ((ic_cnt st + 1) mod 2) (first # same) (of_nat mid) st1;
             st3 = (if mid \<noteq> hi then st2\<lparr>ic_repeat := True\<rparr> else st2)
         in segregate env constant mid hi st3)
      else st)"
  by pat_completeness auto
termination by (relation "measure (\<lambda>(env, constant, b, e, st). e - b)") auto

declare segregate.simps [simp del]

function find_boundary_loop :: "icf_state \<Rightarrow> nat \<Rightarrow> nat \<Rightarrow> nat \<Rightarrow> nat" where
  "find_boundary_loop st lo i hi =
     (if i < hi then
        (if cur_class st (ic_chunks st ! lo) \<noteq> cur_class st (ic_chunks st ! i) then i
         else find_boundary_loop st lo (i + 1) hi)
      else hi)"
  by pat_completeness auto
termination by (relation "measure (\<lambda>(st, b, i, e). e - i)") auto

declare find_boundary_loop.simps [simp del]

definition findBoundary :: "icf_state \<Rightarrow> nat \<Rightarrow> nat \<Rightarrow> nat" where
  "findBoundary st lo hi = find_boundary_loop st lo (lo + 1) hi"

lemma find_boundary_loop_ge: "i \<le> hi \<Longrightarrow> i \<le> find_boundary_loop st b i hi \<and> find_boundary_loop st b i hi \<le> hi"
proof (induction st b i hi rule: find_boundary_loop.induct)
  case (1 st b i e)
  then show ?case by (subst (1 2) find_boundary_loop.simps) fastforce
qed

lemma findBoundary_bounds:
  "lo < hi \<Longrightarrow> lo < findBoundary st lo hi \<and> findBoundary st lo hi \<le> hi"
  using find_boundary_loop_ge [of "lo + 1" hi st lo] by (simp add: findBoundary_def)

function forEachClassRange :: "nat \<Rightarrow> nat \<Rightarrow> (nat \<Rightarrow> nat \<Rightarrow> icf_state \<Rightarrow> icf_state) \<Rightarrow> icf_state \<Rightarrow> icf_state" where
  "forEachClassRange lo hi fn st =
     (if lo < hi then
        (let mid = findBoundary st lo hi in forEachClassRange mid hi fn (fn lo mid st))
      else st)"
  by pat_completeness auto
termination
  by (relation "measure (\<lambda>(b, e, fn, st). e - b)")
    (auto intro!: diff_less_mono2 simp: findBoundary_bounds)

declare forEachClassRange.simps [simp del]

definition numShards :: nat where
  "numShards = 256"

definition boundaries :: "icf_state \<Rightarrow> nat list" where
  "boundaries st =
     (let n = length (ic_chunks st); step = n div numShards in
      0 # map (\<lambda>i. findBoundary st ((i - 1) * step) n) [1..<numShards] @ [n])"

definition shard :: "nat list \<Rightarrow> (nat \<Rightarrow> nat \<Rightarrow> icf_state \<Rightarrow> icf_state) \<Rightarrow> nat \<Rightarrow> icf_state \<Rightarrow> icf_state" where
  "shard bs fn i st =
     (if bs ! (i - 1) < bs ! i then forEachClassRange (bs ! (i - 1)) (bs ! i) fn st else st)"

definition forEachClass :: "(nat \<Rightarrow> nat \<Rightarrow> icf_state \<Rightarrow> icf_state) \<Rightarrow> icf_state \<Rightarrow> icf_state" where
  "forEachClass fn st =
     (let st1 = (if length (ic_chunks st) < 1024 then forEachClassRange 0 (length (ic_chunks st)) fn st
                 else fold (shard (boundaries st) fn) [1..<numShards + 1] st)
      in st1\<lparr>ic_cnt := ic_cnt st1 + 1\<rparr>)"

text \<open>\<open>SectionChunk::replace\<close>.\<close>

definition section_replace :: "chunk_id \<Rightarrow> chunk_id \<Rightarrow> icf_state \<Rightarrow> icf_state" where
  "section_replace this other st =
     (let cks = chunks (ic_store st) in
      st\<lparr>ic_p2Align := (ic_p2Align st)(this := max (ic_p2Align st this) (ic_p2Align st other)),
         ic_store := (ic_store st)\<lparr>chunks :=
           cks[other := (cks ! other)\<lparr>ck_repl := ck_repl (cks ! this), ck_live := False\<rparr>]\<rparr>\<rparr>)"

definition merge_class :: "nat \<Rightarrow> nat \<Rightarrow> icf_state \<Rightarrow> icf_state" where
  "merge_class lo hi st =
     (if hi - lo = 1 then st
      else fold (\<lambda>i st. section_replace (ic_chunks st ! lo) (ic_chunks st ! i) st) [lo + 1..<hi] st)"

definition collect_chunk :: "icf_env \<Rightarrow> chunk_id \<Rightarrow> u32 \<times> icf_state \<Rightarrow> u32 \<times> icf_state" where
  "collect_chunk env c ns =
     (let (nextId, st) = ns in
      if is_section_kind (ck_kind (chunks (ic_store st) ! c)) then
        (if isEligible env (ic_store st) c then (nextId, st\<lparr>ic_chunks := ic_chunks st @ [c]\<rparr>)
         else (nextId + 1, set_classes 0 [c] nextId st))
      else (nextId, st))"

definition number_merged :: "chunk_id \<Rightarrow> u32 \<times> icf_state \<Rightarrow> u32 \<times> icf_state" where
  "number_merged c ns = (let (nextId, st) = ns in (nextId + 1, set_classes 0 [c] nextId st))"

definition hash_contents :: "icf_env \<Rightarrow> icf_state \<Rightarrow> icf_state" where
  "hash_contents env st =
     st\<lparr>eqClass := (eqClass st)(0 := (\<lambda>c. if c \<in> set (ic_chunks st) then ucast (ie_hash env (is_contents (ie_section env c)))
          else eqClass st 0 c))\<rparr>"

definition combined_hash :: "icf_state \<Rightarrow> nat \<Rightarrow> chunk_id \<Rightarrow> u32" where
  "combined_hash st k c =
     fold (\<lambda>b hash. case regular_target (ic_store st) b of
             Some (_, Some t) \<Rightarrow> hash + eqClass st (k mod 2) t
           | _ \<Rightarrow> hash)
       (ck_symbols (chunks (ic_store st) ! c)) (eqClass st (k mod 2) c) OR 0x80000000"

definition combine_hashes :: "nat \<Rightarrow> icf_state \<Rightarrow> icf_state" where
  "combine_hashes k st =
     st\<lparr>eqClass := (eqClass st)((k + 1) mod 2 := (\<lambda>c. if c \<in> set (ic_chunks st) then combined_hash st k c
          else eqClass st ((k + 1) mod 2) c))\<rparr>"

definition sort_chunks :: "icf_state \<Rightarrow> icf_state" where
  "sort_chunks st = st\<lparr>ic_chunks := sort_key (\<lambda>c. unat (eqClass st 0 c)) (ic_chunks st)\<rparr>"

definition icf_init :: "store \<Rightarrow> (chunk_id \<Rightarrow> nat) \<Rightarrow> icf_state" where
  "icf_init s al = \<lparr>ic_store = s, ic_p2Align = al, ic_chunks = [], ic_cnt = 0, ic_repeat = False, eqClass = (\<lambda>_ _. 0)\<rparr>"

text \<open>The part of \<open>run\<close> before the first pass.\<close>

definition icf_prepare :: "icf_env \<Rightarrow> store \<Rightarrow> (chunk_id \<Rightarrow> nat) \<Rightarrow> icf_state" where
  "icf_prepare env s al =
     (let (nextId, st) = fold (collect_chunk env) (ie_getChunks env) (1, icf_init s al);
          (nextId', st1) = fold number_merged (ie_mergeSections env) (nextId, st)
      in sort_chunks (combine_hashes 1 (combine_hashes 0 (hash_contents env st1))))"

partial_function (option) icf_loop :: "icf_env \<Rightarrow> icf_state \<Rightarrow> icf_state option" where
  "icf_loop env st =
     (let st1 = forEachClass (segregate env False) (st\<lparr>ic_repeat := False\<rparr>) in
      if ic_repeat st1 then icf_loop env st1 else Some st1)"

definition icf_run :: "icf_env \<Rightarrow> store \<Rightarrow> (chunk_id \<Rightarrow> nat) \<Rightarrow> icf_state option" where
  "icf_run env s al =
     (case icf_loop env (forEachClass (segregate env True) (icf_prepare env s al)) of
        None \<Rightarrow> None
      | Some st \<Rightarrow> Some (forEachClass merge_class st))"

section \<open>A pass refines the partition\<close>

text \<open>What a pass does to the state: the groups take the place of the range they cover, and every
  member gets the number of its group in the class slot that is not being read.\<close>

definition regroup :: "nat \<Rightarrow> chunk_id list list \<Rightarrow> bool \<Rightarrow> icf_state \<Rightarrow> icf_state" where
  "regroup lo gs rep st =
     st\<lparr>ic_chunks := put (ic_chunks st) lo (concat gs),
        eqClass := (eqClass st)((ic_cnt st + 1) mod 2 := number lo gs (eqClass st ((ic_cnt st + 1) mod 2))),
        ic_repeat := ic_repeat st \<or> rep\<rparr>"

lemma other_slot [simp]: "(n + 1) mod 2 \<noteq> n mod (2 :: nat)" "Suc n mod 2 \<noteq> n mod 2" "n mod 2 \<noteq> Suc n mod 2"
  by presburger+

lemma regroup_simps [simp]:
  "ic_store (regroup lo gs rep st) = ic_store st" "ic_cnt (regroup lo gs rep st) = ic_cnt st"
  "ic_p2Align (regroup lo gs rep st) = ic_p2Align st"
  "ic_repeat (regroup lo gs rep st) \<longleftrightarrow> ic_repeat st \<or> rep"
  "eqClass (regroup lo gs rep st) (ic_cnt st mod 2) = eqClass st (ic_cnt st mod 2)"
  "ic_chunks (regroup lo gs rep st) = put (ic_chunks st) lo (concat gs)"
  by (simp_all add: regroup_def)

lemma regroup_Nil [simp]: "regroup lo [] False st = st"
  by (simp add: regroup_def put_def)

lemma put_append:
  "p + length xs + length ys \<le> length d \<Longrightarrow> put (put d p xs) (p + length xs) ys = put d p (xs @ ys)"
  by (simp add: put_def add.assoc add.commute add.left_commute)

lemma regroup_regroup:
  assumes "lo + length (concat gs) + length (concat hs) \<le> length (ic_chunks st)"
  shows "regroup (lo + length (concat gs)) hs r2 (regroup lo gs r1 st) = regroup lo (gs @ hs) (r1 \<or> r2) st"
  using put_append [OF assms] by (simp add: regroup_def number_append disj_assoc del: length_concat)

lemma icf_equal_cong:
  assumes "ic_store st' = ic_store st" "cur_class st' = cur_class st"
  shows "icf_equal env c st' = icf_equal env c st"
proof -
  have "assocEquals st' = assocEquals st" "eqSym st' = eqSym st" "eq_constant env st' = eq_constant env st"
    by (intro ext; simp only: assms assocEquals_def eqSym_def eq_constant_def)+
  then show ?thesis
    by (intro ext) (simp only: assms icf_equal_def equalsConstant_def equalsVariable_def)
qed

lemma sub_Cons:
  "lo < hi \<Longrightarrow> hi \<le> length cs \<Longrightarrow> sub cs lo (hi - lo) = cs ! lo # sub cs (lo + 1) (hi - (lo + 1))"
  by (simp add: sub_def take_Suc_conv_app_nth Cons_nth_drop_Suc [symmetric] Suc_diff_Suc [symmetric])

lemma put_lead: "lo < length cs \<Longrightarrow> put cs lo (cs ! lo # xs) = put cs (lo + 1) xs"
  by (simp add: put_def take_Suc_conv_app_nth)

text \<open>One turn of the loop of \<open>segregate\<close>: the leader's group is in place, the others follow it.\<close>

lemma segregate_step:
  fixes env :: icf_env and c :: bool and st :: icf_state and lo hi :: nat
  assumes "lo < hi" "hi \<le> length (ic_chunks st)"
  defines "x \<equiv> ic_chunks st ! lo" and "rest \<equiv> sub (ic_chunks st) (lo + 1) (hi - (lo + 1))"
  defines "same \<equiv> filter (icf_equal env c st x) rest" and "other \<equiv> filter (\<lambda>s. \<not> icf_equal env c st x s) rest"
  defines "mid \<equiv> lo + 1 + length same"
  defines "st1 \<equiv> regroup lo [x # same] (mid \<noteq> hi) st"
  shows "segregate env c lo hi st = segregate env c mid hi (st1\<lparr>ic_chunks := put (ic_chunks st1) mid other\<rparr>)"
    and "mid + length other = hi"
proof -
  have "length same + length other = hi - (lo + 1)"
    using assms sum_length_filter_compl [of "icf_equal env c st x" rest] by simp
  then show mid: "mid + length other = hi" using assms(1) by (simp add: mid_def)
  have "put (put (ic_chunks st) lo (x # same)) mid other = put (ic_chunks st) lo ((x # same) @ other)"
    using put_append [of lo "x # same" other "ic_chunks st"] mid assms(2) by (simp add: mid_def)
  also have "\<dots> = put (ic_chunks st) (lo + 1) (same @ other)"
    using put_lead [of lo "ic_chunks st"] assms(1,2) by (simp add: x_def)
  finally have chunks: "put (put (ic_chunks st) lo (x # same)) mid other = put (ic_chunks st) (lo + 1) (same @ other)" .
  let ?st2 = "set_classes ((ic_cnt st + 1) mod 2) (x # same) (of_nat mid)
     (st\<lparr>ic_chunks := put (ic_chunks st) (lo + 1) (same @ other)\<rparr>)"
  have "st1\<lparr>ic_chunks := put (ic_chunks st1) mid other\<rparr> = (if mid \<noteq> hi then ?st2\<lparr>ic_repeat := True\<rparr> else ?st2)"
    using chunks by (auto simp: st1_def regroup_def set_classes_def mid_def fun_eq_iff)
  then show "segregate env c lo hi st = segregate env c mid hi (st1\<lparr>ic_chunks := put (ic_chunks st1) mid other\<rparr>)"
    using assms(1) by (subst segregate.simps) (simp only: Let_def if_True x_def rest_def same_def other_def mid_def)
qed

lemma regroup_overwrite:
  "p + length (concat gs) \<le> length (ic_chunks st) \<Longrightarrow> length ys = length (concat gs) \<Longrightarrow>
   regroup p gs r (st\<lparr>ic_chunks := put (ic_chunks st) p ys\<rparr>) = regroup p gs r st"
  by (simp add: regroup_def put_put_same)

lemma segregate_regroup:
  assumes "lo \<le> hi" "hi \<le> length (ic_chunks st)"
  shows "segregate env c lo hi st =
    (let gs = groups (icf_equal env c st) (sub (ic_chunks st) lo (hi - lo)) in regroup lo gs (1 < length gs) st)"
  using assms
proof (induction "hi - lo" arbitrary: lo st rule: less_induct)
  case less
  show ?case
  proof (cases "lo < hi")
    case True
    let ?cs = "ic_chunks st" and ?E = "icf_equal env c st"
    define x where "x = ?cs ! lo"
    define rest where "rest = sub ?cs (lo + 1) (hi - (lo + 1))"
    define same where "same = filter (?E x) rest"
    define other where "other = filter (\<lambda>s. \<not> ?E x s) rest"
    define mid where "mid = lo + 1 + length same"
    define st1 where "st1 = regroup lo [x # same] (mid \<noteq> hi) st"
    let ?st3 = "st1\<lparr>ic_chunks := put (ic_chunks st1) mid other\<rparr>"
    note defs = x_def rest_def same_def other_def mid_def st1_def
    have step: "segregate env c lo hi st = segregate env c mid hi ?st3" and mid: "mid + length other = hi"
      using segregate_step [OF True less.prems(2), of env c] by (simp_all only: defs)
    have len: "length (ic_chunks st1) = length ?cs" using less.prems(2) mid by (simp add: st1_def mid_def)
    have E: "icf_equal env c ?st3 = ?E" by (rule icf_equal_cong) (simp_all add: st1_def)
    have sub: "sub (ic_chunks ?st3) mid (hi - mid) = other"
      using len mid less.prems(2) sub_put_same [of mid other "ic_chunks st1"] by auto
    have cat: "length (concat (groups ?E other)) = length other" by (rule mset_groups)
    have "segregate env c mid hi ?st3 = regroup mid (groups ?E other) (1 < length (groups ?E other)) ?st3"
    proof -
      have "hi - mid < hi - lo" "mid \<le> hi" "hi \<le> length (ic_chunks ?st3)"
        using mid True less.prems(2) len by (auto simp: mid_def)
      from less.hyps [OF this] show ?thesis by (simp only: E sub Let_def)
    qed
    also have "\<dots> = regroup mid (groups ?E other) (1 < length (groups ?E other)) st1"
      using regroup_overwrite mid len less.prems(2) cat by simp
    also have "\<dots> = regroup lo ((x # same) # groups ?E other) (mid \<noteq> hi \<or> 1 < length (groups ?E other)) st"
      using regroup_regroup [of lo "[x # same]" "groups ?E other" st] mid less.prems(2) cat
      by (simp add: st1_def mid_def)
    also have "(mid \<noteq> hi \<or> 1 < length (groups ?E other)) \<longleftrightarrow> 1 < length ((x # same) # groups ?E other)"
      using mid by (cases other) auto
    also have "(x # same) # groups ?E other = groups ?E (sub ?cs lo (hi - lo))"
      using sub_Cons [OF True less.prems(2)] by (simp add: defs)
    finally show ?thesis using step by (simp add: Let_def)
  next
    case False
    then show ?thesis using less.prems by (subst segregate.simps) (simp add: sub_def Let_def)
  qed
qed

lemma find_boundary_loop_takeWhile:
  assumes "i \<le> hi" "hi \<le> length (ic_chunks st)"
  shows "find_boundary_loop st lo i hi =
    i + length (takeWhile (\<lambda>y. cur_class st y = cur_class st (ic_chunks st ! lo)) (sub (ic_chunks st) i (hi - i)))"
  using assms
proof (induction st lo i hi rule: find_boundary_loop.induct)
  case (1 st lo i hi)
  show ?case
  proof (cases "i < hi")
    case True
    then show ?thesis
      using 1 sub_Cons [OF True, of "ic_chunks st"] by (subst find_boundary_loop.simps) (auto simp: eq_commute)
  next
    case False
    then show ?thesis using 1 by (subst find_boundary_loop.simps) (simp add: sub_def)
  qed
qed

lemma sub_split: "lo \<le> mid \<Longrightarrow> mid \<le> hi \<Longrightarrow> sub cs lo (hi - lo) = sub cs lo (mid - lo) @ sub cs mid (hi - mid)"
proof -
  assume "lo \<le> mid" "mid \<le> hi"
  then have "hi - lo = (mid - lo) + (hi - mid)" "drop (mid - lo) (drop lo cs) = drop mid cs" by simp_all
  then show ?thesis by (simp only: sub_def take_add)
qed

text \<open>The first class of a range.\<close>

lemma findBoundary_run:
  assumes "lo < hi" "hi \<le> length (ic_chunks st)"
  defines "mid \<equiv> findBoundary st lo hi"
  shows "runs (cur_class st) (sub (ic_chunks st) lo (hi - lo)) =
    sub (ic_chunks st) lo (mid - lo) # runs (cur_class st) (sub (ic_chunks st) mid (hi - mid))"
proof -
  let ?x = "ic_chunks st ! lo" and ?rest = "sub (ic_chunks st) (lo + 1) (hi - (lo + 1))"
  let ?P = "\<lambda>y. cur_class st y = cur_class st ?x"
  have mid: "mid = lo + 1 + length (takeWhile ?P ?rest)"
    using assms(1,2) by (simp add: mid_def findBoundary_def find_boundary_loop_takeWhile)
  have bounds: "lo < mid" "mid \<le> hi" using findBoundary_bounds [OF assms(1)] by (simp_all add: mid_def)
  have seg: "sub (ic_chunks st) lo (hi - lo) = ?x # takeWhile ?P ?rest @ dropWhile ?P ?rest"
    using sub_Cons [OF assms(1,2)] by simp
  have "sub (ic_chunks st) lo (mid - lo) @ sub (ic_chunks st) mid (hi - mid) = (?x # takeWhile ?P ?rest) @ dropWhile ?P ?rest"
    using sub_split [of lo mid hi "ic_chunks st"] bounds seg by (metis append_Cons less_imp_le)
  moreover have len: "length (sub (ic_chunks st) lo (mid - lo)) = length (?x # takeWhile ?P ?rest)"
    using bounds assms(2) by (simp add: mid)
  ultimately have "sub (ic_chunks st) lo (mid - lo) = ?x # takeWhile ?P ?rest" "sub (ic_chunks st) mid (hi - mid) = dropWhile ?P ?rest"
    using append_eq_append_conv [OF disjI1 [OF len]] by blast+
  then show ?thesis using sub_Cons [OF assms(1,2)] by simp
qed

abbreviation splits :: "('a \<Rightarrow> 'a \<Rightarrow> bool) \<Rightarrow> 'a list list \<Rightarrow> bool" where
  "splits E gs \<equiv> \<exists>g\<in>set gs. 1 < length (groups E g)"

lemma forEachClassRange_segregate:
  assumes "lo \<le> hi" "hi \<le> length (ic_chunks st)"
  shows "forEachClassRange lo hi (segregate env c) st =
    (let E = icf_equal env c st; rs = runs (cur_class st) (sub (ic_chunks st) lo (hi - lo))
     in regroup lo (refine E rs) (splits E rs) st)"
  using assms
proof (induction "hi - lo" arbitrary: lo st rule: less_induct)
  case less
  show ?case
  proof (cases "lo < hi")
    case True
    let ?cs = "ic_chunks st" and ?E = "icf_equal env c st"
    define mid where "mid = findBoundary st lo hi"
    define g where "g = sub ?cs lo (mid - lo)"
    define rs where "rs = runs (cur_class st) (sub ?cs mid (hi - mid))"
    define st1 where "st1 = regroup lo (groups ?E g) (1 < length (groups ?E g)) st"
    have mid: "lo < mid" "mid \<le> hi" using findBoundary_bounds [OF True] by (simp_all add: mid_def)
    have cat: "length (concat (groups ?E g)) = mid - lo"
      using mid less.prems(2) by (simp add: mset_groups g_def del: length_concat)
    have E: "icf_equal env c st1 = ?E" by (rule icf_equal_cong) (simp_all add: st1_def)
    have "sub (put ?cs lo (concat (groups ?E g))) mid (hi - mid) = sub ?cs mid (hi - mid)"
      using mid less.prems(2) cat by (intro sub_put_disjoint) (simp_all del: length_concat)
    then have tail: "runs (cur_class st1) (sub (ic_chunks st1) mid (hi - mid)) = rs"
      by (simp add: st1_def rs_def)
    have catr: "length (concat (refine ?E rs)) = hi - mid"
      using mid less.prems(2) by (simp add: rs_def del: length_concat)
    have "forEachClassRange lo hi (segregate env c) st = forEachClassRange mid hi (segregate env c) st1"
      using True mid less.prems(2)
      by (subst forEachClassRange.simps) (simp add: segregate_regroup Let_def st1_def g_def flip: mid_def)
    also have "\<dots> = regroup mid (refine ?E rs) (splits ?E rs) st1"
    proof -
      have "length (ic_chunks st1) = length ?cs" using mid less.prems(2) cat by (simp add: st1_def del: length_concat)
      then have "hi - mid < hi - lo" "mid \<le> hi" "hi \<le> length (ic_chunks st1)" using mid less.prems by auto
      from less.hyps [OF this] show ?thesis by (simp only: E tail Let_def)
    qed
    also have "\<dots> = regroup lo (groups ?E g @ refine ?E rs) (1 < length (groups ?E g) \<or> splits ?E rs) st"
      using regroup_regroup [of lo "groups ?E g" "refine ?E rs" st] cat catr mid less.prems(2)
      by (simp add: st1_def del: length_concat)
    also have "groups ?E g @ refine ?E rs = refine ?E (g # rs)" by simp
    also have "(1 < length (groups ?E g) \<or> splits ?E rs) \<longleftrightarrow> splits ?E (g # rs)" by simp
    also have "g # rs = runs (cur_class st) (sub ?cs lo (hi - lo))"
      using findBoundary_run [OF True less.prems(2)] by (simp add: g_def rs_def mid_def)
    finally show ?thesis by (simp add: Let_def)
  next
    case False
    then show ?thesis using less.prems by (subst forEachClassRange.simps) (simp add: sub_def Let_def)
  qed
qed

section \<open>Sharding\<close>

text \<open>The class ranges of a state, fixed before any of them is processed.\<close>

function class_ranges :: "icf_state \<Rightarrow> nat \<Rightarrow> nat \<Rightarrow> (nat \<times> nat) list" where
  "class_ranges st lo hi =
     (if lo < hi then (let mid = findBoundary st lo hi in (lo, mid) # class_ranges st mid hi) else [])"
  by pat_completeness auto
termination
  by (relation "measure (\<lambda>(st, lo, hi). hi - lo)") (auto intro!: diff_less_mono2 simp: findBoundary_bounds)

declare class_ranges.simps [simp del]

lemma class_ranges_step:
  "lo < hi \<Longrightarrow> class_ranges st lo hi = (lo, findBoundary st lo hi) # class_ranges st (findBoundary st lo hi) hi"
  by (subst class_ranges.simps) (simp add: Let_def)

lemma class_ranges_empty [simp]: "\<not> lo < hi \<Longrightarrow> class_ranges st lo hi = []"
  by (subst class_ranges.simps) simp

definition class_at :: "icf_state \<Rightarrow> nat \<Rightarrow> u32" where
  "class_at st i = cur_class st (ic_chunks st ! i)"

definition same_classes :: "nat \<Rightarrow> nat \<Rightarrow> icf_state \<Rightarrow> icf_state \<Rightarrow> bool" where
  "same_classes lo hi st st' \<longleftrightarrow> (\<forall>i. lo \<le> i \<and> i < hi \<longrightarrow> class_at st' i = class_at st i)"

lemma find_boundary_loop_cong:
  "lo \<le> i \<Longrightarrow> lo < hi \<Longrightarrow> same_classes lo hi st st' \<Longrightarrow> find_boundary_loop st' lo i hi = find_boundary_loop st lo i hi"
proof (induction st lo i hi rule: find_boundary_loop.induct)
  case (1 st lo i hi)
  then show ?case
    by (subst (1 2) find_boundary_loop.simps) (simp add: same_classes_def class_at_def)
qed

lemma findBoundary_cong: "lo < hi \<Longrightarrow> same_classes lo hi st st' \<Longrightarrow> findBoundary st' lo hi = findBoundary st lo hi"
  by (simp add: findBoundary_def find_boundary_loop_cong)

lemma class_ranges_cong: "same_classes lo hi st st' \<Longrightarrow> class_ranges st' lo hi = class_ranges st lo hi"
proof (induction st lo hi rule: class_ranges.induct)
  case (1 st lo hi)
  show ?case
  proof (cases "lo < hi")
    case True
    have "same_classes (findBoundary st lo hi) hi st st'"
      using "1.prems" findBoundary_bounds [OF True, of st] by (simp add: same_classes_def)
    then show ?thesis using 1 True by (simp add: class_ranges_step findBoundary_cong)
  qed simp
qed

text \<open>\<open>findBoundary\<close> as a specification: the classes agree up to the result and change there.\<close>

definition uniform_upto :: "icf_state \<Rightarrow> nat \<Rightarrow> nat \<Rightarrow> bool" where
  "uniform_upto st lo m \<longleftrightarrow> (\<forall>j. lo \<le> j \<and> j < m \<longrightarrow> class_at st j = class_at st lo)"

lemma uniform_upto_extend: "uniform_upto st lo i \<Longrightarrow> class_at st i = class_at st lo \<Longrightarrow> uniform_upto st lo (i + 1)"
  unfolding uniform_upto_def by (metis Suc_eq_plus1 less_Suc_eq)

lemma find_boundary_loop_spec:
  assumes "i \<le> hi" "uniform_upto st lo i"
  shows "uniform_upto st lo (find_boundary_loop st lo i hi) \<and>
    (find_boundary_loop st lo i hi < hi \<longrightarrow> class_at st (find_boundary_loop st lo i hi) \<noteq> class_at st lo)"
  using assms
proof (induction "hi - i" arbitrary: i rule: less_induct)
  case less
  show ?case
  proof (cases "i < hi \<and> class_at st i = class_at st lo")
    case True
    then have "find_boundary_loop st lo i hi = find_boundary_loop st lo (i + 1) hi"
      by (subst find_boundary_loop.simps) (simp add: class_at_def)
    moreover have "hi - (i + 1) < hi - i" "i + 1 \<le> hi" using True by linarith+
    moreover have "uniform_upto st lo (i + 1)" using uniform_upto_extend [OF less.prems(2)] True by blast
    ultimately show ?thesis using less.hyps [of "i + 1"] by presburger
  next
    case False
    then have "find_boundary_loop st lo i hi = i"
      using less.prems(1) by (subst find_boundary_loop.simps) (auto simp: class_at_def)
    then show ?thesis using less.prems(2) False by simp
  qed
qed

lemma findBoundary_spec:
  assumes "lo < hi"
  shows findBoundary_same: "lo \<le> j \<Longrightarrow> j < findBoundary st lo hi \<Longrightarrow> class_at st j = class_at st lo"
    and findBoundary_differs: "findBoundary st lo hi < hi \<Longrightarrow> class_at st (findBoundary st lo hi) \<noteq> class_at st lo"
proof -
  have "uniform_upto st lo (lo + 1)" unfolding uniform_upto_def by (metis Suc_eq_plus1 le_antisym less_Suc_eq_le)
  then have "uniform_upto st lo (findBoundary st lo hi) \<and>
      (findBoundary st lo hi < hi \<longrightarrow> class_at st (findBoundary st lo hi) \<noteq> class_at st lo)"
    unfolding findBoundary_def using assms by (intro find_boundary_loop_spec) simp_all
  then show "lo \<le> j \<Longrightarrow> j < findBoundary st lo hi \<Longrightarrow> class_at st j = class_at st lo"
    "findBoundary st lo hi < hi \<Longrightarrow> class_at st (findBoundary st lo hi) \<noteq> class_at st lo"
    unfolding uniform_upto_def by blast+
qed

lemma findBoundary_unique:
  assumes "lo < m" "m \<le> hi" "\<And>j. lo \<le> j \<Longrightarrow> j < m \<Longrightarrow> class_at st j = class_at st lo"
    and "m < hi \<Longrightarrow> class_at st m \<noteq> class_at st lo"
  shows "findBoundary st lo hi = m"
proof -
  have hi: "lo < hi" using assms(1,2) by simp
  note b = findBoundary_bounds [OF hi, of st]
  have "\<not> findBoundary st lo hi < m"
  proof
    assume less: "findBoundary st lo hi < m"
    then have "class_at st (findBoundary st lo hi) = class_at st lo" using b by (intro assms(3)) simp_all
    moreover have "findBoundary st lo hi < hi" using less assms(2) by simp
    ultimately show False using findBoundary_differs [OF hi] by blast
  qed
  moreover have "\<not> m < findBoundary st lo hi"
  proof
    assume less: "m < findBoundary st lo hi"
    then have "class_at st m = class_at st lo" using assms(1) by (intro findBoundary_same [OF hi]) simp_all
    moreover have "m < hi" using less b by simp
    ultimately show False using assms(4) by blast
  qed
  ultimately show ?thesis by simp
qed

text \<open>A position between two classes, or an end of the vector.\<close>

definition boundary :: "icf_state \<Rightarrow> nat \<Rightarrow> bool" where
  "boundary st m \<longleftrightarrow> m = 0 \<or> length (ic_chunks st) \<le> m \<or> class_at st (m - 1) \<noteq> class_at st m"

lemma boundary_findBoundary:
  "lo < length (ic_chunks st) \<Longrightarrow> boundary st (findBoundary st lo (length (ic_chunks st)))"
  using findBoundary_bounds [of lo "length (ic_chunks st)" st]
    findBoundary_same [of lo "length (ic_chunks st)" "findBoundary st lo (length (ic_chunks st)) - 1" st]
    findBoundary_differs [of lo "length (ic_chunks st)" st]
  by (cases "findBoundary st lo (length (ic_chunks st)) < length (ic_chunks st)") (auto simp: boundary_def)

lemma findBoundary_mono:
  assumes "p \<le> q" "q < n"
  shows "findBoundary st p n \<le> findBoundary st q n"
proof (cases "q < findBoundary st p n")
  case True
  have p: "p < n" using assms by simp
  have "findBoundary st q n = findBoundary st p n"
  proof (rule findBoundary_unique [OF True])
    show "findBoundary st p n \<le> n" using findBoundary_bounds [OF p] by simp
    show "class_at st j = class_at st q" if "q \<le> j" "j < findBoundary st p n" for j
      using findBoundary_same [OF p, of j st] findBoundary_same [OF p, of q st] that assms(1) True by simp
    show "class_at st (findBoundary st p n) \<noteq> class_at st q" if "findBoundary st p n < n"
      using findBoundary_differs [OF p that] findBoundary_same [OF p, of q st] assms(1) True by simp
  qed
  then show ?thesis by simp
next
  case False
  then show ?thesis using findBoundary_bounds [OF assms(2), of st] by simp
qed

lemma class_ranges_append:
  assumes "lo \<le> m" "m \<le> hi" "hi \<le> length (ic_chunks st)" "boundary st m"
  shows "class_ranges st lo hi = class_ranges st lo m @ class_ranges st m hi"
  using assms
proof (induction "m - lo" arbitrary: lo rule: less_induct)
  case less
  show ?case
  proof (cases "lo < m \<and> m < hi")
    case True
    then have lo: "lo < m" "lo < hi" by auto
    let ?f = "findBoundary st lo m"
    note fb = findBoundary_bounds [OF lo(1), of st]
    have "findBoundary st lo hi = ?f"
    proof (rule findBoundary_unique)
      show "class_at st j = class_at st lo" if "lo \<le> j" "j < ?f" for j using findBoundary_same [OF lo(1)] that .
      show "class_at st ?f \<noteq> class_at st lo"
      proof (cases "?f < m")
        case True
        then show ?thesis by (rule findBoundary_differs [OF lo(1)])
      next
        case False
        then have f: "?f = m" using fb by simp
        then have "class_at st (m - 1) = class_at st lo" using findBoundary_same [OF lo(1), of "m - 1" st] lo by simp
        then show ?thesis using less.prems(3,4) True lo f by (auto simp: boundary_def)
      qed
    qed (use fb True in auto)
    moreover have "m - ?f < m - lo" using fb lo by linarith
    ultimately show ?thesis
      using less.hyps [of ?f] less.prems fb lo by (simp add: class_ranges_step)
  next
    case False
    then show ?thesis using less.prems by (cases "lo = m") auto
  qed
qed

definition on_range :: "(nat \<Rightarrow> nat \<Rightarrow> icf_state \<Rightarrow> icf_state) \<Rightarrow> nat \<times> nat \<Rightarrow> icf_state \<Rightarrow> icf_state" where
  "on_range fn r st = fn (fst r) (snd r) st"

lemma steps_mono:
  fixes f :: "nat \<Rightarrow> nat"
  shows "(\<And>i. i < n \<Longrightarrow> f i \<le> f (Suc i)) \<Longrightarrow> f 0 \<le> f n"
proof (induction n)
  case (Suc n)
  then have "f 0 \<le> f n" "f n \<le> f (Suc n)" by simp_all
  then show ?case by simp
qed simp

lemma boundaries_entry:
  "i \<le> numShards \<Longrightarrow> boundaries st ! i =
    (if i = 0 then 0
     else if i < numShards then findBoundary st ((i - 1) * (length (ic_chunks st) div numShards)) (length (ic_chunks st))
     else length (ic_chunks st))"
  by (auto simp: boundaries_def Let_def nth_Cons nth_append numShards_def split: nat.split)

lemma boundaries_nth:
  assumes "1024 \<le> length (ic_chunks st)"
  shows "boundaries st ! 0 = 0" "boundaries st ! numShards = length (ic_chunks st)"
    and "\<And>i. i < numShards \<Longrightarrow> boundaries st ! i \<le> boundaries st ! Suc i"
    and "\<And>i. i \<le> numShards \<Longrightarrow> boundary st (boundaries st ! i)"
proof -
  let ?n = "length (ic_chunks st)"
  let ?p = "\<lambda>i. (i - 1) * (?n div numShards)"
  have pos: "?p i < ?n" if "i \<le> numShards" for i
  proof -
    have "0 < ?n div numShards" using assms by (simp add: numShards_def div_greater_zero_iff)
    moreover have "i - 1 < numShards" using that by (auto simp: numShards_def)
    ultimately have "?p i < numShards * (?n div numShards)" by simp
    also have "\<dots> \<le> ?n" by simp
    finally show ?thesis .
  qed
  show "boundaries st ! 0 = 0" "boundaries st ! numShards = ?n"
    by (simp_all add: boundaries_entry) (simp add: numShards_def)
  show "boundaries st ! i \<le> boundaries st ! Suc i" if "i < numShards" for i
  proof (cases "Suc i < numShards")
    case True
    have "findBoundary st (?p i) ?n \<le> findBoundary st (?p (Suc i)) ?n"
      using True pos [of "Suc i"] by (intro findBoundary_mono) simp_all
    then show ?thesis using True by (simp add: boundaries_entry)
  next
    case False
    then show ?thesis
      using that pos [of i] findBoundary_bounds [of "?p i" ?n st] by (simp add: boundaries_entry)
  qed
  show "boundary st (boundaries st ! i)" if "i \<le> numShards" for i
    using that pos [OF that] boundary_findBoundary [of "?p i" st]
    by (auto simp: boundaries_entry) (simp_all add: boundary_def)
qed

text \<open>What \<open>forEachClass\<close> relies on of the function it calls: a call on one range of positions leaves
  the class slot being read and the rest of the vector alone.\<close>

locale class_action =
  fixes fn :: "nat \<Rightarrow> nat \<Rightarrow> icf_state \<Rightarrow> icf_state"
  assumes fn_length: "lo \<le> hi \<Longrightarrow> hi \<le> length (ic_chunks st) \<Longrightarrow> length (ic_chunks (fn lo hi st)) = length (ic_chunks st)"
    and fn_classes: "lo \<le> hi \<Longrightarrow> hi \<le> length (ic_chunks st) \<Longrightarrow> same_classes hi (length (ic_chunks st)) st (fn lo hi st)"
begin

lemma same_classes_mono: "same_classes lo hi st st' \<Longrightarrow> lo \<le> lo' \<Longrightarrow> hi' \<le> hi \<Longrightarrow> same_classes lo' hi' st st'"
  by (simp add: same_classes_def)

lemma same_classes_trans: "same_classes lo hi st st' \<Longrightarrow> same_classes lo hi st' st'' \<Longrightarrow> same_classes lo hi st st''"
  by (simp add: same_classes_def)

text \<open>Processing ranges as they are found is processing the ranges of the state at the start.\<close>

lemma forEachClassRange_ranges:
  assumes "lo \<le> hi" "hi \<le> length (ic_chunks st)"
  shows "forEachClassRange lo hi fn st = fold (on_range fn) (class_ranges st lo hi) st \<and>
    length (ic_chunks (forEachClassRange lo hi fn st)) = length (ic_chunks st) \<and>
    same_classes hi (length (ic_chunks st)) st (forEachClassRange lo hi fn st)"
  using assms
proof (induction "hi - lo" arbitrary: lo st rule: less_induct)
  case less
  show ?case
  proof (cases "lo < hi")
    case True
    let ?mid = "findBoundary st lo hi"
    let ?st1 = "fn lo ?mid st"
    have mid: "lo < ?mid" "?mid \<le> hi" using findBoundary_bounds [OF True] by blast+
    have len: "length (ic_chunks ?st1) = length (ic_chunks st)" using mid less.prems by (intro fn_length) simp_all
    have cls: "same_classes ?mid (length (ic_chunks st)) st ?st1" using mid less.prems by (intro fn_classes) simp_all
    have unf: "forEachClassRange lo hi fn st = forEachClassRange ?mid hi fn ?st1"
      using True by (subst forEachClassRange.simps) (simp add: Let_def)
    have "hi - ?mid < hi - lo" using mid True by linarith
    moreover have "hi \<le> length (ic_chunks ?st1)" using less.prems(2) len by simp
    ultimately have IH: "forEachClassRange ?mid hi fn ?st1 = fold (on_range fn) (class_ranges ?st1 ?mid hi) ?st1 \<and>
      length (ic_chunks (forEachClassRange ?mid hi fn ?st1)) = length (ic_chunks ?st1) \<and>
      same_classes hi (length (ic_chunks ?st1)) ?st1 (forEachClassRange ?mid hi fn ?st1)"
      using less.hyps mid(2) by blast
    have "class_ranges ?st1 ?mid hi = class_ranges st ?mid hi"
      using class_ranges_cong same_classes_mono [OF cls order_refl less.prems(2)] .
    then have "fold (on_range fn) (class_ranges st lo hi) st = fold (on_range fn) (class_ranges ?st1 ?mid hi) ?st1"
      using True by (simp add: class_ranges_step on_range_def)
    moreover have "same_classes hi (length (ic_chunks st)) st (forEachClassRange ?mid hi fn ?st1)"
      using IH len same_classes_mono [OF cls mid(2) order_refl] by (auto intro: same_classes_trans)
    ultimately show ?thesis unfolding unf using IH len by metis
  next
    case False
    then have "forEachClassRange lo hi fn st = st" by (subst forEachClassRange.simps) simp
    then show ?thesis using False by (simp add: same_classes_def)
  qed
qed

lemma shard_ranges:
  assumes "bs ! (i - 1) \<le> bs ! i" "bs ! i \<le> length (ic_chunks st)"
  shows "shard bs fn i st = fold (on_range fn) (class_ranges st (bs ! (i - 1)) (bs ! i)) st \<and>
    length (ic_chunks (shard bs fn i st)) = length (ic_chunks st) \<and>
    same_classes (bs ! i) (length (ic_chunks st)) st (shard bs fn i st)"
  using forEachClassRange_ranges [OF assms] assms by (auto simp: shard_def same_classes_def)

text \<open>Sharding at class boundaries does not change what is done.\<close>

lemma shards_ranges:
  assumes mono: "\<And>i. i < n \<Longrightarrow> bs ! i \<le> bs ! Suc i" and last: "bs ! n \<le> length (ic_chunks st)"
    and bound: "\<And>i. i \<le> n \<Longrightarrow> boundary st (bs ! i)"
  shows "fold (shard bs fn) [1..<n + 1] st = fold (on_range fn) (class_ranges st (bs ! 0) (bs ! n)) st \<and>
    length (ic_chunks (fold (shard bs fn) [1..<n + 1] st)) = length (ic_chunks st) \<and>
    same_classes (bs ! n) (length (ic_chunks st)) st (fold (shard bs fn) [1..<n + 1] st)"
  using assms
proof (induction n)
  case 0
  then show ?case by (simp add: same_classes_def)
next
  case (Suc n)
  let ?st1 = "fold (shard bs fn) [1..<n + 1] st"
  have step: "bs ! n \<le> bs ! Suc n" "bs ! Suc n \<le> length (ic_chunks st)" using Suc.prems by simp_all
  have IH: "?st1 = fold (on_range fn) (class_ranges st (bs ! 0) (bs ! n)) st" "length (ic_chunks ?st1) = length (ic_chunks st)"
    "same_classes (bs ! n) (length (ic_chunks st)) st ?st1"
    using Suc.IH Suc.prems step by (auto simp: less_SucI)
  have "bs ! 0 \<le> bs ! n" by (rule steps_mono [of n "(!) bs"]) (use Suc.prems(1) in simp)
  then have ranges: "class_ranges st (bs ! 0) (bs ! Suc n) = class_ranges st (bs ! 0) (bs ! n) @ class_ranges st (bs ! n) (bs ! Suc n)"
    using step Suc.prems(3) by (intro class_ranges_append) simp_all
  have next_: "fold (shard bs fn) [1..<Suc n + 1] st = shard bs fn (Suc n) ?st1" by simp
  have S: "shard bs fn (Suc n) ?st1 = fold (on_range fn) (class_ranges ?st1 (bs ! n) (bs ! Suc n)) ?st1"
    "length (ic_chunks (shard bs fn (Suc n) ?st1)) = length (ic_chunks ?st1)"
    "same_classes (bs ! Suc n) (length (ic_chunks ?st1)) ?st1 (shard bs fn (Suc n) ?st1)"
    using shard_ranges [of bs "Suc n" ?st1] step unfolding diff_Suc_1 IH(2) by blast+
  have "class_ranges ?st1 (bs ! n) (bs ! Suc n) = class_ranges st (bs ! n) (bs ! Suc n)"
    using class_ranges_cong same_classes_mono [OF IH(3) order_refl step(2)] .
  then have "shard bs fn (Suc n) ?st1 = fold (on_range fn) (class_ranges st (bs ! 0) (bs ! Suc n)) st"
    using S(1) IH(1) by (simp only: ranges fold_append o_apply)
  moreover have "same_classes (bs ! Suc n) (length (ic_chunks st)) st (shard bs fn (Suc n) ?st1)"
    using same_classes_trans [OF same_classes_mono [OF IH(3) step(1) order_refl]] S(3) IH(2) by simp
  ultimately show ?case using S(2) IH(2) by (simp only: next_)
qed

lemma forEachClass_sequential:
  "forEachClass fn st =
    (let st1 = forEachClassRange 0 (length (ic_chunks st)) fn st in st1\<lparr>ic_cnt := ic_cnt st1 + 1\<rparr>)"
proof (cases "length (ic_chunks st) < 1024")
  case False
  then have large: "1024 \<le> length (ic_chunks st)" by simp
  have "fold (shard (boundaries st) fn) [1..<numShards + 1] st =
      fold (on_range fn) (class_ranges st (boundaries st ! 0) (boundaries st ! numShards)) st"
    by (rule shards_ranges [THEN conjunct1]) (simp_all only: boundaries_nth [OF large] order_refl)
  also have "\<dots> = forEachClassRange 0 (length (ic_chunks st)) fn st"
    using forEachClassRange_ranges [of 0 "length (ic_chunks st)" st] by (simp only: boundaries_nth(1,2) [OF large] le0 order_refl)
  finally show ?thesis using False by (simp add: forEachClass_def Let_def)
qed (simp add: forEachClass_def Let_def)

end

section \<open>The passes of the linker\<close>

lemma segregate_chunks:
  assumes "lo \<le> hi" "hi \<le> length (ic_chunks st)"
  shows "length (ic_chunks (segregate env c lo hi st)) = length (ic_chunks st)"
    and "same_classes hi (length (ic_chunks st)) st (segregate env c lo hi st)"
proof -
  let ?gs = "groups (icf_equal env c st) (sub (ic_chunks st) lo (hi - lo))"
  have len: "length (concat ?gs) = hi - lo" using assms by (simp add: mset_groups del: length_concat)
  then show "length (ic_chunks (segregate env c lo hi st)) = length (ic_chunks st)"
    using assms by (simp add: segregate_regroup Let_def del: length_concat)
  show "same_classes hi (length (ic_chunks st)) st (segregate env c lo hi st)"
    using assms len by (simp add: segregate_regroup Let_def same_classes_def class_at_def put_nth del: length_concat)
qed

interpretation split: class_action "segregate env c" for env c
  by unfold_locales (simp_all add: segregate_chunks)

lemma merge_class_frame:
  "ic_chunks (merge_class lo hi st) = ic_chunks st \<and> eqClass (merge_class lo hi st) = eqClass st \<and>
   ic_cnt (merge_class lo hi st) = ic_cnt st"
proof -
  have "ic_chunks (fold (\<lambda>i st. section_replace (ic_chunks st ! lo) (ic_chunks st ! i) st) is st) = ic_chunks st \<and>
    eqClass (fold (\<lambda>i st. section_replace (ic_chunks st ! lo) (ic_chunks st ! i) st) is st) = eqClass st \<and>
    ic_cnt (fold (\<lambda>i st. section_replace (ic_chunks st ! lo) (ic_chunks st ! i) st) is st) = ic_cnt st" for "is" st
    by (induction "is" arbitrary: st) (simp_all add: section_replace_def Let_def)
  then show ?thesis by (simp add: merge_class_def)
qed

interpretation merge: class_action merge_class
  by unfold_locales (simp_all add: merge_class_frame same_classes_def class_at_def)

definition icf_partition :: "icf_state \<Rightarrow> chunk_id list list" where
  "icf_partition st = runs (cur_class st) (ic_chunks st)"

definition icf_ok :: "icf_state \<Rightarrow> bool" where
  "icf_ok st \<longleftrightarrow> distinct (ic_chunks st) \<and> length (ic_chunks st) < 2 ^ 32"

lemma icf_partition_ok: "icf_ok st \<Longrightarrow> partition_ok (icf_partition st)"
  by (simp add: icf_ok_def icf_partition_def partition_ok_runs)

lemma concat_icf_partition [simp]: "concat (icf_partition st) = ic_chunks st"
  by (simp add: icf_partition_def)

text \<open>One pass, on the state and on the partition.\<close>

definition pass :: "icf_env \<Rightarrow> bool \<Rightarrow> icf_state \<Rightarrow> icf_state" where
  "pass env c st =
     (let E = icf_equal env c st; gs = icf_partition st
      in (regroup 0 (refine E gs) (splits E gs) st)\<lparr>ic_cnt := ic_cnt st + 1\<rparr>)"

lemma forEachClass_pass: "forEachClass (segregate env c) st = pass env c st"
  using forEachClassRange_segregate [of 0 "length (ic_chunks st)" st env c]
  by (simp add: split.forEachClass_sequential pass_def icf_partition_def Let_def sub_def)

lemma pass_simps [simp]:
  "ic_store (pass env c st) = ic_store st" "ic_cnt (pass env c st) = ic_cnt st + 1"
  "ic_p2Align (pass env c st) = ic_p2Align st"
  "ic_repeat (pass env c st) \<longleftrightarrow> ic_repeat st \<or> splits (icf_equal env c st) (icf_partition st)"
  by (simp_all add: pass_def Let_def)

lemma pass_chunks: "ic_chunks (pass env c st) = concat (refine (icf_equal env c st) (icf_partition st))"
  using length_concat_refine [of "icf_equal env c st" "icf_partition st"]
  by (simp add: pass_def Let_def put_def del: length_concat length_concat_refine)

lemma pass_class:
  "cur_class (pass env c st) =
    number 0 (refine (icf_equal env c st) (icf_partition st)) (eqClass st ((ic_cnt st + 1) mod 2))"
  by (simp add: pass_def Let_def regroup_def)

lemma set_pass_chunks [simp]: "set (ic_chunks (pass env c st)) = set (ic_chunks st)"
  using set_concat_refine [of "icf_equal env c st" "icf_partition st"] by (simp add: pass_chunks del: set_concat)

lemma pass_ok: "icf_ok st \<Longrightarrow> icf_ok (pass env c st)"
  using partition_ok_refine [OF icf_partition_ok, of st "icf_equal env c st"]
    length_concat_refine [of "icf_equal env c st" "icf_partition st"]
  by (simp add: icf_ok_def pass_chunks partition_ok_def del: length_concat length_concat_refine)

lemma pass_numbers:
  assumes "icf_ok st"
  shows "partition_ok (refine (icf_equal env c st) (icf_partition st))"
    and "0 + length (concat (refine (icf_equal env c st) (icf_partition st))) < 2 ^ 32"
  using partition_ok_refine [OF icf_partition_ok [OF assms]] assms length_concat_refine [of "icf_equal env c st" "icf_partition st"]
  by (simp_all add: icf_ok_def del: length_concat length_concat_refine)

lemma icf_partition_pass:
  "icf_ok st \<Longrightarrow> icf_partition (pass env c st) = refine (icf_equal env c st) (icf_partition st)"
  unfolding icf_partition_def [of "pass env c st"] pass_chunks pass_class
  by (rule runs_number) (simp_all only: pass_numbers)

text \<open>After a pass two sections have the same class number exactly when they are in one group.\<close>

definition numbered :: "icf_state \<Rightarrow> bool" where
  "numbered st \<longleftrightarrow> (\<forall>a\<in>set (ic_chunks st). \<forall>b\<in>set (ic_chunks st).
     cur_class st a = cur_class st b \<longleftrightarrow> together (icf_partition st) a b)"

lemma pass_numbered: "icf_ok st \<Longrightarrow> numbered (pass env c st)"
  unfolding numbered_def pass_class icf_partition_pass unfolding pass_chunks
  by (intro ballI number_together pass_numbers)

section \<open>The comparisons are equivalences\<close>

definition same_target :: "icf_state \<Rightarrow> u32 \<times> chunk_id option \<Rightarrow> u32 \<times> chunk_id option \<Rightarrow> bool" where
  "same_target st t u \<longleftrightarrow> map_option (cur_class st) (snd t) = map_option (cur_class st) (snd u)"

lemma eqSym_iff:
  "eqSym st b1 b2 \<longleftrightarrow> b1 = b2 \<or> (\<exists>t u. regular_target (ic_store st) b1 = Some t \<and>
     regular_target (ic_store st) b2 = Some u \<and> same_target st t u)"
  by (auto simp: eqSym_def same_target_def split: option.splits)

lemma eq_constant_iff:
  "eq_constant env st a b r1 r2 \<longleftrightarrow> rel_Type r1 = rel_Type r2 \<and> VirtualAddress r1 = VirtualAddress r2 \<and>
     (rel_symbol env a r1 = rel_symbol env b r2 \<or> (\<exists>t u. regular_target (ic_store st) (rel_symbol env a r1) = Some t \<and>
       regular_target (ic_store st) (rel_symbol env b r2) = Some u \<and> fst t = fst u \<and> same_target st t u))"
  by (auto simp: eq_constant_def same_target_def split: option.splits)

lemma eqSym_equiv: "eqSym st x x" "eqSym st x y \<Longrightarrow> eqSym st y x" "eqSym st x y \<Longrightarrow> eqSym st y z \<Longrightarrow> eqSym st x z"
  unfolding eqSym_iff same_target_def by fastforce+

lemma eq_constant_equiv:
  "eq_constant env st a a r r" "eq_constant env st a b r1 r2 \<Longrightarrow> eq_constant env st b a r2 r1"
  "eq_constant env st a b r1 r2 \<Longrightarrow> eq_constant env st b c r2 r3 \<Longrightarrow> eq_constant env st a c r1 r3"
  unfolding eq_constant_iff same_target_def by (blast, fastforce, fastforce)

lemma list_all2_trans3:
  assumes "list_all2 P xs ys" "list_all2 Q ys zs" "\<And>x y z. P x y \<Longrightarrow> Q y z \<Longrightarrow> R x z"
  shows "list_all2 R xs zs"
  using assms by (auto simp: list_all2_conv_all_nth)

lemma list_all2_flip: "list_all2 P xs ys \<Longrightarrow> (\<And>x y. P x y \<Longrightarrow> Q y x) \<Longrightarrow> list_all2 Q ys xs"
  by (auto simp: list_all2_conv_all_nth)

lemma assocEquals_equiv:
  "assocEquals st a a" "assocEquals st a b \<Longrightarrow> assocEquals st b a"
  "assocEquals st a b \<Longrightarrow> assocEquals st b c \<Longrightarrow> assocEquals st a c"
  unfolding assocEquals_def
  by (simp add: list.rel_refl, erule list_all2_flip, simp, erule (1) list_all2_trans3, simp)

lemma eq_constant_list:
  "list_all2 (eq_constant env st a a) xs xs"
  "list_all2 (eq_constant env st a b) xs ys \<Longrightarrow> list_all2 (eq_constant env st b a) ys xs"
  "list_all2 (eq_constant env st a b) xs ys \<Longrightarrow> list_all2 (eq_constant env st b c) ys zs \<Longrightarrow> list_all2 (eq_constant env st a c) xs zs"
  by (simp add: list.rel_refl eq_constant_equiv(1), erule list_all2_flip, erule eq_constant_equiv(2),
      erule (1) list_all2_trans3, erule (1) eq_constant_equiv(3))

lemma eqSym_list:
  "list_all2 (\<lambda>r1 r2. eqSym st (f r1) (f r2)) xs xs"
  "list_all2 (\<lambda>r1 r2. eqSym st (f r1) (g r2)) xs ys \<Longrightarrow> list_all2 (\<lambda>r1 r2. eqSym st (g r1) (f r2)) ys xs"
  "list_all2 (\<lambda>r1 r2. eqSym st (f r1) (g r2)) xs ys \<Longrightarrow> list_all2 (\<lambda>r1 r2. eqSym st (g r1) (h r2)) ys zs \<Longrightarrow>
   list_all2 (\<lambda>r1 r2. eqSym st (f r1) (h r2)) xs zs"
  by (simp add: list.rel_refl eqSym_equiv(1), erule list_all2_flip, erule eqSym_equiv(2),
      erule (1) list_all2_trans3, erule (1) eqSym_equiv(3))

lemma equalsConstant_iff:
  "equalsConstant env st a b \<longleftrightarrow>
    list_all2 (eq_constant env st a b) (is_relocs (ie_section env a)) (is_relocs (ie_section env b)) \<and>
    is_OutputCharacteristics (ie_section env a) = is_OutputCharacteristics (ie_section env b) \<and>
    ck_name (chunks (ic_store st) ! a) = ck_name (chunks (ic_store st) ! b) \<and>
    is_SizeOfRawData (ie_section env a) = is_SizeOfRawData (ie_section env b) \<and>
    is_checksum (ie_section env a) = is_checksum (ie_section env b) \<and>
    is_contents (ie_section env a) = is_contents (ie_section env b) \<and>
    is_Machine (ie_section env a) = is_Machine (ie_section env b) \<and> assocEquals st a b"
  by (auto simp: equalsConstant_def Let_def dest: list_all2_lengthD)

lemma equalsConstant_equiv:
  "equalsConstant env st a a" "equalsConstant env st a b \<Longrightarrow> equalsConstant env st b a"
  "equalsConstant env st a b \<Longrightarrow> equalsConstant env st b c \<Longrightarrow> equalsConstant env st a c"
proof -
  show "equalsConstant env st a a" by (simp add: equalsConstant_iff eq_constant_list(1) assocEquals_equiv(1))
  show "equalsConstant env st a b \<Longrightarrow> equalsConstant env st b a"
    unfolding equalsConstant_iff
    by (elim conjE, intro conjI) (erule eq_constant_list(2) assocEquals_equiv(2) | erule HOL.sym)+
  show "equalsConstant env st a b \<Longrightarrow> equalsConstant env st b c \<Longrightarrow> equalsConstant env st a c"
    unfolding equalsConstant_iff
    by (elim conjE, intro conjI) (erule (1) eq_constant_list(3) assocEquals_equiv(3) | erule (1) HOL.trans)+
qed

lemma equalsVariable_iff:
  "equalsVariable env st a b \<longleftrightarrow>
    eqSym st (getEntryThunk (ic_store st) a) (getEntryThunk (ic_store st) b) \<and>
    list_all2 (\<lambda>r1 r2. eqSym st (rel_symbol env a r1) (rel_symbol env b r2))
      (is_relocs (ie_section env a)) (is_relocs (ie_section env b)) \<and> assocEquals st a b"
  by (cases "getEntryThunk (ic_store st) a"; cases "getEntryThunk (ic_store st) b")
    (auto simp: equalsVariable_def Let_def eqSym_def regular_target_def split: option.splits)

lemma equalsVariable_equiv:
  "equalsVariable env st a a" "equalsVariable env st a b \<Longrightarrow> equalsVariable env st b a"
  "equalsVariable env st a b \<Longrightarrow> equalsVariable env st b c \<Longrightarrow> equalsVariable env st a c"
proof -
  show "equalsVariable env st a a" by (simp add: equalsVariable_iff eqSym_list(1) eqSym_equiv(1) assocEquals_equiv(1))
  show "equalsVariable env st a b \<Longrightarrow> equalsVariable env st b a"
    unfolding equalsVariable_iff
    by (elim conjE, intro conjI) (erule eqSym_list(2) assocEquals_equiv(2) eqSym_equiv(2))+
  show "equalsVariable env st a b \<Longrightarrow> equalsVariable env st b c \<Longrightarrow> equalsVariable env st a c"
    unfolding equalsVariable_iff
    by (elim conjE, intro conjI) (erule (1) eqSym_list(3) assocEquals_equiv(3) eqSym_equiv(3))+
qed

interpretation equal: equivalence "icf_equal env c st" for env c st
  by unfold_locales (simp_all add: icf_equal_def equalsConstant_equiv(1) equalsVariable_equiv(1) split: if_splits,
      (blast intro: equalsConstant_equiv equalsVariable_equiv)+)

section \<open>Termination\<close>

lemma icf_partition_repeat [simp]:
  "icf_partition (st\<lparr>ic_repeat := r\<rparr>) = icf_partition st" "icf_ok (st\<lparr>ic_repeat := r\<rparr>) = icf_ok st"
  "icf_equal env c (st\<lparr>ic_repeat := r\<rparr>) = icf_equal env c st"
  by (simp_all add: icf_partition_def icf_ok_def) (rule icf_equal_cong; simp)

abbreviation variable_pass :: "icf_env \<Rightarrow> icf_state \<Rightarrow> icf_state" where
  "variable_pass env st \<equiv> pass env False (st\<lparr>ic_repeat := False\<rparr>)"

lemma icf_loop_unfold:
  "icf_loop env st = (if ic_repeat (variable_pass env st) then icf_loop env (variable_pass env st) else Some (variable_pass env st))"
  by (subst icf_loop.simps) (simp add: forEachClass_pass Let_def)

lemma variable_pass_progress:
  assumes "icf_ok st" "ic_repeat (variable_pass env st)"
  shows "length (icf_partition st) < length (icf_partition (variable_pass env st))"
proof -
  have ne: "[] \<notin> set (icf_partition st)" by (simp add: icf_partition_def)
  have "\<not> (\<forall>g\<in>set (icf_partition st). length (groups (icf_equal env False st) g) = 1)"
    using assms(2) by (simp; metis less_irrefl)
  then show ?thesis
    using refine_unchanged [OF ne, of "icf_equal env False st"] length_refine [OF ne, of "icf_equal env False st"] assms(1)
    by (auto simp: icf_partition_pass le_less)
qed

lemma length_icf_partition: "length (icf_partition st) \<le> length (ic_chunks st)"
  using length_partition [of "icf_partition st"] by (simp add: icf_partition_def)

lemma length_pass_chunks [simp]: "length (ic_chunks (pass env c st)) = length (ic_chunks st)"
  using length_concat_refine [of "icf_equal env c st" "icf_partition st"]
  by (simp add: pass_chunks del: length_concat length_concat_refine)

text \<open>The loop as an induction: what every pass keeps holds of the state before the last pass,
  which is the first that splits nothing.\<close>

lemma icf_loop_ends:
  assumes "icf_ok st" "I st" and step: "\<And>st. icf_ok st \<Longrightarrow> I st \<Longrightarrow> I (variable_pass env st)"
  shows "\<exists>st'. icf_loop env st = Some (variable_pass env st') \<and> icf_ok st' \<and> I st' \<and>
    \<not> splits (icf_equal env False st') (icf_partition st')"
  using assms(1,2)
proof (induction "length (ic_chunks st) - length (icf_partition st)" arbitrary: st rule: less_induct)
  case less
  show ?case
  proof (cases "ic_repeat (variable_pass env st)")
    case True
    let ?st = "variable_pass env st"
    have "length (icf_partition st) < length (icf_partition ?st)" using less.prems(1) True by (rule variable_pass_progress)
    moreover have "length (icf_partition ?st) \<le> length (ic_chunks st)" using length_icf_partition [of ?st] by simp
    ultimately have "length (ic_chunks ?st) - length (icf_partition ?st) < length (ic_chunks st) - length (icf_partition st)"
      by simp
    then have "\<exists>st'. icf_loop env ?st = Some (variable_pass env st') \<and> icf_ok st' \<and> I st' \<and>
        \<not> splits (icf_equal env False st') (icf_partition st')"
      using less.hyps less.prems step by (simp add: pass_ok)
    then show ?thesis using icf_loop_unfold [of env st] True by simp
  next
    case False
    then show ?thesis using less.prems icf_loop_unfold [of env st] by auto
  qed
qed

end
