(* ===== verification/Folding.thy ===== *)
theory Folding
  imports ICF
begin

text \<open>
  What identical code folding computes. Preparation gives every section that is not mergeable a
  number of its own; merging redirects each group to its leader; the sections that are folded
  together are interchangeable, and every pair of interchangeable sections is folded: the result
  is the largest bisimulation on the mergeable sections.
\<close>

unbundle bit_operations_syntax

section \<open>Preparation\<close>

primrec assign_ids :: "chunk_id list \<Rightarrow> nat \<Rightarrow> (chunk_id \<Rightarrow> u32) \<Rightarrow> (chunk_id \<Rightarrow> u32)" where
  "assign_ids [] = (\<lambda>n f. f)"
| "assign_ids (c # cs) = (\<lambda>n f. assign_ids cs (n + 1) (f(c := of_nat n)))"

lemma assign_ids_append: "assign_ids (xs @ ys) n f = assign_ids ys (n + length xs) (assign_ids xs n f)"
  by (induction xs arbitrary: n f) simp_all

lemma assign_ids_outside: "c \<notin> set cs \<Longrightarrow> assign_ids cs n f c = f c"
  by (induction cs arbitrary: n f) simp_all

lemma assign_ids_nth: "distinct cs \<Longrightarrow> i < length cs \<Longrightarrow> assign_ids cs n f (cs ! i) = of_nat (n + i)"
proof (induction cs arbitrary: n f i)
  case (Cons c cs)
  then show ?case
    using Cons.IH [of "i - 1" "n + 1" "f(c := of_nat n)"] by (cases i) (simp_all add: assign_ids_outside)
qed simp

definition mergeable :: "icf_env \<Rightarrow> store \<Rightarrow> chunk_id \<Rightarrow> bool" where
  "mergeable env s c \<longleftrightarrow> is_section_kind (ck_kind (chunks s ! c)) \<and> isEligible env s c"

definition numbered_apart :: "icf_env \<Rightarrow> store \<Rightarrow> chunk_id \<Rightarrow> bool" where
  "numbered_apart env s c \<longleftrightarrow> is_section_kind (ck_kind (chunks s ! c)) \<and> \<not> isEligible env s c"

definition with_ids :: "chunk_id list \<Rightarrow> nat \<Rightarrow> icf_state \<Rightarrow> icf_state" where
  "with_ids cs n st = st\<lparr>eqClass := (eqClass st)(0 := assign_ids cs n (eqClass st 0))\<rparr>"

lemma with_ids_simps [simp]:
  "with_ids [] n st = st" "ic_store (with_ids cs n st) = ic_store st" "ic_chunks (with_ids cs n st) = ic_chunks st"
  "with_ids cs (Suc n) (with_ids [c] n st) = with_ids (c # cs) n st"
  "(with_ids cs n st)\<lparr>ic_chunks := xs\<rparr> = with_ids cs n (st\<lparr>ic_chunks := xs\<rparr>)"
  "with_ids ys (n + length xs) (with_ids xs n st) = with_ids (xs @ ys) n st"
  by (simp_all add: with_ids_def assign_ids_append)

lemma set_one_class: "set_classes 0 [c] (of_nat n) st = with_ids [c] n st"
  by (simp add: set_classes_def with_ids_def fun_upd_def)

lemma collect_chunk_step:
  "collect_chunk env c (of_nat n, st) =
    (if mergeable env (ic_store st) c then (of_nat n, st\<lparr>ic_chunks := ic_chunks st @ [c]\<rparr>)
     else if numbered_apart env (ic_store st) c then (of_nat (Suc n), with_ids [c] n st) else (of_nat n, st))"
  by (simp add: collect_chunk_def mergeable_def numbered_apart_def set_one_class add.commute)

lemma collect_chunks:
  "fold (collect_chunk env) cs (of_nat n, st) =
    (of_nat (n + length (filter (numbered_apart env (ic_store st)) cs)),
     with_ids (filter (numbered_apart env (ic_store st)) cs) n
       (st\<lparr>ic_chunks := ic_chunks st @ filter (mergeable env (ic_store st)) cs\<rparr>))"
proof (induction cs arbitrary: n st)
  case (Cons c cs)
  let ?s = "ic_store st"
  have excl: "mergeable env ?s c \<Longrightarrow> \<not> numbered_apart env ?s c" by (simp add: mergeable_def numbered_apart_def)
  show ?case
  proof (cases "mergeable env ?s c \<or> \<not> numbered_apart env ?s c")
    case True
    then show ?thesis
      using excl Cons [of n st] Cons [of n "st\<lparr>ic_chunks := ic_chunks st @ [c]\<rparr>"]
      by (cases "mergeable env ?s c") (simp_all add: collect_chunk_step)
  next
    case False
    have "fold (collect_chunk env) (c # cs) (of_nat n, st) = fold (collect_chunk env) cs (of_nat (Suc n), with_ids [c] n st)"
      using False by (simp add: collect_chunk_step del: of_nat_Suc)
    then show ?thesis using False Cons [of "Suc n" "with_ids [c] n st"] by simp
  qed
qed simp

lemma number_all_merged:
  "fold number_merged cs (of_nat n, st) = (of_nat (n + length cs), with_ids cs n st)"
proof (induction cs arbitrary: n st)
  case (Cons c cs)
  have "number_merged c (of_nat n, st) = (of_nat (Suc n), with_ids [c] n st)"
    by (simp add: number_merged_def set_one_class add.commute)
  then show ?case using Cons [of "Suc n" "with_ids [c] n st"] by (simp del: of_nat_Suc)
qed simp

definition own_number :: "icf_env \<Rightarrow> store \<Rightarrow> chunk_id list" where
  "own_number env s = filter (numbered_apart env s) (ie_getChunks env) @ ie_mergeSections env"

definition collected :: "icf_env \<Rightarrow> store \<Rightarrow> (chunk_id \<Rightarrow> nat) \<Rightarrow> icf_state" where
  "collected env s al =
     \<lparr>ic_store = s, ic_p2Align = al, ic_chunks = filter (mergeable env s) (ie_getChunks env), ic_cnt = 0, ic_repeat = False,
      eqClass = (\<lambda>_ _. 0)(0 := assign_ids (own_number env s) 1 (\<lambda>_. 0))\<rparr>"

lemma icf_prepare_eq:
  "icf_prepare env s al = sort_chunks (combine_hashes 1 (combine_hashes 0 (hash_contents env (collected env s al))))"
proof -
  let ?apart = "filter (numbered_apart env s) (ie_getChunks env)"
  let ?st = "(icf_init s al)\<lparr>ic_chunks := filter (mergeable env s) (ie_getChunks env)\<rparr>"
  have "fold (collect_chunk env) (ie_getChunks env) (1, icf_init s al) = (of_nat (1 + length ?apart), with_ids ?apart 1 ?st)"
    using collect_chunks [of env "ie_getChunks env" 1 "icf_init s al"] by (simp add: icf_init_def)
  moreover have "fold number_merged (ie_mergeSections env) (of_nat (1 + length ?apart), with_ids ?apart 1 ?st) =
      (of_nat (1 + length ?apart + length (ie_mergeSections env)), with_ids (own_number env s) 1 ?st)"
    by (subst number_all_merged) (simp only: with_ids_simps own_number_def)
  moreover have "with_ids (own_number env s) 1 ?st = collected env s al"
    by (simp add: with_ids_def collected_def icf_init_def)
  ultimately show ?thesis by (simp only: icf_prepare_def Let_def case_prod_conv)
qed

text \<open>The state after preparation, field by field.\<close>

lemma prepared:
  "ic_store (icf_prepare env s al) = s" "ic_cnt (icf_prepare env s al) = 0" "ic_p2Align (icf_prepare env s al) = al"
  "set (ic_chunks (icf_prepare env s al)) = {c \<in> set (ie_getChunks env). mergeable env s c}"
  "length (ic_chunks (icf_prepare env s al)) \<le> length (ie_getChunks env)"
  "distinct (ie_getChunks env) \<Longrightarrow> distinct (ic_chunks (icf_prepare env s al))"
  "sorted (map (\<lambda>c. unat (eqClass (icf_prepare env s al) 0 c)) (ic_chunks (icf_prepare env s al)))"
  by (simp_all add: icf_prepare_eq sort_chunks_def combine_hashes_def hash_contents_def collected_def)

definition content_hash :: "icf_env \<Rightarrow> store \<Rightarrow> chunk_id \<Rightarrow> u32" where
  "content_hash env s c =
     (if c \<in> set (ie_getChunks env) \<and> mergeable env s c then ucast (ie_hash env (is_contents (ie_section env c)))
      else assign_ids (own_number env s) 1 (\<lambda>_. 0) c)"

lemma hashed: "hash_contents env (collected env s al) = (collected env s al)\<lparr>eqClass := (\<lambda>_ _. 0)(0 := content_hash env s)\<rparr>"
  by (simp add: hash_contents_def collected_def content_hash_def fun_eq_iff)

text \<open>The sum of a section's hash and those of the sections it refers to.\<close>

definition target_sum :: "store \<Rightarrow> (chunk_id \<Rightarrow> u32) \<Rightarrow> chunk_id \<Rightarrow> u32" where
  "target_sum s h c =
     fold (\<lambda>b hash. case regular_target s b of Some (_, Some t) \<Rightarrow> hash + h t | _ \<Rightarrow> hash)
       (ck_symbols (chunks s ! c)) (h c) OR 0x80000000"

definition mixed_hash :: "icf_env \<Rightarrow> store \<Rightarrow> (chunk_id \<Rightarrow> u32) \<Rightarrow> (chunk_id \<Rightarrow> u32) \<Rightarrow> chunk_id \<Rightarrow> u32" where
  "mixed_hash env s h old c =
     (if c \<in> set (ie_getChunks env) \<and> mergeable env s c then target_sum s h c else old c)"

definition start_class :: "icf_env \<Rightarrow> store \<Rightarrow> chunk_id \<Rightarrow> u32" where
  "start_class env s = mixed_hash env s (mixed_hash env s (content_hash env s) (\<lambda>_. 0)) (content_hash env s)"

lemma combine_step:
  "combine_hashes k ((collected env s al)\<lparr>eqClass := e\<rparr>) =
    (collected env s al)\<lparr>eqClass := e((k + 1) mod 2 := mixed_hash env s (e (k mod 2)) (e ((k + 1) mod 2)))\<rparr>"
proof -
  have "combined_hash st k = target_sum (ic_store st) (eqClass st (k mod 2))" for st
    by (rule ext) (simp only: combined_hash_def target_sum_def)
  then show ?thesis by (simp add: combine_hashes_def collected_def mixed_hash_def [abs_def] cong: if_cong)
qed

lemma prepared_class: "eqClass (icf_prepare env s al) 0 = start_class env s"
  unfolding icf_prepare_eq hashed combine_step by (simp add: sort_chunks_def start_class_def)

lemma prepared_class_odd: "eqClass (icf_prepare env s al) 1 = mixed_hash env s (content_hash env s) (\<lambda>_. 0)"
  unfolding icf_prepare_eq hashed combine_step by (simp add: sort_chunks_def)

lemma high_bit_set: "2 ^ 31 \<le> unat (w OR 0x80000000 :: u32)"
proof -
  have "bit (w OR 0x80000000 :: u32) 31" by (simp add: bit_simps)
  then have "bit (unat (w OR 0x80000000 :: u32)) 31" by (simp add: bit_unsigned_iff)
  then have "odd (unat (w OR 0x80000000 :: u32) div 2 ^ 31)" using bit_iff_odd by blast
  then show ?thesis by (metis div_less even_zero linorder_not_less)
qed

section \<open>What the input has to satisfy\<close>

definition icf_sections :: "icf_env \<Rightarrow> store \<Rightarrow> chunk_id list" where
  "icf_sections env s = filter (\<lambda>c. is_section_kind (ck_kind (chunks s ! c))) (ie_getChunks env) @ ie_mergeSections env"

definition target_known :: "icf_env \<Rightarrow> store \<Rightarrow> sym_id option \<Rightarrow> bool" where
  "target_known env s b =
     (case regular_target s b of
        None \<Rightarrow> True
      | Some (v, t) \<Rightarrow> (case t of Some c \<Rightarrow> c \<in> set (icf_sections env s) | None \<Rightarrow> False))"

text \<open>The sections are numbered objects of the store, none is listed twice or is already replaced,
  there are fewer than \<open>2 ^ 31\<close> of them, and the sections that mergeable sections refer to are
  listed too.\<close>

definition icf_wf :: "icf_env \<Rightarrow> store \<Rightarrow> bool" where
  "icf_wf env s \<longleftrightarrow>
     distinct (ie_getChunks env @ ie_mergeSections env) \<and>
     length (ie_getChunks env @ ie_mergeSections env) + 1 < 2 ^ 31 \<and>
     list_all (\<lambda>c. c < length (chunks s)) (ie_getChunks env) \<and>
     list_all (\<lambda>c. ck_repl (chunks s ! c) = c) [0..<length (chunks s)] \<and>
     list_all (\<lambda>c. mergeable env s c \<longrightarrow>
        list_all (\<lambda>r. target_known env s (rel_symbol env c r)) (is_relocs (ie_section env c)) \<and>
        list_all (\<lambda>x. x \<in> set (icf_sections env s)) (icf_children s c)) (ie_getChunks env)"

lemma start_class_mergeable:
  "c \<in> set (ie_getChunks env) \<Longrightarrow> mergeable env s c \<Longrightarrow> 2 ^ 31 \<le> unat (start_class env s c)"
  using high_bit_set by (simp add: start_class_def mixed_hash_def [of _ _ _ "content_hash env s"] target_sum_def)

lemma start_class_own:
  assumes "icf_wf env s" "i < length (own_number env s)"
  shows "unat (start_class env s (own_number env s ! i)) = i + 1"
proof -
  let ?c = "own_number env s ! i"
  have d: "distinct (own_number env s)" using assms(1) by (auto simp: icf_wf_def own_number_def)
  have "?c \<in> set (own_number env s)" using assms(2) by simp
  then have "\<not> (?c \<in> set (ie_getChunks env) \<and> mergeable env s ?c)"
    using assms(1) by (auto simp: own_number_def icf_wf_def mergeable_def numbered_apart_def)
  then have "start_class env s ?c = of_nat (1 + i)"
    using assign_ids_nth [OF d assms(2)] by (auto simp: start_class_def mixed_hash_def content_hash_def)
  moreover have "length (own_number env s) \<le> length (ie_getChunks env @ ie_mergeSections env)"
    by (simp add: own_number_def)
  then have "1 + i < 2 ^ 32" using assms by (simp add: icf_wf_def)
  ultimately show ?thesis by (metis unat_u32 add.commute)
qed

text \<open>The numbers of the sections that are not mergeable identify them.\<close>

lemma own_number_bound:
  assumes "icf_wf env s" "z \<in> set (own_number env s)"
  shows "unat (start_class env s z) < 2 ^ 31"
proof -
  obtain i where i: "i < length (own_number env s)" "z = own_number env s ! i" using assms(2) by (metis in_set_conv_nth)
  have "length (own_number env s) \<le> length (ie_getChunks env @ ie_mergeSections env)" by (simp add: own_number_def)
  moreover have "length (ie_getChunks env @ ie_mergeSections env) + 1 < 2 ^ 31" using assms(1) unfolding icf_wf_def by blast
  moreover have "unat (start_class env s z) = i + 1" unfolding i(2) by (rule start_class_own [OF assms(1) i(1)])
  ultimately show ?thesis using i(1) by linarith
qed

lemma icf_sections_cases:
  "z \<in> set (icf_sections env s) \<Longrightarrow> z \<in> set (ie_getChunks env) \<and> mergeable env s z \<or> z \<in> set (own_number env s)"
  by (auto simp: icf_sections_def own_number_def mergeable_def numbered_apart_def)

lemma own_number_eq:
  assumes "icf_wf env s" "x \<in> set (own_number env s)" "y \<in> set (own_number env s)" "start_class env s x = start_class env s y"
  shows "x = y"
proof -
  obtain i where i: "i < length (own_number env s)" "x = own_number env s ! i" using assms(2) by (metis in_set_conv_nth)
  obtain j where j: "j < length (own_number env s)" "y = own_number env s ! j" using assms(3) by (metis in_set_conv_nth)
  have "unat (start_class env s x) = i + 1" unfolding i(2) by (rule start_class_own [OF assms(1) i(1)])
  moreover have "unat (start_class env s y) = j + 1" unfolding j(2) by (rule start_class_own [OF assms(1) j(1)])
  ultimately have "i = j" unfolding assms(4) by linarith
  then show ?thesis using i(2) j(2) by simp
qed

lemma own_number_apart:
  assumes "icf_wf env s" "w \<in> set (own_number env s)" "start_class env s w = start_class env s z"
  shows "\<not> (z \<in> set (ie_getChunks env) \<and> mergeable env s z)"
proof
  assume "z \<in> set (ie_getChunks env) \<and> mergeable env s z"
  then have "2 ^ 31 \<le> unat (start_class env s z)" using start_class_mergeable by blast
  then show False using own_number_bound [OF assms(1,2)] unfolding assms(3) by linarith
qed

lemma start_class_eq:
  assumes "icf_wf env s" "x \<in> set (icf_sections env s)" "y \<in> set (icf_sections env s)"
    and "start_class env s x = start_class env s y"
  shows "x = y \<or> (x \<in> set (ie_getChunks env) \<and> mergeable env s x) \<and> (y \<in> set (ie_getChunks env) \<and> mergeable env s y)"
  using icf_sections_cases [OF assms(2)] icf_sections_cases [OF assms(3)] own_number_eq [OF assms(1) _ _ assms(4)]
    own_number_apart [OF assms(1) _ assms(4)] own_number_apart [OF assms(1) _ HOL.sym [OF assms(4)]]
  by blast

section \<open>Merging\<close>

definition merge_group :: "chunk_id list \<Rightarrow> icf_state \<Rightarrow> icf_state" where
  "merge_group g st = fold (section_replace (hd g)) (tl g) st"

definition folded_into :: "icf_state \<Rightarrow> chunk_id \<Rightarrow> chunk_id" where
  "folded_into st c = ck_repl (chunks (ic_store st) ! c)"

lemma section_replace_frame [simp]:
  "ic_chunks (section_replace a b st) = ic_chunks st" "eqClass (section_replace a b st) = eqClass st"
  "ic_cnt (section_replace a b st) = ic_cnt st"
  "length (chunks (ic_store (section_replace a b st))) = length (chunks (ic_store st))"
  by (simp_all add: section_replace_def Let_def)

lemma merge_group_frame [simp]:
  "ic_chunks (merge_group g st) = ic_chunks st" "eqClass (merge_group g st) = eqClass st" "ic_cnt (merge_group g st) = ic_cnt st"
  "length (chunks (ic_store (merge_group g st))) = length (chunks (ic_store st))"
proof -
  have "ic_chunks (fold (section_replace h) xs st) = ic_chunks st \<and> eqClass (fold (section_replace h) xs st) = eqClass st \<and>
     ic_cnt (fold (section_replace h) xs st) = ic_cnt st \<and>
     length (chunks (ic_store (fold (section_replace h) xs st))) = length (chunks (ic_store st))" for h xs
    by (induction xs arbitrary: st) simp_all
  then show "ic_chunks (merge_group g st) = ic_chunks st" "eqClass (merge_group g st) = eqClass st" "ic_cnt (merge_group g st) = ic_cnt st"
    "length (chunks (ic_store (merge_group g st))) = length (chunks (ic_store st))"
    by (simp_all add: merge_group_def)
qed

lemma sub_upt: "hi \<le> length cs \<Longrightarrow> sub cs lo (hi - lo) = map ((!) cs) [lo..<hi]"
  by (rule nth_equalityI) (auto simp: sub_def)

lemma merge_class_group:
  assumes "lo < hi" "hi \<le> length (ic_chunks st)"
  shows "merge_class lo hi st = merge_group (sub (ic_chunks st) lo (hi - lo)) st"
proof -
  have eq: "fold (\<lambda>i st. section_replace (ic_chunks st ! lo) (ic_chunks st ! i) st) is st =
      fold (section_replace (ic_chunks st ! lo)) (map ((!) (ic_chunks st)) is) st" for "is" st
    by (induction "is" arbitrary: st) simp_all
  have tl: "tl (sub (ic_chunks st) lo (hi - lo)) = map ((!) (ic_chunks st)) [lo + 1..<hi]"
    and hd: "hd (sub (ic_chunks st) lo (hi - lo)) = ic_chunks st ! lo"
    using assms by (simp_all add: sub_upt upt_conv_Cons)
  show ?thesis
  proof (cases "hi - lo = 1")
    case True
    then have "[lo + 1..<hi] = []" by simp
    then have "tl (sub (ic_chunks st) lo (hi - lo)) = []" using tl by simp
    then show ?thesis using True by (simp add: merge_class_def merge_group_def)
  next
    case False
    then show ?thesis by (simp only: merge_class_def if_False eq merge_group_def tl hd)
  qed
qed

lemma forEachClassRange_merge:
  assumes "lo \<le> hi" "hi \<le> length (ic_chunks st)"
  shows "forEachClassRange lo hi merge_class st = fold merge_group (runs (cur_class st) (sub (ic_chunks st) lo (hi - lo))) st"
  using assms
proof (induction "hi - lo" arbitrary: lo st rule: less_induct)
  case less
  show ?case
  proof (cases "lo < hi")
    case True
    define mid where "mid = findBoundary st lo hi"
    define g where "g = sub (ic_chunks st) lo (mid - lo)"
    have mid: "lo < mid" "mid \<le> hi" using findBoundary_bounds [OF True] by (simp_all add: mid_def)
    have "forEachClassRange lo hi merge_class st = forEachClassRange mid hi merge_class (merge_group g st)"
      using True mid less.prems(2)
      by (subst forEachClassRange.simps) (simp add: merge_class_group Let_def g_def flip: mid_def)
    moreover have "hi - mid < hi - lo" using mid True by linarith
    ultimately have "forEachClassRange lo hi merge_class st =
        fold merge_group (runs (cur_class st) (sub (ic_chunks st) mid (hi - mid))) (merge_group g st)"
      using less.hyps [of mid "merge_group g st"] mid less.prems(2) by simp
    then show ?thesis using findBoundary_run [OF True less.prems(2)] by (simp add: g_def mid_def)
  next
    case False
    then show ?thesis using less.prems by (subst forEachClassRange.simps) (simp add: sub_def)
  qed
qed

lemma forEachClass_merge:
  "forEachClass merge_class st =
    (let st1 = fold merge_group (icf_partition st) st in st1\<lparr>ic_cnt := ic_cnt st1 + 1\<rparr>)"
  using forEachClassRange_merge [of 0 "length (ic_chunks st)" st]
  by (simp add: merge.forEachClass_sequential icf_partition_def sub_def)

lemma folded_into_replace:
  "other < length (chunks (ic_store st)) \<Longrightarrow>
   folded_into (section_replace this other st) c = (if c = other then folded_into st this else folded_into st c)"
  by (auto simp: folded_into_def section_replace_def Let_def)

lemma folded_into_group:
  assumes "g \<noteq> []" "distinct g" "\<And>c. c \<in> set g \<Longrightarrow> c < length (chunks (ic_store st))"
  shows "folded_into (merge_group g st) c = (if c \<in> set g then folded_into st (hd g) else folded_into st c)"
proof -
  have "folded_into (fold (section_replace h) xs st) c = (if c \<in> set xs then folded_into st h else folded_into st c)"
    if "h \<notin> set xs" "\<And>c. c \<in> set xs \<Longrightarrow> c < length (chunks (ic_store st))" for h xs st
    using that
  proof (induction xs arbitrary: st)
    case (Cons x xs)
    then show ?case by (simp add: folded_into_replace)
  qed simp
  then show ?thesis using assms by (cases g) (auto simp: merge_group_def)
qed

lemma folded_into_groups:
  assumes "partition_ok gs" "\<And>c. c \<in> set (concat gs) \<Longrightarrow> c < length (chunks (ic_store st))"
  shows "(\<forall>c. c \<notin> set (concat gs) \<longrightarrow> folded_into (fold merge_group gs st) c = folded_into st c) \<and>
    (\<forall>g\<in>set gs. \<forall>c\<in>set g. folded_into (fold merge_group gs st) c = folded_into st (hd g))"
  using assms
proof (induction gs arbitrary: st)
  case (Cons h gs)
  let ?st = "merge_group h st"
  have h: "h \<noteq> []" "distinct h" "\<And>c. c \<in> set h \<Longrightarrow> c < length (chunks (ic_store st))"
    and rest: "partition_ok gs" "\<And>c. c \<in> set (concat gs) \<Longrightarrow> c < length (chunks (ic_store ?st))"
    and disj: "set h \<inter> set (concat gs) = {}"
    using Cons.prems by auto
  note step = folded_into_group [OF h]
  have out: "folded_into (fold merge_group gs ?st) c = folded_into ?st c" if "c \<notin> set (concat gs)" for c
    using Cons.IH [OF rest] that by blast
  have inn: "folded_into (fold merge_group gs ?st) c = folded_into ?st (hd g)" if "g \<in> set gs" "c \<in> set g" for g c
    using Cons.IH [OF rest] that by blast
  have "folded_into (fold merge_group (h # gs) st) c = folded_into st c" if "c \<notin> set (concat (h # gs))" for c
    using that out [of c] step [of c] by simp
  moreover have "folded_into (fold merge_group (h # gs) st) c = folded_into st (hd g)" if "g \<in> set (h # gs)" "c \<in> set g" for g c
  proof (cases "g \<in> set gs")
    case True
    have "g \<noteq> []" using that by auto
    then have "hd g \<in> set (concat gs)" using True hd_in_set by fastforce
    then have "hd g \<notin> set h" using disj by blast
    then show ?thesis using inn [OF True that(2)] step [of "hd g"] by simp
  next
    case False
    then have "g = h" using that by simp
    moreover have "c \<notin> set (concat gs)" using that(2) calculation disj by blast
    ultimately show ?thesis using out [of c] step [of c] that(2) by simp
  qed
  ultimately show ?case by blast
qed simp

lemma partition_ok_unique:
  "partition_ok gs \<Longrightarrow> g \<in> set gs \<Longrightarrow> h \<in> set gs \<Longrightarrow> x \<in> set g \<Longrightarrow> x \<in> set h \<Longrightarrow> g = h"
  by (induction gs) auto

text \<open>Sections are redirected to the same place exactly when they were in one group.\<close>

lemma folded_iff_together:
  assumes "partition_ok gs" "\<And>c. c \<in> set (concat gs) \<Longrightarrow> c < length (chunks (ic_store st)) \<and> folded_into st c = c"
    and "a \<in> set (concat gs)" "b \<in> set (concat gs)"
  shows "folded_into (fold merge_group gs st) a = folded_into (fold merge_group gs st) b \<longleftrightarrow> together gs a b"
proof -
  obtain g h where g: "g \<in> set gs" "a \<in> set g" and h: "h \<in> set gs" "b \<in> set h" using assms(3,4) by auto
  have ne: "g \<noteq> []" "h \<noteq> []" using g(2) h(2) by auto
  then have heads: "hd g \<in> set g" "hd h \<in> set h" by simp_all
  have len: "\<And>c. c \<in> set (concat gs) \<Longrightarrow> c < length (chunks (ic_store st))" using assms(2) by blast
  have "hd g \<in> set (concat gs)" "hd h \<in> set (concat gs)" using g(1) h(1) heads by auto
  then have "folded_into (fold merge_group gs st) a = hd g" "folded_into (fold merge_group gs st) b = hd h"
    using folded_into_groups [OF assms(1) len] g h assms(2) by simp_all
  moreover have "hd g = hd h \<longleftrightarrow> g = h" using partition_ok_unique [OF assms(1) g(1) h(1)] heads by metis
  moreover have "g = h \<longleftrightarrow> together gs a b"
    using partition_ok_unique [OF assms(1)] g h unfolding together_def by metis
  ultimately show ?thesis by simp
qed

section \<open>The whole run\<close>

lemma wf_facts:
  assumes "icf_wf env s"
  shows "icf_ok (icf_prepare env s al)"
    and "c \<in> set (ic_chunks (icf_prepare env s al)) \<Longrightarrow> c < length (chunks s) \<and> ck_repl (chunks s ! c) = c"
proof -
  have "length (ic_chunks (icf_prepare env s al)) \<le> length (ie_getChunks env)" by (rule prepared)
  then show "icf_ok (icf_prepare env s al)"
    using assms prepared(6) [of env s al] by (auto simp: icf_ok_def icf_wf_def)
  show "c \<in> set (ic_chunks (icf_prepare env s al)) \<Longrightarrow> c < length (chunks s) \<and> ck_repl (chunks s ! c) = c"
    using assms prepared(4) [of env s al] by (auto simp: icf_wf_def list_all_iff)
qed

text \<open>What the passes keep: the store, the set of sections, that class numbers and groups agree,
  and that a group is constant.\<close>

definition passed :: "icf_env \<Rightarrow> store \<Rightarrow> icf_state \<Rightarrow> icf_state \<Rightarrow> bool" where
  "passed env s st0 st \<longleftrightarrow> ic_store st = s \<and> set (ic_chunks st) = set (ic_chunks st0) \<and> numbered st \<and>
     (\<forall>a b. together (icf_partition st) a b \<longrightarrow> equalsConstant env st0 a b)"

lemma passed_first:
  "icf_ok st0 \<Longrightarrow> ic_store st0 = s \<Longrightarrow> passed env s st0 (pass env True st0)"
  by (simp add: passed_def pass_numbered icf_partition_pass equal.together_refine icf_equal_def)

lemma passed_step:
  "icf_ok st \<Longrightarrow> passed env s st0 st \<Longrightarrow> passed env s st0 (variable_pass env st)"
  by (simp add: passed_def pass_numbered icf_partition_pass equal.together_refine)

lemma no_split:
  assumes "\<not> splits E (icf_partition st)"
  shows "refine E (icf_partition st) = icf_partition st"
proof (rule refine_id, rule ballI)
  fix g assume g: "g \<in> set (icf_partition st)"
  then have "g \<noteq> []" using runs_nonempty [of "cur_class st" "ic_chunks st"] unfolding icf_partition_def by metis
  then show "length (groups E g) = 1" using assms g length_groups_pos [of g E] by (metis One_nat_def le_antisym not_le)
qed

text \<open>The merge, given the state after the last pass.\<close>

lemma icf_run_merge:
  assumes wf: "icf_wf env s" and loop: "icf_loop env (pass env True (icf_prepare env s al)) = Some stl"
    and last: "icf_ok stl" "ic_store stl = s" "set (ic_chunks stl) = set (ic_chunks (icf_prepare env s al))"
  shows "\<exists>st. icf_run env s al = Some st \<and>
    (\<forall>a\<in>set (ic_chunks stl). \<forall>b\<in>set (ic_chunks stl).
       folded_into st a = folded_into st b \<longleftrightarrow> together (icf_partition stl) a b) \<and>
    (\<forall>c. c \<notin> set (ic_chunks stl) \<longrightarrow> folded_into st c = ck_repl (chunks s ! c))"
proof -
  define st where "st = forEachClass merge_class stl"
  have run: "icf_run env s al = Some st" by (simp add: icf_run_def forEachClass_pass loop st_def)
  have fold: "folded_into st c = folded_into (fold merge_group (icf_partition stl) stl) c" for c
    by (simp add: st_def forEachClass_merge Let_def folded_into_def)
  have self: "c < length (chunks (ic_store stl)) \<and> folded_into stl c = c" if "c \<in> set (concat (icf_partition stl))" for c
    using that wf_facts(2) [OF wf] last(2,3) by (simp add: folded_into_def)
  have "folded_into st a = folded_into st b \<longleftrightarrow> together (icf_partition stl) a b"
    if "a \<in> set (ic_chunks stl)" "b \<in> set (ic_chunks stl)" for a b
    unfolding fold using folded_iff_together [OF icf_partition_ok [OF last(1)] self] that by simp
  moreover have "folded_into st c = ck_repl (chunks s ! c)" if "c \<notin> set (ic_chunks stl)" for c
    unfolding fold using folded_into_groups [OF icf_partition_ok [OF last(1)], of stl] self that last(2)
    by (simp add: folded_into_def)
  ultimately show ?thesis using run by blast
qed

text \<open>The run returns, and everything about its result follows from the state \<open>st'\<close> before the last
  pass: a further property that all passes keep may be carried along.\<close>

lemma icf_run_ends:
  assumes "icf_wf env s" "J (pass env True (icf_prepare env s al))"
    and "\<And>st. icf_ok st \<Longrightarrow> passed env s (icf_prepare env s al) st \<Longrightarrow> J st \<Longrightarrow> J (variable_pass env st)"
  shows "\<exists>st st'. icf_run env s al = Some st \<and> passed env s (icf_prepare env s al) st' \<and> J st' \<and>
    (\<forall>a b. together (icf_partition st') a b \<longrightarrow> equalsVariable env st' a b) \<and>
    (\<forall>a\<in>set (ic_chunks st'). \<forall>b\<in>set (ic_chunks st').
       folded_into st a = folded_into st b \<longleftrightarrow> together (icf_partition st') a b) \<and>
    (\<forall>c. c \<notin> set (ic_chunks st') \<longrightarrow> folded_into st c = ck_repl (chunks s ! c))"
proof -
  let ?st0 = "icf_prepare env s al"
  let ?I = "\<lambda>st. passed env s ?st0 st \<and> J st"
  have ok0: "icf_ok ?st0" and ok1: "icf_ok (pass env True ?st0)" using wf_facts(1) [OF assms(1)] by (simp_all add: pass_ok)
  have "?I (pass env True ?st0)" using passed_first [OF ok0] prepared(1) assms(2) by blast
  moreover have "?I (variable_pass env st)" if "icf_ok st" "?I st" for st using that passed_step assms(3) by blast
  ultimately obtain st' where loop: "icf_loop env (pass env True ?st0) = Some (variable_pass env st')"
    and st': "icf_ok st'" "passed env s ?st0 st'" "J st'" "\<not> splits (icf_equal env False st') (icf_partition st')"
    using icf_loop_ends [OF ok1, of ?I env] by blast
  have part: "icf_partition (variable_pass env st') = icf_partition st'"
    using st'(1) no_split [OF st'(4)] by (simp add: icf_partition_pass)
  have vars: "equalsVariable env st' a b" if "together (icf_partition st') a b" for a b
    using that st'(1) equal.together_refine [of env False st' "icf_partition st'" a b] no_split [OF st'(4)]
    by (simp add: icf_equal_def)
  have "icf_ok (variable_pass env st')" "ic_store (variable_pass env st') = s"
    "set (ic_chunks (variable_pass env st')) = set (ic_chunks ?st0)"
    using st'(1,2) by (simp_all add: pass_ok passed_def)
  from icf_run_merge [OF assms(1) loop this] show ?thesis
    unfolding part using st'(2,3) vars by auto
qed

section \<open>Folding is sound\<close>

definition same_when_folded :: "store \<Rightarrow> icf_state \<Rightarrow> sym_id option \<Rightarrow> sym_id option \<Rightarrow> bool" where
  "same_when_folded s st b1 b2 \<longleftrightarrow> b1 = b2 \<or>
     (\<exists>v c1 c2. regular_target s b1 = Some (v, Some c1) \<and> regular_target s b2 = Some (v, Some c2) \<and>
        folded_into st c1 = folded_into st c2)"

text \<open>Two sections that may stand for each other once the folding \<open>st\<close> is in force: the same bytes and
  attributes, relocations of the same types at the same places, whose targets are the same
  symbol or the same offset in sections that are folded together, and children folded together.\<close>

definition interchangeable :: "icf_env \<Rightarrow> store \<Rightarrow> icf_state \<Rightarrow> chunk_id \<Rightarrow> chunk_id \<Rightarrow> bool" where
  "interchangeable env s st a b \<longleftrightarrow>
     list_all2 (\<lambda>r1 r2. rel_Type r1 = rel_Type r2 \<and> VirtualAddress r1 = VirtualAddress r2 \<and>
         same_when_folded s st (rel_symbol env a r1) (rel_symbol env b r2))
       (is_relocs (ie_section env a)) (is_relocs (ie_section env b)) \<and>
     is_contents (ie_section env a) = is_contents (ie_section env b) \<and>
     is_OutputCharacteristics (ie_section env a) = is_OutputCharacteristics (ie_section env b) \<and>
     ck_name (chunks s ! a) = ck_name (chunks s ! b) \<and>
     is_Machine (ie_section env a) = is_Machine (ie_section env b) \<and>
     list_all2 (\<lambda>x y. folded_into st x = folded_into st y) (icf_children s a) (icf_children s b)"

lemma target_knownD:
  "target_known env s b \<Longrightarrow> regular_target s b = Some t \<Longrightarrow> \<exists>c. snd t = Some c \<and> c \<in> set (icf_sections env s)"
  by (auto simp: target_known_def split: option.splits prod.splits)

lemma list_all2_combine:
  assumes "list_all2 P xs ys" "list_all2 Q xs ys"
    and "\<And>x y. x \<in> set xs \<Longrightarrow> y \<in> set ys \<Longrightarrow> P x y \<Longrightarrow> Q x y \<Longrightarrow> R x y"
  shows "list_all2 R xs ys"
  using assms by (auto simp: list_all2_conv_all_nth)

lemma wf_known:
  assumes "icf_wf env s" "c \<in> set (ie_getChunks env)" "mergeable env s c"
  shows "r \<in> set (is_relocs (ie_section env c)) \<Longrightarrow> target_known env s (rel_symbol env c r)"
    and "x \<in> set (icf_children s c) \<Longrightarrow> x \<in> set (icf_sections env s)"
  using assms by (auto simp: icf_wf_def list_all_iff)

lemma interchangeableI:
  assumes wf: "icf_wf env s" and a: "a \<in> set (ie_getChunks env)" "mergeable env s a" and b: "b \<in> set (ie_getChunks env)" "mergeable env s b"
    and const: "equalsConstant env st0 a b" "ic_store st0 = s" and var: "equalsVariable env st' a b" "ic_store st' = s"
    and classes: "\<And>x y. x \<in> set (icf_sections env s) \<Longrightarrow> y \<in> set (icf_sections env s) \<Longrightarrow>
       cur_class st0 x = cur_class st0 y \<Longrightarrow> cur_class st' x = cur_class st' y \<Longrightarrow> folded_into st x = folded_into st y"
  shows "interchangeable env s st a b"
proof -
  let ?ra = "is_relocs (ie_section env a)" and ?rb = "is_relocs (ie_section env b)"
  note C = const(1) [unfolded equalsConstant_iff const(2)] and V = var(1) [unfolded equalsVariable_iff var(2)]
  have "same_when_folded s st (rel_symbol env a r1) (rel_symbol env b r2)"
    if r: "r1 \<in> set ?ra" "r2 \<in> set ?rb" and e: "eq_constant env st0 a b r1 r2" "eqSym st' (rel_symbol env a r1) (rel_symbol env b r2)" for r1 r2
  proof (cases "rel_symbol env a r1 = rel_symbol env b r2")
    case False
    obtain t u where t: "regular_target s (rel_symbol env a r1) = Some t" "regular_target s (rel_symbol env b r2) = Some u"
      "fst t = fst u" "same_target st0 t u" "same_target st' t u"
      using e False const(2) var(2) unfolding eq_constant_iff eqSym_iff by auto
    obtain c1 where c1: "snd t = Some c1" "c1 \<in> set (icf_sections env s)" using target_knownD [OF wf_known(1) [OF wf a r(1)] t(1)] by blast
    obtain c2 where c2: "snd u = Some c2" "c2 \<in> set (icf_sections env s)" using target_knownD [OF wf_known(1) [OF wf b r(2)] t(2)] by blast
    have "folded_into st c1 = folded_into st c2" using t(4,5) c1 c2 by (intro classes) (simp_all add: same_target_def)
    then show ?thesis unfolding same_when_folded_def using t(1-3) c1(1) c2(1) by (metis prod.collapse)
  qed (simp add: same_when_folded_def)
  moreover have "rel_Type r1 = rel_Type r2 \<and> VirtualAddress r1 = VirtualAddress r2" if "eq_constant env st0 a b r1 r2" for r1 r2
    using that unfolding eq_constant_iff by blast
  moreover have "list_all2 (eq_constant env st0 a b) ?ra ?rb"
    "list_all2 (\<lambda>r1 r2. eqSym st' (rel_symbol env a r1) (rel_symbol env b r2)) ?ra ?rb" using C V by blast+
  ultimately have rels: "list_all2 (\<lambda>r1 r2. rel_Type r1 = rel_Type r2 \<and> VirtualAddress r1 = VirtualAddress r2 \<and>
      same_when_folded s st (rel_symbol env a r1) (rel_symbol env b r2)) ?ra ?rb"
    by (blast intro: list_all2_combine)
  have "assocEquals st0 a b" "assocEquals st' a b" using C V by blast+
  then have "list_all2 (\<lambda>x y. cur_class st0 x = cur_class st0 y) (icf_children s a) (icf_children s b)"
    "list_all2 (\<lambda>x y. cur_class st' x = cur_class st' y) (icf_children s a) (icf_children s b)"
    unfolding assocEquals_def const(2) var(2) by blast+
  then have "list_all2 (\<lambda>x y. folded_into st x = folded_into st y) (icf_children s a) (icf_children s b)"
    by (rule list_all2_combine) (rule classes [OF wf_known(2) [OF wf a] wf_known(2) [OF wf b]])
  then show ?thesis using C rels unfolding interchangeable_def by blast
qed

text \<open>C1: identical code folding is sound and always finishes. Whatever the hash function, the run
  returns, and any two mergeable sections that it redirects to the same section are
  interchangeable under the folding it has made; no other section is redirected.\<close>

theorem icf_run_sound:
  assumes "icf_wf env s"
  shows "\<exists>st. icf_run env s al = Some st \<and>
    (\<forall>a b. a \<in> set (ie_getChunks env) \<and> b \<in> set (ie_getChunks env) \<and> mergeable env s a \<and> mergeable env s b \<and>
       folded_into st a = folded_into st b \<longrightarrow> interchangeable env s st a b) \<and>
    (\<forall>c. \<not> (c \<in> set (ie_getChunks env) \<and> mergeable env s c) \<longrightarrow> folded_into st c = ck_repl (chunks s ! c))"
proof -
  let ?st0 = "icf_prepare env s al"
  obtain st st' where run: "icf_run env s al = Some st" and st': "passed env s ?st0 st'"
    and var: "\<And>a b. together (icf_partition st') a b \<Longrightarrow> equalsVariable env st' a b"
    and fold: "\<And>a b. a \<in> set (ic_chunks st') \<Longrightarrow> b \<in> set (ic_chunks st') \<Longrightarrow>
        folded_into st a = folded_into st b \<longleftrightarrow> together (icf_partition st') a b"
    and out: "\<And>c. c \<notin> set (ic_chunks st') \<Longrightarrow> folded_into st c = ck_repl (chunks s ! c)"
    using icf_run_ends [OF assms, of "\<lambda>_. True" al] by blast
  have S: "set (ic_chunks st') = {c \<in> set (ie_getChunks env). mergeable env s c}" "ic_store st' = s"
    and num: "\<And>a b. a \<in> set (ic_chunks st') \<Longrightarrow> b \<in> set (ic_chunks st') \<Longrightarrow>
        cur_class st' a = cur_class st' b \<Longrightarrow> together (icf_partition st') a b"
    and const: "\<And>a b. together (icf_partition st') a b \<Longrightarrow> equalsConstant env ?st0 a b"
    using st' prepared(4) [of env s al] by (auto simp: passed_def numbered_def)
  have cls0: "cur_class ?st0 = start_class env s" by (simp add: prepared(2) prepared_class)
  have classes: "folded_into st x = folded_into st y"
    if "x \<in> set (icf_sections env s)" "y \<in> set (icf_sections env s)" "cur_class ?st0 x = cur_class ?st0 y"
      "cur_class st' x = cur_class st' y" for x y
    using start_class_eq [OF assms that(1,2)] that(3,4) S(1) num fold unfolding cls0 by blast
  have "interchangeable env s st a b" if "a \<in> set (ic_chunks st')" "b \<in> set (ic_chunks st')" "together (icf_partition st') a b" for a b
  proof (rule interchangeableI [OF assms])
    show "a \<in> set (ie_getChunks env)" "mergeable env s a" "b \<in> set (ie_getChunks env)" "mergeable env s b"
      using that(1,2) S(1) by blast+
    show "equalsConstant env ?st0 a b" "equalsVariable env st' a b" by (rule const [OF that(3)], rule var [OF that(3)])
  qed (rule prepared(1), rule S(2), rule classes)
  moreover have "c \<in> set (ic_chunks st') \<longleftrightarrow> c \<in> set (ie_getChunks env) \<and> mergeable env s c" for c using S(1) by simp
  ultimately show ?thesis using run fold out by metis
qed

section \<open>Folding is as coarse as it can be\<close>

definition related :: "(chunk_id \<Rightarrow> chunk_id \<Rightarrow> bool) \<Rightarrow> chunk_id \<Rightarrow> chunk_id \<Rightarrow> bool" where
  "related R x y \<longleftrightarrow> x = y \<or> R x y"

definition sym_related :: "store \<Rightarrow> (chunk_id \<Rightarrow> chunk_id \<Rightarrow> bool) \<Rightarrow> sym_id option \<Rightarrow> sym_id option \<Rightarrow> bool" where
  "sym_related s R b1 b2 \<longleftrightarrow> b1 = b2 \<or>
     (\<exists>v c1 c2. regular_target s b1 = Some (v, Some c1) \<and> regular_target s b2 = Some (v, Some c2) \<and> related R c1 c2)"

text \<open>A relation between mergeable sections that all the data of the sections respects.\<close>

definition icf_bisimulation :: "icf_env \<Rightarrow> store \<Rightarrow> (chunk_id \<Rightarrow> chunk_id \<Rightarrow> bool) \<Rightarrow> bool" where
  "icf_bisimulation env s R \<longleftrightarrow> (\<forall>a b. R a b \<longrightarrow>
     (a \<in> set (ie_getChunks env) \<and> mergeable env s a) \<and> (b \<in> set (ie_getChunks env) \<and> mergeable env s b) \<and>
     list_all2 (\<lambda>r1 r2. rel_Type r1 = rel_Type r2 \<and> VirtualAddress r1 = VirtualAddress r2 \<and>
         sym_related s R (rel_symbol env a r1) (rel_symbol env b r2))
       (is_relocs (ie_section env a)) (is_relocs (ie_section env b)) \<and>
     sym_related s R (getEntryThunk s a) (getEntryThunk s b) \<and>
     (is_OutputCharacteristics (ie_section env a) = is_OutputCharacteristics (ie_section env b) \<and>
      ck_name (chunks s ! a) = ck_name (chunks s ! b) \<and>
      is_SizeOfRawData (ie_section env a) = is_SizeOfRawData (ie_section env b) \<and>
      is_checksum (ie_section env a) = is_checksum (ie_section env b) \<and>
      is_contents (ie_section env a) = is_contents (ie_section env b) \<and>
      is_Machine (ie_section env a) = is_Machine (ie_section env b)) \<and>
     list_all2 (related R) (icf_children s a) (icf_children s b))"

text \<open>The symbols a section iterates over are those of its relocations.\<close>

definition symbols_listed :: "icf_env \<Rightarrow> store \<Rightarrow> bool" where
  "symbols_listed env s \<longleftrightarrow>
     list_all (\<lambda>c. ck_symbols (chunks s ! c) = map (rel_symbol env c) (is_relocs (ie_section env c))) (ie_getChunks env)"

lemma bisimD:
  assumes "icf_bisimulation env s R" "R a b"
  shows "a \<in> set (ie_getChunks env)" "mergeable env s a" "b \<in> set (ie_getChunks env)" "mergeable env s b"
    and "list_all2 (\<lambda>r1 r2. rel_Type r1 = rel_Type r2 \<and> VirtualAddress r1 = VirtualAddress r2 \<and>
         sym_related s R (rel_symbol env a r1) (rel_symbol env b r2))
       (is_relocs (ie_section env a)) (is_relocs (ie_section env b))"
    and "sym_related s R (getEntryThunk s a) (getEntryThunk s b)"
    and "is_OutputCharacteristics (ie_section env a) = is_OutputCharacteristics (ie_section env b) \<and>
      ck_name (chunks s ! a) = ck_name (chunks s ! b) \<and>
      is_SizeOfRawData (ie_section env a) = is_SizeOfRawData (ie_section env b) \<and>
      is_checksum (ie_section env a) = is_checksum (ie_section env b) \<and>
      is_contents (ie_section env a) = is_contents (ie_section env b) \<and>
      is_Machine (ie_section env a) = is_Machine (ie_section env b)"
    and "list_all2 (related R) (icf_children s a) (icf_children s b)"
  using assms unfolding icf_bisimulation_def by blast+

lemma fold_pointwise: "list_all2 (\<lambda>x y. f x = f y) xs ys \<Longrightarrow> fold f xs z = fold f ys z"
  by (induction xs ys arbitrary: z rule: list_all2_induct) simp_all

lemma target_sum_related:
  assumes "icf_bisimulation env s R" "symbols_listed env s" "R a b" "\<And>x y. R x y \<Longrightarrow> h x = h y"
  shows "target_sum s h a = target_sum s h b"
proof -
  let ?f = "\<lambda>b hash. case regular_target s b of Some (_, Some t) \<Rightarrow> hash + h t | _ \<Rightarrow> hash"
  note B = bisimD [OF assms(1,3)]
  have sym: "?f b1 = ?f b2" if "sym_related s R b1 b2" for b1 b2
    using that assms(4) unfolding sym_related_def related_def by (auto simp: fun_eq_iff)
  have "list_all2 (\<lambda>x y. ?f x = ?f y) (ck_symbols (chunks s ! a)) (ck_symbols (chunks s ! b))"
    using assms(2) B(1,3,5) sym by (auto simp: symbols_listed_def list_all_iff list_all2_map1 list_all2_map2 elim!: list_all2_mono)
  from fold_pointwise [OF this] show ?thesis using assms(4) [OF assms(3)] by (simp add: target_sum_def)
qed

lemma start_class_related:
  assumes "icf_bisimulation env s R" "symbols_listed env s" "R a b"
  shows "start_class env s a = start_class env s b"
proof -
  have 0: "content_hash env s x = content_hash env s y" if "R x y" for x y
    using bisimD [OF assms(1) that] by (simp add: content_hash_def)
  have mix: "mixed_hash env s h old x = mixed_hash env s h old y" if "R x y" "\<And>x y. R x y \<Longrightarrow> h x = h y" for h old x y
    using bisimD [OF assms(1) that(1)] target_sum_related [OF assms(1,2) that] by (simp add: mixed_hash_def)
  show ?thesis unfolding start_class_def by (rule mix [OF assms(3)], rule mix, assumption, rule 0)
qed

text \<open>A class assignment that respects the relation makes the comparisons succeed.\<close>

lemma sym_related_same:
  assumes "sym_related s R b1 b2" "b1 \<noteq> b2" "ic_store st = s" "\<And>x y. R x y \<Longrightarrow> cur_class st x = cur_class st y"
  shows "\<exists>t u. regular_target s b1 = Some t \<and> regular_target s b2 = Some u \<and> fst t = fst u \<and> same_target st t u"
  using assms unfolding sym_related_def related_def same_target_def by fastforce

lemma related_equal:
  assumes "icf_bisimulation env s R" "R a b" "ic_store st = s" "\<And>x y. R x y \<Longrightarrow> cur_class st x = cur_class st y"
  shows "icf_equal env c st a b"
proof -
  note B = bisimD [OF assms(1,2)]
  have ch: "assocEquals st a b"
    unfolding assocEquals_def assms(3) using B(8) assms(4) by (auto simp: related_def elim!: list_all2_mono)
  have sym: "eqSym st b1 b2" if "sym_related s R b1 b2" for b1 b2
    unfolding eqSym_iff assms(3) using sym_related_same [OF that _ assms(3,4)] by blast
  have con: "eq_constant env st a b r1 r2"
    if "rel_Type r1 = rel_Type r2" "VirtualAddress r1 = VirtualAddress r2" "sym_related s R (rel_symbol env a r1) (rel_symbol env b r2)" for r1 r2
    unfolding eq_constant_iff assms(3) using that(1,2) sym_related_same [OF that(3) _ assms(3,4)] by blast
  have "equalsVariable env st a b"
    unfolding equalsVariable_iff assms(3) using ch sym B(5,6) by (blast intro: list_all2_mono)
  moreover have "equalsConstant env st a b"
    unfolding equalsConstant_iff assms(3) using ch con B(5,7) by (blast intro: list_all2_mono)
  ultimately show ?thesis by (simp add: icf_equal_def)
qed

text \<open>C4: identical code folding is complete. Any two mergeable sections related by a relation that
  relates only sections with the same contents, attributes and relocations, and with related
  or identical relocation targets, entry thunks and children, are folded into one section:
  the linker finds the coarsest sound folding, whatever the hash function.\<close>

theorem icf_run_complete:
  assumes "icf_wf env s" "symbols_listed env s" "icf_bisimulation env s R"
  shows "\<exists>st. icf_run env s al = Some st \<and> (\<forall>a b. R a b \<longrightarrow> folded_into st a = folded_into st b)"
proof -
  let ?st0 = "icf_prepare env s al"
  define J where "J st \<longleftrightarrow> (\<forall>a b. R a b \<longrightarrow> together (icf_partition st) a b)" for st
  have ok: "icf_ok ?st0" by (rule wf_facts(1) [OF assms(1)])
  have mem: "a \<in> set (ic_chunks ?st0)" "b \<in> set (ic_chunks ?st0)" if "R a b" for a b
    using bisimD(1-4) [OF assms(3) that] prepared(4) [of env s al] by simp_all
  have cur: "cur_class ?st0 = start_class env s" by (simp add: prepared(2) prepared_class)
  have cls: "cur_class ?st0 a = cur_class ?st0 b" if "R a b" for a b
    unfolding cur by (rule start_class_related [OF assms(3,2) that])
  have sorted: "sorted (map (cur_class ?st0) (ic_chunks ?st0))"
    using prepared(7) [of env s al] unfolding cur prepared_class by (simp add: sorted_map word_le_nat_alt)
  have "together (icf_partition ?st0) a b" if "R a b" for a b
    unfolding icf_partition_def by (rule runs_sorted [OF sorted mem [OF that] cls [OF that]])
  moreover have "icf_equal env True ?st0 a b" if "R a b" for a b
    by (rule related_equal [OF assms(3) that prepared(1) cls])
  ultimately have first: "J (pass env True ?st0)"
    unfolding J_def icf_partition_pass [OF ok] equal.together_refine by blast
  have step: "J (variable_pass env st)" if ok: "icf_ok st" and p: "passed env s ?st0 st" and J: "J st" for st
  proof -
    have tog: "together (icf_partition st) x y" if "R x y" for x y using J that unfolding J_def by blast
    have "cur_class st x = cur_class st y" if "R x y" for x y
      using p mem [OF that] tog [OF that] unfolding passed_def numbered_def by blast
    moreover have "ic_store st = s" using p unfolding passed_def by blast
    ultimately have "icf_equal env False st x y" if "R x y" for x y using related_equal [OF assms(3) that] by blast
    then show ?thesis using tog ok by (simp add: J_def icf_partition_pass equal.together_refine)
  qed
  obtain st st' where run: "icf_run env s al = Some st" and "passed env s ?st0 st'" "J st'"
    and fold: "\<forall>a\<in>set (ic_chunks st'). \<forall>b\<in>set (ic_chunks st'). folded_into st a = folded_into st b \<longleftrightarrow> together (icf_partition st') a b"
    using icf_run_ends [OF assms(1) first step] by blast
  then have "folded_into st a = folded_into st b" if "R a b" for a b
    using mem [OF that] that unfolding J_def passed_def by blast
  then show ?thesis using run by blast
qed

section \<open>Passes and shards\<close>

text \<open>C20: \<open>forEachClass\<close> with \<open>segregate\<close> refines its specification on partitions. Read as groups of
  equal class number, the state after the pass is the partition before it with each group
  split by the comparison; the repeat flag is raised exactly when this changed anything.\<close>

theorem forEachClass_refines:
  assumes "icf_ok st"
  shows "icf_partition (forEachClass (segregate env c) st) = refine (icf_equal env c st) (icf_partition st) \<and>
    set (ic_chunks (forEachClass (segregate env c) st)) = set (ic_chunks st) \<and>
    (ic_repeat (forEachClass (segregate env c) st) \<longleftrightarrow>
       ic_repeat st \<or> icf_partition (forEachClass (segregate env c) st) \<noteq> icf_partition st)"
proof -
  let ?E = "icf_equal env c st" and ?gs = "icf_partition st"
  have ne: "[] \<notin> set ?gs" by (simp add: icf_partition_def)
  have "refine ?E ?gs \<noteq> ?gs" if "splits ?E ?gs"
    using that refine_unchanged [OF ne, of ?E] by fastforce
  then have "splits ?E ?gs \<longleftrightarrow> refine ?E ?gs \<noteq> ?gs" using no_split [of st ?E] by blast
  then show ?thesis using assms by (simp add: forEachClass_pass icf_partition_pass)
qed

text \<open>C21: splitting the vector into 256 shards, as is done for 1024 sections or more, changes nothing:
  the passes and the final merge do what the sequential loop over all classes does.\<close>

theorem forEachClass_shards:
  "forEachClass (segregate env c) st =
     (let st1 = forEachClassRange 0 (length (ic_chunks st)) (segregate env c) st in st1\<lparr>ic_cnt := ic_cnt st1 + 1\<rparr>) \<and>
   forEachClass merge_class st =
     (let st1 = forEachClassRange 0 (length (ic_chunks st)) merge_class st in st1\<lparr>ic_cnt := ic_cnt st1 + 1\<rparr>)"
  using split.forEachClass_sequential merge.forEachClass_sequential by blast

section \<open>Examples\<close>

text \<open>Two functions that call each other and are otherwise equal, and a data section.\<close>

definition icf_sample_chunk :: "chunk_kind \<Rightarrow> chunk_id \<Rightarrow> sym_id option list \<Rightarrow> sym_id option \<Rightarrow> chunk" where
  "icf_sample_chunk k c b t = \<lparr>ck_kind = k, ck_name = ''.text'', ck_rva = 0, ck_live = True, ck_repl = c,
     ck_symbols = b, ck_assocChildren = [], ck_entryThunk = t\<rparr>"

definition icf_sample_store :: store where
  "icf_sample_store = \<lparr>syms = [new_symbol ''f'' (DefinedRegular 0 0 (Some 0)), new_symbol ''g'' (DefinedRegular 0 0 (Some 1))],
     chunks = [icf_sample_chunk SectionKind 0 [Some 1] None, icf_sample_chunk SectionKind 1 [Some 0] None,
       icf_sample_chunk SectionKind 2 [] None], importFiles = []\<rparr>"

definition icf_sample_section :: "coff_relocation list \<Rightarrow> (u32 \<Rightarrow> sym_id option) \<Rightarrow> bool \<Rightarrow> icf_section" where
  "icf_sample_section rs g comdat = \<lparr>is_OutputCharacteristics = 0x60000020, is_SizeOfRawData = 5, is_checksum = 7,
     is_contents = [0xe8, 0, 0, 0, 0], is_Machine = AMD64, is_relocs = rs, is_getSymbol = g,
     is_isCOMDAT = comdat, is_keepUnique = False, is_sym = None\<rparr>"

definition icf_sample_env :: icf_env where
  "icf_sample_env = \<lparr>ie_all = True, ie_machine = AMD64,
     ie_section = (\<lambda>c. if c = 0 then icf_sample_section [\<lparr>VirtualAddress = 1, SymbolTableIndex = 1, rel_Type = 4\<rparr>] (\<lambda>i. Some (unat i)) True
        else if c = 1 then icf_sample_section [\<lparr>VirtualAddress = 1, SymbolTableIndex = 0, rel_Type = 4\<rparr>] (\<lambda>i. Some (unat i)) True
        else icf_sample_section [] (\<lambda>i. None) False),
     ie_hash = (\<lambda>b. of_nat (length b)), ie_getChunks = [0, 1, 2], ie_mergeSections = []\<rparr>"

lemmas icf_sample_defs = icf_sample_env_def icf_sample_store_def icf_sample_chunk_def icf_sample_section_def

lemma icf_sample_mergeable:
  "mergeable icf_sample_env icf_sample_store 0" "mergeable icf_sample_env icf_sample_store 1"
  "\<not> mergeable icf_sample_env icf_sample_store 2"
  by (simp_all add: mergeable_def isEligible_def icf_sample_defs IMAGE_SCN_MEM_EXECUTE_def Let_def)

lemma icf_sample_wf: "icf_wf icf_sample_env icf_sample_store"
  using icf_sample_mergeable
  by (simp add: icf_wf_def icf_sample_defs target_known_def regular_target_def rel_symbol_def new_symbol_def
      icf_sections_def reg_chunk_def icf_children_def upt_rec)

theorem icf_run_sound_witness:
  "\<exists>st. icf_run icf_sample_env icf_sample_store (\<lambda>_. 0) = Some st \<and> folded_into st 2 = 2"
  using icf_run_sound [OF icf_sample_wf, of "\<lambda>_. 0"] icf_sample_mergeable(3) by (auto simp: icf_sample_store_def icf_sample_chunk_def)

theorem icf_run_complete_witness:
  "\<exists>st. icf_run icf_sample_env icf_sample_store (\<lambda>_. 0) = Some st \<and> folded_into st 0 = folded_into st 1"
proof -
  have "symbols_listed icf_sample_env icf_sample_store"
    by (simp add: symbols_listed_def icf_sample_defs rel_symbol_def)
  moreover have "icf_bisimulation icf_sample_env icf_sample_store (\<lambda>a b. a = 0 \<and> b = 1 \<or> a = 1 \<and> b = 0)"
    using icf_sample_mergeable
    by (auto simp: icf_bisimulation_def icf_sample_defs rel_symbol_def sym_related_def related_def regular_target_def
        new_symbol_def reg_chunk_def getEntryThunk_def icf_children_def)
  ultimately show ?thesis using icf_run_complete [OF icf_sample_wf] by blast
qed

theorem forEachClass_refines_witness:
  "icf_partition (forEachClass (segregate icf_sample_env True) (icf_prepare icf_sample_env icf_sample_store (\<lambda>_. 0))) =
   refine (icf_equal icf_sample_env True (icf_prepare icf_sample_env icf_sample_store (\<lambda>_. 0)))
     (icf_partition (icf_prepare icf_sample_env icf_sample_store (\<lambda>_. 0)))"
  using forEachClass_refines [OF wf_facts(1) [OF icf_sample_wf]] by blast

text \<open>Entry thunks are compared by class number only, and a section that is not mergeable has the
  number 0 in the second class slot. Two otherwise equal functions whose entry thunks lie in
  different sections that are not mergeable are therefore folded.\<close>

definition thunk_store :: store where
  "thunk_store = \<lparr>syms = [new_symbol ''t'' (DefinedRegular 0 0 (Some 2)), new_symbol ''u'' (DefinedRegular 0 0 (Some 3))],
     chunks = [icf_sample_chunk SectionECKind 0 [] (Some 0), icf_sample_chunk SectionECKind 1 [] (Some 1),
       icf_sample_chunk SectionKind 2 [] None, icf_sample_chunk SectionKind 3 [] None], importFiles = []\<rparr>"

definition thunk_env :: icf_env where
  "thunk_env = \<lparr>ie_all = True, ie_machine = ARM64EC,
     ie_section = (\<lambda>c. icf_sample_section [] (\<lambda>i. None) (c < 2)),
     ie_hash = (\<lambda>b. of_nat (length b)), ie_getChunks = [0, 1, 2, 3], ie_mergeSections = []\<rparr>"

lemma thunk_mergeable:
  "mergeable thunk_env thunk_store c \<longleftrightarrow> c < 2" if "c < 4"
  using that by (auto simp: mergeable_def isEligible_def thunk_env_def thunk_store_def icf_sample_chunk_def icf_sample_section_def
      IMAGE_SCN_MEM_EXECUTE_def Let_def numeral_eq_Suc less_Suc_eq)

lemma thunk_wf: "icf_wf thunk_env thunk_store"
  using thunk_mergeable
  by (simp add: icf_wf_def thunk_env_def thunk_store_def icf_sample_section_def icf_sample_chunk_def icf_children_def upt_rec)

lemmas thunk_defs = thunk_env_def thunk_store_def icf_sample_section_def icf_sample_chunk_def

abbreviation thunk_start :: icf_state where
  "thunk_start \<equiv> icf_prepare thunk_env thunk_store (\<lambda>_. 0)"

lemma thunk_chunks: "set (ic_chunks thunk_start) = {0, 1}"
  using thunk_mergeable by (auto simp: prepared(4)) (auto simp: thunk_env_def)

lemma thunk_equal_hash: "start_class thunk_env thunk_store 0 = start_class thunk_env thunk_store 1"
  by (simp add: start_class_def mixed_hash_def target_sum_def content_hash_def thunk_mergeable) (simp add: thunk_defs)

lemma thunk_first_groups: "together (icf_partition (pass thunk_env True thunk_start)) 0 1"
proof -
  have "sorted (map (cur_class thunk_start) (ic_chunks thunk_start))"
    using prepared(7) [of thunk_env thunk_store "\<lambda>_. 0"] by (simp add: prepared(2) sorted_map word_le_nat_alt)
  moreover have "cur_class thunk_start 0 = cur_class thunk_start 1"
    using thunk_equal_hash by (simp add: prepared(2) prepared_class)
  ultimately have "together (icf_partition thunk_start) 0 1"
    unfolding icf_partition_def using thunk_chunks by (intro runs_sorted) simp_all
  moreover have "icf_equal thunk_env True thunk_start 0 1"
    by (simp add: icf_equal_def equalsConstant_iff assocEquals_def prepared(1) icf_children_def thunk_defs)
  ultimately show ?thesis by (simp add: icf_partition_pass [OF wf_facts(1) [OF thunk_wf]] equal.together_refine)
qed

lemma thunk_class_zero:
  assumes "c = 2 \<or> c = 3"
  shows "cur_class (pass thunk_env True thunk_start) c = 0"
proof -
  have "c \<notin> set (ic_chunks thunk_start)" using assms unfolding thunk_chunks by auto
  then have out: "c \<notin> set (concat (refine (icf_equal thunk_env True thunk_start) (icf_partition thunk_start)))"
    unfolding set_concat_refine concat_icf_partition .
  have "\<not> mergeable thunk_env thunk_store c" using assms thunk_mergeable [of c] by auto
  then have "eqClass thunk_start 1 c = 0" unfolding prepared_class_odd mixed_hash_def by simp
  then show ?thesis unfolding pass_class number_outside [OF out] prepared(2) by simp
qed

lemma thunk_equal: "icf_equal thunk_env False (pass thunk_env True thunk_start) 0 1"
proof -
  have "regular_target thunk_store (getEntryThunk thunk_store 0) = Some (0, Some 2)"
    "regular_target thunk_store (getEntryThunk thunk_store 1) = Some (0, Some 3)"
    by (simp_all add: regular_target_def getEntryThunk_def reg_chunk_def new_symbol_def thunk_defs)
  then have "eqSym (pass thunk_env True thunk_start) (getEntryThunk thunk_store 0) (getEntryThunk thunk_store 1)"
    using thunk_class_zero by (auto simp: eqSym_iff same_target_def prepared(1))
  then show ?thesis
    by (simp add: icf_equal_def equalsVariable_iff assocEquals_def prepared(1)) (simp add: icf_children_def thunk_defs)
qed

lemma thunk_no_split:
  "\<not> splits (icf_equal thunk_env False (pass thunk_env True thunk_start)) (icf_partition (pass thunk_env True thunk_start))"
proof
  let ?st1 = "pass thunk_env True thunk_start"
  assume "splits (icf_equal thunk_env False ?st1) (icf_partition ?st1)"
  then obtain g where g: "g \<in> set (icf_partition ?st1)" "1 < length (groups (icf_equal thunk_env False ?st1) g)" by blast
  have "set g \<subseteq> set (concat (icf_partition ?st1))" using g(1) unfolding set_concat by blast
  then have "set g \<subseteq> {0, 1}" using thunk_chunks by simp
  then have "icf_equal thunk_env False ?st1 x y" if "x \<in> set g" "y \<in> set g" for x y
    using that thunk_equal equal.E_refl equal.E_sym by blast
  then have "length (groups (icf_equal thunk_env False ?st1) g) \<le> 1" by (rule groups_uniform)
  then show False using g(2) by simp
qed

lemma entry_thunks_folded:
  "\<exists>st. icf_run thunk_env thunk_store (\<lambda>_. 0) = Some st \<and> folded_into st 0 = folded_into st 1"
proof -
  let ?st1 = "pass thunk_env True thunk_start"
  let ?last = "variable_pass thunk_env ?st1"
  have ok: "icf_ok ?st1" using wf_facts(1) [OF thunk_wf] by (rule pass_ok)
  have loop: "icf_loop thunk_env ?st1 = Some ?last"
    using icf_loop_unfold [of thunk_env ?st1] thunk_no_split by simp
  have part: "icf_partition ?last = icf_partition ?st1" using ok no_split [OF thunk_no_split] by (simp add: icf_partition_pass)
  have "icf_ok ?last" "ic_store ?last = thunk_store" "set (ic_chunks ?last) = set (ic_chunks thunk_start)"
    using ok by (simp_all add: pass_ok prepared(1))
  from icf_run_merge [OF thunk_wf loop this] show ?thesis
    using thunk_first_groups thunk_chunks unfolding part by auto
qed

end
