(* ===== verification/Layout.thy ===== *)
theory Layout
  imports BaseRelocs "HOL-Library.Multiset"
begin

text \<open>
  Output sections and addresses (\<open>OutputSection\<close> and the layout phases of \<open>Writer\<close> in
  \<open>lld/COFF/Writer.cpp\<close>). Chunks are numbered objects with the attributes layout reads; a section
  holds the numbers of its chunks in order, and is itself identified by a number where the code
  compares pointers. Sizes and addresses computed in 64 bits are natural numbers; header fields and
  chunk addresses are truncated to 32 bits where the code stores them.
\<close>

unbundle bit_operations_syntax

section \<open>Output sections\<close>

text \<open>The chunks that hold a branch of their own: a range extension thunk with its target, an ARM64EC
  import thunk with the helper it calls and its \<open>extended\<close> flag.\<close>

datatype branch_chunk =
    NoBranch
  | RangeThunk symbol_body
  | ECImportThunk symbol_body bool

record lchunk =
  lc_size :: nat
  lc_p2Align :: nat
  lc_hasData :: bool
  lc_hotPatchable :: bool
  lc_entryThunk :: bool
  lc_ecRange :: "nat option"
  lc_isSection :: bool
  lc_machine :: machine
  lc_repl :: chunk_id
  lc_file :: file_id
  lc_origRelocs :: "coff_relocation list"
  lc_relocs :: "coff_relocation list"
  lc_branch :: branch_chunk
  lc_baserels :: "u32 \<Rightarrow> Baserel list"
  lc_rva :: u32
  lc_osidx :: u16

record OutputSection =
  ls_id :: nat
  ls_name :: string
  ls_Characteristics :: u32
  ls_chunks :: "chunk_id list"
  ls_VirtualAddress :: u32
  ls_VirtualSize :: u32
  ls_SizeOfRawData :: u32
  ls_PointerToRawData :: u32
  ls_sectionIndex :: u32

definition new_section :: "nat \<Rightarrow> string \<Rightarrow> u32 \<Rightarrow> OutputSection" where
  "new_section i n chars =
     \<lparr>ls_id = i, ls_name = n, ls_Characteristics = chars, ls_chunks = [], ls_VirtualAddress = 0, ls_VirtualSize = 0,
      ls_SizeOfRawData = 0, ls_PointerToRawData = 0, ls_sectionIndex = 0\<rparr>"

definition addChunk :: "chunk_id \<Rightarrow> OutputSection \<Rightarrow> OutputSection" where
  "addChunk c sec = sec\<lparr>ls_chunks := ls_chunks sec @ [c]\<rparr>"

definition insertChunkAtStart :: "chunk_id \<Rightarrow> OutputSection \<Rightarrow> OutputSection" where
  "insertChunkAtStart c sec = sec\<lparr>ls_chunks := c # ls_chunks sec\<rparr>"

definition permMask :: u32 where
  "permMask = 0xFE000000"

definition setPermissions :: "u32 \<Rightarrow> OutputSection \<Rightarrow> OutputSection" where
  "setPermissions c sec = sec\<lparr>ls_Characteristics := (ls_Characteristics sec AND NOT permMask) OR c\<rparr>"

text \<open>\<open>merge\<close> moves the chunks of the other section to the end of this one.\<close>

definition merge_sections :: "OutputSection \<Rightarrow> OutputSection \<Rightarrow> OutputSection \<times> OutputSection" where
  "merge_sections this other =
     (let this1 = this\<lparr>ls_chunks := ls_chunks this @ ls_chunks other\<rparr>;
          this2 = (if ls_Characteristics other AND 0x20 \<noteq> 0
                   then this1\<lparr>ls_Characteristics := (ls_Characteristics this OR 0x20) AND NOT (0x40 OR 0x80)\<rparr>
                   else this1)
      in (this2, other\<lparr>ls_chunks := []\<rparr>))"

definition isCodeSection :: "OutputSection \<Rightarrow> bool" where
  "isCodeSection sec \<longleftrightarrow>
     ls_Characteristics sec AND 0x20 \<noteq> 0 \<and> ls_Characteristics sec AND 0x40000000 \<noteq> 0 \<and>
     ls_Characteristics sec AND 0x20000000 \<noteq> 0"

section \<open>The writer\<close>

record lay_config =
  cf_align :: nat
  cf_fileAlign :: nat
  cf_functionPadMin :: nat
  cf_machine :: machine
  cf_symtabEC :: bool
  cf_imageBase :: u64
  cf_relocatable :: bool
  cf_dosStub :: "nat option"
  cf_merge :: "(string \<times> string) list"
  cf_section :: "(string \<times> u32) list"
  cf_sectionOrder :: "(string \<times> nat) list"

record writer =
  w_chunks :: "lchunk list"
  w_sections :: "OutputSection list"
  w_relocSec :: nat
  w_pdataSec :: nat
  w_pdata :: "(chunk_id \<times> chunk_id) option"
  w_hybridPdata :: "(chunk_id \<times> chunk_id) option"
  w_dynamicRelocs :: "chunk_id option"
  w_codeMap :: "(chunk_id \<times> chunk_id \<times> nat) list"
  w_codeMapChunk :: "chunk_id option"
  w_mergeChunks :: "(chunk_id \<times> (chunk_id \<times> bool \<times> nat) list) list"
  w_files :: "symbol_body option list list"
  w_sizeOfHeaders :: nat
  w_fileSize :: nat
  w_sizeOfImage :: nat

datatype lay_error =
    MergeCycle string
  | SectionTooLarge string

definition findSection :: "writer \<Rightarrow> string \<Rightarrow> nat option" where
  "findSection w n = map_option fst (List.find (\<lambda>(i, sec). ls_name sec = n) (List.enumerate 0 (w_sections w)))"

text \<open>\<open>getMergeDestination\<close>: follow the map of merges; a name met twice is a cycle.\<close>

function merge_dest_loop :: "(string \<times> string) list \<Rightarrow> string set \<Rightarrow> string \<Rightarrow> string \<Rightarrow> lay_error + string" where
  "merge_dest_loop merge names fromSection toSection =
     (if toSection \<in> names then Inl (MergeCycle fromSection)
      else
        (case map_of merge toSection of
           None \<Rightarrow> Inr toSection
         | Some t \<Rightarrow> merge_dest_loop merge (insert toSection names) fromSection t))"
  by pat_completeness auto
termination
proof (relation "measure (\<lambda>(merge, names, _, _). card (fst ` set merge - names))", goal_cases)
  case (2 merge names fromSection toSection t)
  then have "toSection \<in> fst ` set merge - names" by (force dest: map_of_SomeD)
  then have "fst ` set merge - insert toSection names \<subset> fst ` set merge - names" by blast
  then show ?case by (simp add: psubset_card_mono)
qed simp

declare merge_dest_loop.simps [simp del]

definition getMergeDestination :: "lay_config \<Rightarrow> string \<Rightarrow> string \<Rightarrow> lay_error + string" where
  "getMergeDestination cfg fromSection toSection = merge_dest_loop (cf_merge cfg) {} fromSection toSection"

definition mergeSection :: "lay_config \<Rightarrow> string \<times> string \<Rightarrow> writer \<Rightarrow> lay_error + writer" where
  "mergeSection cfg p w =
     (if fst p = snd p then Inr w
      else
        (case getMergeDestination cfg (fst p) (snd p) of
           Inl e \<Rightarrow> Inl e
         | Inr toSection \<Rightarrow>
             (case findSection w (fst p) of
                None \<Rightarrow> Inr w
              | Some i \<Rightarrow>
                  (case findSection w toSection of
                     None \<Rightarrow> Inr (w\<lparr>w_sections := (w_sections w)[i := (w_sections w ! i)\<lparr>ls_name := toSection\<rparr>]\<rparr>)
                   | Some j \<Rightarrow>
                       (let (to, from) = merge_sections (w_sections w ! j) (w_sections w ! i)
                        in Inr (w\<lparr>w_sections := (w_sections w)[j := to, i := from]\<rparr>))))))"

fun merge_all :: "lay_config \<Rightarrow> (string \<times> string) list \<Rightarrow> writer \<Rightarrow> lay_error + writer" where
  "merge_all cfg [] w = Inr w"
| "merge_all cfg (p # ps) w =
     (if fst p \<noteq> ''.bss''
      then (case mergeSection cfg p w of Inl e \<Rightarrow> Inl e | Inr w' \<Rightarrow> merge_all cfg ps w')
      else merge_all cfg ps w)"

text \<open>The head of \<open>mergeSections\<close>: on ARM64EC the unwind entries of the two architectures are split by a stable
  sort, and the ranges of chunks of each are recorded.\<close>

definition split_pdata_section :: "lay_config \<Rightarrow> writer \<Rightarrow> nat \<Rightarrow> writer" where
  "split_pdata_section cfg w i =
     (let cs = ls_chunks (w_sections w ! i);
          is_amd64 = (\<lambda>c. lc_machine (w_chunks w ! c) = AMD64);
          cs1 = sort_key (\<lambda>c. if is_amd64 c then 1 else (0 :: nat)) cs;
          native = takeWhile (\<lambda>c. \<not> is_amd64 c) cs1;
          foreign = dropWhile (\<lambda>c. \<not> is_amd64 c) cs1;
          ends = (\<lambda>xs. if xs = [] then None else Some (hd xs, List.last xs))
      in if cs = [] then w
         else if isArm64EC (cf_machine cfg)
         then w\<lparr>w_sections := (w_sections w)[i := (w_sections w ! i)\<lparr>ls_chunks := cs1\<rparr>],
                w_pdata := (if native = [] then w_pdata w else ends native),
                w_hybridPdata := (if foreign = [] then w_hybridPdata w else ends foreign)\<rparr>
         else w\<lparr>w_pdata := ends cs\<rparr>)"

definition split_pdata :: "lay_config \<Rightarrow> writer \<Rightarrow> writer" where
  "split_pdata cfg w =
     (case List.find (\<lambda>i. ls_id (w_sections w ! i) = w_pdataSec w) [0..<length (w_sections w)] of
        Some i \<Rightarrow> split_pdata_section cfg w i
      | None \<Rightarrow> w)"

text \<open>The loops of \<open>mergeSections\<close>: all merges but \<open>.bss\<close>, then \<open>.bss\<close> unless its destination is shared.\<close>

definition mergeSections :: "lay_config \<Rightarrow> writer \<Rightarrow> lay_error + writer" where
  "mergeSections cfg w =
     (case merge_all cfg (cf_merge cfg) (split_pdata cfg w) of
        Inl e \<Rightarrow> Inl e
      | Inr w1 \<Rightarrow>
          (case map_of (cf_merge cfg) ''.bss'' of
             None \<Rightarrow> Inr w1
           | Some t \<Rightarrow>
               (case getMergeDestination cfg ''.bss'' t of
                  Inl e \<Rightarrow> Inl e
                | Inr toSection \<Rightarrow>
                    (case map_of (cf_section cfg) toSection of
                       Some chars \<Rightarrow>
                         if chars AND 0x10000000 \<noteq> 0 then Inr w1 else mergeSection cfg (''.bss'', toSection) w1
                     | None \<Rightarrow> mergeSection cfg (''.bss'', toSection) w1))))"

text \<open>\<open>sortECChunks\<close>: the comparison puts chunks without a range first, then orders by the range.\<close>

definition ec_rank :: "lchunk \<Rightarrow> nat" where
  "ec_rank ck = (case lc_ecRange ck of None \<Rightarrow> 0 | Some t \<Rightarrow> Suc t)"

definition sortECChunks :: "lay_config \<Rightarrow> writer \<Rightarrow> writer" where
  "sortECChunks cfg w =
     (if isArm64EC (cf_machine cfg)
      then w\<lparr>w_sections := map (\<lambda>s. if isCodeSection s
                 then s\<lparr>ls_chunks := sort_key (\<lambda>c. ec_rank (w_chunks w ! c)) (ls_chunks s)\<rparr> else s) (w_sections w)\<rparr>
      else w)"

definition removeUnusedSections :: "writer \<Rightarrow> writer" where
  "removeUnusedSections w = w\<lparr>w_sections := filter (\<lambda>s. ls_id s = w_relocSec w \<or> ls_chunks s \<noteq> []) (w_sections w)\<rparr>"

definition removeEmptySections :: "writer \<Rightarrow> writer" where
  "removeEmptySections w = w\<lparr>w_sections := filter (\<lambda>s. ls_VirtualSize s \<noteq> 0) (w_sections w)\<rparr>"

text \<open>Sections named in \<open>/sectionlayout\<close> come first, by their rank; the sort is stable.\<close>

definition section_rank :: "lay_config \<Rightarrow> OutputSection \<Rightarrow> nat option" where
  "section_rank cfg s = map_of (cf_sectionOrder cfg) (ls_name s)"

definition layoutSections :: "lay_config \<Rightarrow> writer \<Rightarrow> writer" where
  "layoutSections cfg w =
     (if cf_sectionOrder cfg = [] then w
      else w\<lparr>w_sections :=
        sort_key (\<lambda>s. case section_rank cfg s of Some r \<Rightarrow> r
            | None \<Rightarrow> Suc (Max (insert 0 (snd ` set (cf_sectionOrder cfg))))) (w_sections w)\<rparr>)"

definition set_chunk_indices :: "u32 \<Rightarrow> chunk_id list \<Rightarrow> lchunk list \<Rightarrow> lchunk list" where
  "set_chunk_indices idx cs cks = fold (\<lambda>c cks. cks[c := (cks ! c)\<lparr>lc_osidx := ucast idx\<rparr>]) cs cks"

fun number_sections :: "u32 \<Rightarrow> OutputSection list \<Rightarrow> lchunk list \<Rightarrow> OutputSection list \<times> lchunk list" where
  "number_sections idx [] cks = ([], cks)"
| "number_sections idx (s # ss) cks =
     (let (ss', cks') = number_sections (idx + 1) ss (set_chunk_indices idx (ls_chunks s) cks)
      in (s\<lparr>ls_sectionIndex := idx\<rparr> # ss', cks'))"

definition set_merge_indices :: "chunk_id \<times> (chunk_id \<times> bool \<times> nat) list \<Rightarrow> lchunk list \<Rightarrow> lchunk list" where
  "set_merge_indices mc cks =
     fold (\<lambda>(sc, live, off) cks. if live then cks[sc := (cks ! sc)\<lparr>lc_osidx := lc_osidx (cks ! fst mc)\<rparr>] else cks)
       (snd mc) cks"

definition assignOutputSectionIndices :: "writer \<Rightarrow> writer" where
  "assignOutputSectionIndices w =
     (let (ss, cks) = number_sections 1 (w_sections w) (w_chunks w)
      in w\<lparr>w_sections := ss, w_chunks := fold set_merge_indices (w_mergeChunks w) cks\<rparr>)"

definition setSectionPermissions :: "lay_config \<Rightarrow> writer \<Rightarrow> writer" where
  "setSectionPermissions cfg w =
     fold (\<lambda>(n, perm) w. w\<lparr>w_sections := map (\<lambda>s. if ls_name s = n then setPermissions perm s else s) (w_sections w)\<rparr>)
       (cf_section cfg) w"

definition getSizeOfInitializedData :: "writer \<Rightarrow> u32" where
  "getSizeOfInitializedData w =
     fold (\<lambda>s res. if ls_Characteristics s AND 0x40 \<noteq> 0 then res + ls_SizeOfRawData s else res) (w_sections w) 0"

section \<open>Addresses\<close>

definition dosStubSize :: "lay_config \<Rightarrow> nat" where
  "dosStubSize cfg = (case cf_dosStub cfg of Some n \<Rightarrow> alignTo n 8 | None \<Rightarrow> 64 + 56)"

text \<open>DOS stub, PE signature, file header, data directories, section table, optional header.\<close>

definition headers_size :: "lay_config \<Rightarrow> nat \<Rightarrow> nat" where
  "headers_size cfg n =
     alignTo (dosStubSize cfg + 4 + 20 + 8 * 16 + 40 * n + (if is64Bit (cf_machine cfg) then 112 else 96)) (cf_fileAlign cfg)"

text \<open>\<open>createECCodeMap\<close>: maximal runs of chunks of one EC range, empty section chunks skipped. The chunk that
  holds the map takes its size from it (\<open>ECCodeMapChunk::getSize\<close>).\<close>

fun ec_code_runs ::
  "lchunk list \<Rightarrow> (chunk_id \<times> chunk_id \<times> nat) option \<Rightarrow> chunk_id list \<Rightarrow> (chunk_id \<times> chunk_id \<times> nat) list" where
  "ec_code_runs cks cur [] = (case cur of None \<Rightarrow> [] | Some r \<Rightarrow> [r])"
| "ec_code_runs cks cur (c # cs) =
     (if lc_isSection (cks ! c) \<and> lc_size (cks ! c) = 0 then ec_code_runs cks cur cs
      else if lc_ecRange (cks ! c) \<noteq> map_option (snd \<circ> snd) cur
      then (case cur of None \<Rightarrow> [] | Some r \<Rightarrow> [r]) @
           ec_code_runs cks (map_option (\<lambda>t. (c, c, t)) (lc_ecRange (cks ! c))) cs
      else ec_code_runs cks (map_option (\<lambda>(first, _, t). (first, c, t)) cur) cs)"

definition createECCodeMap :: "lay_config \<Rightarrow> writer \<Rightarrow> writer" where
  "createECCodeMap cfg w =
     (if \<not> cf_symtabEC cfg then w
      else
        (let runs = ec_code_runs (w_chunks w) None (concat (map ls_chunks (w_sections w)))
         in w\<lparr>w_codeMap := runs,
              w_chunks := (case w_codeMapChunk w of
                 Some c \<Rightarrow> (w_chunks w)[c := (w_chunks w ! c)\<lparr>lc_size := 8 * length runs\<rparr>]
               | None \<Rightarrow> w_chunks w)\<rparr>))"

text \<open>One chunk: the section size so far, the size of its data, the EC range of the previous chunk.\<close>

definition place_chunk ::
  "lay_config \<Rightarrow> bool \<Rightarrow> nat \<Rightarrow> chunk_id \<Rightarrow> nat \<times> nat \<times> nat option \<times> lchunk list \<Rightarrow> nat \<times> nat \<times> nat option \<times> lchunk list" where
  "place_chunk cfg is_code rva c st =
     (let (virtualSize, rawSize, prevECRange, cks) = st;
          ck = cks ! c;
          padding = (if is_code then cf_functionPadMin cfg else 0);
          boundary = isArm64EC (cf_machine cfg) \<and> is_code \<and> lc_ecRange ck \<noteq> prevECRange;
          vs1 = (if boundary then alignTo virtualSize 4096 else virtualSize);
          prev1 = (if boundary then lc_ecRange ck else prevECRange);
          vs2 = (if padding \<noteq> 0 \<and> lc_hotPatchable ck then vs1 + padding else vs1);
          vs3 = (if lc_entryThunk ck then vs2 + 4 else vs2);
          vs4 = alignTo vs3 (2 ^ lc_p2Align ck);
          cks1 = cks[c := ck\<lparr>lc_rva := of_nat (rva + vs4)\<rparr>];
          vs5 = vs4 + lc_size ck
      in (vs5, if lc_hasData ck then alignTo vs5 (cf_fileAlign cfg) else rawSize, prev1, cks1))"

definition baserel_chunk :: "u32 \<times> Baserel list \<Rightarrow> lchunk" where
  "baserel_chunk b =
     \<lparr>lc_size = length (BaserelChunk (fst b) (snd b)), lc_p2Align = 0, lc_hasData = True, lc_hotPatchable = False,
      lc_entryThunk = False, lc_ecRange = None, lc_isSection = False, lc_machine = I386, lc_repl = 0, lc_file = 0,
      lc_origRelocs = [], lc_relocs = [], lc_branch = NoBranch, lc_baserels = (\<lambda>_. []),
      lc_rva = 0, lc_osidx = 0\<rparr>"

definition section_baserels :: "lchunk list \<Rightarrow> OutputSection \<Rightarrow> u32 \<times> Baserel list list" where
  "section_baserels cks s = (ls_Characteristics s, map (\<lambda>c. lc_baserels (cks ! c) (lc_rva (cks ! c))) (ls_chunks s))"

text \<open>Rebuilding \<open>.reloc\<close>: the old chunks are dropped and one chunk per page block is created.\<close>

definition rebuild_reloc :: "lay_config \<Rightarrow> nat \<Rightarrow> writer \<Rightarrow> writer" where
  "rebuild_reloc cfg i w =
     (let cleared = (w_sections w)[i := (w_sections w ! i)\<lparr>ls_chunks := []\<rparr>];
          blocks = addBaserels (cf_relocatable cfg) (map (section_baserels (w_chunks w)) cleared);
          n = length (w_chunks w);
          ids = [n..<n + length blocks] @ (case w_dynamicRelocs w of Some c \<Rightarrow> [c] | None \<Rightarrow> [])
      in w\<lparr>w_chunks := w_chunks w @ map baserel_chunk blocks,
           w_sections := cleared[i := (cleared ! i)\<lparr>ls_chunks := ids\<rparr>]\<rparr>)"

definition layout_section ::
  "lay_config \<Rightarrow> nat \<Rightarrow> nat \<times> nat \<times> lay_error list \<times> writer \<Rightarrow> nat \<times> nat \<times> lay_error list \<times> writer" where
  "layout_section cfg i st =
     (let (rva, fileSize, errs, w) = st;
          w1 = (if ls_id (w_sections w ! i) = w_relocSec w then rebuild_reloc cfg i w else w);
          sec = w_sections w1 ! i;
          (virtualSize, rawSize, prev, cks) =
            fold (place_chunk cfg (isCodeSection sec) rva) (ls_chunks sec) (0, 0, None, w_chunks w1);
          errs1 = (if virtualSize > 2 ^ 32 - 1 then errs @ [SectionTooLarge (ls_name sec)] else errs);
          sec1 = sec\<lparr>ls_VirtualAddress := of_nat rva, ls_VirtualSize := of_nat virtualSize, ls_SizeOfRawData := of_nat rawSize,
            ls_PointerToRawData := (if rawSize \<noteq> 0 then of_nat fileSize else ls_PointerToRawData sec)\<rparr>
      in (rva + alignTo virtualSize (cf_align cfg), fileSize + alignTo rawSize (cf_fileAlign cfg), errs1,
          w1\<lparr>w_chunks := cks, w_sections := (w_sections w1)[i := sec1]\<rparr>))"

text \<open>\<open>MergeChunk::assignSubsectionRVAs\<close>: the live members of a merge chunk, each with the offset its contents
  have in the string table.\<close>

definition assignSubsectionRVAs :: "chunk_id \<times> (chunk_id \<times> bool \<times> nat) list \<Rightarrow> lchunk list \<Rightarrow> lchunk list" where
  "assignSubsectionRVAs mc cks =
     fold (\<lambda>(sc, live, off) cks.
         if live then cks[sc := (cks ! sc)\<lparr>lc_rva := lc_rva (cks ! fst mc) + of_nat off\<rparr>] else cks) (snd mc) cks"

definition assignAddresses :: "lay_config \<Rightarrow> writer \<Rightarrow> lay_error list \<times> writer" where
  "assignAddresses cfg w =
     (let w0 = createECCodeMap cfg w;
          n = length (w_sections w0);
          headers = headers_size cfg n;
          (rva, fileSize, errs, w1) =
            fold (layout_section cfg) [0..<n] (alignTo headers (cf_align cfg), headers, [], w0)
      in (errs, w1\<lparr>w_chunks := fold assignSubsectionRVAs (w_mergeChunks w1) (w_chunks w1), w_sizeOfHeaders := headers, w_fileSize := fileSize, w_sizeOfImage := alignTo rva (cf_align cfg)\<rparr>))"

section \<open>Merging keeps every chunk\<close>

definition merge_step :: "lay_config \<Rightarrow> (string \<times> string) set" where
  "merge_step cfg = {(a, b). map_of (cf_merge cfg) a = Some b}"

lemma merge_step_fun: "(a, b) \<in> merge_step cfg \<Longrightarrow> (a, c) \<in> merge_step cfg \<Longrightarrow> b = c"
  by (simp add: merge_step_def)

lemma merge_end_reached:
  assumes "(t, c) \<in> (merge_step cfg)\<^sup>*" and "(t, d) \<in> (merge_step cfg)\<^sup>*" and "map_of (cf_merge cfg) d = None"
  shows "(c, d) \<in> (merge_step cfg)\<^sup>*"
  using assms
proof (induction rule: rtrancl_induct)
  case (step c c')
  then have "(c, d) \<in> (merge_step cfg)\<^sup>*" by simp
  then show ?case
  proof (cases rule: converse_rtranclE)
    case base
    then show ?thesis using step.hyps(2) assms(3) by (simp add: merge_step_def)
  next
    case (step y)
    then show ?thesis using \<open>(c, c') \<in> merge_step cfg\<close> merge_step_fun by blast
  qed
qed simp

lemma merge_end_stuck: "map_of (cf_merge cfg) d = None \<Longrightarrow> (d, x) \<in> (merge_step cfg)\<^sup>* \<Longrightarrow> x = d"
  by (auto simp: merge_step_def elim: converse_rtranclE)

lemma merge_cycle_stays:
  assumes "(t, d) \<in> (merge_step cfg)\<^sup>*" and "(t, t) \<in> (merge_step cfg)\<^sup>+"
  shows "(d, d) \<in> (merge_step cfg)\<^sup>+"
  using assms
proof (induction rule: rtrancl_induct)
  case (step y z)
  then obtain z' where "(y, z') \<in> merge_step cfg" "(z', y) \<in> (merge_step cfg)\<^sup>*" by (meson tranclD)
  then show ?case using step.hyps(2) merge_step_fun by (metis rtrancl_into_trancl1)
qed simp

lemma merge_dest_loop_sound:
  "merge_dest_loop (cf_merge cfg) names f t = Inr d \<Longrightarrow>
   (t, d) \<in> (merge_step cfg)\<^sup>* \<and> map_of (cf_merge cfg) d = None"
proof (induction "cf_merge cfg" names f t rule: merge_dest_loop.induct)
  case (1 names f t)
  show ?case
  proof (cases "map_of (cf_merge cfg) t")
    case None
    then show ?thesis using 1(2) by (simp add: merge_dest_loop.simps [of _ names] split: if_splits)
  next
    case (Some t')
    then have "(t', d) \<in> (merge_step cfg)\<^sup>* \<and> map_of (cf_merge cfg) d = None"
      using 1 by (simp add: merge_dest_loop.simps [of _ names] split: if_splits)
    then show ?thesis using Some by (auto simp: merge_step_def intro: converse_rtrancl_into_rtrancl)
  qed
qed

lemma merge_dest_loop_error:
  "merge_dest_loop (cf_merge cfg) names f t = Inl e \<Longrightarrow> \<forall>n\<in>names. (n, t) \<in> (merge_step cfg)\<^sup>+ \<Longrightarrow>
   e = MergeCycle f \<and> (\<exists>c. (t, c) \<in> (merge_step cfg)\<^sup>* \<and> (c, c) \<in> (merge_step cfg)\<^sup>+)"
proof (induction "cf_merge cfg" names f t rule: merge_dest_loop.induct)
  case (1 names f t)
  show ?case
  proof (cases "t \<in> names")
    case True
    then show ?thesis using 1(2,3) by (auto simp: merge_dest_loop.simps [of _ names])
  next
    case False
    then obtain t' where t': "map_of (cf_merge cfg) t = Some t'"
      using 1(2) by (cases "map_of (cf_merge cfg) t") (simp_all add: merge_dest_loop.simps [of _ names])
    then have st: "(t, t') \<in> merge_step cfg" by (simp add: merge_step_def)
    have "\<forall>n\<in>insert t names. (n, t') \<in> (merge_step cfg)\<^sup>+"
      using 1(3) st by (auto intro: trancl_into_trancl)
    then have "e = MergeCycle f \<and> (\<exists>c. (t', c) \<in> (merge_step cfg)\<^sup>* \<and> (c, c) \<in> (merge_step cfg)\<^sup>+)"
      using 1(1) [OF False t'] 1(2) False t' by (simp add: merge_dest_loop.simps [of _ names])
    then show ?thesis using st by (meson converse_rtrancl_into_rtrancl)
  qed
qed

text \<open>C34: \<open>getMergeDestination\<close> always returns: the section at the end of the chain of \<open>/merge\<close> options if the
  chain ends, and otherwise exactly the cycle error.\<close>

theorem getMergeDestination_total:
  "(\<forall>d. getMergeDestination cfg f t = Inr d \<longleftrightarrow> (t, d) \<in> (merge_step cfg)\<^sup>* \<and> map_of (cf_merge cfg) d = None) \<and>
   (getMergeDestination cfg f t = Inl (MergeCycle f) \<longleftrightarrow>
      (\<nexists>d. (t, d) \<in> (merge_step cfg)\<^sup>* \<and> map_of (cf_merge cfg) d = None))"
proof -
  have sound: "(t, d) \<in> (merge_step cfg)\<^sup>* \<and> map_of (cf_merge cfg) d = None" if "getMergeDestination cfg f t = Inr d" for d
    using that unfolding getMergeDestination_def by (rule merge_dest_loop_sound)
  have error: "e = MergeCycle f \<and> (\<nexists>d. (t, d) \<in> (merge_step cfg)\<^sup>* \<and> map_of (cf_merge cfg) d = None)"
    if err: "getMergeDestination cfg f t = Inl e" for e
  proof -
    obtain c where c: "e = MergeCycle f" "(t, c) \<in> (merge_step cfg)\<^sup>*" "(c, c) \<in> (merge_step cfg)\<^sup>+"
      using merge_dest_loop_error [OF err [unfolded getMergeDestination_def]] by blast
    have "map_of (cf_merge cfg) d \<noteq> None" if "(t, d) \<in> (merge_step cfg)\<^sup>*" for d
    proof
      assume d: "map_of (cf_merge cfg) d = None"
      have "(c, d) \<in> (merge_step cfg)\<^sup>*" by (rule merge_end_reached [OF c(2) that d])
      then have "(d, d) \<in> (merge_step cfg)\<^sup>+" using c(3) by (rule merge_cycle_stays)
      then obtain x where "(d, x) \<in> merge_step cfg" by (meson tranclD)
      then show False using d by (simp add: merge_step_def)
    qed
    then show ?thesis using c(1) by blast
  qed
  have complete: "getMergeDestination cfg f t = Inr d"
    if d: "(t, d) \<in> (merge_step cfg)\<^sup>*" "map_of (cf_merge cfg) d = None" for d
  proof (cases "getMergeDestination cfg f t")
    case (Inl e)
    then show ?thesis using error d by blast
  next
    case (Inr d')
    then have "(d', d) \<in> (merge_step cfg)\<^sup>*" using sound [OF Inr] d merge_end_reached by blast
    then have "d = d'" using sound [OF Inr] merge_end_stuck by blast
    then show ?thesis using Inr by simp
  qed
  have "getMergeDestination cfg f t = Inl (MergeCycle f)" if "\<nexists>d. (t, d) \<in> (merge_step cfg)\<^sup>* \<and> map_of (cf_merge cfg) d = None"
    using that sound error by (cases "getMergeDestination cfg f t") blast+
  then show ?thesis using sound error complete by blast
qed

lemma findSection_Some:
  "findSection w n = Some i \<Longrightarrow> i < length (w_sections w) \<and> ls_name (w_sections w ! i) = n"
proof -
  assume "findSection w n = Some i"
  then obtain s where "List.find (\<lambda>(i, sec). ls_name sec = n) (List.enumerate 0 (w_sections w)) = Some (i, s)"
    by (auto simp: findSection_def)
  then have "(i, s) \<in> set (List.enumerate 0 (w_sections w))" "ls_name s = n"
    by (auto simp: find_Some_iff set_conv_nth)
  then show ?thesis by (auto simp: in_set_enumerate_eq)
qed

definition all_chunks :: "writer \<Rightarrow> chunk_id multiset" where
  "all_chunks w = mset (concat (map ls_chunks (w_sections w)))"

lemma all_chunks_sum: "all_chunks w = (\<Sum>s\<leftarrow>w_sections w. mset (ls_chunks s))"
  by (simp add: all_chunks_def mset_concat comp_def)

lemma sum_list_update_mset:
  fixes f :: "'a \<Rightarrow> 'b multiset"
  assumes "i < length xs"
  shows "sum_list (map f (xs[i := x])) + f (xs ! i) = sum_list (map f xs) + f x"
  using assms by (induction xs arbitrary: i) (auto split: nat.splits simp: ac_simps)

lemma update_keeps_chunks:
  assumes "i < length (w_sections w)" and "mset (ls_chunks s) = mset (ls_chunks (w_sections w ! i))"
  shows "all_chunks (w\<lparr>w_sections := (w_sections w)[i := s]\<rparr>) = all_chunks w"
  using sum_list_update_mset [OF assms(1), of "\<lambda>s. mset (ls_chunks s)" s] assms(2) by (simp add: all_chunks_sum)

lemma mergeSection_chunks:
  assumes m: "mergeSection cfg p w = Inr w'" and p: "map_of (cf_merge cfg) (fst p) \<noteq> None"
  shows "all_chunks w' = all_chunks w"
proof -
  consider "w' = w"
    | i d where "findSection w (fst p) = Some i"
        "w' = w\<lparr>w_sections := (w_sections w)[i := (w_sections w ! i)\<lparr>ls_name := d\<rparr>]\<rparr>"
    | i j d where "getMergeDestination cfg (fst p) (snd p) = Inr d" "findSection w (fst p) = Some i" "findSection w d = Some j"
        "w' = w\<lparr>w_sections := (w_sections w)[j := fst (merge_sections (w_sections w ! j) (w_sections w ! i)),
           i := snd (merge_sections (w_sections w ! j) (w_sections w ! i))]\<rparr>"
  proof (cases "fst p = snd p")
    case True
    then show ?thesis using m that(1) by (simp add: mergeSection_def)
  next
    case False
    then obtain d where d: "getMergeDestination cfg (fst p) (snd p) = Inr d"
      using m by (cases "getMergeDestination cfg (fst p) (snd p)") (simp_all add: mergeSection_def)
    show ?thesis
    proof (cases "findSection w (fst p)")
      case None
      then show ?thesis using m False d that(1) by (simp add: mergeSection_def)
    next
      case i: (Some i)
      then show ?thesis
        using m False d that(2) [OF i, of d] that(3) [OF d i] by (cases "findSection w d") (simp_all add: mergeSection_def case_prod_unfold Let_def)
    qed
  qed
  then show ?thesis
  proof cases
    case 2
    then show ?thesis using findSection_Some [OF 2(1)] by (simp add: update_keeps_chunks)
  next
    case 3
    let ?ss = "w_sections w" and ?f = "\<lambda>s. mset (ls_chunks s)"
    have "map_of (cf_merge cfg) d = None"
      using merge_dest_loop_sound 3(1) unfolding getMergeDestination_def by blast
    then have ij: "i < length ?ss" "j < length ?ss" "i \<noteq> j"
      using findSection_Some [OF 3(2)] findSection_Some [OF 3(3)] p by auto
    let ?to = "fst (merge_sections (?ss ! j) (?ss ! i))" and ?from = "snd (merge_sections (?ss ! j) (?ss ! i))"
    have "ls_chunks ?to = ls_chunks (?ss ! j) @ ls_chunks (?ss ! i)" "ls_chunks ?from = []"
      by (simp_all add: merge_sections_def Let_def)
    then show ?thesis
      using sum_list_update_mset [of i "?ss[j := ?to]" ?f ?from] sum_list_update_mset [of j ?ss ?f ?to] ij
      by (simp add: all_chunks_sum 3(4) ac_simps)
  qed simp
qed

lemma merge_all_chunks:
  "merge_all cfg ps w = Inr w' \<Longrightarrow> set ps \<subseteq> set (cf_merge cfg) \<Longrightarrow> all_chunks w' = all_chunks w"
proof (induction ps arbitrary: w)
  case (Cons p ps)
  have "map_of (cf_merge cfg) (fst p) \<noteq> None"
    using Cons.prems(2) by (auto simp: map_of_eq_None_iff)
  then show ?case
    using Cons mergeSection_chunks [of cfg p w] by (auto split: if_splits sum.splits)
qed simp

lemma split_pdata_chunks: "all_chunks (split_pdata cfg w) = all_chunks w"
proof (cases "List.find (\<lambda>i. ls_id (w_sections w ! i) = w_pdataSec w) [0..<length (w_sections w)]")
  case (Some i)
  then have i: "i < length (w_sections w)" by (auto simp: find_Some_iff)
  let ?cs = "sort_key (\<lambda>c. if lc_machine (w_chunks w ! c) = AMD64 then 1 else (0 :: nat)) (ls_chunks (w_sections w ! i))"
  have "all_chunks (w\<lparr>w_sections := (w_sections w)[i := (w_sections w ! i)\<lparr>ls_chunks := ?cs\<rparr>]\<rparr>) = all_chunks w"
    using i by (intro update_keeps_chunks) simp_all
  then show ?thesis
    using Some by (simp add: split_pdata_def split_pdata_section_def all_chunks_def Let_def)
qed (simp add: split_pdata_def)

lemma mergeSections_chunks:
  assumes "mergeSections cfg w = Inr w'"
  shows "all_chunks w' = all_chunks w"
proof -
  obtain w1 where w1: "merge_all cfg (cf_merge cfg) (split_pdata cfg w) = Inr w1"
    using assms by (cases "merge_all cfg (cf_merge cfg) (split_pdata cfg w)") (simp_all add: mergeSections_def)
  have k: "all_chunks w1 = all_chunks w" using merge_all_chunks [OF w1] split_pdata_chunks by simp
  show ?thesis
  proof (cases "map_of (cf_merge cfg) ''.bss''")
    case None
    then show ?thesis using assms w1 k by (simp add: mergeSections_def)
  next
    case (Some t)
    obtain d where d: "getMergeDestination cfg ''.bss'' t = Inr d"
      using assms w1 Some by (cases "getMergeDestination cfg ''.bss'' t") (simp_all add: mergeSections_def)
    have "w' = w1 \<or> mergeSection cfg (''.bss'', d) w1 = Inr w'"
      using assms w1 Some d by (cases "map_of (cf_section cfg) d") (simp_all add: mergeSections_def split: if_splits)
    then show ?thesis using k mergeSection_chunks [of cfg "(''.bss'', d)" w1 w'] Some by auto
  qed
qed

lemma sortECChunks_chunks: "all_chunks (sortECChunks cfg w) = all_chunks w"
proof -
  have "map (\<lambda>s. mset (ls_chunks s)) (w_sections (sortECChunks cfg w)) = map (\<lambda>s. mset (ls_chunks s)) (w_sections w)"
    by (simp add: sortECChunks_def)
  then show ?thesis by (metis all_chunks_sum)
qed

lemma removeUnusedSections_chunks: "all_chunks (removeUnusedSections w) = all_chunks w"
proof -
  have "concat (map ls_chunks (filter (\<lambda>s. Q s \<or> ls_chunks s \<noteq> []) ss)) = concat (map ls_chunks ss)" for Q and ss :: "OutputSection list"
    by (induction ss) auto
  then show ?thesis by (simp add: all_chunks_def removeUnusedSections_def)
qed

lemma layoutSections_chunks: "all_chunks (layoutSections cfg w) = all_chunks w"
proof -
  have "mset (map (\<lambda>s. mset (ls_chunks s)) (w_sections (layoutSections cfg w))) = mset (map (\<lambda>s. mset (ls_chunks s)) (w_sections w))"
    by (simp add: layoutSections_def)
  then show ?thesis unfolding all_chunks_sum by (metis sum_mset_sum_list)
qed

text \<open>C35: The phases between the creation of the sections and the assignment of addresses (merging, sorting by
  ARM64EC range, dropping unused sections, \<open>/sectionlayout\<close>) neither lose nor duplicate a chunk.\<close>

theorem layout_phases_keep_chunks:
  assumes "mergeSections cfg w = Inr w1"
  shows "all_chunks (layoutSections cfg (removeUnusedSections (sortECChunks cfg w1))) = all_chunks w"
  by (simp add: layoutSections_chunks removeUnusedSections_chunks sortECChunks_chunks mergeSections_chunks [OF assms])

text \<open>\<open>/merge:.x=.x\<close> is ignored for every section but \<open>.bss\<close>, which is looked up before the test and found in a cycle.\<close>

lemma mergeSections_bss_self:
  "cf_merge cfg = [(''.bss'', ''.bss'')] \<Longrightarrow> mergeSections cfg w = Inl (MergeCycle ''.bss'')"
  "cf_merge cfg = [(''.x'', ''.x'')] \<Longrightarrow> mergeSections cfg w = Inr (split_pdata cfg w)"
  by (simp_all add: mergeSections_def getMergeDestination_def merge_dest_loop.simps mergeSection_def)


section \<open>Sample images\<close>

definition plain_chunk :: "nat \<Rightarrow> nat \<Rightarrow> bool \<Rightarrow> lchunk" where
  "plain_chunk sz p2 dat =
     \<lparr>lc_size = sz, lc_p2Align = p2, lc_hasData = dat, lc_hotPatchable = False, lc_entryThunk = False, lc_ecRange = None,
      lc_isSection = True, lc_machine = AMD64, lc_repl = 0, lc_file = 0, lc_origRelocs = [], lc_relocs = [],
      lc_branch = NoBranch, lc_baserels = (\<lambda>_. []), lc_rva = 0, lc_osidx = 0\<rparr>"

definition sample_cfg :: lay_config where
  "sample_cfg =
     \<lparr>cf_align = 4096, cf_fileAlign = 512, cf_functionPadMin = 0, cf_machine = AMD64, cf_symtabEC = False, cf_imageBase = 0,
      cf_relocatable = False, cf_dosStub = None, cf_merge = [], cf_section = [], cf_sectionOrder = []\<rparr>"

definition sample_writer :: "lchunk list \<Rightarrow> chunk_id list list \<Rightarrow> writer" where
  "sample_writer cks css =
     \<lparr>w_chunks = cks,
      w_sections = map (\<lambda>(i, cs). (new_section i ''.sec'' 0x60000020)\<lparr>ls_chunks := cs\<rparr>) (List.enumerate 0 css),
      w_relocSec = 99, w_pdataSec = 98, w_pdata = None, w_hybridPdata = None, w_dynamicRelocs = None, w_codeMap = [],
      w_codeMapChunk = None, w_mergeChunks = [], w_files = [], w_sizeOfHeaders = 0, w_fileSize = 0, w_sizeOfImage = 0\<rparr>"

definition merge_sample_cfg :: lay_config where
  "merge_sample_cfg = sample_cfg\<lparr>cf_merge := [(''.a'', ''.b''), (''.b'', ''.sec'')]\<rparr>"

definition merge_sample :: writer where
  "merge_sample =
     (sample_writer [] [[0], [1, 2]])\<lparr>w_sections :=
        [(new_section 0 ''.sec'' 0)\<lparr>ls_chunks := [0]\<rparr>, (new_section 1 ''.a'' 0)\<lparr>ls_chunks := [1, 2]\<rparr>]\<rparr>"

lemma merge_sample_merged:
  "mergeSections merge_sample_cfg merge_sample = Inr (merge_sample\<lparr>w_sections :=
      [(new_section 0 ''.sec'' 0)\<lparr>ls_chunks := [0, 1, 2]\<rparr>, (new_section 1 ''.a'' 0)\<lparr>ls_chunks := []\<rparr>]\<rparr>)"
  by (simp add: mergeSections_def merge_sample_cfg_def merge_sample_def sample_cfg_def sample_writer_def split_pdata_def
      mergeSection_def getMergeDestination_def merge_dest_loop.simps findSection_def merge_sections_def new_section_def
      upt_rec)

theorem layout_phases_keep_chunks_witness:
  "all_chunks (layoutSections merge_sample_cfg (removeUnusedSections (sortECChunks merge_sample_cfg
     (merge_sample\<lparr>w_sections := [(new_section 0 ''.sec'' 0)\<lparr>ls_chunks := [0, 1, 2]\<rparr>, (new_section 1 ''.a'' 0)\<lparr>ls_chunks := []\<rparr>]\<rparr>))))
   = {#0, 1, 2#}"
  using layout_phases_keep_chunks [OF merge_sample_merged] by (simp add: all_chunks_def merge_sample_def new_section_def)

end
