(* ===== verification/Addresses.thy ===== *)
theory Addresses
  imports Layout
begin

text \<open>
  Correctness of \<open>Writer::assignAddresses\<close>: the placement of the chunks of one section, the step from one
  section to the next (with the rebuilt \<open>.reloc\<close> section), and the resulting layout of the image.
\<close>

section \<open>Chunks of one section\<close>

text \<open>Placing chunks changes nothing but their addresses.\<close>

definition same_attrs :: "lchunk \<Rightarrow> lchunk \<Rightarrow> bool" where
  "same_attrs a b \<longleftrightarrow> (\<exists>r. b = a\<lparr>lc_rva := r\<rparr>)"

lemma same_attrs_upd [simp]: "same_attrs a (a\<lparr>lc_rva := r\<rparr>)"
  unfolding same_attrs_def by blast

lemma same_attrs_refl [simp]: "same_attrs a a"
  unfolding same_attrs_def by (rule exI [of _ "lc_rva a"]) simp

lemma same_attrs_trans: "same_attrs a b \<Longrightarrow> same_attrs b c \<Longrightarrow> same_attrs a c"
  unfolding same_attrs_def by (elim exE) (simp, blast)

lemma same_attrsD:
  assumes "same_attrs a b"
  shows "lc_size b = lc_size a" "lc_p2Align b = lc_p2Align a" "lc_hasData b = lc_hasData a"
  using assms unfolding same_attrs_def by (elim exE; simp)+

definition moved :: "chunk_id set \<Rightarrow> lchunk list \<Rightarrow> lchunk list \<Rightarrow> bool" where
  "moved cs cks cks' \<longleftrightarrow>
     length cks \<le> length cks' \<and> (\<forall>c<length cks. same_attrs (cks ! c) (cks' ! c) \<and> (c \<notin> cs \<longrightarrow> cks' ! c = cks ! c))"

lemma moved_refl [simp]: "moved cs cks cks"
  by (simp add: moved_def)

lemma moved_trans: "moved cs a b \<Longrightarrow> moved ds b c \<Longrightarrow> moved (cs \<union> ds) a c"
  unfolding moved_def by (auto intro: same_attrs_trans)

lemma moved_mono: "moved cs a b \<Longrightarrow> cs \<subseteq> ds \<Longrightarrow> moved ds a b"
  unfolding moved_def by blast

lemma moved_update: "c \<in> cs \<Longrightarrow> moved cs cks (cks[c := (cks ! c)\<lparr>lc_rva := r\<rparr>])"
  unfolding moved_def by (metis length_list_update nth_list_update_eq nth_list_update_neq order_refl same_attrs_refl same_attrs_upd)

lemma moved_append: "moved cs cks (cks @ new)"
  by (simp add: moved_def nth_append)

lemma moved_keep: "moved cs cks cks' \<Longrightarrow> c < length cks \<Longrightarrow> c \<notin> cs \<Longrightarrow> cks' ! c = cks ! c"
  by (simp add: moved_def)

lemma moved_length: "moved cs cks cks' \<Longrightarrow> length cks \<le> length cks'"
  by (simp add: moved_def)

text \<open>The offsets of the chunks of a section and what they guarantee.\<close>

definition chunk_end :: "lchunk list \<Rightarrow> chunk_id list \<Rightarrow> nat list \<Rightarrow> nat \<Rightarrow> nat" where
  "chunk_end cks cs offs k = offs ! k + lc_size (cks ! (cs ! k))"

definition placed :: "lchunk list \<Rightarrow> nat \<Rightarrow> nat \<Rightarrow> nat \<Rightarrow> chunk_id list \<Rightarrow> nat list \<Rightarrow> bool" where
  "placed cks rva vs raw cs offs \<longleftrightarrow>
     length offs = length cs \<and>
     (\<forall>k<length cs. lc_rva (cks ! (cs ! k)) = of_nat (rva + offs ! k) \<and>
        2 ^ lc_p2Align (cks ! (cs ! k)) dvd offs ! k \<and> chunk_end cks cs offs k \<le> vs \<and>
        (lc_hasData (cks ! (cs ! k)) \<longrightarrow> chunk_end cks cs offs k \<le> raw)) \<and>
     (\<forall>k l. k < l \<longrightarrow> l < length cs \<longrightarrow> chunk_end cks cs offs k \<le> offs ! l)"

lemma placed_cong:
  assumes "\<And>c. c \<in> set cs \<Longrightarrow> cks' ! c = cks ! c"
  shows "placed cks' rva vs raw cs offs = placed cks rva vs raw cs offs"
  using assms by (simp add: placed_def chunk_end_def)

lemma placed_Nil [simp]: "placed cks rva vs raw [] offs \<longleftrightarrow> offs = []"
  by (simp add: placed_def)

lemma placed_snoc:
  assumes p: "placed cks rva vs raw cs offs" and c: "c < length cks" "c \<notin> set cs"
    and off: "vs \<le> off" "2 ^ lc_p2Align (cks ! c) dvd off"
    and vs': "off + lc_size (cks ! c) \<le> vs'" and raw: "raw \<le> raw'" "lc_hasData (cks ! c) \<longrightarrow> off + lc_size (cks ! c) \<le> raw'"
  shows "placed (cks[c := (cks ! c)\<lparr>lc_rva := of_nat (rva + off)\<rparr>]) rva vs' raw' (cs @ [c]) (offs @ [off])"
proof -
  have other: "(cks[c := (cks ! c)\<lparr>lc_rva := of_nat (rva + off)\<rparr>]) ! (cs ! k) = cks ! (cs ! k)" if "k < length cs" for k
    using c(2) that by (metis nth_list_update_neq nth_mem)
  have len: "length offs = length cs" using p by (simp add: placed_def)
  have old: "chunk_end cks cs offs k \<le> vs" "lc_hasData (cks ! (cs ! k)) \<Longrightarrow> chunk_end cks cs offs k \<le> raw" if "k < length cs" for k
    using p that by (simp_all add: placed_def)
  show ?thesis
    unfolding placed_def
  proof (intro conjI allI impI, goal_cases)
    case 1 show ?case using len by simp
  next
    case (2 k) then show ?case using p other c len by (cases "k = length cs") (auto simp: placed_def nth_append)
  next
    case (3 k) then show ?case using p other c len off by (cases "k = length cs") (auto simp: placed_def nth_append)
  next
    case (4 k) then show ?case using old [of k] other c len off vs'
      by (cases "k = length cs") (auto simp: chunk_end_def nth_append)
  next
    case (5 k) then show ?case using old [of k] other c len raw
      by (cases "k = length cs") (auto simp: chunk_end_def nth_append)
  next
    case (6 k l)
    then have k: "k < length cs" by simp
    show ?case
    proof (cases "l = length cs")
      case True
      then show ?thesis using old(1) [OF k] off(1) k other [OF k] len by (simp add: chunk_end_def nth_append)
    next
      case False
      then have "l < length cs" using 6 by simp
      then show ?thesis using p 6 k other [OF k] len by (simp add: chunk_end_def nth_append placed_def)
    qed
  qed
qed

lemma place_chunk_step:
  fixes cfg :: lay_config
  assumes "place_chunk cfg is_code rva c (vs, raw, prev, cks) = (vs', raw', prev', cks')"
    and "0 < cf_fileAlign cfg"
  obtains off where "vs \<le> off" and "2 ^ lc_p2Align (cks ! c) dvd off" and "vs' = off + lc_size (cks ! c)"
    and "raw' = (if lc_hasData (cks ! c) then alignTo vs' (cf_fileAlign cfg) else raw)"
    and "cks' = cks[c := (cks ! c)\<lparr>lc_rva := of_nat (rva + off)\<rparr>]"
proof -
  define vs1 where "vs1 = (if isArm64EC (cf_machine cfg) \<and> is_code \<and> lc_ecRange (cks ! c) \<noteq> prev then alignTo vs 4096 else vs)"
  define vs2 where "vs2 = (if (if is_code then cf_functionPadMin cfg else 0) \<noteq> 0 \<and> lc_hotPatchable (cks ! c)
     then vs1 + (if is_code then cf_functionPadMin cfg else 0) else vs1)"
  define vs3 where "vs3 = (if lc_entryThunk (cks ! c) then vs2 + 4 else vs2)"
  have "vs \<le> vs1" by (simp add: vs1_def alignTo_ge)
  moreover have "vs1 \<le> vs3" by (simp add: vs3_def vs2_def)
  moreover have "vs3 \<le> alignTo vs3 (2 ^ lc_p2Align (cks ! c))" by (simp add: alignTo_ge)
  ultimately have "vs \<le> alignTo vs3 (2 ^ lc_p2Align (cks ! c))" by linarith
  with assms(1) show thesis
    by (intro that [OF _ alignTo_dvd]) (auto simp: place_chunk_def Let_def vs1_def vs2_def vs3_def)
qed

lemma place_chunks:
  assumes fa: "0 < cf_fileAlign cfg"
    and "distinct cs" and "\<forall>c\<in>set cs. c < length cks"
    and "fold (place_chunk cfg is_code rva) cs (0, 0, None, cks) = (vs, raw, prev, cks')"
  shows "moved (set cs) cks cks' \<and> length cks' = length cks \<and>
    cf_fileAlign cfg dvd raw \<and> raw \<le> alignTo vs (cf_fileAlign cfg) \<and> (\<exists>offs. placed cks' rva vs raw cs offs)"
  using assms(2-)
proof (induction cs arbitrary: vs raw prev cks' rule: rev_induct)
  case Nil
  then show ?case by simp
next
  case (snoc c cs)
  obtain vs0 raw0 prev0 cks0 where f: "fold (place_chunk cfg is_code rva) cs (0, 0, None, cks) = (vs0, raw0, prev0, cks0)"
    by (metis prod_cases4)
  then have step: "place_chunk cfg is_code rva c (vs0, raw0, prev0, cks0) = (vs, raw, prev, cks')"
    using snoc.prems(3) by simp
  obtain offs where IH: "moved (set cs) cks cks0" "length cks0 = length cks" "cf_fileAlign cfg dvd raw0"
      "raw0 \<le> alignTo vs0 (cf_fileAlign cfg)" "placed cks0 rva vs0 raw0 cs offs"
    using snoc.IH [OF _ _ f] snoc.prems by auto
  obtain off where off: "vs0 \<le> off" "2 ^ lc_p2Align (cks0 ! c) dvd off" "vs = off + lc_size (cks0 ! c)"
      "raw = (if lc_hasData (cks0 ! c) then alignTo vs (cf_fileAlign cfg) else raw0)"
      "cks' = cks0[c := (cks0 ! c)\<lparr>lc_rva := of_nat (rva + off)\<rparr>]"
    using place_chunk_step [OF step fa] by blast
  have le: "alignTo vs0 (cf_fileAlign cfg) \<le> alignTo vs (cf_fileAlign cfg)"
    using off(1,3) by (intro alignTo_mono [OF fa]) simp
  have "raw0 \<le> raw" and "raw \<le> alignTo vs (cf_fileAlign cfg)"
    using IH(4) le off(4) by (auto split: if_splits)
  moreover have "lc_hasData (cks0 ! c) \<longrightarrow> off + lc_size (cks0 ! c) \<le> raw"
    using off(3,4) alignTo_ge [OF fa, of vs] by simp
  ultimately have "placed cks' rva vs raw (cs @ [c]) (offs @ [off])"
    unfolding off(5) using IH(2,5) off(1,2,3) snoc.prems(1,2) by (intro placed_snoc) auto
  moreover have "cf_fileAlign cfg dvd raw" using IH(3) off(4) by (simp add: alignTo_dvd)
  moreover have "moved (set (cs @ [c])) cks cks'"
    using moved_trans [OF IH(1) moved_update [of c "{c}" cks0]] off(5) by simp
  ultimately show ?case using \<open>raw \<le> _\<close> IH(2) off(5) by auto
qed

section \<open>One section\<close>

text \<open>Chunks belong to one section, members of merge chunks and the dynamic relocations to none.\<close>

definition members :: "writer \<Rightarrow> chunk_id set" where
  "members w = fst ` set (concat (map snd (w_mergeChunks w)))"

definition section_chunks :: "writer \<Rightarrow> nat \<Rightarrow> chunk_id set" where
  "section_chunks w i = set (ls_chunks (w_sections w ! i))"

definition wf_writer :: "writer \<Rightarrow> bool" where
  "wf_writer w \<longleftrightarrow>
     distinct (map ls_id (w_sections w)) \<and>
     (\<forall>i<length (w_sections w). distinct (ls_chunks (w_sections w ! i)) \<and>
        (\<forall>c\<in>section_chunks w i. c < length (w_chunks w) \<and> c \<notin> members w)) \<and>
     (\<forall>i<length (w_sections w). \<forall>j<length (w_sections w). i \<noteq> j \<longrightarrow> section_chunks w i \<inter> section_chunks w j = {}) \<and>
     (\<forall>c\<in>set_option (w_dynamicRelocs w). c < length (w_chunks w) \<and> c \<notin> members w \<and>
        (\<forall>i<length (w_sections w). ls_id (w_sections w ! i) \<noteq> w_relocSec w \<longrightarrow> c \<notin> section_chunks w i)) \<and>
     (\<forall>c\<in>members w. c < length (w_chunks w))"

lemma wf_writerD:
  assumes "wf_writer w"
  shows "distinct (map ls_id (w_sections w))"
    "i < length (w_sections w) \<Longrightarrow> distinct (ls_chunks (w_sections w ! i))"
    "i < length (w_sections w) \<Longrightarrow> c \<in> section_chunks w i \<Longrightarrow> c < length (w_chunks w)"
    "i < length (w_sections w) \<Longrightarrow> c \<in> section_chunks w i \<Longrightarrow> c \<notin> members w"
    "i < length (w_sections w) \<Longrightarrow> j < length (w_sections w) \<Longrightarrow> i \<noteq> j \<Longrightarrow> section_chunks w i \<inter> section_chunks w j = {}"
    "d \<in> set_option (w_dynamicRelocs w) \<Longrightarrow> d < length (w_chunks w)"
    "d \<in> set_option (w_dynamicRelocs w) \<Longrightarrow> d \<notin> members w"
    "d \<in> set_option (w_dynamicRelocs w) \<Longrightarrow> i < length (w_sections w) \<Longrightarrow> ls_id (w_sections w ! i) \<noteq> w_relocSec w \<Longrightarrow>
       d \<notin> section_chunks w i"
    "m \<in> members w \<Longrightarrow> m < length (w_chunks w)"
  using assms unfolding wf_writer_def by blast+

lemma section_ids_distinct:
  "wf_writer w \<Longrightarrow> i < length (w_sections w) \<Longrightarrow> j < length (w_sections w) \<Longrightarrow>
   ls_id (w_sections w ! i) = ls_id (w_sections w ! j) \<Longrightarrow> i = j"
  unfolding wf_writer_def by (metis length_map nth_eq_iff_index_eq nth_map)

text \<open>Steps that keep everything but the chunks of one section.\<close>

definition same_frame :: "nat \<Rightarrow> writer \<Rightarrow> writer \<Rightarrow> bool" where
  "same_frame i w w' \<longleftrightarrow>
     length (w_sections w') = length (w_sections w) \<and> (\<forall>j. j \<noteq> i \<longrightarrow> w_sections w' ! j = w_sections w ! j) \<and>
     map ls_id (w_sections w') = map ls_id (w_sections w) \<and>
     w_relocSec w' = w_relocSec w \<and> w_dynamicRelocs w' = w_dynamicRelocs w \<and> w_mergeChunks w' = w_mergeChunks w \<and>
     length (w_chunks w) \<le> length (w_chunks w')"

lemma same_frameD:
  assumes "same_frame i w w'"
  shows "length (w_sections w') = length (w_sections w)" "j \<noteq> i \<Longrightarrow> w_sections w' ! j = w_sections w ! j"
    "members w' = members w" "j \<noteq> i \<Longrightarrow> section_chunks w' j = section_chunks w j"
    "length (w_chunks w) \<le> length (w_chunks w')"
  using assms by (simp_all add: same_frame_def members_def section_chunks_def)

lemma wf_writer_frame:
  assumes wf: "wf_writer w" and fr: "same_frame i w w'" and i: "i < length (w_sections w)"
    and dist: "distinct (ls_chunks (w_sections w' ! i))"
    and sub: "section_chunks w' i \<subseteq> section_chunks w i \<union> {length (w_chunks w)..<length (w_chunks w')} \<union>
       (if ls_id (w_sections w ! i) = w_relocSec w then set_option (w_dynamicRelocs w) else {})"
  shows "wf_writer w'"
proof -
  note f = same_frameD [OF fr]
  have ids: "ls_id (w_sections w' ! j) = ls_id (w_sections w ! j)" if "j < length (w_sections w)" for j
    using fr that f(1) unfolding same_frame_def by (metis nth_map)
  have other: "ls_id (w_sections w ! j) \<noteq> w_relocSec w"
    if "ls_id (w_sections w ! i) = w_relocSec w" "j < length (w_sections w)" "j \<noteq> i" for j
    using section_ids_distinct [OF wf i that(2)] that by auto
  have new: "c < length (w_chunks w') \<and> c \<notin> members w \<and> (\<forall>j<length (w_sections w). j \<noteq> i \<longrightarrow> c \<notin> section_chunks w j)"
    if mem: "c \<in> section_chunks w' i" for c
  proof -
    consider "c \<in> section_chunks w i" | "length (w_chunks w) \<le> c" "c < length (w_chunks w')"
      | "ls_id (w_sections w ! i) = w_relocSec w" "c \<in> set_option (w_dynamicRelocs w)"
      using mem sub by (auto split: if_splits)
    then show ?thesis
    proof cases
      case 1
      then show ?thesis using wf i f(5) unfolding wf_writer_def by (meson disjoint_iff order_less_le_trans)
    next
      case 2
      then show ?thesis using wf unfolding wf_writer_def by (meson leD)
    next
      case 3
      then show ?thesis using wf f(5) other unfolding wf_writer_def by (meson order_less_le_trans)
    qed
  qed
  show ?thesis
    unfolding wf_writer_def
  proof (intro conjI allI impI ballI, goal_cases)
    case 1 then show ?case using wf fr by (simp add: wf_writer_def same_frame_def)
  next
    case (2 j) then show ?case using wf f(1,2) dist by (cases "j = i") (auto simp: wf_writer_def)
  next
    case (3 j c)
    show ?case
    proof (cases "j = i")
      case False
      then have "c < length (w_chunks w)" using 3 wf f(1,4) by (simp add: wf_writer_def)
      then show ?thesis using f(5) by linarith
    qed (use 3 new in blast)
  next
    case (4 j c) then show ?case using wf f new by (cases "j = i") (auto simp: wf_writer_def)
  next
    case (5 j k)
    then show ?case using wf f new unfolding wf_writer_def by (metis disjoint_iff)
  next
    case (6 c) then show ?case using wf fr f(5) unfolding wf_writer_def same_frame_def by (metis order_less_le_trans)
  next
    case (7 c) then show ?case using wf fr f(3) unfolding wf_writer_def same_frame_def by metis
  next
    case (8 c j)
    then have jl: "j < length (w_sections w)" and cs: "c \<in> set_option (w_dynamicRelocs w)"
      and nr: "ls_id (w_sections w ! j) \<noteq> w_relocSec w"
      using fr f(1) ids by (auto simp: same_frame_def)
    then have nc: "c \<notin> section_chunks w j" "c < length (w_chunks w)" using wf unfolding wf_writer_def by blast+
    show ?case
    proof (cases "j = i")
      case True
      then have "section_chunks w' j \<subseteq> section_chunks w j \<union> {length (w_chunks w)..<length (w_chunks w')}" using sub nr by simp
      then show ?thesis using nc by fastforce
    qed (use nc f(4) in simp)
  next
    case (9 c) then show ?case using wf f(3,5) unfolding wf_writer_def by (metis order_less_le_trans)
  qed
qed

lemma rebuild_reloc_frame:
  fixes cfg :: lay_config
  assumes wf: "wf_writer w" and i: "i < length (w_sections w)" and r: "ls_id (w_sections w ! i) = w_relocSec w"
  defines "w' \<equiv> rebuild_reloc cfg i w"
  shows "same_frame i w w'" and "wf_writer w'" and "\<exists>new. w_chunks w' = w_chunks w @ new"
proof -
  define blocks where "blocks = addBaserels (cf_relocatable cfg)
     (map (section_baserels (w_chunks w)) ((w_sections w)[i := (w_sections w ! i)\<lparr>ls_chunks := []\<rparr>]))"
  define ids where "ids = [length (w_chunks w)..<length (w_chunks w) + length blocks] @
     (case w_dynamicRelocs w of Some c \<Rightarrow> [c] | None \<Rightarrow> [])"
  have w': "w' = w\<lparr>w_chunks := w_chunks w @ map baserel_chunk blocks,
      w_sections := (w_sections w)[i := (w_sections w ! i)\<lparr>ls_chunks := ids\<rparr>]\<rparr>"
    using i by (simp add: w'_def rebuild_reloc_def Let_def blocks_def ids_def)
  have ids_eq: "map ls_id ((w_sections w)[i := (w_sections w ! i)\<lparr>ls_chunks := ids\<rparr>]) = map ls_id (w_sections w)"
    by (simp add: map_update list_update_same_conv i)
  show fr: "same_frame i w w'"
    unfolding same_frame_def w' using ids_eq by simp
  have "\<forall>c\<in>set_option (w_dynamicRelocs w). c < length (w_chunks w)" using wf by (simp add: wf_writer_def)
  then have "distinct ids" by (auto simp: ids_def split: option.splits)
  moreover have "set ids \<subseteq> {length (w_chunks w)..<length (w_chunks w')} \<union> set_option (w_dynamicRelocs w)"
    by (auto simp: ids_def w' split: option.splits)
  ultimately show "wf_writer w'"
    using i r by (intro wf_writer_frame [OF wf fr i]) (auto simp: w' section_chunks_def)
  show "\<exists>new. w_chunks w' = w_chunks w @ new" by (simp add: w')
qed

text \<open>A section as laid out: its header and the placement of its chunks.\<close>

definition laid :: "lay_config \<Rightarrow> lchunk list \<Rightarrow> OutputSection \<Rightarrow> nat \<times> nat \<times> nat \<times> nat \<Rightarrow> bool" where
  "laid cfg cks sec = (\<lambda>(rva, file, vs, raw).
     ls_VirtualAddress sec = of_nat rva \<and> ls_VirtualSize sec = of_nat vs \<and> ls_SizeOfRawData sec = of_nat raw \<and>
     (raw \<noteq> 0 \<longrightarrow> ls_PointerToRawData sec = of_nat file) \<and> cf_fileAlign cfg dvd raw \<and>
     (\<exists>offs. placed cks rva vs raw (ls_chunks sec) offs))"

lemma laid_cong:
  "(\<And>c. c \<in> set (ls_chunks sec) \<Longrightarrow> cks' ! c = cks ! c) \<Longrightarrow> laid cfg cks' sec p = laid cfg cks sec p"
  using placed_cong [of "ls_chunks sec" cks' cks] by (cases p) (simp add: laid_def)

lemma layout_section_step:
  assumes wf: "wf_writer w" and i: "i < length (w_sections w)" and fa: "0 < cf_fileAlign cfg"
    and step: "layout_section cfg i (rva, file, errs, w) = (rva', file', errs', w')"
  obtains vs raw where "same_frame i w w'" and "wf_writer w'"
    and "laid cfg (w_chunks w') (w_sections w' ! i) (rva, file, vs, raw)"
    and "rva' = rva + alignTo vs (cf_align cfg)" and "file' = file + raw"
    and "\<And>j c. j < length (w_sections w) \<Longrightarrow> j \<noteq> i \<Longrightarrow> c \<in> section_chunks w j \<Longrightarrow> w_chunks w' ! c = w_chunks w ! c"
    and "errs' = errs @ (if vs > 2 ^ 32 - 1 then [SectionTooLarge (ls_name (w_sections w ! i))] else [])"
proof -
  define w1 where "w1 = (if ls_id (w_sections w ! i) = w_relocSec w then rebuild_reloc cfg i w else w)"
  have w1: "same_frame i w w1" "wf_writer w1" "\<exists>new. w_chunks w1 = w_chunks w @ new"
    using rebuild_reloc_frame [OF wf i, of cfg] wf by (auto simp: w1_def same_frame_def)
  define sec where "sec = w_sections w1 ! i"
  have i1: "i < length (w_sections w1)" using i w1(1) by (simp add: same_frame_def)
  have nm: "ls_name sec = ls_name (w_sections w ! i)"
    using i by (simp add: sec_def w1_def rebuild_reloc_def Let_def)
  obtain vs raw prev cks where f:
      "fold (place_chunk cfg (isCodeSection sec) rva) (ls_chunks sec) (0, 0, None, w_chunks w1) = (vs, raw, prev, cks)"
    by (metis prod_cases4)
  have res: "rva' = rva + alignTo vs (cf_align cfg)" "file' = file + alignTo raw (cf_fileAlign cfg)"
     "errs' = (if vs > 2 ^ 32 - 1 then errs @ [SectionTooLarge (ls_name sec)] else errs)"
     "w' = w1\<lparr>w_chunks := cks, w_sections := (w_sections w1)[i := sec\<lparr>ls_VirtualAddress := of_nat rva,
         ls_VirtualSize := of_nat vs, ls_SizeOfRawData := of_nat raw,
         ls_PointerToRawData := (if raw \<noteq> 0 then of_nat file else ls_PointerToRawData sec)\<rparr>]\<rparr>"
    using step unfolding layout_section_def Let_def prod.case w1_def [symmetric] sec_def [symmetric] f by simp_all
  have wfi: "distinct (ls_chunks sec)" "\<forall>c\<in>set (ls_chunks sec). c < length (w_chunks w1)"
    using w1(2) i1 by (simp_all add: wf_writer_def sec_def section_chunks_def)
  from place_chunks [OF fa wfi f] have pl: "moved (set (ls_chunks sec)) (w_chunks w1) cks" "length cks = length (w_chunks w1)"
     "cf_fileAlign cfg dvd raw" "\<exists>offs. placed cks rva vs raw (ls_chunks sec) offs" by blast+
  have ids_eq: "map ls_id (w_sections w') = map ls_id (w_sections w1)"
    by (simp add: res(4) map_update list_update_same_conv i1 sec_def)
  have fr1: "same_frame i w1 w'" using ids_eq pl(2) by (simp add: same_frame_def res(4))
  have fr: "same_frame i w w'" using w1(1) fr1 by (simp add: same_frame_def)
  show thesis
  proof (rule that [OF fr])
    show "wf_writer w'"
      using i1 wfi(1) by (intro wf_writer_frame [OF w1(2) fr1 i1]) (auto simp: res(4) section_chunks_def sec_def)
    show "laid cfg (w_chunks w') (w_sections w' ! i) (rva, file, vs, raw)"
      using i1 pl by (simp add: laid_def res(4))
    show "file' = file + raw" using res(2) alignTo_fixed [OF fa pl(3)] by simp
    show "errs' = errs @ (if vs > 2 ^ 32 - 1 then [SectionTooLarge (ls_name (w_sections w ! i))] else [])"
      using res(3) nm by simp
    fix j c
    assume j: "j < length (w_sections w)" "j \<noteq> i" "c \<in> section_chunks w j"
    have cl: "c < length (w_chunks w)" using wf j by (simp add: wf_writer_def)
    have j1: "j < length (w_sections w1)" "c \<in> section_chunks w1 j"
      using j same_frameD(1,4) [OF w1(1)] by simp_all
    have "section_chunks w1 j \<inter> section_chunks w1 i = {}"
      using w1(2) j1(1) i1 j(2) by (simp add: wf_writer_def)
    then have "c \<notin> set (ls_chunks sec)" using j1(2) by (auto simp: section_chunks_def sec_def)
    then have "cks ! c = w_chunks w1 ! c" using pl(1) cl same_frameD(5) [OF w1(1)] by (intro moved_keep) auto
    then show "w_chunks w' ! c = w_chunks w ! c" using w1(3) cl by (auto simp: res(4) nth_append)
  qed (rule res(1))
qed

section \<open>All sections\<close>

definition fits :: "lay_config \<Rightarrow> nat \<Rightarrow> nat \<Rightarrow> nat \<Rightarrow> nat \<times> nat \<times> nat \<times> nat \<Rightarrow> bool" where
  "fits cfg headers rva file = (\<lambda>(r, f, vs, raw). cf_align cfg dvd r \<and> cf_fileAlign cfg dvd f \<and>
     headers \<le> r \<and> headers \<le> f \<and> r + vs \<le> rva \<and> f + raw \<le> file)"

definition before :: "nat \<times> nat \<times> nat \<times> nat \<Rightarrow> nat \<times> nat \<times> nat \<times> nat \<Rightarrow> bool" where
  "before p q \<longleftrightarrow> (case p of (r, f, vs, raw) \<Rightarrow> r + vs \<le> fst q \<and> f + raw \<le> fst (snd q))"

text \<open>The sections laid out so far, with the addresses the loop computed for them before truncation.\<close>

definition laid_prefix ::
  "lay_config \<Rightarrow> nat \<Rightarrow> writer \<Rightarrow> nat \<Rightarrow> nat \<Rightarrow> (nat \<times> nat \<times> nat \<times> nat) list \<Rightarrow> bool" where
  "laid_prefix cfg headers w rva file ps \<longleftrightarrow>
     length ps \<le> length (w_sections w) \<and> cf_align cfg dvd rva \<and> cf_fileAlign cfg dvd file \<and> headers \<le> rva \<and> headers \<le> file \<and>
     (\<forall>j<length ps. laid cfg (w_chunks w) (w_sections w ! j) (ps ! j)) \<and>
     (\<forall>p\<in>set ps. fits cfg headers rva file p) \<and>
     sorted_wrt before ps"

lemma laid_prefix_step:
  assumes lp: "laid_prefix cfg headers w rva file ps" and wf: "wf_writer w"
    and i: "length ps < length (w_sections w)" and al: "0 < cf_align cfg" "0 < cf_fileAlign cfg"
    and step: "layout_section cfg (length ps) (rva, file, errs, w) = (rva', file', errs', w')"
  shows "wf_writer w' \<and> same_frame (length ps) w w' \<and> (\<exists>p. laid_prefix cfg headers w' rva' file' (ps @ [p]))"
proof -
  obtain vs raw where fr: "same_frame (length ps) w w'" and wf': "wf_writer w'"
    and ld: "laid cfg (w_chunks w') (w_sections w' ! length ps) (rva, file, vs, raw)"
    and rva': "rva' = rva + alignTo vs (cf_align cfg)" and file': "file' = file + raw"
    and keep: "\<And>j c. j < length (w_sections w) \<Longrightarrow> j \<noteq> length ps \<Longrightarrow> c \<in> section_chunks w j \<Longrightarrow>
        w_chunks w' ! c = w_chunks w ! c"
    by (rule layout_section_step [OF wf i al(2) step]) blast
  have vs: "vs \<le> alignTo vs (cf_align cfg)" by (rule alignTo_ge [OF al(1)])
  have fa: "cf_fileAlign cfg dvd raw" using ld by (simp add: laid_def)
  have old: "laid cfg (w_chunks w') (w_sections w' ! j) (ps ! j)" if j: "j < length ps" for j
  proof -
    have sec: "w_sections w' ! j = w_sections w ! j" using same_frameD(2) [OF fr] j by simp
    have "laid cfg (w_chunks w') (w_sections w ! j) (ps ! j) = laid cfg (w_chunks w) (w_sections w ! j) (ps ! j)"
      using keep [of j] j i by (intro laid_cong) (simp add: section_chunks_def)
    then show ?thesis using lp j sec by (simp add: laid_prefix_def)
  qed
  have "laid_prefix cfg headers w' rva' file' (ps @ [(rva, file, vs, raw)])"
    unfolding laid_prefix_def
  proof (intro conjI, goal_cases)
    case 1 show ?case using i same_frameD(1) [OF fr] by simp
  next
    case 2 show ?case using lp rva' by (simp add: laid_prefix_def alignTo_dvd)
  next
    case 3 show ?case using lp file' fa by (simp add: laid_prefix_def)
  next
    case 4 show ?case using lp rva' by (simp add: laid_prefix_def)
  next
    case 5 show ?case using lp file' by (simp add: laid_prefix_def)
  next
    case 6 show ?case using old ld by (simp add: less_Suc_eq nth_append)
  next
    case 7 show ?case using lp rva' file' vs by (fastforce simp: laid_prefix_def fits_def)
  next
    case 8 show ?case using lp by (fastforce simp: laid_prefix_def sorted_wrt_append fits_def before_def)
  qed
  then show ?thesis using fr wf' by blast
qed

text \<open>What no phase of the layout changes.\<close>

definition same_shape :: "writer \<Rightarrow> writer \<Rightarrow> bool" where
  "same_shape w w' \<longleftrightarrow>
     map ls_id (w_sections w') = map ls_id (w_sections w) \<and> w_relocSec w' = w_relocSec w \<and>
     w_dynamicRelocs w' = w_dynamicRelocs w \<and> w_mergeChunks w' = w_mergeChunks w \<and> length (w_chunks w) \<le> length (w_chunks w')"

lemma same_shape_refl [simp]: "same_shape w w"
  by (simp add: same_shape_def)

lemma same_shape_trans: "same_shape a b \<Longrightarrow> same_shape b c \<Longrightarrow> same_shape a c"
  by (simp add: same_shape_def)

lemma same_frame_shape: "same_frame i w w' \<Longrightarrow> same_shape w w'"
  by (simp add: same_frame_def same_shape_def)

lemma same_shape_length: "same_shape w w' \<Longrightarrow> length (w_sections w') = length (w_sections w)"
  unfolding same_shape_def by (metis length_map)

lemma layout_sections:
  assumes wf: "wf_writer w" and al: "0 < cf_align cfg" "0 < cf_fileAlign cfg"
    and k: "k \<le> length (w_sections w)"
    and start: "cf_align cfg dvd rva" "cf_fileAlign cfg dvd headers" "headers \<le> rva"
    and "fold (layout_section cfg) [0..<k] (rva, headers, [], w) = (rva', file', errs', w')"
  shows "wf_writer w' \<and> same_shape w w' \<and>
    (\<exists>ps. length ps = k \<and> laid_prefix cfg headers w' rva' file' ps)"
  using k assms(8)
proof (induction k arbitrary: rva' file' errs' w')
  case 0
  then have "laid_prefix cfg headers w' rva' file' []" using start by (auto simp: laid_prefix_def)
  then show ?case using 0 wf by auto
next
  case (Suc k)
  obtain rva1 file1 errs1 w1 where f: "fold (layout_section cfg) [0..<k] (rva, headers, [], w) = (rva1, file1, errs1, w1)"
    by (metis prod_cases4)
  then have step: "layout_section cfg k (rva1, file1, errs1, w1) = (rva', file', errs', w')" using Suc.prems by simp
  obtain ps where IH: "wf_writer w1" "same_shape w w1" "length ps = k" "laid_prefix cfg headers w1 rva1 file1 ps"
    using Suc.IH [OF _ f] Suc.prems(1) by auto
  have "length ps < length (w_sections w1)" using same_shape_length [OF IH(2)] IH(3) Suc.prems(1) by simp
  with laid_prefix_step [OF IH(4,1) _ al, of errs1 rva' file' errs' w'] step IH(3) obtain p where
      "wf_writer w'" "same_frame k w1 w'" "laid_prefix cfg headers w' rva' file' (ps @ [p])"
    by auto
  then show ?case using IH same_shape_trans same_frame_shape by (auto intro!: exI [of _ "ps @ [p]"])
qed

lemma assignSubsectionRVAs_keep:
  "c \<notin> fst ` set (snd mc) \<Longrightarrow> assignSubsectionRVAs mc cks ! c = cks ! c"
proof -
  have "c \<notin> fst ` set ms \<Longrightarrow> fold (\<lambda>(sc, live, off) cks.
         if live then cks[sc := (cks ! sc)\<lparr>lc_rva := lc_rva (cks ! fst mc) + of_nat off\<rparr>] else cks) ms cks ! c = cks ! c" for ms
    by (induction ms arbitrary: cks) (auto split: prod.splits)
  then show "c \<notin> fst ` set (snd mc) \<Longrightarrow> assignSubsectionRVAs mc cks ! c = cks ! c" by (simp add: assignSubsectionRVAs_def)
qed

lemma assignSubsectionRVAs_all_keep:
  "c \<notin> fst ` set (concat (map snd mcs)) \<Longrightarrow> fold assignSubsectionRVAs mcs cks ! c = cks ! c"
  by (induction mcs arbitrary: cks) (simp_all add: assignSubsectionRVAs_keep image_Un)

lemma length_assignSubsectionRVAs [simp]: "length (fold assignSubsectionRVAs mcs cks) = length cks"
proof -
  have "length (fold (\<lambda>(sc, live, off) cks. if live then cks[sc := (cks ! sc)\<lparr>lc_rva := lc_rva (cks ! k) + of_nat off\<rparr>] else cks)
      ms cks) = length cks" for ms k and cks :: "lchunk list"
    by (induction ms arbitrary: cks) (auto split: prod.splits)
  then show ?thesis by (induction mcs arbitrary: cks) (simp_all add: assignSubsectionRVAs_def)
qed

lemma createECCodeMap_wf:
  assumes "wf_writer w"
  shows "wf_writer (createECCodeMap cfg w)" "w_sections (createECCodeMap cfg w) = w_sections w"
    "w_mergeChunks (createECCodeMap cfg w) = w_mergeChunks w" "same_shape w (createECCodeMap cfg w)"
  using assms by (auto simp: same_shape_def createECCodeMap_def wf_writer_def section_chunks_def members_def Let_def split: option.splits)

lemma assignAddresses_laid:
  assumes wf: "wf_writer w" and al: "0 < cf_align cfg" "0 < cf_fileAlign cfg"
    and run: "assignAddresses cfg w = (errs, w')"
  shows "wf_writer w' \<and> same_shape w w' \<and> (\<exists>ps. length ps = length (w_sections w') \<and>
    laid_prefix cfg (w_sizeOfHeaders w') w' (w_sizeOfImage w') (w_fileSize w') ps)"
proof -
  define w0 where "w0 = createECCodeMap cfg w"
  define n where "n = length (w_sections w0)"
  define h where "h = headers_size cfg n"
  obtain rva fsz errs1 w1 where f: "fold (layout_section cfg) [0..<n] (alignTo h (cf_align cfg), h, [], w0) = (rva, fsz, errs1, w1)"
    by (metis prod_cases4)
  have w': "w' = w1\<lparr>w_chunks := fold assignSubsectionRVAs (w_mergeChunks w1) (w_chunks w1), w_sizeOfHeaders := h,
      w_fileSize := fsz, w_sizeOfImage := alignTo rva (cf_align cfg)\<rparr>"
    using run f by (simp add: assignAddresses_def Let_def w0_def [symmetric] n_def [symmetric] h_def [symmetric])
  have wf0: "wf_writer w0" using wf by (simp add: w0_def createECCodeMap_wf)
  have h: "cf_fileAlign cfg dvd h" by (simp add: h_def headers_size_def alignTo_dvd)
  obtain ps where l: "wf_writer w1" "length (w_sections w1) = n" "same_shape w0 w1" "length ps = n"
      "laid_prefix cfg h w1 rva fsz ps"
    using layout_sections [OF wf0 al _ alignTo_dvd h alignTo_ge [OF al(1)] f] same_shape_length by (auto simp: n_def)
  have rva: "w_sizeOfImage w' = rva" using l(5) al by (simp add: w' laid_prefix_def alignTo_fixed)
  have "laid cfg (w_chunks w') (w_sections w1 ! j) (ps ! j)" if j: "j < length ps" for j
  proof -
    have "laid cfg (w_chunks w') (w_sections w1 ! j) (ps ! j) = laid cfg (w_chunks w1) (w_sections w1 ! j) (ps ! j)"
    proof (rule laid_cong)
      fix c assume "c \<in> set (ls_chunks (w_sections w1 ! j))"
      then have "c \<notin> members w1" using l(1,2,4) j by (auto simp: wf_writer_def section_chunks_def)
      then show "w_chunks w' ! c = w_chunks w1 ! c" by (simp add: w' members_def assignSubsectionRVAs_all_keep)
    qed
    then show ?thesis using l(5) j by (simp add: laid_prefix_def)
  qed
  then have "laid_prefix cfg h w' rva fsz ps" using l(5) by (simp add: laid_prefix_def w')
  moreover have "wf_writer w'" using l(1) by (simp add: wf_writer_def section_chunks_def members_def w')
  moreover have "same_shape w w'"
    using same_shape_trans [OF createECCodeMap_wf(4) [OF wf] l(3) [unfolded w0_def]] by (simp add: same_shape_def w')
  ultimately show ?thesis using l(2,4) rva by (auto simp: w')
qed

section \<open>The layout of the image\<close>

lemma unat_of_nat_u32: "n < 2 ^ 32 \<Longrightarrow> unat (of_nat n :: u32) = n"
  by (simp add: unat_of_nat take_bit_nat_eq_self)

definition section_end :: "OutputSection \<Rightarrow> nat" where
  "section_end s = unat (ls_VirtualAddress s) + unat (ls_VirtualSize s)"

definition raw_end :: "OutputSection \<Rightarrow> nat" where
  "raw_end s = unat (ls_PointerToRawData s) + unat (ls_SizeOfRawData s)"

definition section_within :: "lay_config \<Rightarrow> writer \<Rightarrow> OutputSection \<Rightarrow> bool" where
  "section_within cfg w s \<longleftrightarrow>
     cf_align cfg dvd unat (ls_VirtualAddress s) \<and> w_sizeOfHeaders w \<le> unat (ls_VirtualAddress s) \<and>
     section_end s \<le> w_sizeOfImage w \<and> cf_fileAlign cfg dvd unat (ls_SizeOfRawData s) \<and>
     (ls_SizeOfRawData s \<noteq> 0 \<longrightarrow>
        cf_fileAlign cfg dvd unat (ls_PointerToRawData s) \<and> w_sizeOfHeaders w \<le> unat (ls_PointerToRawData s) \<and>
        raw_end s \<le> w_fileSize w)"

definition sections_apart :: "OutputSection \<Rightarrow> OutputSection \<Rightarrow> bool" where
  "sections_apart s t \<longleftrightarrow>
     section_end s \<le> unat (ls_VirtualAddress t) \<and>
     (ls_SizeOfRawData s \<noteq> 0 \<longrightarrow> ls_SizeOfRawData t \<noteq> 0 \<longrightarrow> raw_end s \<le> unat (ls_PointerToRawData t))"

definition chunk_within :: "lay_config \<Rightarrow> OutputSection \<Rightarrow> lchunk \<Rightarrow> bool" where
  "chunk_within cfg s c \<longleftrightarrow>
     unat (ls_VirtualAddress s) \<le> unat (lc_rva c) \<and> unat (lc_rva c) + lc_size c \<le> section_end s \<and>
     (lc_hasData c \<longrightarrow> unat (lc_rva c) - unat (ls_VirtualAddress s) + lc_size c \<le> unat (ls_SizeOfRawData s)) \<and>
     (2 ^ lc_p2Align c dvd cf_align cfg \<longrightarrow> 2 ^ lc_p2Align c dvd unat (lc_rva c))"

definition chunks_apart :: "lchunk \<Rightarrow> lchunk \<Rightarrow> bool" where
  "chunks_apart c d \<longleftrightarrow> unat (lc_rva c) + lc_size c \<le> unat (lc_rva d)"

lemma laid_header:
  assumes "laid cfg cks s (r, f, vs, raw)" and "r + vs < 2 ^ 32" and "f + raw < 2 ^ 32"
  shows "unat (ls_VirtualAddress s) = r" "unat (ls_VirtualSize s) = vs" "unat (ls_SizeOfRawData s) = raw"
    "ls_SizeOfRawData s \<noteq> 0 \<Longrightarrow> unat (ls_PointerToRawData s) = f" "section_end s = r + vs"
    "ls_SizeOfRawData s \<noteq> 0 \<Longrightarrow> raw_end s = f + raw"
proof -
  have b: "r < 2 ^ 32" "vs < 2 ^ 32" "raw < 2 ^ 32" "f < 2 ^ 32" using assms by linarith+
  show a: "unat (ls_VirtualAddress s) = r" "unat (ls_VirtualSize s) = vs" and r: "unat (ls_SizeOfRawData s) = raw"
    using assms(1) b by (simp_all add: laid_def unat_of_nat_u32)
  show p: "unat (ls_PointerToRawData s) = f" if "ls_SizeOfRawData s \<noteq> 0"
    using assms(1) that r b(4) by (auto simp: laid_def unat_of_nat_u32)
  show "section_end s = r + vs" using a by (simp add: section_end_def)
  show "raw_end s = f + raw" if "ls_SizeOfRawData s \<noteq> 0" using p [OF that] r by (simp add: raw_end_def)
qed

lemma laid_chunks:
  assumes ld: "laid cfg cks s (r, f, vs, raw)" and b: "r + vs < 2 ^ 32" "f + raw < 2 ^ 32" and al: "cf_align cfg dvd r"
  shows "\<forall>c\<in>set (ls_chunks s). chunk_within cfg s (cks ! c)"
    and "sorted_wrt (\<lambda>c d. chunks_apart (cks ! c) (cks ! d)) (ls_chunks s)"
proof -
  note h = laid_header [OF ld b]
  let ?cs = "ls_chunks s"
  obtain offs where pl: "placed cks r vs raw ?cs offs" using ld by (auto simp: laid_def)
  have at: "unat (lc_rva (cks ! (?cs ! k))) = r + offs ! k" if "k < length ?cs" for k
  proof -
    have "offs ! k \<le> vs" using pl that unfolding placed_def chunk_end_def by (metis add_leE)
    then have "r + offs ! k < 2 ^ 32" using b by linarith
    moreover have "lc_rva (cks ! (?cs ! k)) = of_nat (r + offs ! k)" using pl that by (simp add: placed_def)
    ultimately show ?thesis by (simp add: unat_of_nat_u32 del: of_nat_add)
  qed
  have "chunk_within cfg s (cks ! (?cs ! k))" if k: "k < length ?cs" for k
  proof -
    have "chunk_end cks ?cs offs k \<le> vs" "lc_hasData (cks ! (?cs ! k)) \<longrightarrow> chunk_end cks ?cs offs k \<le> raw"
      "2 ^ lc_p2Align (cks ! (?cs ! k)) dvd offs ! k"
      using pl k by (simp_all add: placed_def)
    then show ?thesis
      using at [OF k] h al by (auto simp: chunk_within_def chunk_end_def intro: dvd_add dvd_trans)
  qed
  then show "\<forall>c\<in>set ?cs. chunk_within cfg s (cks ! c)" by (simp add: all_set_conv_all_nth)
  show "sorted_wrt (\<lambda>c d. chunks_apart (cks ! c) (cks ! d)) ?cs"
    using pl at by (auto simp: sorted_wrt_iff_nth_less placed_def chunks_apart_def chunk_end_def)
qed

lemma laid_prefix_bounds:
  assumes "laid_prefix cfg h w rva fsz ps" and "rva < 2 ^ 32" "fsz < 2 ^ 32" and "j < length ps"
    and p: "ps ! j = (r, f, vs, raw)"
  shows "laid cfg (w_chunks w) (w_sections w ! j) (r, f, vs, raw)" "r + vs < 2 ^ 32" "f + raw < 2 ^ 32"
    "cf_align cfg dvd r" "cf_fileAlign cfg dvd f" "h \<le> r" "h \<le> f" "r + vs \<le> rva" "f + raw \<le> fsz"
proof -
  have "(r, f, vs, raw) \<in> set ps" using assms(4) p by (metis nth_mem)
  then have "fits cfg h rva fsz (r, f, vs, raw)" using assms(1) by (simp add: laid_prefix_def)
  then show "r + vs \<le> rva" "f + raw \<le> fsz" "cf_align cfg dvd r" "cf_fileAlign cfg dvd f" "h \<le> r" "h \<le> f"
    by (simp_all add: fits_def)
  then show "r + vs < 2 ^ 32" "f + raw < 2 ^ 32" using assms(2,3) by linarith+
  show "laid cfg (w_chunks w) (w_sections w ! j) (r, f, vs, raw)"
    using assms(1,4) p unfolding laid_prefix_def by metis
qed

text \<open>When image and file stay below 4 GiB, every section starts at a multiple of the section alignment behind the
  headers and ends inside the image; its raw data is a whole number of file blocks inside the file; and the sections
  follow one another without overlap, in memory and in the file.\<close>

lemma image_sections:
  assumes "wf_writer w" and "0 < cf_align cfg" and "0 < cf_fileAlign cfg"
    and "assignAddresses cfg w = (errs, w')" and "w_sizeOfImage w' < 2 ^ 32" and "w_fileSize w' < 2 ^ 32"
  shows "(\<forall>s\<in>set (w_sections w'). section_within cfg w' s) \<and> sorted_wrt sections_apart (w_sections w')"
proof -
  obtain ps where ps: "length ps = length (w_sections w')"
      "laid_prefix cfg (w_sizeOfHeaders w') w' (w_sizeOfImage w') (w_fileSize w') ps"
    using assignAddresses_laid [OF assms(1-4)] by blast
  note b = laid_prefix_bounds [OF ps(2) assms(5,6)]
  have "section_within cfg w' (w_sections w' ! j)" if j: "j < length ps" for j
  proof -
    obtain r f vs raw where p: "ps ! j = (r, f, vs, raw)" by (metis prod_cases4)
    note bj = b [OF j p]
    have "cf_fileAlign cfg dvd raw" using bj(1) by (simp add: laid_def)
    then show ?thesis using laid_header [OF bj(1-3)] bj(4-) by (simp add: section_within_def)
  qed
  moreover have "sections_apart (w_sections w' ! i) (w_sections w' ! j)" if ij: "i < j" "j < length ps" for i j
  proof -
    obtain r f vs raw r' f' vs' raw' where p: "ps ! i = (r, f, vs, raw)" "ps ! j = (r', f', vs', raw')"
      by (metis prod_cases4)
    have i: "i < length ps" using ij by simp
    have "sorted_wrt before ps" using ps(2) by (simp add: laid_prefix_def)
    then have "before (ps ! i) (ps ! j)" using ij by (rule sorted_wrt_nth_less)
    then have "r + vs \<le> r'" "f + raw \<le> f'" using p by (simp_all add: before_def)
    then show ?thesis
      using laid_header [OF b(1-3) [OF i p(1)]] laid_header [OF b(1-3) [OF ij(2) p(2)]] by (simp add: sections_apart_def)
  qed
  ultimately show ?thesis using ps(1) by (simp add: all_set_conv_all_nth sorted_wrt_iff_nth_less)
qed

text \<open>Under the same bounds every chunk lies inside its section, its data inside the section's raw data, at a
  multiple of its alignment if that divides the section alignment, and the chunks of a section follow one another
  without overlap.\<close>

lemma image_chunks:
  assumes "wf_writer w" and "0 < cf_align cfg" and "0 < cf_fileAlign cfg"
    and "assignAddresses cfg w = (errs, w')" and "w_sizeOfImage w' < 2 ^ 32" and "w_fileSize w' < 2 ^ 32"
    and "s \<in> set (w_sections w')"
  shows "(\<forall>c\<in>set (ls_chunks s). chunk_within cfg s (w_chunks w' ! c)) \<and>
     sorted_wrt (\<lambda>c d. chunks_apart (w_chunks w' ! c) (w_chunks w' ! d)) (ls_chunks s)"
proof -
  obtain ps where ps: "length ps = length (w_sections w')"
      "laid_prefix cfg (w_sizeOfHeaders w') w' (w_sizeOfImage w') (w_fileSize w') ps"
    using assignAddresses_laid [OF assms(1-4)] by blast
  obtain j where j: "j < length ps" "s = w_sections w' ! j" using assms(7) ps(1) by (metis in_set_conv_nth)
  obtain r f vs raw where p: "ps ! j = (r, f, vs, raw)" by (metis prod_cases4)
  note b = laid_prefix_bounds [OF ps(2) assms(5,6) j(1) p]
  show ?thesis using laid_chunks [OF b(1-4)] j(2) by simp
qed

lemmas layout_eval = assignAddresses_def layout_section_def place_chunk_def headers_size_def dosStubSize_def alignTo_def
  createECCodeMap_def isCodeSection_def sample_cfg_def sample_writer_def plain_chunk_def new_section_def is64Bit_def

text \<open>Alignment is computed on the offset in the section: a chunk aligned beyond the section alignment is misplaced.\<close>

lemma assignAddresses_overaligned:
  "let w = snd (assignAddresses sample_cfg (sample_writer [plain_chunk 8 13 True] [[0]]))
   in lc_rva (w_chunks w ! 0) = 0x1000 \<and> \<not> 2 ^ 13 dvd unat (lc_rva (w_chunks w ! 0))"
  by (simp add: layout_eval upt_rec)

text \<open>Only single sections are checked against 4 GiB: the address of the second section wraps.\<close>

lemma assignAddresses_wraps:
  "let (errs, w) = assignAddresses sample_cfg (sample_writer [plain_chunk 0xFFFFF000 4 False, plain_chunk 16 4 False] [[0], [1]])
   in errs = [] \<and> map ls_VirtualAddress (w_sections w) = [0x1000, 0] \<and> w_fileSize w < 2 ^ 32"
  by (simp add: layout_eval upt_rec Let_def)

end
