(* ===== verification/Thunks.thy ===== *)
theory Thunks
  imports Addresses
begin

text \<open>
  Range extension thunks (\<open>isInRange\<close>, \<open>getThunk\<close>, \<open>createThunks\<close>, \<open>verifyRanges\<close> and
  \<open>finalizeAddresses\<close> of \<open>lld/COFF/Writer.cpp\<close>). On ARM and ARM64 a branch may not reach its target; the
  writer then redirects the relocation to a thunk placed behind the section, lays the image out again and
  repeats until all branches reach, or gives up after ten passes.
\<close>

unbundle bit_operations_syntax

section \<open>Ranges\<close>

definition isAnyArm64 :: "machine \<Rightarrow> bool" where
  "isAnyArm64 m \<longleftrightarrow> m = ARM64 \<or> isArm64EC m"

definition AbsoluteDifference :: "u64 \<Rightarrow> u64 \<Rightarrow> u64" where
  "AbsoluteDifference x y = (if y < x then x - y else y - x)"

definition isInRange :: "u16 \<Rightarrow> u64 \<Rightarrow> u64 \<Rightarrow> u64 \<Rightarrow> machine \<Rightarrow> bool" where
  "isInRange relType s p margin m =
     (if m = ARMNT then
        (let diff = AbsoluteDifference s (p + 4) + margin
         in if relType = 0x0012 then isInt 21 diff
            else if relType = 0x0014 \<or> relType = 0x0015 then isInt 25 diff
            else True)
      else if isAnyArm64 m then
        (let diff = AbsoluteDifference s p + margin
         in if relType = 0x0003 then isInt 28 diff
            else if relType = 0x000F then isInt 21 diff
            else if relType = 0x0010 then isInt 16 diff
            else True)
      else True)"

section \<open>Symbols of the image\<close>

text \<open>The address of a symbol under the current layout (\<open>Defined::getRVA\<close> over the laid-out chunks).\<close>

definition chunk_of :: "lchunk \<Rightarrow> chunk" where
  "chunk_of ck =
     \<lparr>ck_kind = (if lc_isSection ck then SectionKind else OtherKind), ck_name = [], ck_rva = lc_rva ck, ck_live = True,
      ck_repl = lc_repl ck, ck_symbols = [], ck_assocChildren = [], ck_entryThunk = None\<rparr>"

definition layout_store :: "lchunk list \<Rightarrow> store" where
  "layout_store cks = \<lparr>syms = [], chunks = map chunk_of cks, importFiles = []\<rparr>"

definition sym_rva :: "lay_config \<Rightarrow> lchunk list \<Rightarrow> symbol_body \<Rightarrow> u64" where
  "sym_rva cfg cks b = getRVA (cf_imageBase cfg) (layout_store cks) b"

text \<open>\<open>ObjFile::getSymbol\<close>, and the cast to \<open>Defined\<close> the callers do.\<close>

definition file_symbol :: "symbol_body option list list \<Rightarrow> file_id \<Rightarrow> u32 \<Rightarrow> symbol_body option" where
  "file_symbol files f idx =
     (case files ! f ! unat idx of Some b \<Rightarrow> if is_Defined b then Some b else None | None \<Rightarrow> None)"

definition reloc_address :: "lchunk \<Rightarrow> coff_relocation \<Rightarrow> u64" where
  "reloc_address ck rel = ucast (lc_rva ck + VirtualAddress rel)"

section \<open>Creating thunks\<close>

text \<open>\<open>addRangeThunkSymbol\<close> appends a symbol to the file's table and returns its index.\<close>

definition addRangeThunkSymbol :: "symbol_body \<Rightarrow> file_id \<Rightarrow> symbol_body option list list \<Rightarrow> u32 \<times> symbol_body option list list" where
  "addRangeThunkSymbol th f files = (of_nat (length (files ! f)), files[f := files ! f @ [Some th]])"

text \<open>The thunk chunks: ten bytes aligned to two on ARM, twelve aligned to four on ARM64.\<close>

definition thunk_chunk :: "machine \<Rightarrow> symbol_body \<Rightarrow> lchunk" where
  "thunk_chunk m target =
     \<lparr>lc_size = (if m = ARMNT then 10 else 12), lc_p2Align = (if m = ARMNT then 1 else 2), lc_hasData = True,
      lc_hotPatchable = False, lc_entryThunk = False, lc_ecRange = Some (if m = ARM64EC then 1 else 0), lc_isSection = False,
      lc_machine = m, lc_repl = 0, lc_file = 0, lc_origRelocs = [], lc_relocs = [], lc_branch = RangeThunk target,
      lc_baserels = (\<lambda>_. []), lc_rva = 0, lc_osidx = 0\<rparr>"

text \<open>The locals of \<open>createThunks\<close>: the last thunk for every target address, the symbol index of a thunk in a file,
  the size of the thunks added so far.\<close>

record thunk_state =
  ts_chunks :: "lchunk list"
  ts_files :: "symbol_body option list list"
  ts_last :: "(u64 \<times> symbol_body) list"
  ts_indices :: "((file_id \<times> symbol_body) \<times> u32) list"
  ts_size :: nat
  ts_changed :: bool

definition getThunk ::
  "lay_config \<Rightarrow> symbol_body \<Rightarrow> u64 \<Rightarrow> u16 \<Rightarrow> u64 \<Rightarrow> machine \<Rightarrow> thunk_state \<Rightarrow> (symbol_body \<times> chunk_id option) \<times> thunk_state" where
  "getThunk cfg target p type margin m ts =
     (let key = sym_rva cfg (ts_chunks ts) target;
          c = length (ts_chunks ts);
          d = DefinedSynthetic (Some c) 0;
          new = ((d, Some c), ts\<lparr>ts_chunks := ts_chunks ts @ [thunk_chunk m target], ts_last := (key, d) # ts_last ts\<rparr>)
      in case map_of (ts_last ts) key of
           Some lastThunk \<Rightarrow>
             if isInRange type (sym_rva cfg (ts_chunks ts) lastThunk) p margin m then ((lastThunk, None), ts) else new
         | None \<Rightarrow> new)"

text \<open>The index of the thunk in the symbol table of the file, added on first use.\<close>

definition thunk_index :: "file_id \<Rightarrow> symbol_body \<Rightarrow> thunk_state \<Rightarrow> u32 \<times> thunk_state" where
  "thunk_index f th ts =
     (case map_of (ts_indices ts) (f, th) of
        Some i \<Rightarrow> (i, ts)
      | None \<Rightarrow>
          (let (i, files) = addRangeThunkSymbol th f (ts_files ts)
           in (i, ts\<lparr>ts_files := files, ts_indices := ((f, th), i) # ts_indices ts\<rparr>)))"

text \<open>One relocation: the estimate of the next thunk's address, the new thunks behind the section, the new
  relocations.\<close>

definition thunk_reloc ::
  "lay_config \<Rightarrow> u64 \<Rightarrow> chunk_id \<Rightarrow> coff_relocation \<Rightarrow>
   nat \<times> chunk_id list \<times> coff_relocation list \<times> thunk_state \<Rightarrow> nat \<times> chunk_id list \<times> coff_relocation list \<times> thunk_state" where
  "thunk_reloc cfg margin c rel st =
     (let (insertionRVA, thunks, rels, ts) = st;
          sc = ts_chunks ts ! c;
          p = reloc_address sc rel + of_nat (ts_size ts)
      in case file_symbol (ts_files ts) (lc_file sc) (SymbolTableIndex rel) of
           None \<Rightarrow> (insertionRVA, thunks, rels @ [rel], ts)
         | Some b \<Rightarrow>
             if isInRange (rel_Type rel) (sym_rva cfg (ts_chunks ts) b) p margin (lc_machine sc)
             then (insertionRVA, thunks, rels @ [rel], ts)
             else
               (let ((th, wasNew), ts1) = getThunk cfg b p (rel_Type rel) margin (lc_machine sc) ts;
                    (insertionRVA1, thunks1, ts2) =
                      (case wasNew of
                         None \<Rightarrow> (insertionRVA, thunks, ts1)
                       | Some t \<Rightarrow>
                           (let tck = ts_chunks ts1 ! t
                            in (insertionRVA + lc_size tck, thunks @ [t],
                                ts1\<lparr>ts_chunks := (ts_chunks ts1)[t := tck\<lparr>lc_rva := of_nat insertionRVA\<rparr>],
                                    ts_size := ts_size ts1 + lc_size tck, ts_changed := True\<rparr>)));
                    (i, ts3) = thunk_index (lc_file sc) th ts2
                in (insertionRVA1, thunks1, rels @ [rel\<lparr>SymbolTableIndex := i\<rparr>], ts3)))"

text \<open>One chunk of the section: the chunks that take its place and the new state.\<close>

definition verify_branch :: "lay_config \<Rightarrow> lchunk list \<Rightarrow> lchunk \<Rightarrow> bool" where
  "verify_branch cfg cks ck =
     (case lc_branch ck of
        ECImportThunk helper extended \<Rightarrow> extended \<or> isInt 28 (sym_rva cfg cks helper - ucast (lc_rva ck) - 16)
      | _ \<Rightarrow> True)"

definition extendRanges :: "lay_config \<Rightarrow> lchunk list \<Rightarrow> lchunk \<Rightarrow> nat \<times> lchunk" where
  "extendRanges cfg cks ck =
     (case lc_branch ck of
        ECImportThunk helper extended \<Rightarrow>
          if extended \<or> verify_branch cfg cks ck then (0, ck)
          else (8, ck\<lparr>lc_branch := ECImportThunk helper True, lc_size := 28\<rparr>)
      | _ \<Rightarrow> (0, ck))"

definition thunk_chunks_of :: "lay_config \<Rightarrow> u64 \<Rightarrow> chunk_id \<Rightarrow> thunk_state \<Rightarrow> chunk_id list \<times> thunk_state" where
  "thunk_chunks_of cfg margin c ts =
     (let ck = ts_chunks ts ! c
      in if \<not> lc_isSection ck
         then (let (n, ck') = extendRanges cfg (ts_chunks ts) ck
               in ([c], if n = 0 then ts
                        else ts\<lparr>ts_chunks := (ts_chunks ts)[c := ck'], ts_size := ts_size ts + n, ts_changed := True\<rparr>))
         else
           (let (_, thunks, rels, ts1) =
                  fold (thunk_reloc cfg margin c) (lc_origRelocs ck) (unat (lc_rva ck) + lc_size ck + ts_size ts, [], [], ts)
            in (c # thunks, ts1\<lparr>ts_chunks := (ts_chunks ts1)[c := (ts_chunks ts1 ! c)\<lparr>lc_relocs := rels\<rparr>]\<rparr>)))"

text \<open>The loop over the chunks. The thunks inserted behind a section are visited too, but \<open>extendRanges\<close> leaves them
  alone.\<close>

fun thunk_loop :: "lay_config \<Rightarrow> u64 \<Rightarrow> chunk_id list \<Rightarrow> thunk_state \<Rightarrow> chunk_id list \<times> thunk_state" where
  "thunk_loop cfg margin [] ts = ([], ts)"
| "thunk_loop cfg margin (c # cs) ts =
     (let (cs1, ts1) = thunk_chunks_of cfg margin c ts;
          (cs2, ts2) = thunk_loop cfg margin cs ts1
      in (cs1 @ cs2, ts2))"

definition createThunks :: "lay_config \<Rightarrow> u64 \<Rightarrow> nat \<Rightarrow> writer \<Rightarrow> bool \<times> writer" where
  "createThunks cfg margin i w =
     (let (cs, ts) = thunk_loop cfg margin (ls_chunks (w_sections w ! i))
            \<lparr>ts_chunks = w_chunks w, ts_files = w_files w, ts_last = [], ts_indices = [], ts_size = 0, ts_changed = False\<rparr>
      in (ts_changed ts, w\<lparr>w_chunks := ts_chunks ts, w_files := ts_files ts,
            w_sections := (w_sections w)[i := (w_sections w ! i)\<lparr>ls_chunks := cs\<rparr>]\<rparr>))"

section \<open>Passes\<close>

definition verify_reloc :: "lay_config \<Rightarrow> writer \<Rightarrow> lchunk \<Rightarrow> coff_relocation \<Rightarrow> bool" where
  "verify_reloc cfg w ck rel =
     (case file_symbol (w_files w) (lc_file ck) (SymbolTableIndex rel) of
        None \<Rightarrow> True
      | Some b \<Rightarrow> isInRange (rel_Type rel) (sym_rva cfg (w_chunks w) b) (reloc_address ck rel) 0 (lc_machine ck))"

definition verifyRanges :: "lay_config \<Rightarrow> writer \<Rightarrow> chunk_id list \<Rightarrow> bool" where
  "verifyRanges cfg w cs =
     list_all (\<lambda>c. if lc_isSection (w_chunks w ! c)
                   then list_all (verify_reloc cfg w (w_chunks w ! c)) (lc_relocs (w_chunks w ! c))
                   else verify_branch cfg (w_chunks w) (w_chunks w ! c)) cs"

datatype thunk_result = Finalized writer | NotConverged nat

definition restore_chunks :: "chunk_id list list \<Rightarrow> writer \<Rightarrow> writer" where
  "restore_chunks orig w = w\<lparr>w_sections := map2 (\<lambda>s cs. s\<lparr>ls_chunks := cs\<rparr>) (w_sections w) orig\<rparr>"

definition create_all_thunks :: "lay_config \<Rightarrow> u64 \<Rightarrow> writer \<Rightarrow> writer" where
  "create_all_thunks cfg margin w = fold (\<lambda>i w. snd (createThunks cfg margin i w)) [0..<length (w_sections w)] w"

function thunk_passes ::
  "lay_config \<Rightarrow> chunk_id list list \<Rightarrow> nat \<Rightarrow> u64 \<Rightarrow> lay_error list \<Rightarrow> writer \<Rightarrow> lay_error list \<times> thunk_result" where
  "thunk_passes cfg orig n margin errs w =
     (if list_all (\<lambda>s. verifyRanges cfg w (ls_chunks s)) (w_sections w) then (errs, Finalized w)
      else if 10 \<le> n then (errs, NotConverged n)
      else
        (let w1 = (if 0 < n then restore_chunks orig w else w);
             margin1 = (if 0 < n then margin * 2 else margin);
             (e, w2) = assignAddresses cfg (create_all_thunks cfg margin1 w1)
         in thunk_passes cfg orig (Suc n) margin1 (errs @ e) w2))"
  by pat_completeness auto
termination
  by (relation "measure (\<lambda>(_, _, n, _). 10 - n)") auto

declare thunk_passes.simps [simp del]

definition finalizeAddresses :: "lay_config \<Rightarrow> writer \<Rightarrow> lay_error list \<times> thunk_result" where
  "finalizeAddresses cfg w =
     (let (errs, w1) = assignAddresses cfg w
      in if cf_machine cfg \<noteq> ARMNT \<and> \<not> isAnyArm64 (cf_machine cfg) then (errs, Finalized w1)
         else thunk_passes cfg (map ls_chunks (w_sections w1)) 0 (1024 * 100) errs w1)"

end
