(* ===== verification/Ranges.thy ===== *)
theory Ranges
  imports Thunks
begin

text \<open>
  Correctness of range extension: the passes keep the chunk lists well-formed, so the final layout is correct; verified
  ranges are those the relocation encoders accept; and relocations are only redirected to thunks for the address of
  their target. A worked image shows a thunk being inserted, another that sharing thunks by address is unsound.
\<close>

section \<open>Chunks of a section after the thunks\<close>

lemma getThunk_ids:
  "getThunk cfg b p ty margin m ts = ((th, wasNew), ts') \<Longrightarrow>
   (wasNew = None \<and> ts' = ts) \<or>
   (wasNew = Some (length (ts_chunks ts)) \<and> length (ts_chunks ts') = Suc (length (ts_chunks ts)))"
  by (auto simp: getThunk_def Let_def split: option.splits if_splits)

lemma thunk_index_chunks: "thunk_index f th ts = (i, ts') \<Longrightarrow> ts_chunks ts' = ts_chunks ts"
  by (auto simp: thunk_index_def Let_def split: option.splits prod.splits)

lemma thunk_reloc_ids:
  assumes "thunk_reloc cfg margin c rel (r, th, rels, ts) = (r', th', rels', ts')"
  shows "\<exists>new. th' = th @ new \<and> (new = [] \<and> length (ts_chunks ts') = length (ts_chunks ts) \<or>
     new = [length (ts_chunks ts)] \<and> length (ts_chunks ts') = Suc (length (ts_chunks ts)))"
proof (cases "file_symbol (ts_files ts) (lc_file (ts_chunks ts ! c)) (SymbolTableIndex rel)")
  case (Some b)
  let ?p = "reloc_address (ts_chunks ts ! c) rel + of_nat (ts_size ts)" and ?m = "lc_machine (ts_chunks ts ! c)"
  obtain t wasNew ts1 where g: "getThunk cfg b ?p (rel_Type rel) margin ?m ts = ((t, wasNew), ts1)"
    by (metis prod.exhaust)
  show ?thesis
    using assms Some getThunk_ids [OF g] g
    by (auto simp: thunk_reloc_def Let_def split: if_splits option.splits prod.splits dest!: thunk_index_chunks)
qed (use assms in \<open>simp add: thunk_reloc_def\<close>)

lemma thunk_relocs_ids:
  assumes "fold (thunk_reloc cfg margin c) rs (r, th, rels, ts) = (r', th', rels', ts')"
  shows "th' = th @ [length (ts_chunks ts)..<length (ts_chunks ts')] \<and> length (ts_chunks ts) \<le> length (ts_chunks ts')"
  using assms
proof (induction rs arbitrary: r th rels ts)
  case (Cons rel rs)
  obtain r1 th1 rels1 ts1 where s: "thunk_reloc cfg margin c rel (r, th, rels, ts) = (r1, th1, rels1, ts1)"
    by (metis prod_cases4)
  have IH: "th' = th1 @ [length (ts_chunks ts1)..<length (ts_chunks ts')] \<and> length (ts_chunks ts1) \<le> length (ts_chunks ts')"
    using Cons.IH Cons.prems s by simp
  then show ?case using thunk_reloc_ids [OF s] by (auto simp: upt_conv_Cons)
qed simp

lemma thunk_chunks_of_ids:
  assumes "thunk_chunks_of cfg margin c ts = (cs, ts')"
  shows "cs = c # [length (ts_chunks ts)..<length (ts_chunks ts')] \<and> length (ts_chunks ts) \<le> length (ts_chunks ts')"
proof (cases "lc_isSection (ts_chunks ts ! c)")
  case False
  then show ?thesis using assms by (auto simp: thunk_chunks_of_def Let_def split: prod.splits if_splits)
next
  case True
  obtain r th rels ts1 where f: "fold (thunk_reloc cfg margin c) (lc_origRelocs (ts_chunks ts ! c))
      (unat (lc_rva (ts_chunks ts ! c)) + lc_size (ts_chunks ts ! c) + ts_size ts, [], [], ts) = (r, th, rels, ts1)"
    by (metis prod_cases4)
  then show ?thesis using assms True thunk_relocs_ids [OF f] by (auto simp: thunk_chunks_of_def Let_def)
qed

lemma thunk_loop_ids:
  assumes "thunk_loop cfg margin cs ts = (cs', ts')"
  shows "length (ts_chunks ts) \<le> length (ts_chunks ts') \<and>
    set cs' = set cs \<union> {length (ts_chunks ts)..<length (ts_chunks ts')} \<and>
    (distinct cs \<longrightarrow> (\<forall>c\<in>set cs. c < length (ts_chunks ts)) \<longrightarrow> distinct cs')"
  using assms
proof (induction cs arbitrary: ts cs')
  case (Cons c cs)
  obtain cs1 ts1 where s: "thunk_chunks_of cfg margin c ts = (cs1, ts1)" by (metis prod.exhaust)
  obtain cs2 where r: "thunk_loop cfg margin cs ts1 = (cs2, ts')" and cs': "cs' = cs1 @ cs2"
    using Cons.prems s by (auto split: prod.splits)
  have a: "cs1 = c # [length (ts_chunks ts)..<length (ts_chunks ts1)]" "length (ts_chunks ts) \<le> length (ts_chunks ts1)"
    using thunk_chunks_of_ids [OF s] by auto
  define l l1 l2 where "l = length (ts_chunks ts)" and "l1 = length (ts_chunks ts1)" and "l2 = length (ts_chunks ts')"
  have le: "l \<le> l1" "l1 \<le> l2" and cs2: "set cs2 = set cs \<union> {l1..<l2}"
    and d2: "distinct cs \<Longrightarrow> \<forall>x\<in>set cs. x < l1 \<Longrightarrow> distinct cs2"
    using a(2) Cons.IH [OF r] by (simp_all add: l_def l1_def l2_def)
  have cs1: "cs1 = c # [l..<l1]" using a(1) by (simp add: l_def l1_def)
  have "{l..<l1} \<union> {l1..<l2} = {l..<l2}" using le by (simp add: ivl_disj_un_two(3))
  then have "set cs' = set (c # cs) \<union> {l..<l2}" unfolding cs' cs1 by (auto simp: cs2)
  moreover have "distinct cs'" if d: "distinct (c # cs)" "\<forall>x\<in>set (c # cs). x < l"
  proof -
    have lt: "\<forall>x\<in>set cs. x < l1" using d(2) le(1) by fastforce
    then have "distinct cs2" using d2 d(1) by simp
    moreover have "set cs1 \<inter> set cs2 = {}" unfolding cs1 cs2 using d le by fastforce
    moreover have "distinct cs1" unfolding cs1 using d(2) by simp
    ultimately show ?thesis unfolding cs' by simp
  qed
  ultimately show ?case using le by (simp add: l_def l2_def)
qed simp

section \<open>Well-formedness through the passes\<close>

lemma createThunks_frame:
  assumes "createThunks cfg margin i w = (ch, w')" and i: "i < length (w_sections w)"
  shows "same_frame i w w'" and "section_chunks w' i = section_chunks w i \<union> {length (w_chunks w)..<length (w_chunks w')}"
    and "distinct (ls_chunks (w_sections w ! i)) \<Longrightarrow> \<forall>c\<in>section_chunks w i. c < length (w_chunks w) \<Longrightarrow>
      distinct (ls_chunks (w_sections w' ! i))"
proof -
  define ts0 where "ts0 = \<lparr>ts_chunks = w_chunks w, ts_files = w_files w, ts_last = [], ts_indices = [], ts_size = 0, ts_changed = False\<rparr>"
  obtain cs ts where l: "thunk_loop cfg margin (ls_chunks (w_sections w ! i)) ts0 = (cs, ts)" by (metis prod.exhaust)
  then have w': "w' = w\<lparr>w_chunks := ts_chunks ts, w_files := ts_files ts,
      w_sections := (w_sections w)[i := (w_sections w ! i)\<lparr>ls_chunks := cs\<rparr>]\<rparr>"
    using assms(1) by (simp add: createThunks_def ts0_def)
  note ids = thunk_loop_ids [OF l]
  have "map ls_id ((w_sections w)[i := (w_sections w ! i)\<lparr>ls_chunks := cs\<rparr>]) = map ls_id (w_sections w)"
    by (simp add: map_update list_update_same_conv i)
  then show "same_frame i w w'" using ids by (simp add: same_frame_def w' ts0_def)
  show "section_chunks w' i = section_chunks w i \<union> {length (w_chunks w)..<length (w_chunks w')}"
    using ids i by (simp add: section_chunks_def w' ts0_def)
  show "distinct (ls_chunks (w_sections w' ! i))"
    if "distinct (ls_chunks (w_sections w ! i))" "\<forall>c\<in>section_chunks w i. c < length (w_chunks w)"
    using ids i that by (simp add: section_chunks_def w' ts0_def)
qed

lemma createThunks_wf:
  assumes wf: "wf_writer w" and i: "i < length (w_sections w)"
  shows "wf_writer (snd (createThunks cfg margin i w))" and "same_shape w (snd (createThunks cfg margin i w))"
proof -
  obtain ch w' where c: "createThunks cfg margin i w = (ch, w')" by (metis prod.exhaust)
  note fr = createThunks_frame [OF c i]
  have "wf_writer w'"
    using fr wf_writerD(2,3) [OF wf i] by (intro wf_writer_frame [OF wf fr(1) i]) auto
  then show "wf_writer (snd (createThunks cfg margin i w))" "same_shape w (snd (createThunks cfg margin i w))"
    using c same_frame_shape [OF fr(1)] by simp_all
qed

lemma create_all_thunks_wf:
  assumes "wf_writer w"
  shows "wf_writer (create_all_thunks cfg margin w) \<and> same_shape w (create_all_thunks cfg margin w)"
proof -
  have "k \<le> length (w_sections w) \<Longrightarrow> wf_writer (fold (\<lambda>i w. snd (createThunks cfg margin i w)) [0..<k] w) \<and>
      same_shape w (fold (\<lambda>i w. snd (createThunks cfg margin i w)) [0..<k] w)" for k
  proof (induction k)
    case (Suc k)
    let ?w = "fold (\<lambda>i w. snd (createThunks cfg margin i w)) [0..<k] w"
    have IH: "wf_writer ?w" "same_shape w ?w" using Suc by simp_all
    then have "k < length (w_sections ?w)" using Suc.prems same_shape_length [OF IH(2)] by simp
    then show ?case
      using createThunks_wf [OF IH(1)] same_shape_trans [OF IH(2)] by simp
  qed (use assms in simp)
  then show ?thesis by (simp add: create_all_thunks_def)
qed

text \<open>Putting the original chunk lists back is harmless: chunks are only ever added.\<close>

lemma restore_chunks_sections:
  assumes "length orig = length (w_sections w)"
  shows "map ls_chunks (w_sections (restore_chunks orig w)) = orig"
    and "map ls_id (w_sections (restore_chunks orig w)) = map ls_id (w_sections w)"
proof -
  have "length orig = length ss \<Longrightarrow> map ls_chunks (map2 (\<lambda>s cs. s\<lparr>ls_chunks := cs\<rparr>) ss orig) = orig \<and>
    map ls_id (map2 (\<lambda>s cs. s\<lparr>ls_chunks := cs\<rparr>) ss orig) = map ls_id ss" for ss :: "OutputSection list"
    by (induction orig ss rule: list_induct2) auto
  from this [OF assms] show "map ls_chunks (w_sections (restore_chunks orig w)) = orig"
    "map ls_id (w_sections (restore_chunks orig w)) = map ls_id (w_sections w)"
    by (simp_all add: restore_chunks_def)
qed

lemma wf_writer_shape:
  assumes wf: "wf_writer w" and sh: "same_shape w w'" and cs: "map ls_chunks (w_sections w') = map ls_chunks (w_sections w)"
  shows "wf_writer w'"
proof -
  have n: "length (w_sections w') = length (w_sections w)" by (rule same_shape_length [OF sh])
  have ch: "ls_chunks (w_sections w' ! j) = ls_chunks (w_sections w ! j)" if "j < length (w_sections w)" for j
    using cs that n by (metis nth_map)
  have id: "ls_id (w_sections w' ! j) = ls_id (w_sections w ! j)" if "j < length (w_sections w)" for j
    using sh that n unfolding same_shape_def by (metis nth_map)
  have sc: "section_chunks w' j = section_chunks w j" if "j < length (w_sections w)" for j
    using ch [OF that] by (simp add: section_chunks_def)
  have m: "members w' = members w" using sh by (simp add: same_shape_def members_def)
  have le: "c < length (w_chunks w')" if "c < length (w_chunks w)" for c using sh that by (simp add: same_shape_def)
  have dr: "w_dynamicRelocs w' = w_dynamicRelocs w" "w_relocSec w' = w_relocSec w" using sh by (simp_all add: same_shape_def)
  show ?thesis
    unfolding wf_writer_def n m dr
  proof (intro conjI allI impI ballI, goal_cases)
    case 1 then show ?case using wf_writerD(1) [OF wf] sh by (simp add: same_shape_def)
  next
    case (2 i) then show ?case using wf_writerD(2) [OF wf] ch by simp
  next
    case (3 i c) then show ?case using wf_writerD(3) [OF wf] sc le by blast
  next
    case (4 i c) then show ?case using wf_writerD(4) [OF wf] sc by blast
  next
    case (5 i j) then show ?case using wf_writerD(5) [OF wf] sc by blast
  next
    case (6 c) then show ?case using wf_writerD(6) [OF wf] le by blast
  next
    case (7 c) then show ?case using wf_writerD(7) [OF wf] by blast
  next
    case (8 c i) then show ?case using wf_writerD(8) [OF wf] id sc by simp
  next
    case (9 c) then show ?case using wf_writerD(9) [OF wf] le by blast
  qed
qed

lemma restore_wf:
  assumes wf: "wf_writer w0" and sh: "same_shape w0 w"
  shows "wf_writer (restore_chunks (map ls_chunks (w_sections w0)) w)"
    and "same_shape w0 (restore_chunks (map ls_chunks (w_sections w0)) w)"
proof -
  have n: "length (map ls_chunks (w_sections w0)) = length (w_sections w)" using same_shape_length [OF sh] by simp
  show s: "same_shape w0 (restore_chunks (map ls_chunks (w_sections w0)) w)"
    using restore_chunks_sections(2) [OF n] sh by (simp add: same_shape_def restore_chunks_def)
  show "wf_writer (restore_chunks (map ls_chunks (w_sections w0)) w)"
    by (rule wf_writer_shape [OF wf s restore_chunks_sections(1) [OF n]])
qed

lemma thunk_passes_result:
  assumes wf0: "wf_writer w0" and al: "0 < cf_align cfg" "0 < cf_fileAlign cfg"
    and "thunk_passes cfg (map ls_chunks (w_sections w0)) n margin errs w = (errs', r)" and "n \<le> 10"
    and "wf_writer w" and "same_shape w0 w" and "\<exists>wa e. wf_writer wa \<and> assignAddresses cfg wa = (e, w)"
  shows "case r of
      Finalized w' \<Rightarrow> (\<exists>wa e. wf_writer wa \<and> assignAddresses cfg wa = (e, w')) \<and>
        list_all (\<lambda>s. verifyRanges cfg w' (ls_chunks s)) (w_sections w')
    | NotConverged k \<Rightarrow> k = 10"
  using assms(4-)
proof (induction "10 - n" arbitrary: n margin errs w)
  case 0
  then have n: "n = 10" by simp
  show ?case
  proof (cases "list_all (\<lambda>s. verifyRanges cfg w (ls_chunks s)) (w_sections w)")
    case True
    then have "r = Finalized w" using 0(2) by (simp add: thunk_passes.simps)
    then show ?thesis using True 0(6) by simp
  next
    case False
    then have "r = NotConverged 10" using 0(2) n by (simp add: thunk_passes.simps)
    then show ?thesis by simp
  qed
next
  case (Suc m)
  show ?case
  proof (cases "list_all (\<lambda>s. verifyRanges cfg w (ls_chunks s)) (w_sections w)")
    case True
    then have "r = Finalized w" using Suc(3) by (simp add: thunk_passes.simps)
    then show ?thesis using True Suc(7) by simp
  next
    case False
    define w1 where "w1 = (if 0 < n then restore_chunks (map ls_chunks (w_sections w0)) w else w)"
    have lt: "\<not> 10 \<le> n" using Suc(2) by simp
    define margin1 where "margin1 = (if 0 < n then margin * 2 else margin)"
    obtain e w2 where a: "assignAddresses cfg (create_all_thunks cfg margin1 w1) = (e, w2)" by (metis prod.exhaust)
    have w1: "wf_writer w1" "same_shape w0 w1"
      using restore_wf [OF wf0 Suc(6)] Suc(5,6) by (simp_all add: w1_def)
    have w1': "wf_writer (create_all_thunks cfg margin1 w1)" "same_shape w1 (create_all_thunks cfg margin1 w1)"
      using create_all_thunks_wf [OF w1(1)] by simp_all
    have w2: "wf_writer w2" "same_shape (create_all_thunks cfg margin1 w1) w2"
      using assignAddresses_laid [OF w1'(1) al a] by simp_all
    have "thunk_passes cfg (map ls_chunks (w_sections w0)) (Suc n) margin1 (errs @ e) w2 = (errs', r)"
      using lt Suc(3) False a
      by (subst (asm) thunk_passes.simps) (simp add: w1_def [symmetric] margin1_def [symmetric] Let_def)
    moreover have "same_shape w0 w2" using w1(2) w1'(2) w2(2) same_shape_trans by blast
    moreover have "\<exists>wa e. wf_writer wa \<and> assignAddresses cfg wa = (e, w2)" using w1'(1) a by blast
    moreover have "m = 10 - Suc n" "Suc n \<le> 10" using Suc(2) by simp_all
    ultimately show ?thesis using w2(1) by (intro Suc(1) [of "Suc n" margin1 "errs @ e" w2])
  qed
qed

section \<open>Verified branches can be encoded\<close>

lemma sint_u64_small: "uint (v :: u64) < 2 ^ 63 \<Longrightarrow> sint v = uint v"
  by (simp add: sint_u64_cases)

lemma AbsoluteDifference_isInt:
  assumes "isInt n (AbsoluteDifference s p)" and "uint p < 2 ^ 63"
  shows "isInt n (s - p)"
proof (cases "p < s")
  case True
  then show ?thesis using assms(1) by (simp add: AbsoluteDifference_def)
next
  case False
  then have le: "uint s \<le> uint p" by (simp add: word_less_def)
  have "uint (p - s) = uint p - uint s"
    using le uint_sub_lem [of s p] by simp
  then have d: "sint (p - s) = uint p - uint s" "uint p - uint s < 2 ^ 63" "0 \<le> uint p - uint s"
    using le assms(2) uint_ge_0 [of s] sint_u64_small [of "p - s"] by linarith+
  have "sint (s - p) = - (uint p - uint s)"
  proof (cases "uint p = uint s")
    case True
    then have "s = p" by (simp add: word_uint_eq_iff)
    then show ?thesis by simp
  next
    case False
    have "s - p = - (p - s)" by simp
    then have "uint (s - p) = 2 ^ 64 - (uint p - uint s)"
      using uint_neg_u64 [of "p - s"] \<open>uint (p - s) = _\<close> False by simp
    then show ?thesis using d(2) sint_u64_cases [of "s - p"] by simp
  qed
  then show ?thesis using assms(1) d False by (simp add: isInt_def AbsoluteDifference_def)
qed

lemma isInt_ucast_u32:
  assumes "isInt n (v :: u64)" and "n \<le> 32"
  shows "isInt n (ucast v :: u32)"
proof -
  have "2 ^ (n - 1) \<le> (2 :: int) ^ 31" using assms(2) by (intro power_increasing) auto
  then have "- (2 ^ 31) \<le> sint v" "sint v < 2 ^ 31" using assms(1) by (auto simp: isInt_def)
  then have "signed_take_bit 31 (sint v) = sint v" by (intro signed_take_bit_int_eq_self) auto
  moreover have "sint (ucast v :: u32) = signed_take_bit 31 (sint v)"
    by (simp add: sint_uint signed_take_bit_take_bit uint_word_of_int unsigned_ucast_eq)
  ultimately show ?thesis using assms(1) by (simp add: isInt_def)
qed

lemma no_range_error:
  "RelocationOutOfRange \<notin> set (fst (applySecRel sec off os s buf))"
  "RelocationOutOfRange \<notin> set (fst (applyArm64Ldr off imm buf))"
  "RelocationOutOfRange \<notin> set (fst (applySecRelLow12A sec off os s buf))"
  "RelocationOutOfRange \<notin> set (fst (applySecRelHigh12A sec off os s buf))"
  "RelocationOutOfRange \<notin> set (fst (applySecRelLdr sec off os s buf))"
  "RelocationOutOfRange \<notin> set (fst (applyMOV32T off v buf))"
  by (auto simp: applySecRel_def checkSecRel_def applyArm64Ldr_def applySecRelLow12A_def applySecRelHigh12A_def
      applySecRelLdr_def applyMOV32T_def readMOV_def Let_def split: option.splits if_splits prod.splits bool.splits)

lemma isInRange_ARM64:
  assumes "isInRange type s p 0 m" and "isAnyArm64 m" and "uint p < 2 ^ 63"
  shows "RelocationOutOfRange \<notin> set (fst (applyRelARM64 sec numOS off type os s p ib buf))"
proof -
  have m: "m \<noteq> ARMNT" using assms(2) by (auto simp: isAnyArm64_def)
  have "type = 0x0003 \<Longrightarrow> isInt 28 (s - p)" "type = 0x000F \<Longrightarrow> isInt 21 (s - p)" "type = 0x0010 \<Longrightarrow> isInt 16 (s - p)"
    using assms m AbsoluteDifference_isInt [OF _ assms(3)] by (auto simp: isInRange_def Let_def)
  then show ?thesis
    by (simp add: applyRelARM64_def no_range_error applyArm64Branch26_def applyArm64Branch19_def applyArm64Branch14_def)
qed

lemma isInt_or_1:
  assumes "isInt n (s - q)" and "\<not> bit (q :: u64) 0" and "1 < n" "n \<le> 32"
  shows "isInt n ((s OR 1) - q)"
proof (cases "bit s 0")
  case True
  then have "s OR 1 = s" by (simp add: or_one_eq bit_0)
  then show ?thesis using assms(1) by simp
next
  case False
  then have "s OR 1 = s + 1" by (simp add: or_one_eq bit_0)
  then have or1: "(s OR 1) - q = (s - q) + 1" by simp
  have "even (s - q)" using False assms(2) by (simp add: bit_0)
  then have "even (sint (s - q))" using bit_sint [of 0 "s - q"] by (simp add: bit_0)
  moreover have "even ((2 :: int) ^ (n - 1))" using assms(3) by simp
  ultimately have "sint (s - q) + 1 \<noteq> 2 ^ (n - 1)" by (metis even_add odd_one)
  then have lt: "sint (s - q) + 1 < 2 ^ (n - 1)" using assms(1) by (simp add: isInt_def)
  have "(2 :: int) ^ (n - 1) \<le> 2 ^ 63" using assms(4) by (intro power_increasing) auto
  then have "sint (s - q + 1) = sint (s - q) + 1"
    using lt assms(1) by (simp add: sint_word_ariths signed_take_bit_int_eq_self isInt_def)
  then show ?thesis using lt assms(1) by (simp add: isInt_def or1)
qed

lemma isInRange_ARM:
  assumes "isInRange type s p 0 ARMNT" and "uint p < 2 ^ 62" and "\<not> bit p 0"
  shows "RelocationOutOfRange \<notin> set (fst (applyRelARM sec numOS off type os s p ib buf))"
proof -
  let ?q = "p + 4"
  have q: "uint ?q < 2 ^ 63" using assms(2) by (simp add: uint_word_ariths)
  have even_q: "\<not> bit ?q 0" using assms(3) by (simp add: bit_0)
  have fits: "isInt n (ucast (sx - p - 4) :: u32)" if "isInt n (s - ?q)" "1 < n" "n \<le> 32" "sx = s \<or> sx = s OR 1" for n sx
  proof -
    have "isInt n (sx - ?q)" using that isInt_or_1 [OF that(1) even_q that(2,3)] by auto
    then have "isInt n (ucast (sx - ?q) :: u32)" using that(3) by (intro isInt_ucast_u32)
    then show ?thesis by (simp add: diff_diff_eq)
  qed
  have "type = 0x0012 \<Longrightarrow> isInt 21 (s - ?q)" "type = 0x0014 \<or> type = 0x0015 \<Longrightarrow> isInt 25 (s - ?q)"
    using assms(1) AbsoluteDifference_isInt [OF _ q] by (auto simp: isInRange_def Let_def)
  then show ?thesis
    using fits [of 21] fits [of 25]
    by (auto simp: applyRelARM_def no_range_error applyBranch20T_def applyBranch24T_def Let_def split: option.splits)
qed

section \<open>Finalized addresses\<close>

lemma finalizeAddresses_cases:
  assumes wf: "wf_writer w" and al: "0 < cf_align cfg" "0 < cf_fileAlign cfg"
    and f: "finalizeAddresses cfg w = (errs, r)"
  shows "case r of
      Finalized w' \<Rightarrow> (\<exists>wa e. wf_writer wa \<and> assignAddresses cfg wa = (e, w')) \<and>
        (cf_machine cfg = ARMNT \<or> isAnyArm64 (cf_machine cfg) \<longrightarrow>
           list_all (\<lambda>s. verifyRanges cfg w' (ls_chunks s)) (w_sections w'))
    | NotConverged k \<Rightarrow> k = 10"
proof -
  obtain e w1 where a: "assignAddresses cfg w = (e, w1)" by (metis prod.exhaust)
  show ?thesis
  proof (cases "cf_machine cfg = ARMNT \<or> isAnyArm64 (cf_machine cfg)")
    case False
    then have "r = Finalized w1" using f a by (simp add: finalizeAddresses_def)
    then show ?thesis using wf a False by auto
  next
    case True
    then have p: "thunk_passes cfg (map ls_chunks (w_sections w1)) 0 (1024 * 100) e w1 = (errs, r)"
      using f a by (auto simp: finalizeAddresses_def)
    have wf1: "wf_writer w1" using assignAddresses_laid [OF wf al a] by blast
    have "\<exists>wa e. wf_writer wa \<and> assignAddresses cfg wa = (e, w1)" using wf a by blast
    then show ?thesis
      using thunk_passes_result [OF wf1 al p _ wf1] by (simp split: thunk_result.splits)
  qed
qed

text \<open>C2: \<open>finalizeAddresses\<close> always ends: either the tenth pass still leaves a branch out of range and the fatal error is
  reported, or it returns an image. If the addresses and file offsets of that image fit 32 bits (its size and its file
  size are below 4 GiB; addresses wrap silently otherwise, \<open>assignAddresses_wraps\<close>), the image is laid out correctly, thunks
  included: the sections are aligned, in order, disjoint and inside the image, and the chunks are in order, disjoint and
  inside their sections. A chunk is aligned if its alignment divides the section alignment (a stricter one is not honoured,
  \<open>assignAddresses_overaligned\<close>).\<close>

theorem finalizeAddresses_layout:
  assumes "wf_writer w" and "0 < cf_align cfg" and "0 < cf_fileAlign cfg"
    and "finalizeAddresses cfg w = (errs, r)"
  shows "r = NotConverged 10 \<or>
    (\<exists>w'. r = Finalized w' \<and>
       (w_sizeOfImage w' < 2 ^ 32 \<longrightarrow> w_fileSize w' < 2 ^ 32 \<longrightarrow>
          list_all (section_within cfg w') (w_sections w') \<and> sorted_wrt sections_apart (w_sections w') \<and>
          list_all (\<lambda>s. list_all (\<lambda>c. chunk_within cfg s (w_chunks w' ! c)) (ls_chunks s) \<and>
             sorted_wrt (\<lambda>c d. chunks_apart (w_chunks w' ! c) (w_chunks w' ! d)) (ls_chunks s)) (w_sections w')))"
proof (cases r)
  case (NotConverged k)
  then show ?thesis using finalizeAddresses_cases [OF assms] by simp
next
  case (Finalized w')
  then obtain wa e where wa: "wf_writer wa" "assignAddresses cfg wa = (e, w')"
    using finalizeAddresses_cases [OF assms] by auto
  from image_sections [OF wa(1) assms(2,3) wa(2)] image_chunks [OF wa(1) assms(2,3) wa(2)] show ?thesis
    using Finalized by (simp add: list_all_iff)
qed

lemma verifyRanges_reloc:
  assumes "verifyRanges cfg w cs" and "c \<in> set cs" and "lc_isSection (w_chunks w ! c)" and "rel \<in> set (lc_relocs (w_chunks w ! c))"
    and "file_symbol (w_files w) (lc_file (w_chunks w ! c)) (SymbolTableIndex rel) = Some b"
  shows "isInRange (rel_Type rel) (sym_rva cfg (w_chunks w) b) (reloc_address (w_chunks w ! c) rel) 0 (lc_machine (w_chunks w ! c))"
proof -
  have "verify_reloc cfg w (w_chunks w ! c) rel"
    using bspec [OF assms(1) [unfolded verifyRanges_def list_all_iff [of _ cs]] assms(2)] assms(3,4) by (simp add: list_all_iff)
  then show ?thesis using assms(5) by (simp add: verify_reloc_def)
qed

lemma reloc_address_small: "uint (reloc_address ck rel) < 2 ^ 32"
  using uint_lt2p [of "lc_rva ck + VirtualAddress rel"] by (simp add: reloc_address_def unsigned_ucast_eq take_bit_int_eq_self)

text \<open>C3: When \<open>finalizeAddresses\<close> returns an image for an ARM target, every relocation of every section of it can be
  applied: the relocation encoders report no branch out of range (on 32-bit ARM for instructions at even addresses).\<close>

theorem finalizeAddresses_branches_reach:
  assumes "wf_writer w" and "0 < cf_align cfg" and "0 < cf_fileAlign cfg" and "cf_machine cfg = ARMNT \<or> isAnyArm64 (cf_machine cfg)"
    and "finalizeAddresses cfg w = (errs, Finalized w')"
    and "sec \<in> set (w_sections w')" and "c \<in> set (ls_chunks sec)" and "lc_isSection (w_chunks w' ! c)"
    and "rel \<in> set (lc_relocs (w_chunks w' ! c))"
    and "file_symbol (w_files w') (lc_file (w_chunks w' ! c)) (SymbolTableIndex rel) = Some b"
  defines "s \<equiv> sym_rva cfg (w_chunks w') b" and "p \<equiv> reloc_address (w_chunks w' ! c) rel"
  shows "(isAnyArm64 (lc_machine (w_chunks w' ! c)) \<longrightarrow>
       RelocationOutOfRange \<notin> set (fst (applyRelARM64 nm numOS off (rel_Type rel) os s p (cf_imageBase cfg) buf))) \<and>
     (lc_machine (w_chunks w' ! c) = ARMNT \<longrightarrow> even p \<longrightarrow>
       RelocationOutOfRange \<notin> set (fst (applyRelARM nm numOS off (rel_Type rel) os s p (cf_imageBase cfg) buf)))"
proof -
  have "list_all (\<lambda>s. verifyRanges cfg w' (ls_chunks s)) (w_sections w')"
    using finalizeAddresses_cases [OF assms(1-3,5)] assms(4) by simp
  then have "verifyRanges cfg w' (ls_chunks sec)" using assms(6) by (simp add: list_all_iff)
  then have r: "isInRange (rel_Type rel) s p 0 (lc_machine (w_chunks w' ! c))"
    unfolding s_def p_def by (rule verifyRanges_reloc [OF _ assms(7-10)])
  have "uint p < 2 ^ 32" unfolding p_def by (rule reloc_address_small)
  then have "uint p < 2 ^ 63" "uint p < 2 ^ 62" by simp_all
  then show ?thesis using r isInRange_ARM64 [OF r] isInRange_ARM [of "rel_Type rel" s p] by (auto simp: bit_0)
qed

section \<open>Redirected relocations\<close>

text \<open>The chunks and symbols a symbol's address depends on, and the attributes that determine it.\<close>

definition symbol_known :: "lchunk list \<Rightarrow> symbol_body \<Rightarrow> bool" where
  "symbol_known cks b =
     (case b of
        DefinedRegular f v (Some c) \<Rightarrow> c < length cks \<and> lc_repl (cks ! c) < length cks
      | DefinedCommon f sz (Some c) \<Rightarrow> c < length cks
      | DefinedLocalImport c \<Rightarrow> c < length cks
      | DefinedImportThunk f c \<Rightarrow> c < length cks
      | DefinedImportData f (Some c) \<Rightarrow> c < length cks
      | DefinedSynthetic (Some c) off \<Rightarrow> c < length cks
      | _ \<Rightarrow> True)"

definition same_place :: "lchunk \<Rightarrow> lchunk \<Rightarrow> bool" where
  "same_place a b \<longleftrightarrow>
     lc_rva b = lc_rva a \<and> lc_repl b = lc_repl a \<and> lc_isSection b = lc_isSection a \<and> lc_file b = lc_file a \<and>
     lc_machine b = lc_machine a \<and> lc_origRelocs b = lc_origRelocs a"

definition extends :: "lchunk list \<Rightarrow> lchunk list \<Rightarrow> bool" where
  "extends cks cks' \<longleftrightarrow> length cks \<le> length cks' \<and> (\<forall>c<length cks. same_place (cks ! c) (cks' ! c))"

lemma extends_refl [simp]: "extends cks cks"
  by (simp add: extends_def same_place_def)

lemma extends_trans: "extends a b \<Longrightarrow> extends b c \<Longrightarrow> extends a c"
  by (auto simp: extends_def same_place_def)

lemma extends_append [simp]: "extends cks (cks @ new)"
  by (simp add: extends_def same_place_def nth_append)

lemma extends_update:
  assumes "same_place (cks ! c) ck"
  shows "extends cks (cks[c := ck])"
proof -
  have "same_place (cks ! k) (cks[c := ck] ! k)" if "k < length cks" for k
    using assms that by (cases "k = c") (simp_all add: same_place_def)
  then show ?thesis by (simp add: extends_def)
qed

lemma sym_rva_extends:
  assumes e: "extends cks cks'" and k: "symbol_known cks b"
  shows "sym_rva cfg cks' b = sym_rva cfg cks b"
proof -
  have le: "length cks \<le> length cks'" using e by (simp add: extends_def)
  have rva: "ck_rva (map chunk_of cks' ! c) = ck_rva (map chunk_of cks ! c)"
    and repl: "ck_repl (map chunk_of cks' ! c) = ck_repl (map chunk_of cks ! c)" if "c < length cks" for c
    using e that le by (auto simp: extends_def same_place_def chunk_of_def)
  have repl2: "lc_repl (cks ! c) < length cks \<Longrightarrow> ck_repl (map chunk_of cks ! c) < length cks" if "c < length cks" for c
    using that by (simp add: chunk_of_def)
  show ?thesis
  proof (cases b)
    case (DefinedRegular f v data)
    then show ?thesis
      using k le rva repl repl2 by (cases data)
        (auto simp: sym_rva_def layout_store_def symbol_known_def reg_chunk_def chunk_rva_def simp del: nth_map)
  qed (use k le rva in \<open>auto simp: sym_rva_def layout_store_def symbol_known_def chunk_rva_def simp del: nth_map split: option.splits\<close>)
qed

text \<open>A thunk symbol for an address, and the invariant of \<open>createThunks\<close>: known thunks stand for the address they are
  filed under, and the recorded indices lead to them.\<close>

definition thunk_for :: "lay_config \<Rightarrow> lchunk list \<Rightarrow> lchunk list \<Rightarrow> u64 \<Rightarrow> symbol_body \<Rightarrow> bool" where
  "thunk_for cfg cks0 cks k th \<longleftrightarrow>
     (\<exists>n b. th = DefinedSynthetic (Some n) 0 \<and> length cks0 \<le> n \<and> n < length cks \<and> lc_branch (cks ! n) = RangeThunk b \<and>
        sym_rva cfg cks0 b = k)"

definition indexed :: "symbol_body option list list \<Rightarrow> file_id \<Rightarrow> u32 \<Rightarrow> symbol_body \<Rightarrow> bool" where
  "indexed files f i th \<longleftrightarrow> (\<exists>m. i = of_nat m \<and> m < length (files ! f) \<and> files ! f ! m = Some th)"

definition files_grow :: "symbol_body option list list \<Rightarrow> symbol_body option list list \<Rightarrow> bool" where
  "files_grow files files' \<longleftrightarrow> length files' = length files \<and> (\<forall>f<length files. prefix (files ! f) (files' ! f))"

definition branches_kept :: "lchunk list \<Rightarrow> lchunk list \<Rightarrow> bool" where
  "branches_kept cks cks' \<longleftrightarrow> (\<forall>n<length cks. \<forall>b. lc_branch (cks ! n) = RangeThunk b \<longrightarrow> lc_branch (cks' ! n) = RangeThunk b)"

definition thunk_inv :: "lay_config \<Rightarrow> lchunk list \<Rightarrow> symbol_body option list list \<Rightarrow> thunk_state \<Rightarrow> bool" where
  "thunk_inv cfg cks0 files0 ts \<longleftrightarrow>
     extends cks0 (ts_chunks ts) \<and> files_grow files0 (ts_files ts) \<and>
     (\<forall>(k, th)\<in>set (ts_last ts). thunk_for cfg cks0 (ts_chunks ts) k th) \<and>
     (\<forall>((f, th), i)\<in>set (ts_indices ts). f < length files0 \<and> indexed (ts_files ts) f i th)"

text \<open>Progress between two states of the loop.\<close>

definition thunk_step :: "thunk_state \<Rightarrow> thunk_state \<Rightarrow> bool" where
  "thunk_step ts ts' \<longleftrightarrow>
     length (ts_chunks ts) \<le> length (ts_chunks ts') \<and> branches_kept (ts_chunks ts) (ts_chunks ts') \<and> files_grow (ts_files ts) (ts_files ts')"

lemma branches_kept_update:
  assumes "\<And>b. lc_branch (cks ! n) = RangeThunk b \<Longrightarrow> lc_branch ck = RangeThunk b"
  shows "branches_kept cks (cks[n := ck])"
proof -
  have "lc_branch (cks[n := ck] ! k) = RangeThunk b" if "k < length cks" "lc_branch (cks ! k) = RangeThunk b" for k b
    using assms that by (cases "k = n") simp_all
  then show ?thesis by (simp add: branches_kept_def)
qed

lemma files_grow_refl [simp]: "files_grow files files"
  by (simp add: files_grow_def)

lemma files_grow_trans: "files_grow a b \<Longrightarrow> files_grow b c \<Longrightarrow> files_grow a c"
  unfolding files_grow_def by (metis prefix_order.trans)

lemma thunk_step_refl [simp]: "thunk_step ts ts"
  by (simp add: thunk_step_def branches_kept_def)

lemma thunk_step_trans:
  assumes "thunk_step a b" and "thunk_step b c"
  shows "thunk_step a c"
proof -
  have "branches_kept (ts_chunks a) (ts_chunks c)"
    using assms unfolding thunk_step_def branches_kept_def by (meson less_le_trans)
  then show ?thesis using assms files_grow_trans unfolding thunk_step_def by (meson le_trans)
qed

lemma thunk_for_step:
  assumes "thunk_for cfg cks0 (ts_chunks ts) k th" and "thunk_step ts ts'"
  shows "thunk_for cfg cks0 (ts_chunks ts') k th"
proof -
  from assms(1) obtain n b where n: "th = DefinedSynthetic (Some n) 0" "length cks0 \<le> n" "n < length (ts_chunks ts)"
      "lc_branch (ts_chunks ts ! n) = RangeThunk b" "sym_rva cfg cks0 b = k"
    by (auto simp: thunk_for_def)
  have "n < length (ts_chunks ts')" "lc_branch (ts_chunks ts' ! n) = RangeThunk b"
    using assms(2) n(3,4) by (auto simp: thunk_step_def branches_kept_def)
  then show ?thesis using n by (auto simp: thunk_for_def)
qed

lemma indexed_grow: "files_grow files files' \<Longrightarrow> f < length files \<Longrightarrow> indexed files f i th \<Longrightarrow> indexed files' f i th"
  unfolding files_grow_def indexed_def by (metis nth_append prefix_def length_append trans_less_add1)

lemma file_symbol_grow:
  "files_grow files files' \<Longrightarrow> f < length files \<Longrightarrow> unat i < length (files ! f) \<Longrightarrow> file_symbol files' f i = file_symbol files f i"
  by (auto simp: files_grow_def file_symbol_def prefix_def nth_append dest!: spec [of _ f])

lemma thunk_invI:
  assumes "extends cks0 (ts_chunks ts)" and "files_grow files0 (ts_files ts)"
    and "\<And>k th. (k, th) \<in> set (ts_last ts) \<Longrightarrow> thunk_for cfg cks0 (ts_chunks ts) k th"
    and "\<And>f th i. ((f, th), i) \<in> set (ts_indices ts) \<Longrightarrow> f < length files0 \<and> indexed (ts_files ts) f i th"
  shows "thunk_inv cfg cks0 files0 ts"
  unfolding thunk_inv_def
proof (intro conjI ballI)
  fix e assume e: "e \<in> set (ts_last ts)"
  obtain k th where "e = (k, th)" by (metis prod.exhaust)
  then show "case e of (k, th) \<Rightarrow> thunk_for cfg cks0 (ts_chunks ts) k th" using assms(3) e by blast
next
  fix e assume e: "e \<in> set (ts_indices ts)"
  obtain f th i where e2: "e = ((f, th), i)" by (metis prod.exhaust)
  then have "f < length files0 \<and> indexed (ts_files ts) f i th" using assms(4) e by blast
  then show "case e of (x, i) \<Rightarrow> (case x of (f, th) \<Rightarrow> \<lambda>i. f < length files0 \<and> indexed (ts_files ts) f i th) i"
    by (simp add: e2)
qed (fact assms)+

lemma thunk_invD:
  assumes "thunk_inv cfg cks0 files0 ts"
  shows "extends cks0 (ts_chunks ts)" "files_grow files0 (ts_files ts)"
    "(k, th) \<in> set (ts_last ts) \<Longrightarrow> thunk_for cfg cks0 (ts_chunks ts) k th"
    "((f, th), i) \<in> set (ts_indices ts) \<Longrightarrow> f < length files0 \<and> indexed (ts_files ts) f i th"
  using assms by (auto simp: thunk_inv_def)

lemma thunk_stepD:
  assumes "thunk_step ts ts'"
  shows "length (ts_chunks ts) \<le> length (ts_chunks ts')" "branches_kept (ts_chunks ts) (ts_chunks ts')" "files_grow (ts_files ts) (ts_files ts')"
  using assms by (simp_all add: thunk_step_def)

lemma thunk_inv_keep:
  assumes inv: "thunk_inv cfg cks0 files0 ts" and st: "thunk_step ts ts'"
    and ext: "extends cks0 (ts_chunks ts')" and same: "ts_last ts' = ts_last ts" "ts_indices ts' = ts_indices ts"
  shows "thunk_inv cfg cks0 files0 ts'"
proof (rule thunk_invI)
  show "extends cks0 (ts_chunks ts')" by (rule ext)
  show "files_grow files0 (ts_files ts')" by (rule files_grow_trans [OF thunk_invD(2) [OF inv] thunk_stepD(3) [OF st]])
  show "thunk_for cfg cks0 (ts_chunks ts') k th" if "(k, th) \<in> set (ts_last ts')" for k th
    using that thunk_for_step [OF thunk_invD(3) [OF inv] st] by (simp add: same)
  show "f < length files0 \<and> indexed (ts_files ts') f i th" if "((f, th), i) \<in> set (ts_indices ts')" for f th i
  proof -
    have a: "f < length files0" "indexed (ts_files ts) f i th" using thunk_invD(4) [OF inv] that same by auto
    moreover have "f < length (ts_files ts)" using a(1) thunk_invD(2) [OF inv] by (simp add: files_grow_def)
    ultimately show ?thesis using indexed_grow [OF thunk_stepD(3) [OF st]] by blast
  qed
qed

lemma getThunk_correct:
  assumes g: "getThunk cfg b p ty margin m ts = ((th, wasNew), ts')" and inv: "thunk_inv cfg cks0 files0 ts"
    and k: "symbol_known cks0 b"
  shows "thunk_inv cfg cks0 files0 ts'" and "thunk_step ts ts'" and "thunk_for cfg cks0 (ts_chunks ts') (sym_rva cfg cks0 b) th"
    and "wasNew = Some t \<Longrightarrow> length cks0 \<le> t"
proof -
  note ext = thunk_invD(1) [OF inv]
  have key: "sym_rva cfg (ts_chunks ts) b = sym_rva cfg cks0 b" by (rule sym_rva_extends [OF ext k])
  define new where "new = ts\<lparr>ts_chunks := ts_chunks ts @ [thunk_chunk m b],
    ts_last := (sym_rva cfg cks0 b, DefinedSynthetic (Some (length (ts_chunks ts))) 0) # ts_last ts\<rparr>"
  consider (old) "wasNew = None" "ts' = ts" "map_of (ts_last ts) (sym_rva cfg cks0 b) = Some th"
    | (new) "wasNew = Some (length (ts_chunks ts))" "ts' = new" "th = DefinedSynthetic (Some (length (ts_chunks ts))) 0"
  proof (cases "map_of (ts_last ts) (sym_rva cfg cks0 b)")
    case None
    then have "((th, wasNew), ts') = ((DefinedSynthetic (Some (length (ts_chunks ts))) 0, Some (length (ts_chunks ts))), new)"
      by (subst g [symmetric]) (simp add: getThunk_def Let_def key new_def)
    then show ?thesis using that(2) by blast
  next
    case (Some t)
    show ?thesis
    proof (cases "isInRange ty (sym_rva cfg (ts_chunks ts) t) p margin m")
      case True
      then show ?thesis using g that(1) Some by (simp add: getThunk_def Let_def key)
    next
      case False
      then have "((th, wasNew), ts') = ((DefinedSynthetic (Some (length (ts_chunks ts))) 0, Some (length (ts_chunks ts))), new)"
        using Some by (subst g [symmetric]) (simp add: getThunk_def Let_def key new_def)
      then show ?thesis using that(2) by blast
    qed
  qed
  then have "thunk_inv cfg cks0 files0 ts' \<and> thunk_step ts ts' \<and> thunk_for cfg cks0 (ts_chunks ts') (sym_rva cfg cks0 b) th \<and>
    (\<forall>t. wasNew = Some t \<longrightarrow> length cks0 \<le> t)"
  proof cases
    case old
    then show ?thesis using inv thunk_invD(3) [OF inv map_of_SomeD [OF old(3)]] by simp
  next
    case new
    have le: "length cks0 \<le> length (ts_chunks ts)" using ext by (simp add: extends_def)
    have st: "thunk_step ts ts'" by (simp add: thunk_step_def new(2) new_def branches_kept_def nth_append)
    have here: "thunk_for cfg cks0 (ts_chunks ts') (sym_rva cfg cks0 b) th"
      using le by (auto simp: thunk_for_def new(2,3) new_def thunk_chunk_def nth_append)
    have "thunk_inv cfg cks0 files0 ts'"
    proof (rule thunk_invI)
      show "extends cks0 (ts_chunks ts')" using extends_trans [OF ext extends_append] by (simp add: new(2) new_def)
      show "files_grow files0 (ts_files ts')" using thunk_invD(2) [OF inv] by (simp add: new(2) new_def)
      show "thunk_for cfg cks0 (ts_chunks ts') k t" if "(k, t) \<in> set (ts_last ts')" for k t
        using that here thunk_for_step [OF thunk_invD(3) [OF inv] st] by (auto simp: new(2,3) new_def)
      show "f < length files0 \<and> indexed (ts_files ts') f i t" if "((f, t), i) \<in> set (ts_indices ts')" for f t i
        using that thunk_invD(4) [OF inv] by (simp add: new(2) new_def)
    qed
    then show ?thesis using st here le new(1) by auto
  qed
  then show "thunk_inv cfg cks0 files0 ts'" "thunk_step ts ts'" "thunk_for cfg cks0 (ts_chunks ts') (sym_rva cfg cks0 b) th"
    "wasNew = Some t \<Longrightarrow> length cks0 \<le> t"
    by simp_all
qed

lemma thunk_index_correct:
  assumes g: "thunk_index f th ts = (i, ts')" and inv: "thunk_inv cfg cks0 files0 ts" and f: "f < length files0"
  shows "thunk_inv cfg cks0 files0 ts'" and "thunk_step ts ts'" and "indexed (ts_files ts') f i th"
proof -
  have fl: "f < length (ts_files ts)" using f thunk_invD(2) [OF inv] by (simp add: files_grow_def)
  show "thunk_inv cfg cks0 files0 ts'" "thunk_step ts ts'" "indexed (ts_files ts') f i th"
  proof (atomize (full), cases "map_of (ts_indices ts) (f, th)")
    case (Some j)
    then have "((f, th), j) \<in> set (ts_indices ts)" by (rule map_of_SomeD)
    moreover have "j = i" "ts' = ts" using g Some by (simp_all add: thunk_index_def)
    ultimately show "thunk_inv cfg cks0 files0 ts' \<and> thunk_step ts ts' \<and> indexed (ts_files ts') f i th"
      using inv thunk_invD(4) [OF inv] by auto
  next
    case None
    define files where "files = (ts_files ts)[f := ts_files ts ! f @ [Some th]]"
    have e: "i = of_nat (length (ts_files ts ! f))" "ts' = ts\<lparr>ts_files := files, ts_indices := ((f, th), i) # ts_indices ts\<rparr>"
      using g None by (auto simp: thunk_index_def addRangeThunkSymbol_def files_def)
    have gr: "files_grow (ts_files ts) files"
      using fl by (simp add: files_grow_def files_def nth_list_update)
    have st: "thunk_step ts ts'" using gr by (simp add: thunk_step_def branches_kept_def e(2))
    have here: "indexed (ts_files ts') f i th"
      using fl by (auto simp: indexed_def e files_def intro!: exI [of _ "length (ts_files ts ! f)"])
    have "thunk_inv cfg cks0 files0 (ts'\<lparr>ts_indices := ts_indices ts\<rparr>)"
      by (rule thunk_inv_keep [OF inv]) (use st thunk_invD(1) [OF inv] in \<open>simp_all add: thunk_step_def e(2)\<close>)
    then have "thunk_inv cfg cks0 files0 ts'"
      using here f by (auto simp: thunk_inv_def e(2))
    then show "thunk_inv cfg cks0 files0 ts' \<and> thunk_step ts ts' \<and> indexed (ts_files ts') f i th"
      using st here by blast
  qed
qed


text \<open>A relocation after the pass: unchanged, or redirected to a thunk for the address of its target.\<close>

definition redirected ::
  "lay_config \<Rightarrow> lchunk list \<Rightarrow> symbol_body option list list \<Rightarrow> file_id \<Rightarrow> thunk_state \<Rightarrow> coff_relocation \<Rightarrow> coff_relocation \<Rightarrow> bool" where
  "redirected cfg cks0 files0 f ts rel rel' \<longleftrightarrow>
     rel' = rel \<or>
     (\<exists>b th i. file_symbol files0 f (SymbolTableIndex rel) = Some b \<and> rel' = rel\<lparr>SymbolTableIndex := i\<rparr> \<and>
        indexed (ts_files ts) f i th \<and> thunk_for cfg cks0 (ts_chunks ts) (sym_rva cfg cks0 b) th)"

lemma redirected_step:
  assumes "redirected cfg cks0 files0 f ts rel rel'" and "thunk_step ts ts'" and "f < length (ts_files ts)"
  shows "redirected cfg cks0 files0 f ts' rel rel'"
  using assms(1) thunk_for_step [OF _ assms(2)] indexed_grow [OF thunk_stepD(3) [OF assms(2)] assms(3)]
  unfolding redirected_def by blast

definition known_files :: "lchunk list \<Rightarrow> symbol_body option list list \<Rightarrow> bool" where
  "known_files cks files \<longleftrightarrow> (\<forall>syms\<in>set files. \<forall>b. Some b \<in> set syms \<longrightarrow> symbol_known cks b)"

lemma file_symbol_known:
  assumes "known_files cks files" and "f < length files" and "unat i < length (files ! f)" and "file_symbol files f i = Some b"
  shows "symbol_known cks b"
proof -
  have "files ! f ! unat i = Some b" using assms(4) by (auto simp: file_symbol_def split: option.splits if_splits)
  then have "Some b \<in> set (files ! f)" using assms(3) by (metis nth_mem)
  then show ?thesis using assms(1,2) by (auto simp: known_files_def)
qed

lemma thunk_reloc_correct:
  assumes step: "thunk_reloc cfg margin c rel (r, th, rels, ts) = (r', th', rels', ts')" and inv: "thunk_inv cfg cks0 files0 ts"
    and kn: "known_files cks0 files0" and c: "c < length cks0" and f: "lc_file (cks0 ! c) < length files0"
    and ix: "unat (SymbolTableIndex rel) < length (files0 ! lc_file (cks0 ! c))"
  shows "thunk_inv cfg cks0 files0 ts' \<and> thunk_step ts ts' \<and>
    (\<exists>rel'. rels' = rels @ [rel'] \<and> redirected cfg cks0 files0 (lc_file (cks0 ! c)) ts' rel rel')"
proof -
  let ?f = "lc_file (cks0 ! c)" and ?sc = "ts_chunks ts ! c"
  have sc: "lc_file ?sc = ?f" using thunk_invD(1) [OF inv] c by (simp add: extends_def same_place_def)
  have fs: "file_symbol (ts_files ts) ?f (SymbolTableIndex rel) = file_symbol files0 ?f (SymbolTableIndex rel)"
    by (rule file_symbol_grow [OF thunk_invD(2) [OF inv] f ix])
  show ?thesis
  proof (cases "file_symbol files0 ?f (SymbolTableIndex rel)")
    case None
    then show ?thesis using step inv by (auto simp: thunk_reloc_def sc fs redirected_def)
  next
    case (Some b)
    let ?p = "reloc_address ?sc rel + of_nat (ts_size ts)"
    show ?thesis
    proof (cases "isInRange (rel_Type rel) (sym_rva cfg (ts_chunks ts) b) ?p margin (lc_machine ?sc)")
      case True
      then show ?thesis using step inv Some by (auto simp: thunk_reloc_def sc fs redirected_def)
    next
      case False
      obtain t wasNew ts1 where g: "getThunk cfg b ?p (rel_Type rel) margin (lc_machine ?sc) ts = ((t, wasNew), ts1)"
        by (metis prod.exhaust)
      note G = getThunk_correct [OF g inv file_symbol_known [OF kn f ix Some]]
      define ts2 where "ts2 = (case wasNew of None \<Rightarrow> ts1
         | Some n \<Rightarrow> ts1\<lparr>ts_chunks := (ts_chunks ts1)[n := (ts_chunks ts1 ! n)\<lparr>lc_rva := of_nat r\<rparr>],
              ts_size := ts_size ts1 + lc_size (ts_chunks ts1 ! n), ts_changed := True\<rparr>)"
      obtain i ts3 where x: "thunk_index ?f t ts2 = (i, ts3)" by (metis prod.exhaust)
      have res: "ts' = ts3" "rels' = rels @ [rel\<lparr>SymbolTableIndex := i\<rparr>]"
        using step False Some g x unfolding thunk_reloc_def Let_def prod.case sc fs
        by (simp_all add: ts2_def split: option.splits)
      have st2: "thunk_step ts1 ts2" and ext2: "extends cks0 (ts_chunks ts2)"
      proof -
        have "thunk_step ts1 ts2"
          by (cases wasNew) (simp_all add: ts2_def thunk_step_def branches_kept_update branches_kept_def [of "ts_chunks ts1" "ts_chunks ts1"])
        moreover have "extends cks0 (ts_chunks ts2)"
        proof (cases wasNew)
          case (Some n)
          then have "length cks0 \<le> n" by (rule G(4))
          then show ?thesis using thunk_invD(1) [OF G(1)] Some by (simp add: ts2_def extends_def)
        qed (use thunk_invD(1) [OF G(1)] in \<open>simp add: ts2_def\<close>)
        ultimately show "thunk_step ts1 ts2" "extends cks0 (ts_chunks ts2)" by simp_all
      qed
      have inv2: "thunk_inv cfg cks0 files0 ts2"
        by (rule thunk_inv_keep [OF G(1) st2 ext2]) (simp_all add: ts2_def split: option.splits)
      note X = thunk_index_correct [OF x inv2 f]
      have "thunk_for cfg cks0 (ts_chunks ts3) (sym_rva cfg cks0 b) t"
        using thunk_for_step [OF thunk_for_step [OF G(3) st2] X(2)] .
      then have "redirected cfg cks0 files0 ?f ts' rel (rel\<lparr>SymbolTableIndex := i\<rparr>)"
        using X(3) Some by (auto simp: redirected_def res(1))
      moreover have "thunk_step ts ts'" using thunk_step_trans [OF thunk_step_trans [OF G(2) st2] X(2)] by (simp add: res(1))
      ultimately show ?thesis using X(1) res by simp
    qed
  qed
qed


lemma thunk_relocs_correct:
  assumes "fold (thunk_reloc cfg margin c) rs (r, th, rels, ts) = (r', th', rels', ts')" and "thunk_inv cfg cks0 files0 ts"
    and kn: "known_files cks0 files0" and c: "c < length cks0" and f: "lc_file (cks0 ! c) < length files0"
    and "\<forall>rel\<in>set rs. unat (SymbolTableIndex rel) < length (files0 ! lc_file (cks0 ! c))"
  shows "thunk_inv cfg cks0 files0 ts' \<and> thunk_step ts ts' \<and>
    (\<exists>new. rels' = rels @ new \<and> list_all2 (redirected cfg cks0 files0 (lc_file (cks0 ! c)) ts') rs new)"
  using assms(1,2,6)
proof (induction rs arbitrary: r th rels ts)
  case (Cons rel rs)
  let ?f = "lc_file (cks0 ! c)"
  obtain r1 th1 rels1 ts1 where s: "thunk_reloc cfg margin c rel (r, th, rels, ts) = (r1, th1, rels1, ts1)"
    by (metis prod_cases4)
  have "unat (SymbolTableIndex rel) < length (files0 ! ?f)" using Cons.prems(3) by simp
  from thunk_reloc_correct [OF s Cons.prems(2) kn c f this] obtain rel' where
    a: "thunk_inv cfg cks0 files0 ts1" "thunk_step ts ts1" "rels1 = rels @ [rel']" "redirected cfg cks0 files0 ?f ts1 rel rel'"
    by blast
  have h1: "fold (thunk_reloc cfg margin c) rs (r1, th1, rels1, ts1) = (r', th', rels', ts')" using Cons.prems(1) s by simp
  have h2: "\<forall>rel\<in>set rs. unat (SymbolTableIndex rel) < length (files0 ! ?f)" using Cons.prems(3) by simp
  from Cons.IH [OF h1 a(1) h2] obtain new where
    b: "thunk_inv cfg cks0 files0 ts'" "thunk_step ts1 ts'" "rels' = rels1 @ new" "list_all2 (redirected cfg cks0 files0 ?f ts') rs new"
    by blast
  have "?f < length (ts_files ts1)" using f thunk_invD(2) [OF a(1)] by (simp add: files_grow_def)
  then have "redirected cfg cks0 files0 ?f ts' rel rel'" by (rule redirected_step [OF a(4) b(2)])
  moreover have "thunk_step ts ts'" by (rule thunk_step_trans [OF a(2) b(2)])
  ultimately have "rels' = rels @ (rel' # new)" "list_all2 (redirected cfg cks0 files0 ?f ts') (rel # rs) (rel' # new)"
    using a(3) b(3,4) by simp_all
  then show ?case using b(1) \<open>thunk_step ts ts'\<close> by blast
qed simp


text \<open>The chunks of a section after the loop.\<close>

definition relocs_redirected ::
  "lay_config \<Rightarrow> lchunk list \<Rightarrow> symbol_body option list list \<Rightarrow> thunk_state \<Rightarrow> chunk_id \<Rightarrow> bool" where
  "relocs_redirected cfg cks0 files0 ts c \<longleftrightarrow>
     (lc_isSection (cks0 ! c) \<longrightarrow>
        list_all2 (redirected cfg cks0 files0 (lc_file (cks0 ! c)) ts) (lc_origRelocs (cks0 ! c)) (lc_relocs (ts_chunks ts ! c)))"

definition relocs_known :: "lchunk list \<Rightarrow> symbol_body option list list \<Rightarrow> chunk_id \<Rightarrow> bool" where
  "relocs_known cks files c \<longleftrightarrow>
     c < length cks \<and> lc_file (cks ! c) < length files \<and>
     list_all (\<lambda>rel. unat (SymbolTableIndex rel) < length (files ! lc_file (cks ! c))) (lc_origRelocs (cks ! c))"

lemma thunk_relocs_other:
  assumes "fold (thunk_reloc cfg margin c) rs (r, th, rels, ts) = (r', th', rels', ts')" and "k < length (ts_chunks ts)"
  shows "ts_chunks ts' ! k = ts_chunks ts ! k"
  using assms
proof (induction rs arbitrary: r th rels ts)
  case (Cons rel rs)
  obtain r1 th1 rels1 ts1 where s: "thunk_reloc cfg margin c rel (r, th, rels, ts) = (r1, th1, rels1, ts1)"
    by (metis prod_cases4)
  have "ts_chunks ts1 ! k = ts_chunks ts ! k"
  proof (cases "file_symbol (ts_files ts) (lc_file (ts_chunks ts ! c)) (SymbolTableIndex rel)")
    case None
    then show ?thesis using s by (auto simp: thunk_reloc_def)
  next
    case (Some b)
    let ?p = "reloc_address (ts_chunks ts ! c) rel + of_nat (ts_size ts)" and ?m = "lc_machine (ts_chunks ts ! c)"
    obtain t wasNew ts2 where g: "getThunk cfg b ?p (rel_Type rel) margin ?m ts = ((t, wasNew), ts2)" by (metis prod.exhaust)
    have g2: "ts_chunks ts2 ! k = ts_chunks ts ! k \<and> (\<forall>n. wasNew = Some n \<longrightarrow> n \<noteq> k)"
      using g Cons.prems(2) by (auto simp: getThunk_def Let_def nth_append split: option.splits if_splits)
    show ?thesis
      using s Some g g2 by (auto simp: thunk_reloc_def Let_def split: if_splits option.splits prod.splits dest!: thunk_index_chunks)
  qed
  moreover have "k < length (ts_chunks ts1)" using thunk_reloc_ids [OF s] Cons.prems(2) by auto
  ultimately show ?case using Cons.IH [of r1 th1 rels1 ts1] Cons.prems(1) s by simp
qed simp

lemma thunk_chunks_of_correct:
  assumes step: "thunk_chunks_of cfg margin c ts = (cs, ts')" and inv: "thunk_inv cfg cks0 files0 ts"
    and kn: "known_files cks0 files0" and c: "relocs_known cks0 files0 c"
  shows "thunk_inv cfg cks0 files0 ts' \<and> thunk_step ts ts' \<and> relocs_redirected cfg cks0 files0 ts' c \<and>
    (\<forall>k<length cks0. k \<noteq> c \<longrightarrow> lc_relocs (ts_chunks ts' ! k) = lc_relocs (ts_chunks ts ! k))"
proof (cases "lc_isSection (cks0 ! c)")
  case False
  then have "\<not> lc_isSection (ts_chunks ts ! c)"
    using thunk_invD(1) [OF inv] c by (simp add: extends_def same_place_def relocs_known_def)
  then obtain n ck where ck: "extendRanges cfg (ts_chunks ts) (ts_chunks ts ! c) = (n, ck)"
    and ts': "ts' = (if n = 0 then ts else ts\<lparr>ts_chunks := (ts_chunks ts)[c := ck], ts_size := ts_size ts + n, ts_changed := True\<rparr>)"
    using step by (auto simp: thunk_chunks_of_def Let_def split: prod.splits)
  have sp: "same_place (ts_chunks ts ! c) ck" "lc_branch (ts_chunks ts ! c) = RangeThunk b \<Longrightarrow> lc_branch ck = RangeThunk b" for b
    using ck by (auto simp: extendRanges_def same_place_def split: branch_chunk.splits if_splits)
  have st: "thunk_step ts ts'"
    using sp(2) by (auto simp: ts' thunk_step_def branches_kept_def [of "ts_chunks ts" "ts_chunks ts"] intro: branches_kept_update)
  have "extends cks0 (ts_chunks ts')"
    using thunk_invD(1) [OF inv] extends_trans [OF _ extends_update [OF sp(1)]] by (simp add: ts')
  then have "thunk_inv cfg cks0 files0 ts'" by (rule thunk_inv_keep [OF inv st]) (simp_all add: ts')
  then show ?thesis using st False by (simp add: relocs_redirected_def ts')
next
  case True
  have cl: "c < length cks0" "lc_file (cks0 ! c) < length files0" using c by (simp_all add: relocs_known_def)
  have at: "lc_isSection (ts_chunks ts ! c)" "lc_origRelocs (ts_chunks ts ! c) = lc_origRelocs (cks0 ! c)" "c < length (ts_chunks ts)"
    using thunk_invD(1) [OF inv] cl True by (auto simp: extends_def same_place_def)
  obtain r th rels ts1 where f: "fold (thunk_reloc cfg margin c) (lc_origRelocs (cks0 ! c))
      (unat (lc_rva (ts_chunks ts ! c)) + lc_size (ts_chunks ts ! c) + ts_size ts, [], [], ts) = (r, th, rels, ts1)"
    by (metis prod_cases4)
  have ts': "ts' = ts1\<lparr>ts_chunks := (ts_chunks ts1)[c := (ts_chunks ts1 ! c)\<lparr>lc_relocs := rels\<rparr>]\<rparr>"
    using step at f by (simp add: thunk_chunks_of_def Let_def)
  have "\<forall>rel\<in>set (lc_origRelocs (cks0 ! c)). unat (SymbolTableIndex rel) < length (files0 ! lc_file (cks0 ! c))"
    using c by (simp add: relocs_known_def list_all_iff)
  from thunk_relocs_correct [OF f inv kn cl this] have
    a: "thunk_inv cfg cks0 files0 ts1" "thunk_step ts ts1"
      "list_all2 (redirected cfg cks0 files0 (lc_file (cks0 ! c)) ts1) (lc_origRelocs (cks0 ! c)) rels"
    by auto
  have st: "thunk_step ts1 ts'" by (simp add: ts' thunk_step_def branches_kept_update)
  have "extends cks0 (ts_chunks ts')"
    using extends_trans [OF thunk_invD(1) [OF a(1)] extends_update] by (simp add: ts' same_place_def)
  then have inv': "thunk_inv cfg cks0 files0 ts'" by (rule thunk_inv_keep [OF a(1) st]) (simp_all add: ts')
  have fl: "lc_file (cks0 ! c) < length (ts_files ts1)" using cl thunk_invD(2) [OF a(1)] by (simp add: files_grow_def)
  have "list_all2 (redirected cfg cks0 files0 (lc_file (cks0 ! c)) ts') (lc_origRelocs (cks0 ! c)) rels"
    using a(3) by (rule list_all2_mono) (rule redirected_step [OF _ st fl])
  moreover have "c < length (ts_chunks ts1)" using at(3) thunk_stepD(1) [OF a(2)] by simp
  ultimately have "relocs_redirected cfg cks0 files0 ts' c" by (simp add: relocs_redirected_def ts')
  moreover have "lc_relocs (ts_chunks ts' ! k) = lc_relocs (ts_chunks ts ! k)" if "k < length cks0" "k \<noteq> c" for k
  proof -
    have "k < length (ts_chunks ts)" using that(1) thunk_invD(1) [OF inv] by (simp add: extends_def)
    then show ?thesis using thunk_relocs_other [OF f] that(2) by (simp add: ts')
  qed
  ultimately show ?thesis using inv' thunk_step_trans [OF a(2) st] by blast
qed


lemma relocs_redirected_step:
  assumes "relocs_redirected cfg cks0 files0 ts c" and "thunk_step ts ts'" and "lc_file (cks0 ! c) < length (ts_files ts)"
    and "lc_relocs (ts_chunks ts' ! c) = lc_relocs (ts_chunks ts ! c)"
  shows "relocs_redirected cfg cks0 files0 ts' c"
  using assms(1,4) list_all2_mono [OF _ redirected_step [OF _ assms(2,3)]] unfolding relocs_redirected_def by auto

lemma thunk_loop_correct:
  assumes "thunk_loop cfg margin cs ts = (cs', ts')" and "thunk_inv cfg cks0 files0 ts" and kn: "known_files cks0 files0"
    and "list_all (relocs_known cks0 files0) cs" and "distinct cs"
  shows "thunk_inv cfg cks0 files0 ts' \<and> thunk_step ts ts' \<and> list_all (relocs_redirected cfg cks0 files0 ts') cs \<and>
    (\<forall>k<length cks0. k \<notin> set cs \<longrightarrow> lc_relocs (ts_chunks ts' ! k) = lc_relocs (ts_chunks ts ! k))"
  using assms(1,2,4,5)
proof (induction cs arbitrary: ts cs')
  case (Cons c cs)
  obtain cs1 ts1 where s: "thunk_chunks_of cfg margin c ts = (cs1, ts1)" by (metis prod.exhaust)
  obtain cs2 where r: "thunk_loop cfg margin cs ts1 = (cs2, ts')"
    using Cons.prems(1) s by (auto split: prod.splits)
  have c: "relocs_known cks0 files0 c" "list_all (relocs_known cks0 files0) cs" "distinct cs" "c \<notin> set cs"
    using Cons.prems(3,4) by simp_all
  note a = thunk_chunks_of_correct [OF s Cons.prems(2) kn c(1)]
  note b = Cons.IH [OF r conjunct1 [OF a] c(2,3)]
  have st: "thunk_step ts ts1" "thunk_step ts1 ts'" and inv1: "thunk_inv cfg cks0 files0 ts1" using a b by simp_all
  have cl: "c < length cks0" "lc_file (cks0 ! c) < length (ts_files ts1)"
    using c(1) thunk_invD(2) [OF inv1] by (simp_all add: relocs_known_def files_grow_def)
  have "relocs_redirected cfg cks0 files0 ts' c"
    using a b cl c(4) by (intro relocs_redirected_step [OF _ st(2) cl(2)]) simp_all
  moreover have "lc_relocs (ts_chunks ts' ! k) = lc_relocs (ts_chunks ts ! k)" if "k < length cks0" "k \<notin> set (c # cs)" for k
    using a b that by simp
  ultimately show ?case using b thunk_step_trans [OF st] by simp
qed simp

definition reaches_target :: "lay_config \<Rightarrow> writer \<Rightarrow> writer \<Rightarrow> nat \<Rightarrow> file_id \<Rightarrow> coff_relocation \<Rightarrow> coff_relocation \<Rightarrow> bool" where
  "reaches_target cfg w w' i f rel rel' \<longleftrightarrow>
     rel' = rel \<or>
     rel' = rel\<lparr>SymbolTableIndex := SymbolTableIndex rel'\<rparr> \<and>
     (\<exists>b n t. file_symbol (w_files w) f (SymbolTableIndex rel) = Some b \<and>
        file_symbol (w_files w') f (SymbolTableIndex rel') = Some (DefinedSynthetic (Some n) 0) \<and>
        n \<in> section_chunks w' i \<and> lc_branch (w_chunks w' ! n) = RangeThunk t \<and>
        sym_rva cfg (w_chunks w) t = sym_rva cfg (w_chunks w) b)"

text \<open>C36: After \<open>createThunks\<close> every relocation of a section is the original one, or differs from it only in its symbol,
  which is then a thunk in the same output section made for a symbol at the address of the original target.\<close>

theorem createThunks_redirects:
  assumes i: "i < length (w_sections w)" and d: "distinct (ls_chunks (w_sections w ! i))"
    and kn: "known_files (w_chunks w) (w_files w)"
    and rk: "list_all (relocs_known (w_chunks w) (w_files w)) (ls_chunks (w_sections w ! i))"
    and run: "createThunks cfg margin i w = (ch, w')" and small: "list_all (\<lambda>syms. length syms \<le> 2 ^ 32) (w_files w')"
    and c: "c \<in> section_chunks w i" and sec: "lc_isSection (w_chunks w ! c)"
  shows "list_all2 (reaches_target cfg w w' i (lc_file (w_chunks w ! c))) (lc_origRelocs (w_chunks w ! c)) (lc_relocs (w_chunks w' ! c))"
proof -
  define ts0 where "ts0 = \<lparr>ts_chunks = w_chunks w, ts_files = w_files w, ts_last = [], ts_indices = [], ts_size = 0, ts_changed = False\<rparr>"
  let ?f = "lc_file (w_chunks w ! c)"
  obtain cs ts where l: "thunk_loop cfg margin (ls_chunks (w_sections w ! i)) ts0 = (cs, ts)" by (metis prod.exhaust)
  then have w': "w' = w\<lparr>w_chunks := ts_chunks ts, w_files := ts_files ts,
      w_sections := (w_sections w)[i := (w_sections w ! i)\<lparr>ls_chunks := cs\<rparr>]\<rparr>"
    using run by (simp add: createThunks_def ts0_def)
  have inv0: "thunk_inv cfg (w_chunks w) (w_files w) ts0" by (rule thunk_invI) (simp_all add: ts0_def)
  note res = thunk_loop_correct [OF l inv0 kn rk d]
  have inv: "thunk_inv cfg (w_chunks w) (w_files w) ts" using res by blast
  have fl: "?f < length (ts_files ts)"
    using rk c thunk_invD(2) [OF inv] by (simp add: list_all_iff relocs_known_def section_chunks_def files_grow_def)
  have sc: "section_chunks w' i = section_chunks w i \<union> {length (w_chunks w)..<length (w_chunks w')}"
    by (rule createThunks_frame(2) [OF run i])
  have "reaches_target cfg w w' i ?f rel rel'" if red: "redirected cfg (w_chunks w) (w_files w) ?f ts rel rel'" for rel rel'
  proof (cases "rel' = rel")
    case False
    then obtain b th k where r: "file_symbol (w_files w) ?f (SymbolTableIndex rel) = Some b" "rel' = rel\<lparr>SymbolTableIndex := k\<rparr>"
        "indexed (ts_files ts) ?f k th" "thunk_for cfg (w_chunks w) (ts_chunks ts) (sym_rva cfg (w_chunks w) b) th"
      using red by (auto simp: redirected_def)
    obtain n t where n: "th = DefinedSynthetic (Some n) 0" "length (w_chunks w) \<le> n" "n < length (ts_chunks ts)"
        "lc_branch (ts_chunks ts ! n) = RangeThunk t" "sym_rva cfg (w_chunks w) t = sym_rva cfg (w_chunks w) b"
      using r(4) by (auto simp: thunk_for_def)
    obtain m where m: "k = of_nat m" "m < length (ts_files ts ! ?f)" "ts_files ts ! ?f ! m = Some th"
      using r(3) by (auto simp: indexed_def)
    have "m < 2 ^ 32" using m(2) small fl by (auto simp: list_all_length w')
    then have "unat k = m" using m(1) by (simp add: unat_of_nat_u32)
    then have "file_symbol (w_files w') ?f k = Some (DefinedSynthetic (Some n) 0)"
      using m(3) n(1) by (simp add: file_symbol_def w')
    moreover have "n \<in> section_chunks w' i" using n(2,3) by (simp add: sc) (simp add: w')
    moreover have "SymbolTableIndex rel' = k" using r(2) by simp
    ultimately show ?thesis using r(1,2) n(4,5) by (auto simp: reaches_target_def w')
  qed (simp add: reaches_target_def)
  moreover have "relocs_redirected cfg (w_chunks w) (w_files w) ts c"
    using res c by (simp add: list_all_iff section_chunks_def)
  ultimately show ?thesis
    using sec unfolding relocs_redirected_def by (auto simp: w' elim!: list_all2_mono)
qed

section \<open>A far branch\<close>

definition far_reloc :: coff_relocation where
  "far_reloc = \<lparr>VirtualAddress = 0, SymbolTableIndex = 0, rel_Type = 3\<rparr>"

definition far_cfg :: lay_config where
  "far_cfg = sample_cfg\<lparr>cf_machine := ARM64\<rparr>"

text \<open>A branch, 256 MiB of code and the target of the branch, as laid out before and after the thunk (chunk 3).\<close>

definition far_chunks :: "u32 \<Rightarrow> u32 \<Rightarrow> u32 \<Rightarrow> coff_relocation \<Rightarrow> lchunk list" where
  "far_chunks a b c rel =
     [(plain_chunk 8 2 True)\<lparr>lc_machine := ARM64, lc_origRelocs := [far_reloc], lc_relocs := [rel], lc_rva := a\<rparr>,
      (plain_chunk 0x10000000 2 True)\<lparr>lc_machine := ARM64, lc_repl := 1, lc_rva := b\<rparr>,
      (plain_chunk 4 2 True)\<lparr>lc_machine := ARM64, lc_repl := 2, lc_rva := c\<rparr>]"

definition far_image :: writer where
  "far_image = (sample_writer (far_chunks 0 0 0 far_reloc) [[0, 1, 2]])\<lparr>w_files := [[Some (DefinedRegular 0 0 (Some 2))]]\<rparr>"

definition far_section :: "chunk_id list \<Rightarrow> u32 \<Rightarrow> u32 \<Rightarrow> OutputSection" where
  "far_section cs vs raw = (new_section 0 ''.sec'' 0x60000020)\<lparr>ls_chunks := cs, ls_VirtualAddress := 0x1000, ls_VirtualSize := vs,
     ls_SizeOfRawData := raw, ls_PointerToRawData := 512\<rparr>"

definition far_laid :: writer where
  "far_laid = far_image\<lparr>w_chunks := far_chunks 0x1000 0x1008 0x10001008 far_reloc,
     w_sections := [far_section [0, 1, 2] 0x1000000C 0x10000200], w_sizeOfHeaders := 512, w_fileSize := 268436480,
     w_sizeOfImage := 268443648\<rparr>"

definition far_thunk :: "u32 \<Rightarrow> lchunk" where
  "far_thunk a = (thunk_chunk ARM64 (DefinedRegular 0 0 (Some 2)))\<lparr>lc_rva := a\<rparr>"

definition far_redirected :: writer where
  "far_redirected = far_laid\<lparr>w_chunks := far_chunks 0x1000 0x1008 0x10001008 (far_reloc\<lparr>SymbolTableIndex := 1\<rparr>) @ [far_thunk 0x1008],
     w_files := [[Some (DefinedRegular 0 0 (Some 2)), Some (DefinedSynthetic (Some 3) 0)]],
     w_sections := [far_section [0, 3, 1, 2] 0x1000000C 0x10000200]\<rparr>"

definition far_final :: writer where
  "far_final = far_redirected\<lparr>w_chunks := far_chunks 0x1000 0x1014 0x10001014 (far_reloc\<lparr>SymbolTableIndex := 1\<rparr>) @ [far_thunk 0x1008],
     w_sections := [far_section [0, 3, 1, 2] 0x10000018 0x10000200]\<rparr>"

lemmas far_eval = far_image_def far_laid_def far_redirected_def far_final_def far_chunks_def far_section_def far_thunk_def
  far_cfg_def far_reloc_def layout_eval

lemma far_laid_eq: "assignAddresses far_cfg far_image = ([], far_laid)"
  by (simp add: far_eval upt_rec Let_def)

lemma far_final_eq: "assignAddresses far_cfg far_redirected = ([], far_final)"
  by (simp add: far_eval thunk_chunk_def upt_rec Let_def)

lemmas range_eval = verifyRanges_def verify_reloc_def file_symbol_def isInRange_def isAnyArm64_def sym_rva_def layout_store_def
  chunk_of_def reloc_address_def AbsoluteDifference_def isInt_def reg_chunk_def chunk_rva_def verify_branch_def

lemma far_not_verified: "\<not> verifyRanges far_cfg far_laid [0, 1, 2]"
  by (simp add: range_eval far_eval)

lemma far_verified: "verifyRanges far_cfg far_final [0, 3, 1, 2]"
  by (simp add: range_eval far_eval thunk_chunk_def)

lemma far_thunks_eq: "createThunks far_cfg 102400 0 far_laid = (True, far_redirected)"
  by (simp add: createThunks_def thunk_chunks_of_def thunk_reloc_def getThunk_def thunk_index_def addRangeThunkSymbol_def Let_def
      range_eval far_eval thunk_chunk_def)

lemma far_wf: "wf_writer far_image"
  by (simp add: wf_writer_def far_eval section_chunks_def members_def)

lemma far_finalized: "finalizeAddresses far_cfg far_image = ([], Finalized far_final)"
proof -
  have one: "w_sections far_laid = [far_section [0, 1, 2] 0x1000000C 0x10000200]"
    "w_sections far_final = [far_section [0, 3, 1, 2] 0x10000018 0x10000200]"
    by (simp_all add: far_laid_def far_final_def)
  have cs: "ls_chunks (far_section cs vs raw) = cs" for cs vs raw by (simp add: far_section_def)
  have "create_all_thunks far_cfg 102400 far_laid = far_redirected"
    by (simp add: create_all_thunks_def one far_thunks_eq)
  moreover have "thunk_passes far_cfg orig 1 102400 [] far_final = ([], Finalized far_final)" for orig
    by (simp add: thunk_passes.simps one cs far_verified [simplified])
  ultimately have "thunk_passes far_cfg orig 0 102400 [] far_laid = ([], Finalized far_final)" for orig
    by (subst thunk_passes.simps) (simp add: one cs far_not_verified [simplified] far_final_eq)
  then show ?thesis
    by (simp add: finalizeAddresses_def far_laid_eq isAnyArm64_def) (simp add: far_cfg_def)
qed

theorem finalizeAddresses_layout_witness:
  "list_all (section_within far_cfg far_final) (w_sections far_final) \<and>
   list_all (\<lambda>c. chunk_within far_cfg (w_sections far_final ! 0) (w_chunks far_final ! c)) [0, 3, 1, 2]"
proof -
  have "w_sizeOfImage far_final < 2 ^ 32" "w_fileSize far_final < 2 ^ 32" "w_sections far_final = [far_section [0, 3, 1, 2] 0x10000018 0x10000200]"
    "ls_chunks (far_section [0, 3, 1, 2] 0x10000018 0x10000200) = [0, 3, 1, 2]"
    by (simp_all add: far_eval)
  then show ?thesis
    using finalizeAddresses_layout [OF far_wf _ _ far_finalized] by (simp add: far_cfg_def sample_cfg_def)
qed

theorem finalizeAddresses_branches_reach_witness:
  "RelocationOutOfRange \<notin> set (fst (applyRelARM64 [] 1 0 3 None 0x1008 0x1000 0 [0, 0, 0, 0x94]))"
proof -
  have "far_section [0, 3, 1, 2] 0x10000018 0x10000200 \<in> set (w_sections far_final)" by (simp add: far_eval)
  moreover have "0 \<in> set (ls_chunks (far_section [0, 3, 1, 2] 0x10000018 0x10000200))" by (simp add: far_eval)
  moreover have "lc_isSection (w_chunks far_final ! 0)" "far_reloc\<lparr>SymbolTableIndex := 1\<rparr> \<in> set (lc_relocs (w_chunks far_final ! 0))"
    "lc_machine (w_chunks far_final ! 0) = ARM64"
    by (simp_all add: far_eval)
  moreover have "file_symbol (w_files far_final) (lc_file (w_chunks far_final ! 0)) (SymbolTableIndex (far_reloc\<lparr>SymbolTableIndex := 1\<rparr>)) =
      Some (DefinedSynthetic (Some 3) 0)" by (simp add: far_eval file_symbol_def)
  moreover have "sym_rva far_cfg (w_chunks far_final) (DefinedSynthetic (Some 3) 0) = 0x1008"
    "reloc_address (w_chunks far_final ! 0) (far_reloc\<lparr>SymbolTableIndex := 1\<rparr>) = 0x1000" "cf_imageBase far_cfg = 0"
    "0 < cf_align far_cfg" "0 < cf_fileAlign far_cfg" "cf_machine far_cfg = ARM64" "rel_Type (far_reloc\<lparr>SymbolTableIndex := 1\<rparr>) = 3"
    by (simp_all add: range_eval far_eval)
  ultimately show ?thesis
    using finalizeAddresses_branches_reach [OF far_wf _ _ _ far_finalized] isAnyArm64_def by metis
qed

theorem createThunks_redirects_witness:
  "list_all2 (reaches_target far_cfg far_laid far_redirected 0 0) [far_reloc] [far_reloc\<lparr>SymbolTableIndex := 1\<rparr>]"
proof -
  have "known_files (w_chunks far_laid) (w_files far_laid)" "distinct (ls_chunks (w_sections far_laid ! 0))"
    "list_all (relocs_known (w_chunks far_laid) (w_files far_laid)) (ls_chunks (w_sections far_laid ! 0))"
    "list_all (\<lambda>syms. length syms \<le> 2 ^ 32) (w_files far_redirected)" "0 \<in> section_chunks far_laid 0"
    "lc_isSection (w_chunks far_laid ! 0)" "0 < length (w_sections far_laid)" "lc_file (w_chunks far_laid ! 0) = 0"
    "lc_origRelocs (w_chunks far_laid ! 0) = [far_reloc]" "lc_relocs (w_chunks far_redirected ! 0) = [far_reloc\<lparr>SymbolTableIndex := 1\<rparr>]"
    by (simp_all add: known_files_def symbol_known_def relocs_known_def section_chunks_def far_eval)
  then show ?thesis using createThunks_redirects [of 0 far_laid, OF _ _ _ _ far_thunks_eq, of 0] by simp
qed

section \<open>Thunks shared by address\<close>

text \<open>Symbol 0 is the end of chunk 1, symbol 1 the start of chunk 2; both have one address until a thunk is inserted behind
  chunk 1 for its branch back to symbol 2.\<close>

definition end_relocs :: "u32 \<Rightarrow> u32 \<Rightarrow> coff_relocation list" where
  "end_relocs a b = [\<lparr>VirtualAddress = 0, SymbolTableIndex = a, rel_Type = 3\<rparr>, \<lparr>VirtualAddress = 4, SymbolTableIndex = b, rel_Type = 3\<rparr>]"

definition back_reloc :: "u32 \<Rightarrow> coff_relocation" where
  "back_reloc a = \<lparr>VirtualAddress = 0x0FFFFFF0, SymbolTableIndex = a, rel_Type = 3\<rparr>"

definition end_chunks :: "u32 \<Rightarrow> u32 \<Rightarrow> u32 \<Rightarrow> coff_relocation list \<Rightarrow> coff_relocation list \<Rightarrow> lchunk list" where
  "end_chunks a b c rels0 rels1 =
     [(plain_chunk 8 2 True)\<lparr>lc_machine := ARM64, lc_origRelocs := end_relocs 0 1, lc_relocs := rels0, lc_rva := a\<rparr>,
      (plain_chunk 0x10000000 2 True)\<lparr>lc_machine := ARM64, lc_repl := 1, lc_rva := b, lc_origRelocs := [back_reloc 2],
         lc_relocs := rels1\<rparr>,
      (plain_chunk 4 2 True)\<lparr>lc_machine := ARM64, lc_repl := 2, lc_rva := c\<rparr>]"

definition end_symbols :: "symbol_body option list" where
  "end_symbols = [Some (DefinedRegular 0 0x10000000 (Some 1)), Some (DefinedRegular 0 0 (Some 2)), Some (DefinedRegular 0 0 (Some 0))]"

definition end_image :: writer where
  "end_image = (sample_writer (end_chunks 0x1000 0x1008 0x10001008 (end_relocs 0 1) [back_reloc 2]) [[0, 1, 2]])
    \<lparr>w_files := [end_symbols]\<rparr>"

definition end_thunk :: "u32 \<Rightarrow> symbol_body \<Rightarrow> lchunk" where
  "end_thunk a b = (thunk_chunk ARM64 b)\<lparr>lc_rva := a\<rparr>"

definition end_redirected :: writer where
  "end_redirected = (sample_writer (end_chunks 0x1000 0x1008 0x10001008 (end_relocs 3 3) [back_reloc 4] @
      [end_thunk 0x1008 (DefinedRegular 0 0x10000000 (Some 1)), end_thunk 0x10001014 (DefinedRegular 0 0 (Some 0))]) [[0, 3, 1, 4, 2]])
    \<lparr>w_files := [end_symbols @ [Some (DefinedSynthetic (Some 3) 0), Some (DefinedSynthetic (Some 4) 0)]]\<rparr>"

definition end_final :: writer where
  "end_final = end_redirected\<lparr>w_chunks := end_chunks 0x1000 0x1014 0x10001020 (end_relocs 3 3) [back_reloc 4] @
      [end_thunk 0x1008 (DefinedRegular 0 0x10000000 (Some 1)), end_thunk 0x10001014 (DefinedRegular 0 0 (Some 0))],
    w_sections := [far_section [0, 3, 1, 4, 2] 0x10000024 0x10000200], w_sizeOfHeaders := 512, w_fileSize := 268436480,
    w_sizeOfImage := 268443648\<rparr>"

lemmas end_eval = end_image_def end_redirected_def end_final_def end_chunks_def end_symbols_def end_thunk_def end_relocs_def
  back_reloc_def far_section_def far_cfg_def thunk_chunk_def layout_eval

text \<open>Both branches of chunk 0 are sent to one thunk, whose target is symbol 0. In the final layout, which passes the
  verification, symbol 1 has another address.\<close>

lemma end_image_thunks: "createThunks far_cfg 102400 0 end_image = (True, end_redirected)"
  by (simp add: createThunks_def thunk_chunks_of_def thunk_reloc_def getThunk_def thunk_index_def addRangeThunkSymbol_def Let_def
      range_eval end_eval)

lemma end_image_final: "assignAddresses far_cfg end_redirected = ([], end_final)"
  by (simp add: end_eval upt_rec Let_def)

lemma thunk_shared_by_address:
  "verifyRanges far_cfg end_final [0, 3, 1, 4, 2]" "map SymbolTableIndex (lc_relocs (w_chunks end_final ! 0)) = [3, 3]"
  "file_symbol (w_files end_final) 0 3 = Some (DefinedSynthetic (Some 3) 0)"
  "lc_branch (w_chunks end_final ! 3) = RangeThunk (DefinedRegular 0 0x10000000 (Some 1))"
  "sym_rva far_cfg (w_chunks end_final) (DefinedRegular 0 0x10000000 (Some 1)) = 0x10001014"
  "sym_rva far_cfg (w_chunks end_final) (DefinedRegular 0 0 (Some 2)) = 0x10001020"
  by (simp_all add: range_eval end_eval)

end
