(* ===== verification/Stubs.thy ===== *)
theory Stubs
  imports Thunks
begin

text \<open>
  The chunks the linker itself writes (\<open>lld/COFF/Chunks.cpp\<close>): import thunks, range extension thunks, tables of
  addresses for control flow guard and exception handling, the ARM64EC tables, pseudo relocations and the dynamic
  relocations of hybrid images. A writer takes the addresses it needs, the offset of the chunk in the output and the output.
\<close>

unbundle bit_operations_syntax

section \<open>Import thunks\<close>

definition importThunkX86 :: buffer where
  "importThunkX86 = [0xff, 0x25, 0x00, 0x00, 0x00, 0x00]"

definition importThunkARM :: buffer where
  "importThunkARM = [0x40, 0xf2, 0x00, 0x0c, 0xc0, 0xf2, 0x00, 0x0c, 0xdc, 0xf8, 0x00, 0xf0]"

definition importThunkARM64 :: buffer where
  "importThunkARM64 = [0x10, 0x00, 0x00, 0x90, 0x10, 0x02, 0x40, 0xf9, 0x00, 0x02, 0x1f, 0xd6]"

definition importThunkARM64EC :: buffer where
  "importThunkARM64EC =
     [0x0b, 0x00, 0x00, 0x90, 0x6b, 0x01, 0x40, 0xf9, 0x0a, 0x00, 0x00, 0x90, 0x4a, 0x01, 0x00, 0x91, 0x00, 0x00, 0x00, 0x14]"

definition ImportThunkChunkX64_writeTo :: "u64 \<Rightarrow> u32 \<Rightarrow> nat \<Rightarrow> buffer \<Rightarrow> buffer" where
  "ImportThunkChunkX64_writeTo imp rva off buf =
     write32le (put buf off importThunkX86) (off + 2) (ucast (imp - ucast rva - 6))"

definition ImportThunkChunkX86_writeTo :: "u64 \<Rightarrow> u64 \<Rightarrow> nat \<Rightarrow> buffer \<Rightarrow> buffer" where
  "ImportThunkChunkX86_writeTo imageBase imp off buf = write32le (put buf off importThunkX86) (off + 2) (ucast (imp + imageBase))"

definition ImportThunkChunkX86_getBaserels :: "machine \<Rightarrow> u32 \<Rightarrow> Baserel list" where
  "ImportThunkChunkX86_getBaserels m rva = [\<lparr>br_rva = rva + 2, br_type = getDefaultType m\<rparr>]"

definition ImportThunkChunkARM_writeTo :: "u64 \<Rightarrow> u64 \<Rightarrow> nat \<Rightarrow> buffer \<Rightarrow> written" where
  "ImportThunkChunkARM_writeTo imageBase imp off buf = applyMOV32T off (ucast (imp + imageBase)) (put buf off importThunkARM)"

definition ImportThunkChunkARM_getBaserels :: "u32 \<Rightarrow> Baserel list" where
  "ImportThunkChunkARM_getBaserels rva = [\<lparr>br_rva = rva, br_type = 7\<rparr>]"

definition ImportThunkChunkARM64_writeTo :: "u64 \<Rightarrow> u32 \<Rightarrow> nat \<Rightarrow> buffer \<Rightarrow> written" where
  "ImportThunkChunkARM64_writeTo imp rva off buf =
     applyArm64Ldr (off + 4) (imp AND 0xfff) (applyArm64Addr off imp (ucast rva) 12 (put buf off importThunkARM64))"

section \<open>Range extension thunks\<close>

definition armThunk :: buffer where
  "armThunk = [0x40, 0xf2, 0x00, 0x0c, 0xc0, 0xf2, 0x00, 0x0c, 0xe7, 0x44]"

definition arm64Thunk :: buffer where
  "arm64Thunk = [0x10, 0x00, 0x00, 0x90, 0x10, 0x02, 0x00, 0x91, 0x00, 0x02, 0x1f, 0xd6]"

definition RangeExtensionThunkARM_writeTo :: "u64 \<Rightarrow> u32 \<Rightarrow> nat \<Rightarrow> buffer \<Rightarrow> written" where
  "RangeExtensionThunkARM_writeTo target rva off buf =
     (let offset = target - ucast rva - 12 in applyMOV32T off (ucast offset) (put buf off armThunk))"

definition RangeExtensionThunkARM64_writeTo :: "u64 \<Rightarrow> u32 \<Rightarrow> nat \<Rightarrow> buffer \<Rightarrow> buffer" where
  "RangeExtensionThunkARM64_writeTo target rva off buf =
     applyArm64Imm (off + 4) (target AND 0xfff) 0 (applyArm64Addr off target (ucast rva) 12 (put buf off arm64Thunk))"

text \<open>The ARM64EC import thunk: load the import address, form the address of the exit thunk, and branch to the call
  helper, directly or by an inline range extension thunk.\<close>

definition ImportThunkChunkARM64EC_writeTo ::
  "u64 \<Rightarrow> u64 option \<Rightarrow> u64 \<Rightarrow> bool \<Rightarrow> u32 \<Rightarrow> nat \<Rightarrow> buffer \<Rightarrow> written" where
  "ImportThunkChunkARM64EC_writeTo imp exitThunk helper extended rva off buf =
     (let buf1 = applyArm64Addr off imp (ucast rva) 12 (put buf off importThunkARM64EC);
          (errs, buf2) = applyArm64Ldr (off + 4) (imp AND 0xfff) buf1;
          exitThunkRVA = (case exitThunk of Some e \<Rightarrow> ucast e | None \<Rightarrow> 0) :: u32;
          buf3 = applyArm64Addr (off + 8) (ucast exitThunkRVA) (ucast (rva + 8)) 12 buf2;
          buf4 = applyArm64Imm (off + 12) (ucast (exitThunkRVA AND 0xfff)) 0 buf3
      in if extended
         then (errs, applyArm64Imm (off + 20) (helper AND 0xfff) 0
                 (applyArm64Addr (off + 16) helper (ucast (rva + 16)) 12 (put buf4 (off + 16) arm64Thunk)))
         else (let (errs2, buf5) = applyArm64Branch26 (off + 16) (helper - ucast rva - 16) buf4 in (errs @ errs2, buf5)))"

section \<open>Pointers and strings\<close>

definition StringChunk_writeTo :: "buffer \<Rightarrow> nat \<Rightarrow> buffer \<Rightarrow> buffer" where
  "StringChunk_writeTo str off buf = put buf off (str @ [0])"

definition LocalImportChunk_writeTo :: "machine \<Rightarrow> u64 \<Rightarrow> u64 \<Rightarrow> nat \<Rightarrow> buffer \<Rightarrow> buffer" where
  "LocalImportChunk_writeTo m imageBase s off buf =
     (if is64Bit m then write64le buf off (s + imageBase) else write32le buf off (ucast (s + imageBase)))"

definition LocalImportChunk_getBaserels :: "machine \<Rightarrow> u32 \<Rightarrow> Baserel list" where
  "LocalImportChunk_getBaserels m rva = [\<lparr>br_rva = rva, br_type = getDefaultType m\<rparr>]"

definition AbsolutePointerChunk_writeTo :: "machine \<Rightarrow> u64 \<Rightarrow> nat \<Rightarrow> buffer \<Rightarrow> buffer" where
  "AbsolutePointerChunk_writeTo m v off buf = (if is64Bit m then write64le buf off v else write32le buf off (ucast v))"

text \<open>\<open>CommonChunk\<close> aligns a common symbol to its size rounded up to a power of two, at most 32; \<open>setAlignment\<close> takes 0
  for 1.\<close>

fun bit_width :: "nat \<Rightarrow> nat" where
  "bit_width n = (if n = 0 then 0 else Suc (bit_width (n div 2)))"

declare bit_width.simps [simp del]

definition PowerOf2Ceil :: "u64 \<Rightarrow> u64" where
  "PowerOf2Ceil a = (if a = 0 \<or> a > 0x7FFFFFFFFFFFFFFF then 0 else push_bit (bit_width (unat (a - 1))) 1)"

definition CommonChunk_alignment :: "u32 \<Rightarrow> u32" where
  "CommonChunk_alignment v = (let a = min 32 (ucast (PowerOf2Ceil (ucast v))) in if a = 0 then 1 else a)"

section \<open>Tables of addresses\<close>

text \<open>Consecutive 32-bit fields.\<close>

fun write_words :: "u32 list \<Rightarrow> nat \<Rightarrow> buffer \<Rightarrow> buffer" where
  "write_words [] off buf = buf"
| "write_words (v # vs) off buf = write_words vs (off + 4) (write32le buf off v)"

definition RVATableChunk_writeTo :: "(u32 \<times> u32) list \<Rightarrow> nat \<Rightarrow> buffer \<Rightarrow> buffer" where
  "RVATableChunk_writeTo rvas off buf = write_words (sort (map (\<lambda>(rva, offset). rva + offset) rvas)) off buf"

fun write_flags :: "u32 list \<Rightarrow> nat \<Rightarrow> buffer \<Rightarrow> buffer" where
  "write_flags [] off buf = buf"
| "write_flags (v # vs) off buf = write_flags vs (off + 5) (put (write32le buf off v) (off + 4) [0])"

definition RVAFlagTableChunk_writeTo :: "(u32 \<times> u32) list \<Rightarrow> nat \<Rightarrow> buffer \<Rightarrow> buffer" where
  "RVAFlagTableChunk_writeTo rvas off buf = write_flags (sort (map (\<lambda>(rva, offset). rva + offset) rvas)) off buf"

text \<open>The ARM64EC code map: first chunk, last chunk with its size, and type of each range.\<close>

definition code_map_entry :: "u32 \<times> u32 \<times> nat \<times> u32 \<Rightarrow> u32 list" where
  "code_map_entry = (\<lambda>(first, last, sz, type).
     let start = first AND NOT 0xfff in [start OR type, last + of_nat sz - start])"

definition ECCodeMapChunk_writeTo :: "(u32 \<times> u32 \<times> nat \<times> u32) list \<Rightarrow> nat \<Rightarrow> buffer \<Rightarrow> buffer" where
  "ECCodeMapChunk_writeTo entries off buf = write_words (concat (map code_map_entry entries)) off buf"

definition PseudoRelocTableChunk_writeTo :: "(u64 \<times> u32 \<times> u32 \<times> u32) list \<Rightarrow> nat \<Rightarrow> buffer \<Rightarrow> buffer" where
  "PseudoRelocTableChunk_writeTo relocs off buf =
     (if relocs = [] then buf
      else write_words ([0, 0, 1] @ concat (map (\<lambda>(s, target, targetOffset, flags). [ucast s, target + targetOffset, flags]) relocs)) off buf)"

definition PseudoRelocTableChunk_getSize :: "(u64 \<times> u32 \<times> u32 \<times> u32) list \<Rightarrow> nat" where
  "PseudoRelocTableChunk_getSize relocs = (if relocs = [] then 0 else 12 + 12 * length relocs)"

definition CHPECodeRangesChunk_writeTo :: "(u32 \<times> nat) list \<Rightarrow> nat \<Rightarrow> buffer \<Rightarrow> buffer" where
  "CHPECodeRangesChunk_writeTo exportThunks off buf =
     write_words (concat (map (\<lambda>(start, sz). [start, start + of_nat sz, start]) exportThunks)) off buf"

definition CHPERedirectionChunk_writeTo :: "(u32 \<times> u64) list \<Rightarrow> nat \<Rightarrow> buffer \<Rightarrow> buffer" where
  "CHPERedirectionChunk_writeTo exportThunks off buf =
     write_words (concat (map (\<lambda>(source, dest). [source, ucast dest]) exportThunks)) off buf"

definition ECExportThunkCode :: buffer where
  "ECExportThunkCode = [0x48, 0x8b, 0xc4, 0x48, 0x89, 0x58, 0x20, 0x55, 0x5d, 0xe9, 0, 0, 0, 0, 0xcc, 0xcc]"

definition ECExportThunkChunk_writeTo :: "u64 \<Rightarrow> u32 \<Rightarrow> nat \<Rightarrow> buffer \<Rightarrow> buffer" where
  "ECExportThunkChunk_writeTo target rva off buf =
     write32le (put buf off ECExportThunkCode) (off + 10) (ucast (target - ucast rva - 14))"


section \<open>Dynamic relocations of hybrid images\<close>

text \<open>\<open>Arm64XRelocVal::get\<close> has been applied to the offset and the value of an entry.\<close>

datatype Arm64XFixupType = ZEROFILL | VALUE | DELTA

record Arm64XDynamicRelocEntry =
  de_type :: Arm64XFixupType
  de_size :: nat
  de_offset :: u64
  de_value :: u64

primrec fixup_code :: "Arm64XFixupType \<Rightarrow> u16" where
  "fixup_code ZEROFILL = 0"
| "fixup_code VALUE = 1"
| "fixup_code DELTA = 2"

definition Arm64XRelocVal_get :: "u64 option \<Rightarrow> u32 option \<Rightarrow> u64 \<Rightarrow> u64" where
  "Arm64XRelocVal_get s chunk v =
     (case s of Some r \<Rightarrow> r | None \<Rightarrow> 0) + (case chunk of Some r \<Rightarrow> ucast r | None \<Rightarrow> 0) + v"

definition entry_getSize :: "Arm64XDynamicRelocEntry \<Rightarrow> nat" where
  "entry_getSize e = (case de_type e of ZEROFILL \<Rightarrow> 2 | VALUE \<Rightarrow> 2 + de_size e | DELTA \<Rightarrow> 4)"

text \<open>The header of an entry and its payload. A delta is stored as a magnitude in units of 4 or 8 with its sign in the header.\<close>

definition entry_writeTo :: "Arm64XDynamicRelocEntry \<Rightarrow> nat \<Rightarrow> buffer \<Rightarrow> buffer" where
  "entry_writeTo e off buf =
     (let out = (ucast (de_offset e AND 0xfff) OR push_bit 12 (fixup_code (de_type e))) :: u16;
          sized = out OR push_bit 14 (of_nat (bit_width (de_size e) - 1))
      in case de_type e of
           ZEROFILL \<Rightarrow> write16le buf off sized
         | VALUE \<Rightarrow>
             (let buf1 = write16le buf off sized
              in if de_size e = 2 then write16le buf1 (off + 2) (ucast (de_value e))
                 else if de_size e = 4 then write32le buf1 (off + 2) (ucast (de_value e))
                 else write64le buf1 (off + 2) (de_value e))
         | DELTA \<Rightarrow>
             (let delta = ucast (de_value e) :: u32;
                  (out1, delta1) = (if sint delta < 0 then (out OR push_bit 14 1, - delta) else (out, delta));
                  (out2, delta2) = (if delta1 AND 7 \<noteq> 0 then (out1, signed_drop_bit 2 delta1)
                                    else (out1 OR push_bit 15 1, signed_drop_bit 3 delta1))
              in write16le (write16le buf off out2) (off + 2) (ucast delta2)))"

definition entry_page :: "Arm64XDynamicRelocEntry \<Rightarrow> u32" where
  "entry_page e = ucast (de_offset e) AND NOT 0xfff"

text \<open>\<open>DynamicRelocsChunk::finalize\<close>: sort, then count the bytes.\<close>

fun dynamic_size :: "u32 \<Rightarrow> nat \<Rightarrow> Arm64XDynamicRelocEntry list \<Rightarrow> nat" where
  "dynamic_size prevPage sz [] = alignTo sz 4"
| "dynamic_size prevPage sz (e # es) =
     (let sz1 = (if entry_page e \<noteq> prevPage then alignTo sz 4 + 8 else sz)
      in dynamic_size (entry_page e) (sz1 + entry_getSize e) es)"

definition DynamicRelocsChunk_finalize :: "Arm64XDynamicRelocEntry list \<Rightarrow> nat \<times> Arm64XDynamicRelocEntry list" where
  "DynamicRelocsChunk_finalize relocs =
     (let sorted = sort_key (\<lambda>e. unat (de_offset e)) relocs in (dynamic_size 0xfff (8 + 12) sorted, sorted))"

definition DynamicRelocsChunk_set :: "u64 \<Rightarrow> u64 \<Rightarrow> Arm64XDynamicRelocEntry list \<Rightarrow> Arm64XDynamicRelocEntry list option" where
  "DynamicRelocsChunk_set offset v relocs =
     (case List.find (\<lambda>i. de_offset (relocs ! i) = ucast (ucast offset :: u32)) [0..<length relocs] of
        Some i \<Rightarrow> Some (relocs[i := (relocs ! i)\<lparr>de_value := v\<rparr>])
      | None \<Rightarrow> None)"

text \<open>The loop of \<open>writeTo\<close>; a hybrid image always has entries, with none the code would write through a null pointer.
  \<open>pageHeader\<close> is the offset of the open block with its page; \<open>base\<close> the address of \<open>buf\<close>
  behind the two headers.\<close>

definition close_block :: "nat \<Rightarrow> nat \<Rightarrow> (nat \<times> u32) option \<Rightarrow> buffer \<Rightarrow> buffer" where
  "close_block base relocSize pageHeader buf =
     (case pageHeader of
        None \<Rightarrow> buf
      | Some (h, _) \<Rightarrow> write32le buf (h + 4) (of_nat (base + relocSize - h)))"

fun dynamic_blocks ::
  "nat \<Rightarrow> nat \<Rightarrow> (nat \<times> u32) option \<Rightarrow> Arm64XDynamicRelocEntry list \<Rightarrow> buffer \<Rightarrow> nat \<times> buffer" where
  "dynamic_blocks base relocSize pageHeader [] buf =
     (let sz = alignTo relocSize 4 in (sz, close_block base sz pageHeader buf))"
| "dynamic_blocks base relocSize pageHeader (e # es) buf =
     (if pageHeader = None \<or> entry_page e \<noteq> snd (the pageHeader)
      then
        (let sz = alignTo relocSize 4;
             buf1 = write32le (close_block base sz pageHeader buf) (base + sz) (entry_page e);
             buf2 = entry_writeTo e (base + sz + 8) buf1
         in dynamic_blocks base (sz + 8 + entry_getSize e) (Some (base + sz, entry_page e)) es buf2)
      else dynamic_blocks base (relocSize + entry_getSize e) pageHeader es (entry_writeTo e (base + relocSize) buf))"

definition DynamicRelocsChunk_writeTo :: "Arm64XDynamicRelocEntry list \<Rightarrow> nat \<Rightarrow> buffer \<Rightarrow> nat \<times> buffer" where
  "DynamicRelocsChunk_writeTo relocs off buf =
     (let buf1 = write64le (write32le (write32le buf off 1) (off + 4) 12) (off + 8) 6;
          (relocSize, buf2) = dynamic_blocks (off + 20) 0 None relocs buf1;
          buf3 = write32le buf2 (off + 16) (of_nat relocSize)
      in (8 + 12 + relocSize, write32le buf3 (off + 4) (read32le buf3 (off + 4) + of_nat relocSize)))"

section \<open>Thunks lead to their targets\<close>

lemma sub_put_inner:
  assumes "off + length ys \<le> length xs" and "k + n \<le> length ys"
  shows "sub (put xs off ys) (off + k) n = sub ys k n"
  using assms by (intro nth_equalityI) (auto simp: sub_def put_nth)

lemma read32le_put:
  "off + length ys \<le> length buf \<Longrightarrow> k + 4 \<le> length ys \<Longrightarrow> read32le (put buf off ys) (off + k) = read32le ys k"
  by (simp add: read32le_def sub_put_inner)

lemma read16le_put:
  "off + length ys \<le> length buf \<Longrightarrow> k + 2 \<le> length ys \<Longrightarrow> read16le (put buf off ys) (off + k) = read16le ys k"
  by (simp add: read16le_def sub_put_inner)

text \<open>Two addresses of an image are less than \<open>2 ^ 20\<close> pages apart.\<close>

lemma page_distance:
  assumes "uint (s :: u64) < 2 ^ 32" and "uint (p :: u64) < 2 ^ 32"
  shows "isInt 21 (drop_bit 12 s - drop_bit 12 p)"
proof -
  have u: "uint (drop_bit 12 v) = uint v div 2 ^ 12" for v :: u64
    by (simp add: drop_bit_eq_div uint_div)
  have b: "0 \<le> uint (drop_bit 12 v)" "uint (drop_bit 12 v) < 1048576" if "uint v < 2 ^ 32" for v :: u64
    using that uint_ge_0 [of v] unfolding u by (auto simp: pos_imp_zdiv_nonneg_iff)
  have "sint (drop_bit 12 v) = uint (drop_bit 12 v)" if "uint v < 2 ^ 32" for v :: u64
    using b [OF that] sint_u64_cases [of "drop_bit 12 v"] by simp
  moreover have "- 9223372036854775808 \<le> uint (drop_bit 12 s) - uint (drop_bit 12 p)"
    "uint (drop_bit 12 s) - uint (drop_bit 12 p) < 9223372036854775808"
    using b [OF assms(1)] b [OF assms(2)] by linarith+
  ultimately have "sint (drop_bit 12 s - drop_bit 12 p) = uint (drop_bit 12 s) - uint (drop_bit 12 p)"
    using assms by (simp add: sint_word_ariths signed_take_bit_int_eq_self)
  moreover have "- 1048576 \<le> uint (drop_bit 12 s) - uint (drop_bit 12 p)" "uint (drop_bit 12 s) - uint (drop_bit 12 p) < 1048576"
    using b [OF assms(1)] b [OF assms(2)] by linarith+
  ultimately show ?thesis by (simp add: isInt_def)
qed

text \<open>The 12-bit immediate of ADD and LDR.\<close>

definition imm12 :: "u32 \<Rightarrow> u64" where
  "imm12 w = ucast (drop_bit 10 w AND 0xFFF)"

lemma imm12_encode: "imm12 ((orig AND NOT 0x3FFC00) OR ucast (push_bit 10 ((v :: u64) AND 0xFFF))) = v AND 0xFFF"
proof -
  have "drop_bit 10 ((orig AND NOT 0x3FFC00) OR ucast (push_bit 10 (v AND 0xFFF))) AND 0xFFF = (ucast v AND 0xFFF :: u32)"
    by (rule bits_eqI32, unfold nat32) (simp add: bit_simps)
  moreover have "ucast (ucast v AND mask 12 :: u32) = v AND mask 12"
    by (rule bit_word_eqI) (auto simp: bit_simps)
  ultimately show ?thesis by (simp add: imm12_def mask_eq_exp_minus_1)
qed

lemma imm12_other_bits: "((orig :: u32) AND NOT 0x3FFC00 OR ucast (push_bit 10 ((v :: u64) AND 0xFFF))) AND NOT 0x3FFC00 = orig AND NOT 0x3FFC00"
  by (rule bits_eqI32, unfold nat32) (simp add: bit_simps)

lemma applyArm64Imm_add:
  assumes "off + 4 \<le> length buf"
  shows "imm12 (read32le (applyArm64Imm off imm 0 buf) off) = (imm + imm12 (read32le buf off)) AND 0xFFF"
    and "read32le (applyArm64Imm off imm 0 buf) off AND NOT 0x3FFC00 = read32le buf off AND NOT 0x3FFC00"
  using assms imm12_encode [of "read32le buf off" "imm + imm12 (read32le buf off)"]
    imm12_other_bits [of "read32le buf off" "imm + imm12 (read32le buf off)"]
  by (simp_all only: applyArm64Imm_def Let_def le32.rd_wr imm12_def [symmetric] drop_bit_0 id_apply)

lemma length_arm64 [simp]:
  "off + 4 \<le> length buf \<Longrightarrow> length (applyArm64Addr off s p sh buf) = length buf"
  "off + 4 \<le> length buf \<Longrightarrow> length (applyArm64Imm off imm r buf) = length buf"
  by (simp_all add: applyArm64Addr_def applyArm64Imm_def Let_def)

lemma read32le_arm64_other:
  "off + 4 \<le> length buf \<Longrightarrow> k + 4 \<le> length buf \<Longrightarrow> off + 4 \<le> k \<or> k + 4 \<le> off \<Longrightarrow> read32le (applyArm64Addr off s p sh buf) k = read32le buf k"
  "off + 4 \<le> length buf \<Longrightarrow> k + 4 \<le> length buf \<Longrightarrow> off + 4 \<le> k \<or> k + 4 \<le> off \<Longrightarrow> read32le (applyArm64Imm off imm r buf) k = read32le buf k"
  unfolding applyArm64Addr_def applyArm64Imm_def Let_def by (rule le32.rd_wr_disjoint; auto)+

lemma arm64Thunk_words:
  "length arm64Thunk = 12" "read32le arm64Thunk 0 = 0x90000010" "read32le arm64Thunk 4 = 0x91000210" "read32le arm64Thunk 8 = 0xd61f0200"
  unfolding arm64Thunk_def read32le_def sub_def by code_simp+

lemma RangeExtensionThunkARM64_reaches:
  fixes rva :: u32
  assumes "off + 12 \<le> length buf" and "uint target < 2 ^ 32"
  defines "out \<equiv> RangeExtensionThunkARM64_writeTo target rva off buf"
  shows "adrp_result (ucast rva) (read32le out off) + imm12 (read32le out (off + 4)) = target"
    and "read32le out off AND 0x9F00001F = 0x90000010" and "read32le out (off + 4) AND NOT 0x3FFC00 = 0x91000210"
    and "read32le out (off + 8) = 0xd61f0200"
proof -
  let ?b0 = "put buf off arm64Thunk"
  have l: "length ?b0 = length buf" using assms(1) by (simp add: arm64Thunk_words)
  have r: "read32le ?b0 (off + k) = read32le arm64Thunk k" if "k + 4 \<le> 12" for k
    using assms(1) that by (intro read32le_put) (simp_all add: arm64Thunk_words)
  have r0: "read32le ?b0 off = 0x90000010" "read32le ?b0 (off + 4) = 0x91000210" "read32le ?b0 (off + 8) = 0xd61f0200"
    using r [of 0] r [of 4] r [of 8] by (simp_all add: arm64Thunk_words)
  have z: "adr_imm 0x90000010 = 0" "imm12 0x91000210 = 0" by (simp_all add: adr_imm_def imm12_def)
  let ?b1 = "applyArm64Addr off target (ucast rva) 12 ?b0"
  have p: "uint (ucast rva :: u64) < 2 ^ 32"
    using uint_lt2p [of rva] by (simp add: unsigned_ucast_eq take_bit_int_eq_self)
  have a: "adrp_result (ucast rva) (read32le ?b1 off) = target AND NOT 0xfff"
    "read32le ?b1 off AND 0x9F00001F = 0x90000010 AND 0x9F00001F"
    using applyArm64Addr_page [of off ?b0 target "ucast rva"] page_distance [OF assms(2) p] assms(1) l by (simp_all add: r0 z)
  have out: "out = applyArm64Imm (off + 4) (target AND 0xfff) 0 ?b1" by (simp add: out_def RangeExtensionThunkARM64_writeTo_def)
  have o: "read32le out off = read32le ?b1 off" "read32le out (off + 8) = 0xd61f0200" "read32le ?b1 (off + 4) = 0x91000210"
    using assms(1) l r0 by (simp_all add: out read32le_arm64_other)
  have i: "imm12 (read32le out (off + 4)) = target AND 0xFFF" "read32le out (off + 4) AND NOT 0x3FFC00 = 0x91000210 AND NOT 0x3FFC00"
    using applyArm64Imm_add [of "off + 4" ?b1 "target AND 0xfff"] assms(1) l by (simp_all add: out o(3) z and.assoc)
  have "(target AND NOT 0xfff) + (target AND 0xFFF) = target"
    by (subst disjunctive_add_eq_or) (simp_all add: bit_eq_iff bit_simps, blast)
  then show "adrp_result (ucast rva) (read32le out off) + imm12 (read32le out (off + 4)) = target"
    by (simp add: o(1) a(1) i(1))
  show "read32le out off AND 0x9F00001F = 0x90000010" "read32le out (off + 4) AND NOT 0x3FFC00 = 0x91000210"
    "read32le out (off + 8) = 0xd61f0200" using a(2) i(2) o by simp_all
qed

lemma armThunk_words:
  "length armThunk = 10" "read16le armThunk 0 = 0xf240" "read16le armThunk 2 = 0x0c00" "read16le armThunk 4 = 0xf2c0"
  "read16le armThunk 6 = 0x0c00" "read16le armThunk 8 = 0x44e7"
  unfolding armThunk_def read16le_def sub_def by code_simp+

lemma thumb_mov_zero:
  assumes "off + length ys \<le> length buf" and "8 \<le> length ys"
    and "read16le ys 0 = 0xf240" "read16le ys 2 = 0x0c00" "read16le ys 4 = 0xf2c0" "read16le ys 6 = 0x0c00"
  shows "thumb_mov32 (put buf off ys) off = 0" and "fst (applyMOV32T off v (put buf off ys)) = []"
    and "thumb_mov32 (snd (applyMOV32T off v (put buf off ys))) off = v"
proof -
  let ?b = "put buf off ys"
  have r: "read16le ?b (off + k) = read16le ys k" if "k + 2 \<le> 8" for k
    using assms(1,2) that by (intro read16le_put) simp_all
  have r0: "read16le ?b off = 0xf240" "read16le ?b (off + 2) = 0x0c00" "read16le ?b (off + 4) = 0xf2c0" "read16le ?b (off + 6) = 0x0c00"
    using r [of 0] r [of 2] r [of 4] r [of 6] assms(3-) by simp_all
  show z: "thumb_mov32 ?b off = 0" by (simp add: thumb_mov32_def thumb_imm16_def r0 del: add_2_eq_Suc')
  have len: "off + 8 \<le> length ?b" using assms(1,2) by simp
  show "fst (applyMOV32T off v ?b) = []" using applyMOV32T_adds [OF len, of v] by (simp add: r0 del: add_2_eq_Suc')
  show "thumb_mov32 (snd (applyMOV32T off v ?b)) off = v" using applyMOV32T_adds [OF len, of v] by (simp add: z)
qed

text \<open>The two instructions \<open>movw ip, #lo\<close> and \<open>movt ip, #hi\<close> without their constants.\<close>

definition loads_ip :: "buffer \<Rightarrow> nat \<Rightarrow> bool" where
  "loads_ip buf off \<longleftrightarrow> read16le buf off AND 0xfbf0 = 0xf240 \<and> read16le buf (off + 2) AND 0x8f00 = 0x0c00 \<and>
     read16le buf (off + 4) AND 0xfbf0 = 0xf2c0 \<and> read16le buf (off + 6) AND 0x8f00 = 0x0c00"

lemma applyMOV32T_keeps:
  assumes "off + 8 \<le> length buf"
  shows "loads_ip (snd (applyMOV32T off v buf)) off = loads_ip buf off"
    and "off + 8 \<le> p \<Longrightarrow> p + 2 \<le> length buf \<Longrightarrow> read16le (snd (applyMOV32T off v buf)) p = read16le buf p"
proof -
  have b: "off + 4 \<le> length buf" "off + 4 + 4 \<le> length buf" using assms by simp_all
  note p1 = applyMOV_props [OF b(1)]
  have b2: "off + 4 + 4 \<le> length (applyMOV off w buf)" for w using b p1(1) by simp
  note p2 = applyMOV_props [OF b2]
  have 2: "off + 6 = off + 4 + 2" by simp
  obtain w w' where out: "snd (applyMOV32T off v buf) = applyMOV (off + 4) w' (applyMOV off w buf)"
    by (auto simp: applyMOV32T_def Let_def case_prod_unfold)
  have "read16le (applyMOV (off + 4) w' (applyMOV off w buf)) q = read16le (applyMOV off w buf) q" if "q + 2 \<le> off + 4" for q
    using that assms p1(1) by (intro read16le_applyMOV b2) simp_all
  moreover have "read16le (applyMOV off w buf) q = read16le buf q" if "off + 4 \<le> q" "q + 2 \<le> length buf" for q
    using that by (intro read16le_applyMOV b(1)) simp_all
  ultimately show "loads_ip (snd (applyMOV32T off v buf)) off = loads_ip buf off"
    using assms p1(3,4) [of w] p2(3) [of w' w] p2(4) [of w' w] unfolding loads_ip_def out 2 by (simp del: add_2_eq_Suc')
  assume "off + 8 \<le> p" "p + 2 \<le> length buf"
  then show "read16le (snd (applyMOV32T off v buf)) p = read16le buf p"
    unfolding out using assms p1(1) by (simp add: read16le_applyMOV [OF b2] read16le_applyMOV [OF b(1)])
qed

lemma thumb_thunk_code:
  assumes "off + length ys \<le> length buf" and "8 \<le> length ys"
    and "read16le ys 0 = 0xf240" "read16le ys 2 = 0x0c00" "read16le ys 4 = 0xf2c0" "read16le ys 6 = 0x0c00"
  shows "loads_ip (snd (applyMOV32T off v (put buf off ys))) off"
    and "8 \<le> k \<Longrightarrow> k + 2 \<le> length ys \<Longrightarrow> read16le (snd (applyMOV32T off v (put buf off ys))) (off + k) = read16le ys k"
proof -
  have len: "off + 8 \<le> length (put buf off ys)" using assms(1,2) by simp
  have r: "read16le (put buf off ys) (off + k) = read16le ys k" if "k + 2 \<le> length ys" for k
    using assms(1) that by (intro read16le_put) simp_all
  show "loads_ip (snd (applyMOV32T off v (put buf off ys))) off"
    using r [of 0] r [of 2] r [of 4] r [of 6] assms(2-) unfolding applyMOV32T_keeps(1) [OF len] unfolding loads_ip_def by (simp del: add_2_eq_Suc')
  assume "8 \<le> k" "k + 2 \<le> length ys"
  then show "read16le (snd (applyMOV32T off v (put buf off ys))) (off + k) = read16le ys k"
    using applyMOV32T_keeps(2) [OF len, of "off + k" v] r [of k] assms(1) by simp
qed

lemma ucast_u64_u32 [simp]: "ucast (ucast (v :: u32) :: u64) = v"
  by (rule bit_word_eqI) (auto simp: bit_simps)

text \<open>\<open>add pc, ip\<close> at the end of the thunk reads its own address plus four.\<close>

lemma RangeExtensionThunkARM_reaches:
  assumes "off + 10 \<le> length buf"
  shows "fst (RangeExtensionThunkARM_writeTo target rva off buf) = []"
    and "loads_ip (snd (RangeExtensionThunkARM_writeTo target rva off buf)) off"
    and "read16le (snd (RangeExtensionThunkARM_writeTo target rva off buf)) (off + 8) = 0x44e7"
    and "thumb_mov32 (snd (RangeExtensionThunkARM_writeTo target rva off buf)) off + (rva + 8 + 4) = ucast target"
proof -
  have "off + length armThunk \<le> length buf" using assms by (simp add: armThunk_words)
  note m = thumb_mov_zero [OF this _ armThunk_words(2-5)] and c = thumb_thunk_code [OF this _ armThunk_words(2-5)]
  show "loads_ip (snd (RangeExtensionThunkARM_writeTo target rva off buf)) off"
    and "read16le (snd (RangeExtensionThunkARM_writeTo target rva off buf)) (off + 8) = 0x44e7"
    using c by (simp_all add: RangeExtensionThunkARM_writeTo_def armThunk_words)
  show "fst (RangeExtensionThunkARM_writeTo target rva off buf) = []"
    using m(2) by (simp add: RangeExtensionThunkARM_writeTo_def armThunk_words)
  have "ucast (target - ucast rva - 12) = ucast target - rva - (12 :: u32)"
    by (simp add: ucast_word_diff ucast_u64_u32)
  then show "thumb_mov32 (snd (RangeExtensionThunkARM_writeTo target rva off buf)) off + (rva + 8 + 4) = ucast target"
    using m(3) by (simp add: RangeExtensionThunkARM_writeTo_def armThunk_words)
qed

section \<open>Import thunks jump through the import address table\<close>

lemma importThunkX86_length: "length importThunkX86 = 6"
  by (simp add: importThunkX86_def)

lemma ImportThunkChunkX64_slot:
  assumes "off + 6 \<le> length buf"
  shows "sub (ImportThunkChunkX64_writeTo imp rva off buf) off 2 = [0xff, 0x25]"
    and "rva + 6 + read32le (ImportThunkChunkX64_writeTo imp rva off buf) (off + 2) = ucast imp"
proof -
  have l: "off + length importThunkX86 \<le> length buf" using assms by (simp add: importThunkX86_length)
  have "sub (put buf off importThunkX86) (off + 0) 2 = sub importThunkX86 0 2"
    using l by (rule sub_put_inner) (simp add: importThunkX86_length)
  then show "sub (ImportThunkChunkX64_writeTo imp rva off buf) off 2 = [0xff, 0x25]"
    using l by (simp add: ImportThunkChunkX64_writeTo_def le32.sub_wr_disjoint importThunkX86_length) (simp add: sub_def importThunkX86_def)
  have "ucast (imp - ucast rva - 6) = ucast imp - rva - (6 :: u32)" by (simp add: ucast_word_diff ucast_u64_u32)
  then show "rva + 6 + read32le (ImportThunkChunkX64_writeTo imp rva off buf) (off + 2) = ucast imp"
    using l by (simp add: ImportThunkChunkX64_writeTo_def importThunkX86_length)
qed

lemma importThunkARM64_words:
  "length importThunkARM64 = 12" "read32le importThunkARM64 0 = 0x90000010" "read32le importThunkARM64 4 = 0xf9400210"
  "read32le importThunkARM64 8 = 0xd61f0200"
  unfolding importThunkARM64_def read32le_def sub_def by code_simp+

lemma importThunkARM_words:
  "length importThunkARM = 12" "read16le importThunkARM 0 = 0xf240" "read16le importThunkARM 2 = 0x0c00"
  "read16le importThunkARM 4 = 0xf2c0" "read16le importThunkARM 6 = 0x0c00" "read16le importThunkARM 8 = 0xf8dc"
  "read16le importThunkARM 10 = 0xf000"
  unfolding importThunkARM_def read16le_def sub_def by code_simp+

lemma ldr8_mask: "(v :: u64) AND drop_bit 3 0xFFF = (v AND 0x1FF) AND 0xFFF"
  by (simp add: and.assoc)

lemma slot_imm:
  assumes "(imp :: u64) AND 7 = 0"
  shows "push_bit 3 ((drop_bit 3 (imp AND 0xfff) AND 0x1FF) AND 0xFFF) = imp AND 0xfff"
proof -
  have "take_bit 3 imp = 0" using assms by (simp add: take_bit_eq_mask mask_eq_exp_minus_1)
  then have low: "\<not> bit imp n" if "n < 3" for n using that by (metis bit_0_eq bit_take_bit_iff bot_apply bot_bool_def)
  have "push_bit 3 ((drop_bit 3 (imp AND mask 12) AND mask 9) AND mask 12) = imp AND mask 12"
  proof (rule bit_word_eqI)
    fix n show "bit (push_bit 3 ((drop_bit 3 (imp AND mask 12) AND mask 9) AND mask 12)) n = bit (imp AND mask 12) n"
      using low [of n] by (cases "n < 3") (auto simp: bit_simps)
  qed
  then show ?thesis by (simp add: mask_eq_exp_minus_1)
qed

lemma ImportThunkChunkARM64_slot:
  fixes rva :: u32
  assumes "off + 12 \<le> length buf" and "uint imp < 2 ^ 32"
  defines "out \<equiv> snd (ImportThunkChunkARM64_writeTo imp rva off buf)"
  shows "fst (ImportThunkChunkARM64_writeTo imp rva off buf) = [] \<longleftrightarrow> imp AND 7 = 0"
    and "read32le out off AND 0x9F00001F = 0x90000010" and "read32le out (off + 4) AND NOT 0x3FFC00 = 0xf9400210"
    and "read32le out (off + 8) = 0xd61f0200"
    and "imp AND 7 = 0 \<Longrightarrow> adrp_result (ucast rva) (read32le out off) + 8 * imm12 (read32le out (off + 4)) = imp"
proof -
  let ?b0 = "put buf off importThunkARM64"
  have l: "length ?b0 = length buf" using assms(1) by (simp add: importThunkARM64_words)
  have r: "read32le ?b0 (off + k) = read32le importThunkARM64 k" if "k + 4 \<le> 12" for k
    using assms(1) that by (intro read32le_put) (simp_all add: importThunkARM64_words)
  have r0: "read32le ?b0 off = 0x90000010" "read32le ?b0 (off + 4) = 0xf9400210" "read32le ?b0 (off + 8) = 0xd61f0200"
    using r [of 0] r [of 4] r [of 8] by (simp_all add: importThunkARM64_words)
  have z: "adr_imm 0x90000010 = 0" "imm12 0xf9400210 = 0" by (simp_all add: adr_imm_def imm12_def)
  let ?b1 = "applyArm64Addr off imp (ucast rva) 12 ?b0"
  have p: "uint (ucast rva :: u64) < 2 ^ 32"
    using uint_lt2p [of rva] by (simp add: unsigned_ucast_eq take_bit_int_eq_self)
  have a: "adrp_result (ucast rva) (read32le ?b1 off) = imp AND NOT 0xfff"
    "read32le ?b1 off AND 0x9F00001F = 0x90000010 AND 0x9F00001F"
    using applyArm64Addr_page [of off ?b0 imp "ucast rva"] page_distance [OF assms(2) p] assms(1) l by (simp_all add: r0 z)
  have r1: "read32le ?b1 (off + 4) = 0xf9400210" "read32le ?b1 (off + 8) = 0xd61f0200" "length ?b1 = length buf"
    using assms(1) l r0 by (simp_all add: read32le_arm64_other)
  have sz: "unat (drop_bit 30 (0xf9400210 :: u32)) = 3" "(0xf9400210 :: u32) AND 0x4800000 \<noteq> 0x4800000" by simp_all
  have al: "(imp AND 0xfff) AND 7 = imp AND 7" by (simp add: and.assoc)
  let ?v = "drop_bit 3 (imp AND 0xfff)"
  have out: "out = applyArm64Imm (off + 4) ?v 3 ?b1"
    and errs: "fst (ImportThunkChunkARM64_writeTo imp rva off buf) = (if imp AND 7 \<noteq> 0 then [MisalignedLdr] else [])"
    by (simp_all add: out_def ImportThunkChunkARM64_writeTo_def applyArm64Ldr_def Let_def r1 sz al)
  show "fst (ImportThunkChunkARM64_writeTo imp rva off buf) = [] \<longleftrightarrow> imp AND 7 = 0" by (simp add: errs)
  have o: "read32le out off = read32le ?b1 off" "read32le out (off + 8) = 0xd61f0200"
    using assms(1) r1 by (simp_all add: out read32le_arm64_other)
  then show "read32le out off AND 0x9F00001F = 0x90000010" "read32le out (off + 8) = 0xd61f0200" using a(2) by simp_all
  have ldr: "read32le out (off + 4) = (0xf9400210 AND NOT 0x3FFC00) OR ucast (push_bit 10 ((?v AND 0x1FF) AND 0xFFF))"
    unfolding out using assms(1) r1 ldr8_mask [of ?v]
    by (simp only: applyArm64Imm_def Let_def le32.rd_wr z(2) imm12_def [symmetric] add_0_right)
  then show "read32le out (off + 4) AND NOT 0x3FFC00 = 0xf9400210"
    using imm12_other_bits [of "0xf9400210" "?v AND 0x1FF"] by (simp only:) simp
  assume "imp AND 7 = 0"
  then have "push_bit 3 ((?v AND 0x1FF) AND 0xFFF) = imp AND 0xfff" by (rule slot_imm)
  moreover have "imm12 (read32le out (off + 4)) = (?v AND 0x1FF) AND 0xFFF" unfolding ldr by (rule imm12_encode)
  moreover have "(imp AND NOT 0xfff) + (imp AND 0xFFF) = imp"
    by (subst disjunctive_add_eq_or) (simp_all add: bit_eq_iff bit_simps, blast)
  ultimately show "adrp_result (ucast rva) (read32le out off) + 8 * imm12 (read32le out (off + 4)) = imp"
    by (simp add: o(1) a(1) push_bit_eq_mult mult.commute)
qed

lemma ImportThunkChunkX86_slot:
  assumes "off + 6 \<le> length buf"
  shows "sub (ImportThunkChunkX86_writeTo imageBase imp off buf) off 2 = [0xff, 0x25]"
    and "read32le (ImportThunkChunkX86_writeTo imageBase imp off buf) (off + 2) = ucast (imp + imageBase)"
proof -
  have l: "off + length importThunkX86 \<le> length buf" using assms by (simp add: importThunkX86_length)
  have "sub (put buf off importThunkX86) (off + 0) 2 = sub importThunkX86 0 2"
    using l by (rule sub_put_inner) (simp add: importThunkX86_length)
  then show "sub (ImportThunkChunkX86_writeTo imageBase imp off buf) off 2 = [0xff, 0x25]"
    using l by (simp add: ImportThunkChunkX86_writeTo_def le32.sub_wr_disjoint importThunkX86_length) (simp add: sub_def importThunkX86_def)
  show "read32le (ImportThunkChunkX86_writeTo imageBase imp off buf) (off + 2) = ucast (imp + imageBase)"
    using l by (simp add: ImportThunkChunkX86_writeTo_def importThunkX86_length)
qed

text \<open>On ARM the thunk loads the absolute address of the slot and \<open>ldr.w pc, [ip]\<close> follows it.\<close>

lemma ImportThunkChunkARM_slot:
  assumes "off + 12 \<le> length buf"
  shows "fst (ImportThunkChunkARM_writeTo imageBase imp off buf) = []"
    and "loads_ip (snd (ImportThunkChunkARM_writeTo imageBase imp off buf)) off"
    and "read16le (snd (ImportThunkChunkARM_writeTo imageBase imp off buf)) (off + 8) = 0xf8dc"
    and "read16le (snd (ImportThunkChunkARM_writeTo imageBase imp off buf)) (off + 10) = 0xf000"
    and "thumb_mov32 (snd (ImportThunkChunkARM_writeTo imageBase imp off buf)) off = ucast (imp + imageBase)"
proof -
  have "off + length importThunkARM \<le> length buf" using assms by (simp add: importThunkARM_words)
  note m = thumb_mov_zero [OF this _ importThunkARM_words(2-5)] and c = thumb_thunk_code [OF this _ importThunkARM_words(2-5)]
  show "loads_ip (snd (ImportThunkChunkARM_writeTo imageBase imp off buf)) off"
    and "read16le (snd (ImportThunkChunkARM_writeTo imageBase imp off buf)) (off + 8) = 0xf8dc"
    and "read16le (snd (ImportThunkChunkARM_writeTo imageBase imp off buf)) (off + 10) = 0xf000"
    using c(1) c(2) [of 8] c(2) [of 10] by (simp_all add: ImportThunkChunkARM_writeTo_def importThunkARM_words)
  show "fst (ImportThunkChunkARM_writeTo imageBase imp off buf) = []"
    and "thumb_mov32 (snd (ImportThunkChunkARM_writeTo imageBase imp off buf)) off = ucast (imp + imageBase)"
    using m(2,3) by (simp_all add: ImportThunkChunkARM_writeTo_def importThunkARM_words)
qed

section \<open>Dynamic relocations fill the bytes reserved for them\<close>

text \<open>Two outputs that differ at most on \<open>[lo, hi)\<close>.\<close>

definition same_outside :: "nat \<Rightarrow> nat \<Rightarrow> buffer \<Rightarrow> buffer \<Rightarrow> bool" where
  "same_outside lo hi buf buf' \<longleftrightarrow> length buf' = length buf \<and> (\<forall>i < length buf. i < lo \<or> hi \<le> i \<longrightarrow> buf' ! i = buf ! i)"

lemma same_outside_refl [simp]: "same_outside lo hi buf buf"
  by (simp add: same_outside_def)

lemma same_outside_trans: "same_outside lo hi a b \<Longrightarrow> same_outside lo hi b c \<Longrightarrow> same_outside lo hi a c"
  by (simp add: same_outside_def)

lemma same_outside_mono: "same_outside lo hi a b \<Longrightarrow> lo' \<le> lo \<Longrightarrow> hi \<le> hi' \<Longrightarrow> same_outside lo' hi' a b"
  unfolding same_outside_def by (metis le_trans less_le_trans)

lemma same_outside_write:
  "lo \<le> P \<Longrightarrow> P + 2 \<le> hi \<Longrightarrow> hi \<le> length buf \<Longrightarrow> same_outside lo hi buf (write16le buf P v2)"
  "lo \<le> P \<Longrightarrow> P + 4 \<le> hi \<Longrightarrow> hi \<le> length buf \<Longrightarrow> same_outside lo hi buf (write32le buf P v4)"
  "lo \<le> P \<Longrightarrow> P + 8 \<le> hi \<Longrightarrow> hi \<le> length buf \<Longrightarrow> same_outside lo hi buf (write64le buf P v8)"
  by (auto simp: same_outside_def le_frame)

lemma same_outside_length: "same_outside lo hi a b \<Longrightarrow> length b = length a"
  by (simp add: same_outside_def)

text \<open>Write after write on the same range.\<close>

lemma same_outside_step:
  "same_outside lo hi a b \<Longrightarrow> (length b = length a \<Longrightarrow> same_outside lo hi b c) \<Longrightarrow> same_outside lo hi a c"
  by (meson same_outside_trans same_outside_length)

definition wf_entry :: "Arm64XDynamicRelocEntry \<Rightarrow> bool" where
  "wf_entry e \<longleftrightarrow> (de_type e = VALUE \<longrightarrow> de_size e \<in> {2, 4, 8})"

lemma header_then:
  assumes "off + 2 \<le> n" and "n \<le> length buf" and "\<And>b. length b = length buf \<Longrightarrow> same_outside off n b (f b)"
  shows "same_outside off n buf (f (write16le buf off v))"
  by (rule same_outside_step [OF same_outside_write(1)]) (use assms in auto)

lemma entry_writeTo_frame:
  assumes "wf_entry e" and "off + entry_getSize e \<le> length buf"
  shows "same_outside off (off + entry_getSize e) buf (entry_writeTo e off buf)"
proof (cases "de_type e")
  case ZEROFILL
  then show ?thesis using assms(2)
    by (simp add: entry_writeTo_def entry_getSize_def Let_def same_outside_write)
next
  case VALUE
  then have sz: "de_size e = 2 \<or> de_size e = 4 \<or> de_size e = 8" and n: "entry_getSize e = 2 + de_size e"
    using assms(1) by (simp_all add: wf_entry_def entry_getSize_def)
  show ?thesis unfolding entry_writeTo_def VALUE Let_def Arm64XFixupType.case
    by (rule header_then) (use sz n assms(2) in \<open>auto simp: same_outside_write\<close>)
next
  case DELTA
  then have n: "entry_getSize e = 4" by (simp add: entry_getSize_def)
  show ?thesis unfolding entry_writeTo_def DELTA Let_def Arm64XFixupType.case case_prod_unfold n
    by (rule header_then) (use n assms(2) in \<open>auto simp: same_outside_write\<close>)
qed

lemma alignTo_20: "alignTo (20 + n) 4 = 20 + alignTo n 4"
  by (simp add: alignTo_def) presburger

lemma dynamic_blocks_size:
  "20 + fst (dynamic_blocks base n (Some (h, p)) es buf) = dynamic_size p (20 + n) es"
proof (induction es arbitrary: n h p buf)
  case (Cons e es)
  have "20 + n + entry_getSize e = 20 + (n + entry_getSize e)"
    "alignTo (20 + n) 4 + 8 + entry_getSize e = 20 + (alignTo n 4 + 8 + entry_getSize e)"
    by (simp_all add: alignTo_20)
  then show ?case unfolding dynamic_blocks.simps dynamic_size.simps Let_def
    by (cases "entry_page e = p") (simp_all only: option.sel snd_conv option.distinct if_True if_False Cons.IH simp_thms)
qed (simp only: dynamic_blocks.simps dynamic_size.simps Let_def alignTo_20 fst_conv)

lemma dynamic_blocks_grows: "n \<le> fst (dynamic_blocks base n ph es buf)"
proof (induction es arbitrary: n ph buf)
  case Nil
  then show ?case using alignTo_ge [of 4 n] by (simp add: Let_def)
next
  case (Cons e es)
  show ?case
  proof (cases "ph = None \<or> entry_page e \<noteq> snd (the ph)")
    case True
    have "n \<le> alignTo n 4 + 8 + entry_getSize e" using alignTo_ge [of 4 n] by simp
    also have "\<dots> \<le> fst (dynamic_blocks base n ph (e # es) buf)"
      unfolding dynamic_blocks.simps Let_def if_P [OF True] by (rule Cons.IH)
    finally show ?thesis .
  next
    case False
    have "n \<le> n + entry_getSize e" by simp
    also have "\<dots> \<le> fst (dynamic_blocks base n ph (e # es) buf)"
      unfolding dynamic_blocks.simps Let_def if_not_P [OF False] by (rule Cons.IH)
    finally show ?thesis .
  qed
qed

definition open_block :: "nat \<Rightarrow> nat \<Rightarrow> (nat \<times> u32) option \<Rightarrow> bool" where
  "open_block base n ph \<longleftrightarrow> (case ph of None \<Rightarrow> True | Some (h, _) \<Rightarrow> base \<le> h \<and> h + 8 \<le> base + n)"

lemma close_block_frame:
  "open_block base n ph \<Longrightarrow> n \<le> m \<Longrightarrow> base + m \<le> length buf \<Longrightarrow> same_outside base (base + m) buf (close_block base sz ph buf)"
  by (auto simp: open_block_def close_block_def same_outside_write split: option.splits)

lemma dynamic_blocks_frame:
  assumes "list_all wf_entry es" and "open_block base n ph" and "base + fst (dynamic_blocks base n ph es buf) \<le> length buf"
  shows "same_outside base (base + fst (dynamic_blocks base n ph es buf)) buf (snd (dynamic_blocks base n ph es buf))"
  using assms
proof (induction es arbitrary: n ph buf)
  case Nil
  then show ?case using alignTo_ge [of 4 n] by (simp add: Let_def close_block_frame)
next
  case (Cons e es)
  have wf: "wf_entry e" "list_all wf_entry es" using Cons.prems(1) by simp_all
  show ?case
  proof (cases "ph = None \<or> entry_page e \<noteq> snd (the ph)")
    case True
    let ?sz = "alignTo n 4" and ?s = "entry_getSize e"
    let ?b1 = "close_block base ?sz ph buf"
    let ?b2 = "write32le ?b1 (base + ?sz) (entry_page e)"
    let ?b3 = "entry_writeTo e (base + ?sz + 8) ?b2"
    let ?r = "dynamic_blocks base (?sz + 8 + ?s) (Some (base + ?sz, entry_page e)) es ?b3"
    have r: "dynamic_blocks base n ph (e # es) buf = ?r"
      unfolding dynamic_blocks.simps Let_def if_P [OF True] by (rule refl)
    have le: "?sz + 8 + ?s \<le> fst ?r" by (rule dynamic_blocks_grows)
    have len: "base + fst ?r \<le> length buf" using Cons.prems(3) unfolding r .
    have n: "n \<le> fst ?r" using le alignTo_ge [of 4 n] by linarith
    note f1 = close_block_frame [OF Cons.prems(2) n len, of ?sz]
    have f2: "same_outside base (base + fst ?r) ?b1 ?b2"
      by (rule same_outside_write(2)) (use len le same_outside_length [OF f1] in linarith)+
    have l2: "length ?b2 = length buf" using same_outside_length [OF f1] same_outside_length [OF f2] by simp
    have f3: "same_outside base (base + fst ?r) ?b2 ?b3"
      by (rule same_outside_mono [OF entry_writeTo_frame [OF wf(1)]]) (use len le l2 in linarith)+
    have "same_outside base (base + fst ?r) ?b3 (snd ?r)"
      by (rule Cons.IH [OF wf(2)]) (use len l2 same_outside_length [OF f3] in \<open>auto simp: open_block_def\<close>)
    then show ?thesis unfolding r using f1 f2 f3 by (blast intro: same_outside_trans)
  next
    case False
    let ?s = "entry_getSize e" and ?b1 = "entry_writeTo e (base + n) buf"
    let ?r = "dynamic_blocks base (n + ?s) ph es ?b1"
    have r: "dynamic_blocks base n ph (e # es) buf = ?r"
      unfolding dynamic_blocks.simps Let_def if_not_P [OF False] by (rule refl)
    have le: "n + ?s \<le> fst ?r" by (rule dynamic_blocks_grows)
    have len: "base + fst ?r \<le> length buf" using Cons.prems(3) unfolding r .
    have f1: "same_outside base (base + fst ?r) buf ?b1"
      by (rule same_outside_mono [OF entry_writeTo_frame [OF wf(1)]]) (use len le in linarith)+
    have "same_outside base (base + fst ?r) ?b1 (snd ?r)"
      by (rule Cons.IH [OF wf(2)]) (use len Cons.prems(2) same_outside_length [OF f1] in \<open>auto simp: open_block_def split: option.splits\<close>)
    then show ?thesis unfolding r using f1 by (blast intro: same_outside_trans)
  qed
qed

lemma entry_page_aligned: "entry_page e \<noteq> 0xfff"
proof
  assume "entry_page e = 0xfff"
  then have "bit (ucast (de_offset e) AND NOT 0xfff :: u32) 0 = bit (0xfff :: u32) 0" by (simp only: entry_page_def)
  then show False by (simp add: bit_simps)
qed

lemma DynamicRelocsChunk_size:
  "fst (DynamicRelocsChunk_writeTo relocs off buf) = dynamic_size 0xfff 20 relocs"
proof (cases relocs)
  case (Cons e es)
  have z: "alignTo 0 4 = 0" "alignTo 20 4 = 20" by (simp_all add: alignTo_def)
  have "20 + fst (dynamic_blocks b 0 None (e # es) buf') = dynamic_size 0xfff 20 (e # es)" for b buf'
    using dynamic_blocks_size [of b "8 + entry_getSize e"] entry_page_aligned [of e] by (simp add: Let_def z)
  then show ?thesis by (simp add: DynamicRelocsChunk_writeTo_def Cons Let_def case_prod_unfold del: dynamic_blocks.simps dynamic_size.simps)
qed (simp add: DynamicRelocsChunk_writeTo_def Let_def alignTo_def close_block_def)

text \<open>C39: \<open>DynamicRelocsChunk::writeTo\<close> fills exactly the bytes that \<open>finalize\<close> reserved: the size it ends with is the
  size \<open>finalize\<close> computed from the sorted entries (its assertion), that size is a multiple of four, and no byte of the
  output before the chunk or behind that size changes. \<open>VALUE\<close> entries have one of the three sizes the code can
  write.\<close>

theorem DynamicRelocsChunk_fills_reserved:
  assumes "DynamicRelocsChunk_finalize relocs = (sz, entries)" and "list_all wf_entry relocs" and "off + sz \<le> length buf"
  shows "fst (DynamicRelocsChunk_writeTo entries off buf) = sz \<and> 4 dvd sz \<and>
    same_outside off (off + sz) buf (snd (DynamicRelocsChunk_writeTo entries off buf))"
proof -
  let ?b1 = "write64le (write32le (write32le buf off 1) (off + 4) 12) (off + 8) 6"
  let ?r = "dynamic_blocks (off + 20) 0 None entries ?b1"
  have srt: "entries = sort_key (\<lambda>e. unat (de_offset e)) relocs" "sz = dynamic_size 0xfff 20 entries"
    using assms(1) by (auto simp: DynamicRelocsChunk_finalize_def Let_def)
  then have sz: "fst (DynamicRelocsChunk_writeTo entries off buf) = sz" by (simp add: DynamicRelocsChunk_size)
  then have n: "sz = 20 + fst ?r" by (simp add: DynamicRelocsChunk_writeTo_def Let_def case_prod_unfold)
  have wf: "list_all wf_entry entries" using assms(2) by (simp add: srt list_all_iff)
  have d: "4 dvd dynamic_size p k es" for p k es
    by (induction es arbitrary: p k) (simp_all add: Let_def alignTo_dvd)
  have w4: "same_outside off (off + sz) b (write32le b (off + k) v)" if "length b = length buf" "k \<le> 16" for b k v
    by (rule same_outside_write(2)) (use n assms(3) that in linarith)+
  have w8: "same_outside off (off + sz) b (write64le b (off + 8) v)" if "length b = length buf" for b v
    by (rule same_outside_write(3)) (use n assms(3) that in linarith)+
  have "same_outside off (off + sz) buf (write32le (write32le buf (off + 0) 1) (off + 4) 12)"
    by (rule same_outside_trans [OF w4 w4]) (use same_outside_length [OF w4 [of buf 0]] in simp_all)
  then have h: "same_outside off (off + sz) buf (write32le (write32le buf off 1) (off + 4) 12)" by simp
  have f1: "same_outside off (off + sz) buf ?b1"
    by (rule same_outside_trans [OF h w8]) (rule same_outside_length [OF h])
  have l1: "length ?b1 = length buf" by (rule same_outside_length [OF f1])
  have f2: "same_outside off (off + sz) ?b1 (snd ?r)"
    by (rule same_outside_mono [OF dynamic_blocks_frame [OF wf]]) (use n assms(3) l1 in \<open>simp_all add: open_block_def\<close>)
  have f3: "same_outside off (off + sz) b (write32le (write32le b (off + 16) v) (off + 4) w)" if "length b = length buf" for b v w
    by (rule same_outside_trans [OF w4 w4]) (use that same_outside_length [OF w4 [OF that, of 16]] in simp_all)
  have "same_outside off (off + sz) buf (snd (DynamicRelocsChunk_writeTo entries off buf))"
    unfolding DynamicRelocsChunk_writeTo_def Let_def case_prod_unfold snd_conv
    by (rule same_outside_trans [OF same_outside_trans [OF f1 f2] f3]) (use same_outside_length [OF f2] l1 in simp)
  then show ?thesis using sz d srt(2) by simp
qed

definition dynamic_sample :: "Arm64XDynamicRelocEntry list" where
  "dynamic_sample =
     [\<lparr>de_type = VALUE, de_size = 4, de_offset = 0x2010, de_value = 0x1234\<rparr>,
      \<lparr>de_type = ZEROFILL, de_size = 8, de_offset = 0x108, de_value = 0\<rparr>,
      \<lparr>de_type = DELTA, de_size = 0, de_offset = 0x110, de_value = 8\<rparr>]"

lemma dynamic_sample_eval:
  "DynamicRelocsChunk_finalize dynamic_sample = (52, [dynamic_sample ! 1, dynamic_sample ! 2, dynamic_sample ! 0])"
  by (simp add: dynamic_sample_def DynamicRelocsChunk_finalize_def Let_def entry_page_def entry_getSize_def alignTo_def)

theorem DynamicRelocsChunk_fills_reserved_witness:
  "fst (DynamicRelocsChunk_writeTo (snd (DynamicRelocsChunk_finalize dynamic_sample)) 4 (replicate 60 0)) = 52"
  using DynamicRelocsChunk_fills_reserved [of dynamic_sample 52 "snd (DynamicRelocsChunk_finalize dynamic_sample)" 4 "replicate 60 0"]
  by (simp add: dynamic_sample_eval) (simp add: dynamic_sample_def wf_entry_def)

section \<open>Tables read back\<close>

fun read_words :: "nat \<Rightarrow> nat \<Rightarrow> buffer \<Rightarrow> u32 list" where
  "read_words 0 off buf = []"
| "read_words (Suc n) off buf = read32le buf off # read_words n (off + 4) buf"

lemma write_words_frame:
  "off + 4 * length vs \<le> length buf \<Longrightarrow> same_outside off (off + 4 * length vs) buf (write_words vs off buf)"
proof (induction vs arbitrary: off buf)
  case (Cons v vs)
  have "same_outside off (off + 4 * length (v # vs)) buf (write32le buf off v)"
    by (rule same_outside_write(2)) (use Cons.prems in auto)
  moreover have "same_outside off (off + 4 * length (v # vs)) (write32le buf off v) (write_words (v # vs) off buf)"
    unfolding write_words.simps
    by (rule same_outside_mono [OF Cons.IH]) (use Cons.prems in auto)
  ultimately show ?case by (rule same_outside_trans)
qed simp

lemma same_outside_read32le:
  "same_outside lo hi a b \<Longrightarrow> P + 4 \<le> length a \<Longrightarrow> P + 4 \<le> lo \<or> hi \<le> P \<Longrightarrow> read32le b P = read32le a P"
  by (rule read_sub_eq(2), rule sub_eqI) (auto simp: same_outside_def)

lemma read_words_write_words:
  "off + 4 * length vs \<le> length buf \<Longrightarrow> read_words (length vs) off (write_words vs off buf) = vs"
proof (induction vs arbitrary: off buf)
  case (Cons v vs)
  have f: "same_outside (off + 4) (off + 4 + 4 * length vs) (write32le buf off v) (write_words vs (off + 4) (write32le buf off v))"
    by (rule write_words_frame) (use Cons.prems in auto)
  have "read32le (write_words vs (off + 4) (write32le buf off v)) off = v"
    using same_outside_read32le [OF f, of off] Cons.prems by simp
  moreover have "read_words (length vs) (off + 4) (write_words vs (off + 4) (write32le buf off v)) = vs"
    using Cons.prems by (intro Cons.IH) simp
  ultimately show ?case by (simp only: write_words.simps list.size(4) add_0 add_Suc_right add_0_right read_words.simps)
qed simp

text \<open>The table of addresses that control flow guard and safe exception handlers read is sorted: reading the words of
  \<open>RVATableChunk::writeTo\<close> back gives, in increasing order and each as often as it occurs, the addresses of its
  symbols; nothing outside the table changes.\<close>

lemma RVATableChunk_sorted:
  assumes "off + 4 * length rvas \<le> length buf"
  shows "sorted (read_words (length rvas) off (RVATableChunk_writeTo rvas off buf)) \<and>
    mset (read_words (length rvas) off (RVATableChunk_writeTo rvas off buf)) = mset (map (\<lambda>(rva, offset). rva + offset) rvas) \<and>
    same_outside off (off + 4 * length rvas) buf (RVATableChunk_writeTo rvas off buf)"
proof -
  let ?ws = "sort (map (\<lambda>(rva, offset). rva + offset) rvas)"
  have l: "length ?ws = length rvas" by simp
  then have "read_words (length rvas) off (RVATableChunk_writeTo rvas off buf) = ?ws"
    using read_words_write_words [of off ?ws buf] assms by (simp only: RVATableChunk_writeTo_def)
  then show ?thesis
    using write_words_frame [of off ?ws buf] assms l by (simp add: RVATableChunk_writeTo_def)
qed

section \<open>Alignment of common symbols\<close>

lemma bit_width_bound: "n < 2 ^ bit_width n \<and> (0 < n \<longrightarrow> 2 ^ bit_width n \<le> 2 * n)"
proof (induction n rule: less_induct)
  case (less n)
  show ?case
  proof (cases "n = 0")
    case True
    then show ?thesis by (simp add: bit_width.simps)
  next
    case False
    then have w: "bit_width n = Suc (bit_width (n div 2))" by (simp add: bit_width.simps [of n])
    have ih: "n div 2 < 2 ^ bit_width (n div 2)" "0 < n div 2 \<Longrightarrow> 2 ^ bit_width (n div 2) \<le> 2 * (n div 2)"
      using less [of "n div 2"] False by simp_all
    show ?thesis
    proof (cases "n div 2 = 0")
      case True
      then show ?thesis using False by (simp add: w bit_width.simps)
    next
      case False
      then show ?thesis using ih by (simp add: w) linarith
    qed
  qed
qed

lemma bit_width_mono: "m < 2 ^ k \<Longrightarrow> bit_width m \<le> k"
proof (cases "m = 0")
  case False
  assume "m < 2 ^ k"
  then have "(2 :: nat) ^ bit_width m < 2 ^ Suc k" using bit_width_bound [of m] False by simp
  then show ?thesis using power_strict_increasing_iff [of "2 :: nat"] by (metis one_less_numeral_iff semiring_norm(76) less_Suc_eq_le)
qed (simp add: bit_width.simps)

lemma PowerOf2Ceil_small:
  fixes v :: u32
  assumes "0 < v" and "v \<le> 0x80000000"
  shows "unat (ucast (PowerOf2Ceil (ucast v)) :: u32) = 2 ^ bit_width (unat v - 1)" and "bit_width (unat v - 1) \<le> 31"
proof -
  have v: "0 < unat v" "unat v \<le> 2147483648" using assms by (simp_all add: word_less_nat_alt word_le_nat_alt unat_eq_0 [symmetric])
  then have "unat v - 1 < 2 ^ 31" by simp
  then show k: "bit_width (unat v - 1) \<le> 31" by (rule bit_width_mono)
  have u: "unat (ucast v :: u64) = unat v" by (simp add: unsigned_ucast_eq take_bit_nat_eq_self_iff) (use v in linarith)
  have "unat ((ucast v :: u64) - 1) = unat v - 1" using v u by (simp add: unat_sub word_le_nat_alt)
  moreover have "(ucast v :: u64) \<noteq> 0" "\<not> (ucast v :: u64) > 0x7FFFFFFFFFFFFFFF"
    using v u by (auto simp: word_less_nat_alt simp flip: unat_eq_0)
  ultimately have p: "PowerOf2Ceil (ucast v) = push_bit (bit_width (unat v - 1)) 1" by (simp add: PowerOf2Ceil_def)
  have "ucast (push_bit (bit_width (unat v - 1)) 1 :: u64) = (push_bit (bit_width (unat v - 1)) 1 :: u32)"
    using k by (intro bit_word_eqI) (auto simp: bit_simps)
  moreover have "unat (push_bit j 1 :: u32) = 2 ^ j" if "j \<le> 31" for j
  proof -
    have "(2 :: nat) ^ j < 2 ^ 32" using that by (intro power_strict_increasing) simp_all
    then have "unat (of_nat (2 ^ j) :: u32) = 2 ^ j" by (simp only: unat_of_nat) simp
    then show ?thesis by (simp add: push_bit_eq_mult)
  qed
  ultimately show "unat (ucast (PowerOf2Ceil (ucast v)) :: u32) = 2 ^ bit_width (unat v - 1)"
    using k unfolding p by simp
qed

text \<open>A common symbol of up to \<open>2 ^ 31\<close> bytes is aligned naturally up to 32: the alignment of its chunk is a power
  of two of at most 32, it is 32 or large enough to hold the symbol, and it is less than twice the symbol's size.\<close>

lemma CommonChunk_natural_alignment:
  assumes "0 < v" and "v \<le> 0x80000000"
  shows "(\<exists>k \<le> 5. unat (CommonChunk_alignment v) = 2 ^ k) \<and> (CommonChunk_alignment v = 32 \<or> v \<le> CommonChunk_alignment v) \<and>
    (unat (CommonChunk_alignment v) < 2 * unat v)"
proof -
  define k where "k = bit_width (unat v - 1)"
  define a where "a = (ucast (PowerOf2Ceil (ucast v)) :: u32)"
  have a: "unat a = 2 ^ k" using PowerOf2Ceil_small [OF assms] by (simp add: a_def k_def)
  have "0 < unat v" using assms by (simp add: word_less_nat_alt)
  then have v: "unat v \<le> 2 ^ k" "2 ^ k < 2 * unat v"
    using bit_width_bound [of "unat v - 1"] bit_width.simps [of 0] unfolding k_def by (cases "unat v = 1"; force)+
  have al: "CommonChunk_alignment v = (if k \<le> 5 then a else 32)"
  proof (cases "k \<le> 5")
    case True
    then have "(2 :: nat) ^ k \<le> 2 ^ 5" by (intro power_increasing) simp_all
    then have "a \<le> 32" by (simp add: word_le_nat_alt a)
    moreover have "a \<noteq> 0" using a by (auto simp flip: unat_eq_0)
    ultimately show ?thesis using True by (simp add: CommonChunk_alignment_def a_def [symmetric] min_def)
  next
    case False
    then have "(2 :: nat) ^ 6 \<le> 2 ^ k" by (intro power_increasing) simp_all
    then have "32 \<le> a" by (simp add: word_le_nat_alt a)
    then show ?thesis using False by (simp add: CommonChunk_alignment_def a_def [symmetric] min_def)
  qed
  show ?thesis
  proof (cases "k \<le> 5")
    case True
    then show ?thesis using v a al by (auto simp: word_le_nat_alt)
  next
    case False
    then have "(2 :: nat) ^ 6 \<le> 2 ^ k" by (intro power_increasing) simp_all
    then have "\<exists>k\<le>5. (32 :: nat) = 2 ^ k" "32 < 2 * unat v" using v by (auto intro: exI [of _ 5])
    then show ?thesis using False al by simp
  qed
qed

text \<open>Above \<open>2 ^ 31\<close> the power of two no longer fits 32 bits, the cast gives 0 and the symbol is aligned to one byte.\<close>

lemma CommonChunk_huge_alignment: "CommonChunk_alignment 0x80000001 = 1"
  by (simp add: CommonChunk_alignment_def PowerOf2Ceil_def bit_width.simps)

section \<open>What the thunks do\<close>

text \<open>C37: A range extension thunk jumps to its target, wherever it was placed. On ARM64 the first two instructions are still
  \<open>adrp x16\<close> and \<open>add x16, x16\<close>, they compute the address of the target from the address of the thunk, and \<open>br x16\<close>
  follows. On ARM the \<open>movw ip\<close>/\<open>movt ip\<close> pair holds the distance that \<open>add pc, ip\<close> behind it, which reads its own address
  plus four, adds to reach the target; the relocation reports no error. The output has room for the thunk and the target
  is below 4 GiB.\<close>

theorem range_extension_thunks_reach:
  fixes rva :: u32
  assumes "off + 12 \<le> length buf" and "uint target < 2 ^ 32"
  defines "out \<equiv> RangeExtensionThunkARM64_writeTo target rva off buf"
    and "arm \<equiv> RangeExtensionThunkARM_writeTo target rva off buf"
  shows "adrp_result (ucast rva) (read32le out off) + imm12 (read32le out (off + 4)) = target \<and>
    read32le out off AND 0x9F00001F = 0x90000010 \<and> read32le out (off + 4) AND NOT 0x3FFC00 = 0x91000210 \<and>
    read32le out (off + 8) = 0xd61f0200 \<and>
    fst arm = [] \<and> loads_ip (snd arm) off \<and> read16le (snd arm) (off + 8) = 0x44e7 \<and>
    thumb_mov32 (snd arm) off + (rva + 8 + 4) = ucast target"
  unfolding out_def arm_def
  using RangeExtensionThunkARM64_reaches [OF assms(1,2)] RangeExtensionThunkARM_reaches [of off buf] assms(1) by simp

theorem range_extension_thunks_reach_witness:
  "adrp_result (ucast (0x5000 :: u32)) (read32le (RangeExtensionThunkARM64_writeTo 0x9001234 0x5000 4 (replicate 20 0)) 4) +
     imm12 (read32le (RangeExtensionThunkARM64_writeTo 0x9001234 0x5000 4 (replicate 20 0)) 8) = 0x9001234"
  using range_extension_thunks_reach [of 4 "replicate 20 0" "0x9001234" "0x5000"] by simp

text \<open>C38: An import thunk jumps through the import address table slot of its symbol. On x64 it is \<open>jmp *disp(%rip)\<close> whose
  displacement, counted from the end of the instruction, is the slot; on x86 \<open>jmp *addr\<close> with the address of the slot at
  the image base. On ARM64 \<open>adrp x16\<close> and \<open>ldr x16, [x16, #off]\<close> read the slot and \<open>br x16\<close> follows; its slot has to
  be aligned to eight bytes, and any other is reported as an error. On ARM \<open>movw ip\<close> and \<open>movt ip\<close> load the address of the slot at the
  image base, whatever its alignment, and \<open>ldr.w pc, [ip]\<close> follows; no error is reported. The output has room for the thunk and
  the slot's relative address fits 32 bits.\<close>

theorem import_thunks_reach_slot:
  fixes rva :: u32 and imageBase :: u64
  assumes "off + 12 \<le> length buf" and "uint imp < 2 ^ 32"
  defines "x64 \<equiv> ImportThunkChunkX64_writeTo imp rva off buf"
    and "ia32 \<equiv> ImportThunkChunkX86_writeTo imageBase imp off buf"
    and "a64 \<equiv> ImportThunkChunkARM64_writeTo imp rva off buf"
    and "arm \<equiv> ImportThunkChunkARM_writeTo imageBase imp off buf"
  shows "sub x64 off 2 = [0xff, 0x25] \<and> rva + 6 + read32le x64 (off + 2) = ucast imp \<and>
    sub ia32 off 2 = [0xff, 0x25] \<and> read32le ia32 (off + 2) = ucast (imp + imageBase) \<and>
    (fst a64 = [] \<longleftrightarrow> imp AND 7 = 0) \<and> read32le (snd a64) off AND 0x9F00001F = 0x90000010 \<and>
    read32le (snd a64) (off + 4) AND NOT 0x3FFC00 = 0xf9400210 \<and> read32le (snd a64) (off + 8) = 0xd61f0200 \<and>
    (imp AND 7 = 0 \<longrightarrow> adrp_result (ucast rva) (read32le (snd a64) off) + 8 * imm12 (read32le (snd a64) (off + 4)) = imp) \<and>
    fst arm = [] \<and> loads_ip (snd arm) off \<and> thumb_mov32 (snd arm) off = ucast (imp + imageBase) \<and>
    read16le (snd arm) (off + 8) = 0xf8dc \<and> read16le (snd arm) (off + 10) = 0xf000"
  unfolding x64_def ia32_def a64_def arm_def
  using ImportThunkChunkX64_slot [of off buf] ImportThunkChunkX86_slot [of off buf] ImportThunkChunkARM64_slot [OF assms(1,2)]
    ImportThunkChunkARM_slot [OF assms(1)] assms(1) by simp

theorem import_thunks_reach_slot_witness:
  "0x5000 + 6 + read32le (ImportThunkChunkX64_writeTo 0x7018 0x5000 2 (replicate 16 0)) 4 = 0x7018 \<and>
   read16le (snd (ImportThunkChunkARM_writeTo 0x400000 0x7018 2 (replicate 16 0))) 10 = 0xf8dc"
  using import_thunks_reach_slot [of 2 "replicate 16 0" "0x7018" "0x5000" "0x400000"] by simp

end
