(* ===== verification/StringTable.thy ===== *)
theory StringTable
  imports Bytes "HOL-Library.AList" "HOL-Library.List_Lexorder" "HOL-Library.Sublist" "HOL-Library.Multiset"
begin

text \<open>
  String tables with shared suffixes (\<open>llvm/lib/MC/StringTableBuilder.cpp\<close>) and the chunks that merge string
  literals with them (\<open>MergeChunk\<close> of \<open>lld/COFF/Chunks.cpp\<close>). \<open>StringIndexMap\<close> is the list of its entries; the hash table
  enumerates them in an order of its own, which is the argument \<open>order\<close> of \<open>finalize\<close> and \<open>write\<close>.
\<close>

section \<open>The builder\<close>

datatype Kind = ELF | WinCOFF | MachO | MachO64 | MachOLinked | MachO64Linked | RAW | DWARF | XCOFF | DXContainer

type_synonym StringPair = "buffer \<times> nat"

record StringTableBuilder =
  StringPriorityMap :: "(buffer \<times> nat) list"
  StringIndexMap :: "StringPair list"
  tb_Size :: nat
  tb_K :: Kind
  tb_Alignment :: nat
  tb_Finalized :: bool

definition initSize :: "Kind \<Rightarrow> nat" where
  "initSize K = (case K of
     RAW \<Rightarrow> 0 | DWARF \<Rightarrow> 0 | MachOLinked \<Rightarrow> 2 | MachO64Linked \<Rightarrow> 2
   | MachO \<Rightarrow> 1 | MachO64 \<Rightarrow> 1 | ELF \<Rightarrow> 1 | DXContainer \<Rightarrow> 1 | XCOFF \<Rightarrow> 4 | WinCOFF \<Rightarrow> 4)"

definition new_builder :: "Kind \<Rightarrow> nat \<Rightarrow> StringTableBuilder" where
  "new_builder K alignment =
     \<lparr>StringPriorityMap = [], StringIndexMap = [], tb_Size = initSize K, tb_K = K, tb_Alignment = alignment, tb_Finalized = False\<rparr>"

text \<open>The byte behind each string: \<open>K != RAW\<close>.\<close>

definition nul :: "Kind \<Rightarrow> nat" where
  "nul K = (if K \<noteq> RAW then 1 else 0)"

definition priority_of :: "(buffer \<times> nat) list \<Rightarrow> buffer \<Rightarrow> nat" where
  "priority_of m S = (case map_of m S of Some p \<Rightarrow> p | None \<Rightarrow> 0)"

definition table_add :: "buffer \<Rightarrow> nat \<Rightarrow> StringTableBuilder \<Rightarrow> nat \<times> StringTableBuilder" where
  "table_add S Priority b =
     (let b1 = (if Priority \<noteq> 0
                then b\<lparr>StringPriorityMap := AList.update S (max Priority (priority_of (StringPriorityMap b) S)) (StringPriorityMap b)\<rparr> else b)
      in case map_of (StringIndexMap b1) S of
           Some off \<Rightarrow> (off, b1)
         | None \<Rightarrow>
             (let Start = alignTo (tb_Size b1) (tb_Alignment b1)
              in (Start, b1\<lparr>StringIndexMap := StringIndexMap b1 @ [(S, Start)], tb_Size := Start + length S + nul (tb_K b1)\<rparr>)))"

section \<open>Three-way radix quicksort\<close>

definition charTailAt :: "StringPair \<Rightarrow> nat \<Rightarrow> int" where
  "charTailAt P Pos = (let S = fst P in if Pos \<ge> length S then -1 else uint (S ! (length S - Pos - 1)))"

definition swap :: "nat \<Rightarrow> nat \<Rightarrow> 'a list \<Rightarrow> 'a list" where
  "swap i j xs = xs[i := xs ! j, j := xs ! i]"

function partition_loop :: "nat \<Rightarrow> int \<Rightarrow> nat \<Rightarrow> nat \<Rightarrow> nat \<Rightarrow> StringPair list \<Rightarrow> StringPair list \<times> nat \<times> nat" where
  "partition_loop Pos Pivot I J K Vec =
     (if K < J
      then (let C = charTailAt (Vec ! K) Pos
            in if C > Pivot then partition_loop Pos Pivot (I + 1) J (K + 1) (swap I K Vec)
               else if C < Pivot then partition_loop Pos Pivot I (J - 1) K (swap (J - 1) K Vec)
               else partition_loop Pos Pivot I J (K + 1) Vec)
      else (Vec, I, J))"
  by pat_completeness auto
termination by (relation "measure (\<lambda>(Pos, Pivot, I, J, K, Vec). J - K)") auto

declare partition_loop.simps [simp del]

lemma mset_swap: "i < length xs \<Longrightarrow> j < length xs \<Longrightarrow> mset (swap i j xs) = mset xs"
  by (simp add: swap_def mset_swap)

lemma length_swap [simp]: "length (swap i j xs) = length xs"
  by (simp add: swap_def)

lemma swap_nth: "i < length xs \<Longrightarrow> j < length xs \<Longrightarrow> n < length xs \<Longrightarrow>
    swap i j xs ! n = (if n = j then xs ! i else if n = i then xs ! j else xs ! n)"
  by (simp add: swap_def nth_list_update)

text \<open>Before each step the entries below \<open>I\<close> are greater than the pivot, those of \<open>[I, K)\<close> equal to it and those from \<open>J\<close> on
  less.\<close>

definition split_at :: "nat \<Rightarrow> int \<Rightarrow> nat \<Rightarrow> nat \<Rightarrow> nat \<Rightarrow> StringPair list \<Rightarrow> bool" where
  "split_at Pos Pivot I J K Vec \<longleftrightarrow> I < K \<and> K \<le> J \<and> J \<le> length Vec \<and>
     (\<forall>n < length Vec. (n < I \<longrightarrow> charTailAt (Vec ! n) Pos > Pivot) \<and> (I \<le> n \<and> n < K \<longrightarrow> charTailAt (Vec ! n) Pos = Pivot) \<and>
        (J \<le> n \<longrightarrow> charTailAt (Vec ! n) Pos < Pivot))"

lemma split_at_greater:
  assumes "split_at Pos Pivot I J K Vec" and "K < J" and "charTailAt (Vec ! K) Pos > Pivot"
  shows "split_at Pos Pivot (I + 1) J (K + 1) (swap I K Vec)"
  using assms unfolding split_at_def by (auto simp: swap_nth)

lemma split_at_less:
  assumes "split_at Pos Pivot I J K Vec" and "K < J" and "charTailAt (Vec ! K) Pos < Pivot"
  shows "split_at Pos Pivot I (J - 1) K (swap (J - 1) K Vec)"
  using assms unfolding split_at_def by (auto simp: swap_nth)

lemma split_at_equal:
  assumes "split_at Pos Pivot I J K Vec" and "K < J" and "charTailAt (Vec ! K) Pos = Pivot"
  shows "split_at Pos Pivot I J (K + 1) Vec"
  using assms unfolding split_at_def by (auto simp: less_Suc_eq)

lemma partition_loop_split:
  assumes "split_at Pos Pivot I J K Vec"
  shows "case partition_loop Pos Pivot I J K Vec of (Vec', I', J') \<Rightarrow> mset Vec' = mset Vec \<and> split_at Pos Pivot I' J' J' Vec'"
  using assms
proof (induction Pos Pivot I J K Vec rule: partition_loop.induct)
  case (1 Pos Pivot I J K Vec)
  show ?case
  proof (cases "K < J")
    case False
    with "1.prems" have "K = J" by (simp add: split_at_def)
    then show ?thesis using "1.prems" by (simp add: partition_loop.simps [of Pos Pivot I J J])
  next
    case True
    note split = split_at_greater [OF "1.prems" True] split_at_less [OF "1.prems" True] split_at_equal [OF "1.prems" True]
    have b: "I < length Vec" "K < length Vec" "J - 1 < length Vec" using "1.prems" True by (auto simp: split_at_def)
    consider "charTailAt (Vec ! K) Pos > Pivot" | "charTailAt (Vec ! K) Pos < Pivot" | "charTailAt (Vec ! K) Pos = Pivot" by linarith
    then show ?thesis
    proof cases
      case 1
      then show ?thesis using "1.IH"(1) [OF True refl] split(1) b
        by (simp add: partition_loop.simps [of Pos Pivot I J K] True mset_swap)
    next
      case 2
      then show ?thesis using "1.IH"(2) [OF True refl] split(2) b
        by (simp add: partition_loop.simps [of Pos Pivot I J K] True mset_swap)
    next
      case 3
      then show ?thesis using "1.IH"(3) [OF True refl] split(3)
        by (simp add: partition_loop.simps [of Pos Pivot I J K] True)
    qed
  qed
qed

text \<open>The sort works on a range of the array; the ranges before and behind the equal entries are sorted at the same position,
  the equal ones at the next.\<close>

definition sort_work :: "StringPair list \<Rightarrow> nat \<Rightarrow> nat" where
  "sort_work Vec Pos = (\<Sum>P \<leftarrow> Vec. Suc (length (fst P) + 1 - Pos))"

lemma sort_work_mset: "mset a = mset b \<Longrightarrow> sort_work a Pos = sort_work b Pos"
  by (simp add: sort_work_def flip: sum_mset_sum_list)

lemma sort_work_append [simp]: "sort_work (a @ b) Pos = sort_work a Pos + sort_work b Pos"
  by (simp add: sort_work_def)

lemma sort_work_pos: "a \<noteq> [] \<Longrightarrow> 0 < sort_work a Pos"
  by (cases a) (simp_all add: sort_work_def)

lemma charTailAt_inside: "charTailAt P Pos \<noteq> -1 \<longleftrightarrow> Pos < length (fst P)"
proof -
  have "uint w \<noteq> -1" for w :: byte using uint_ge_0 [of w] by linarith
  then show ?thesis unfolding charTailAt_def Let_def by simp
qed

lemma sort_work_next:
  assumes "a \<noteq> []" and "\<And>P. P \<in> set a \<Longrightarrow> Pos < length (fst P)"
  shows "sort_work a (Suc Pos) < sort_work a Pos"
  using assms
proof (induction a)
  case (Cons P a)
  have "Pos < length (fst P)" using Cons.prems(2) by simp
  then show ?case using Cons by (cases "a = []") (fastforce simp: sort_work_def)+
qed simp

text \<open>The three ranges of a partitioned array.\<close>

definition parts :: "StringPair list \<Rightarrow> nat \<Rightarrow> StringPair list \<times> StringPair list \<times> StringPair list" where
  "parts Vec Pos =
     (let (Vec1, I, J) = partition_loop Pos (charTailAt (Vec ! 0) Pos) 0 (length Vec) 1 Vec
      in (take I Vec1, take (J - I) (drop I Vec1), drop J Vec1))"

lemma parts_ok:
  assumes "1 < length Vec" and "parts Vec Pos = (gt, eq, lt)"
  defines "Pivot \<equiv> charTailAt (Vec ! 0) Pos"
  shows "mset Vec = mset (gt @ eq @ lt)" and "eq \<noteq> []" and "\<And>P. P \<in> set gt \<Longrightarrow> Pivot < charTailAt P Pos"
    and "\<And>P. P \<in> set eq \<Longrightarrow> charTailAt P Pos = Pivot" and "\<And>P. P \<in> set lt \<Longrightarrow> charTailAt P Pos < Pivot"
proof -
  obtain Vec1 I J where r: "partition_loop Pos Pivot 0 (length Vec) 1 Vec = (Vec1, I, J)" by (metis prod_cases3)
  have "split_at Pos Pivot 0 (length Vec) 1 Vec" using assms(1) by (auto simp: split_at_def Pivot_def)
  from partition_loop_split [OF this] have m: "mset Vec1 = mset Vec" and sp: "split_at Pos Pivot I J J Vec1"
    unfolding r by simp_all
  have p: "gt = take I Vec1" "eq = take (J - I) (drop I Vec1)" "lt = drop J Vec1"
    using assms(2) r by (simp_all add: parts_def Pivot_def)
  have IJ: "I < J" "J \<le> length Vec1" using sp by (simp_all add: split_at_def)
  have "Vec1 = gt @ eq @ lt" unfolding p by (metis IJ(1) append_take_drop_id drop_drop le_add_diff_inverse2 less_imp_le)
  then show "mset Vec = mset (gt @ eq @ lt)" using m by simp
  show "eq \<noteq> []" using IJ by (simp add: p)
  show "Pivot < charTailAt P Pos" if "P \<in> set gt" for P
    using that sp IJ by (auto simp: p in_set_conv_nth split_at_def)
  show "charTailAt P Pos = Pivot" if "P \<in> set eq" for P
    using that sp IJ by (auto simp: p in_set_conv_nth split_at_def)
  show "charTailAt P Pos < Pivot" if "P \<in> set lt" for P
    using that sp IJ by (auto simp: p in_set_conv_nth split_at_def)
qed

function multikeySort :: "StringPair list \<Rightarrow> nat \<Rightarrow> StringPair list" where
  "multikeySort Vec Pos =
     (if length Vec \<le> 1 then Vec
      else
        (let Pivot = charTailAt (Vec ! 0) Pos;
             (gt, eq, lt) = parts Vec Pos
         in multikeySort gt Pos @ (if Pivot \<noteq> -1 then multikeySort eq (Suc Pos) else eq) @ multikeySort lt Pos))"
  by pat_completeness auto
termination
proof (relation "measure (\<lambda>(Vec, Pos). sort_work Vec Pos)", goal_cases)
  case 1
  show ?case by simp
next
  case (2 Vec Pos Pivot x gt y eq lt)
  then have p: "1 < length Vec" "parts Vec Pos = (gt, eq, lt)" by simp_all
  show ?case using sort_work_mset [OF parts_ok(1) [OF p], of Pos] sort_work_pos [OF parts_ok(2) [OF p], of Pos] by simp
next
  case (3 Vec Pos Pivot x gt y eq lt)
  then have p: "1 < length Vec" "parts Vec Pos = (gt, eq, lt)" "charTailAt (Vec ! 0) Pos \<noteq> -1" by simp_all
  then have "sort_work eq (Suc Pos) < sort_work eq Pos"
    using parts_ok(2,4) [OF p(1,2)] by (intro sort_work_next) (simp_all flip: charTailAt_inside)
  then show ?case using sort_work_mset [OF parts_ok(1) [OF p(1,2)], of Pos] by simp
next
  case (4 Vec Pos Pivot x gt y eq lt)
  then have p: "1 < length Vec" "parts Vec Pos = (gt, eq, lt)" by simp_all
  show ?case using sort_work_mset [OF parts_ok(1) [OF p], of Pos] sort_work_pos [OF parts_ok(2) [OF p], of Pos] by simp
qed

declare multikeySort.simps [simp del]


text \<open>The order of the sort: reversed strings, lexicographically, the greatest first.\<close>

definition tail_ge :: "StringPair \<Rightarrow> StringPair \<Rightarrow> bool" where
  "tail_ge P Q \<longleftrightarrow> rev (fst Q) \<le> rev (fst P)"

definition tails_agree :: "nat \<Rightarrow> buffer \<Rightarrow> StringPair list \<Rightarrow> bool" where
  "tails_agree Pos pre Vec \<longleftrightarrow> (\<forall>P \<in> set Vec. Pos \<le> length (fst P) \<and> take Pos (rev (fst P)) = pre)"

lemma tails_agreeD: "tails_agree Pos pre Vec \<Longrightarrow> P \<in> set Vec \<Longrightarrow> Pos \<le> length (fst P) \<and> take Pos (rev (fst P)) = pre"
  by (simp add: tails_agree_def)

lemma charTailAt_rev: "Pos < length (fst P) \<Longrightarrow> charTailAt P Pos = uint (rev (fst P) ! Pos)"
  by (simp add: charTailAt_def Let_def rev_nth)

lemma charTailAt_end: "length (fst P) \<le> Pos \<Longrightarrow> charTailAt P Pos = -1"
  by (simp add: charTailAt_def Let_def)

lemma tail_ge_at:
  assumes "tails_agree Pos pre [P, Q]" and "charTailAt Q Pos < charTailAt P Pos"
  shows "tail_ge P Q"
proof -
  have a: "Pos \<le> length (fst P)" "Pos \<le> length (fst Q)" "take Pos (rev (fst P)) = pre" "take Pos (rev (fst Q)) = pre"
    using assms(1) by (simp_all add: tails_agree_def)
  have "charTailAt P Pos \<noteq> -1"
  proof
    assume "charTailAt P Pos = -1"
    moreover have "-1 \<le> charTailAt Q Pos" by (simp add: charTailAt_def Let_def order_trans [OF _ uint_ge_0])
    ultimately show False using assms(2) by simp
  qed
  then have P: "Pos < length (fst P)" by (simp only: charTailAt_inside)
  then have dP: "drop Pos (rev (fst P)) = rev (fst P) ! Pos # drop (Suc Pos) (rev (fst P))" by (simp add: Cons_nth_drop_Suc)
  have "drop Pos (rev (fst Q)) < drop Pos (rev (fst P))"
  proof (cases "Pos < length (fst Q)")
    case True
    then have "drop Pos (rev (fst Q)) = rev (fst Q) ! Pos # drop (Suc Pos) (rev (fst Q))" by (simp add: Cons_nth_drop_Suc)
    moreover have "rev (fst Q) ! Pos < rev (fst P) ! Pos"
      using assms(2) P True by (simp add: charTailAt_rev word_less_def)
    ultimately show ?thesis by (simp add: dP)
  next
    case False
    then show ?thesis by (simp add: dP)
  qed
  then have "pre @ drop Pos (rev (fst Q)) < pre @ drop Pos (rev (fst P))"
    by (simp add: list_less_def lexord_append_leftI)
  then show ?thesis using a unfolding tail_ge_def by (metis append_take_drop_id less_imp_le)
qed

lemma tails_agree_next:
  assumes "tails_agree Pos pre eq" and "\<And>P. P \<in> set eq \<Longrightarrow> charTailAt P Pos = c" and "c \<noteq> -1"
  shows "tails_agree (Suc Pos) (pre @ [word_of_int c]) eq"
  unfolding tails_agree_def
proof
  fix P assume P: "P \<in> set eq"
  then have "Pos < length (fst P)" using assms(2,3) by (metis charTailAt_inside)
  then show "Suc Pos \<le> length (fst P) \<and> take (Suc Pos) (rev (fst P)) = pre @ [word_of_int c]"
    using tails_agreeD [OF assms(1) P] by (simp add: take_Suc_conv_app_nth charTailAt_rev flip: assms(2) [OF P])
qed

lemma tails_agree_done:
  assumes "tails_agree Pos pre eq" and "\<And>P. P \<in> set eq \<Longrightarrow> charTailAt P Pos = -1"
  shows "sorted_wrt tail_ge eq"
proof -
  have e: "rev (fst P) = pre" if "P \<in> set eq" for P
    using tails_agreeD [OF assms(1) that] charTailAt_inside [of P Pos] assms(2) [OF that] by simp
  then have "tail_ge P Q" if "P \<in> set eq" "Q \<in> set eq" for P Q using that by (simp add: tail_ge_def)
  then show ?thesis by (auto simp: sorted_wrt_iff_nth_less)
qed

lemma multikeySort_sorted:
  "mset (multikeySort Vec Pos) = mset Vec \<and> (tails_agree Pos pre Vec \<longrightarrow> sorted_wrt tail_ge (multikeySort Vec Pos))"
proof (induction Vec Pos arbitrary: pre rule: multikeySort.induct)
  case (1 Vec Pos)
  show ?case
  proof (cases "length Vec \<le> 1")
    case True
    then have "multikeySort Vec Pos = Vec" "sorted_wrt tail_ge Vec"
      by (simp_all add: multikeySort.simps [of Vec] sorted_wrt_iff_nth_less)
    then show ?thesis by simp
  next
    case False
    then have len: "1 < length Vec" by simp
    obtain gt eq lt where p: "parts Vec Pos = (gt, eq, lt)" by (metis prod_cases3)
    note ok = parts_ok [OF len p]
    define c where "c = charTailAt (Vec ! 0) Pos"
    have r: "multikeySort Vec Pos = multikeySort gt Pos @ (if c \<noteq> -1 then multikeySort eq (Suc Pos) else eq) @ multikeySort lt Pos"
      using False by (simp add: multikeySort.simps [of Vec] p c_def Let_def)
    note gt = "1.IH"(1) [OF False refl p [symmetric] refl refl] and lt = "1.IH"(3) [OF False refl p [symmetric] refl refl]
    have eq: "c \<noteq> -1 \<Longrightarrow> mset (multikeySort eq (Suc Pos)) = mset eq \<and> (tails_agree (Suc Pos) q eq \<longrightarrow> sorted_wrt tail_ge (multikeySort eq (Suc Pos)))" for q
      using "1.IH"(2) [OF False refl p [symmetric] refl refl] by (simp add: c_def)
    have ih: "mset (multikeySort gt Pos) = mset gt" "mset (multikeySort lt Pos) = mset lt"
      "c \<noteq> -1 \<Longrightarrow> mset (multikeySort eq (Suc Pos)) = mset eq" using gt [of pre] lt [of pre] eq [of pre] by simp_all
    then have sets: "set (multikeySort gt Pos) = set gt" "set (multikeySort lt Pos) = set lt"
      "c \<noteq> -1 \<Longrightarrow> set (multikeySort eq (Suc Pos)) = set eq" by (auto dest: mset_eq_setD)
    show ?thesis
    proof (intro conjI impI)
      show "mset (multikeySort Vec Pos) = mset Vec" using ih ok(1) by (simp add: r)
      assume "tails_agree Pos pre Vec"
      then have ag: "tails_agree Pos pre (gt @ eq @ lt)" unfolding tails_agree_def mset_eq_setD [OF ok(1)] .
      have s: "sorted_wrt tail_ge (multikeySort gt Pos)" "sorted_wrt tail_ge (multikeySort lt Pos)"
        using gt [of pre] lt [of pre] ag unfolding tails_agree_def by auto
      have e: "sorted_wrt tail_ge (if c \<noteq> -1 then multikeySort eq (Suc Pos) else eq)"
      proof (cases "c = -1")
        case True
        then show ?thesis using tails_agree_done [of Pos pre eq] ag ok(4) by (simp add: tails_agree_def c_def)
      next
        case False
        have "tails_agree (Suc Pos) (pre @ [word_of_int c]) eq"
          using tails_agree_next [of Pos pre eq c] ag ok(4) False by (simp add: tails_agree_def c_def)
        then show ?thesis using eq [OF False] False by simp
      qed
      have ge: "tail_ge P Q" if "P \<in> set (gt @ eq @ lt)" "Q \<in> set (gt @ eq @ lt)" "charTailAt Q Pos < charTailAt P Pos" for P Q
        using that ag by (intro tail_ge_at [of Pos pre]) (simp_all add: tails_agree_def)
      have "tail_ge P Q" if "P \<in> set gt" "Q \<in> set eq" for P Q using ge [of P Q] ok(3) [OF that(1)] ok(4) [OF that(2)] that by simp
      moreover have "tail_ge P Q" if "P \<in> set gt" "Q \<in> set lt" for P Q
        using ge [of P Q] ok(3) [OF that(1)] ok(5) [OF that(2)] that by simp
      moreover have "tail_ge P Q" if "P \<in> set eq" "Q \<in> set lt" for P Q
        using ge [of P Q] ok(4) [OF that(1)] ok(5) [OF that(2)] that by simp
      ultimately show "sorted_wrt tail_ge (multikeySort Vec Pos)"
        unfolding r using s e sets by (auto simp: sorted_wrt_append)
    qed
  qed
qed


section \<open>Finalizing and writing\<close>

text \<open>Sort the slice of \<open>n\<close> entries from \<open>b\<close>.\<close>

definition sort_slice :: "nat \<Rightarrow> nat \<Rightarrow> StringPair list \<Rightarrow> StringPair list" where
  "sort_slice b n Strings = take b Strings @ multikeySort (take n (drop b Strings)) 0 @ drop (b + n) Strings"

lemma mset_sort_slice: "mset (sort_slice b n Strings) = mset Strings"
proof -
  have "Strings = take b Strings @ take n (drop b Strings) @ drop (b + n) Strings"
    by (metis append_take_drop_id drop_drop add.commute)
  then have "mset Strings = mset (take b Strings) + mset (take n (drop b Strings)) + mset (drop (b + n) Strings)"
    by (metis mset_append add.assoc)
  then show ?thesis using multikeySort_sorted by (simp add: sort_slice_def)
qed

lemma length_sort_slice [simp]: "length (sort_slice b n Strings) = length Strings"
  by (rule mset_eq_length) (rule mset_sort_slice)

function sort_ranges :: "(buffer \<times> nat) list \<Rightarrow> nat \<Rightarrow> nat \<Rightarrow> nat \<Rightarrow> StringPair list \<Rightarrow> StringPair list \<times> nat" where
  "sort_ranges prio I RangeBegin RangePriority Strings =
     (if I < length Strings \<and> RangePriority \<noteq> 0
      then (let Priority = priority_of prio (fst (Strings ! I))
            in if Priority \<noteq> RangePriority
               then sort_ranges prio (I + 1) I Priority (sort_slice RangeBegin (I - RangeBegin) Strings)
               else sort_ranges prio (I + 1) RangeBegin RangePriority Strings)
      else (Strings, RangeBegin))"
  by pat_completeness auto
termination by (relation "measure (\<lambda>(prio, I, b, p, Strings). length Strings - I)") auto

declare sort_ranges.simps [simp del]

definition sort_strings :: "(buffer \<times> nat) list \<Rightarrow> StringPair list \<Rightarrow> StringPair list" where
  "sort_strings prio Strings =
     (let (Strings1, RangeBegin) =
            (if prio \<noteq> []
             then (let sorted = sort_key (\<lambda>P. - int (priority_of prio (fst P))) Strings
                   in sort_ranges prio 1 0 (priority_of prio (fst (sorted ! 0))) sorted)
             else (Strings, 0))
      in sort_slice RangeBegin (length Strings1 - RangeBegin) Strings1)"

fun assign_offsets :: "Kind \<Rightarrow> nat \<Rightarrow> buffer \<Rightarrow> nat \<Rightarrow> StringPair list \<Rightarrow> StringPair list \<times> nat" where
  "assign_offsets K alignment Previous sz [] = ([], sz)"
| "assign_offsets K alignment Previous sz (P # Ps) =
     (let S = fst P; Pos = sz - length S - nul K
      in if suffix S Previous \<and> Pos mod alignment = 0
         then (let (r, sz') = assign_offsets K alignment Previous sz Ps in ((S, Pos) # r, sz'))
         else (let start = alignTo sz alignment;
                   (r, sz') = assign_offsets K alignment S (start + length S + nul K) Ps
               in ((S, start) # r, sz')))"

text \<open>\<open>StringIndexMap[S] = off\<close>, and the offsets written through the sorted pointers.\<close>

definition set_offset :: "buffer \<Rightarrow> nat \<Rightarrow> StringPair list \<Rightarrow> StringPair list" where
  "set_offset S off m = AList.update S off m"

definition set_offsets :: "StringPair list \<Rightarrow> StringPair list \<Rightarrow> StringPair list" where
  "set_offsets r m = map (\<lambda>(S, off). (S, case map_of r S of Some off' \<Rightarrow> off' | None \<Rightarrow> off)) m"

definition finalizeStringTable :: "(StringPair list \<Rightarrow> StringPair list) \<Rightarrow> bool \<Rightarrow> StringTableBuilder \<Rightarrow> StringTableBuilder" where
  "finalizeStringTable order Optimize b =
     (let K = tb_K b;
          b0 = b\<lparr>tb_Finalized := True\<rparr>;
          b1 = (if Optimize \<and> StringIndexMap b \<noteq> []
                then (let (r, sz) = assign_offsets K (tb_Alignment b) [] (initSize K) (sort_strings (StringPriorityMap b) (order (StringIndexMap b)))
                      in b0\<lparr>StringIndexMap := set_offsets r (StringIndexMap b), tb_Size := sz\<rparr>)
                else b0);
          b2 = (if K = MachO \<or> K = MachOLinked \<or> K = DXContainer then b1\<lparr>tb_Size := alignTo (tb_Size b1) 4\<rparr> else b1);
          b3 = (if K = MachO64 \<or> K = MachO64Linked then b2\<lparr>tb_Size := alignTo (tb_Size b2) 8\<rparr> else b2);
          b4 = (if K = MachOLinked \<or> K = MachO64Linked then b3\<lparr>StringIndexMap := set_offset [0x20] 0 (StringIndexMap b3)\<rparr> else b3)
      in if K = ELF \<or> K = DXContainer then b4\<lparr>StringIndexMap := set_offset [] 0 (StringIndexMap b4)\<rparr> else b4)"

definition table_finalize :: "(StringPair list \<Rightarrow> StringPair list) \<Rightarrow> StringTableBuilder \<Rightarrow> StringTableBuilder" where
  "table_finalize order b = finalizeStringTable order True b"

definition finalizeInOrder :: "StringTableBuilder \<Rightarrow> StringTableBuilder" where
  "finalizeInOrder b = finalizeStringTable (\<lambda>m. m) False b"

definition table_clear :: "StringTableBuilder \<Rightarrow> StringTableBuilder" where
  "table_clear b = b\<lparr>tb_Finalized := False, StringIndexMap := []\<rparr>"

definition getOffset :: "StringTableBuilder \<Rightarrow> buffer \<Rightarrow> nat option" where
  "getOffset b S = map_of (StringIndexMap b) S"

fun write_strings :: "nat \<Rightarrow> StringPair list \<Rightarrow> buffer \<Rightarrow> buffer" where
  "write_strings base [] buf = buf"
| "write_strings base (P # Ps) buf = write_strings base Ps (if fst P \<noteq> [] then put buf (base + snd P) (fst P) else buf)"

definition table_write :: "(StringPair list \<Rightarrow> StringPair list) \<Rightarrow> StringTableBuilder \<Rightarrow> nat \<Rightarrow> buffer \<Rightarrow> buffer" where
  "table_write order b base buf =
     (let buf1 = write_strings base (order (StringIndexMap b)) buf
      in if tb_K b = WinCOFF then write32le buf1 base (of_nat (tb_Size b))
         else if tb_K b = XCOFF then put buf1 base (rev (bytes_of 4 (of_nat (tb_Size b) :: u32)))
         else buf1)"

section \<open>Merge chunks\<close>

record string_section =
  ms_contents :: buffer
  ms_live :: bool
  ms_rva :: u32

record MergeChunk =
  mc_sections :: "string_section list"
  mc_builder :: StringTableBuilder
  mc_finalized :: bool

definition new_MergeChunk :: "nat \<Rightarrow> MergeChunk" where
  "new_MergeChunk alignment = \<lparr>mc_sections = [], mc_builder = new_builder RAW alignment, mc_finalized = False\<rparr>"

text \<open>One merge chunk per power of two: \<open>instances\<close> is \<open>ctx.mergeChunkInstances\<close>.\<close>

definition addSection :: "nat \<Rightarrow> string_section \<Rightarrow> MergeChunk option list \<Rightarrow> MergeChunk option list" where
  "addSection p2Align c instances =
     (let mc = (case instances ! p2Align of Some mc \<Rightarrow> mc | None \<Rightarrow> new_MergeChunk (2 ^ p2Align))
      in instances[p2Align := Some (mc\<lparr>mc_sections := mc_sections mc @ [c]\<rparr>)])"

definition add_live :: "string_section list \<Rightarrow> StringTableBuilder \<Rightarrow> StringTableBuilder" where
  "add_live cs b = fold (\<lambda>c b. if ms_live c then snd (table_add (ms_contents c) 0 b) else b) cs b"

definition finalizeContents :: "(StringPair list \<Rightarrow> StringPair list) \<Rightarrow> MergeChunk \<Rightarrow> MergeChunk" where
  "finalizeContents order mc =
     mc\<lparr>mc_builder := table_finalize order (add_live (mc_sections mc) (mc_builder mc)), mc_finalized := True\<rparr>"

definition MergeChunk_assignRVAs :: "u32 \<Rightarrow> MergeChunk \<Rightarrow> MergeChunk" where
  "MergeChunk_assignRVAs rva mc =
     mc\<lparr>mc_sections := map (\<lambda>c. if \<not> ms_live c then c
        else case getOffset (mc_builder mc) (ms_contents c) of
               Some off \<Rightarrow> c\<lparr>ms_rva := rva + of_nat off\<rparr>
             | None \<Rightarrow> c) (mc_sections mc)\<rparr>"

definition MergeChunk_getSize :: "MergeChunk \<Rightarrow> nat" where
  "MergeChunk_getSize mc = tb_Size (mc_builder mc)"

definition MergeChunk_writeTo :: "(StringPair list \<Rightarrow> StringPair list) \<Rightarrow> MergeChunk \<Rightarrow> nat \<Rightarrow> buffer \<Rightarrow> buffer" where
  "MergeChunk_writeTo order mc off buf = table_write order (mc_builder mc) off buf"

section \<open>Every string lies at its offset\<close>

text \<open>The bytes of the finished table, and that an entry is found in it: aligned, inside, its bytes and the byte behind.\<close>

definition entry_in :: "Kind \<Rightarrow> nat \<Rightarrow> buffer \<Rightarrow> StringPair \<Rightarrow> bool" where
  "entry_in K alignment img P \<longleftrightarrow> alignment dvd snd P \<and> snd P + length (fst P) + nul K \<le> length img \<and>
     sub img (snd P) (length (fst P) + nul K) = fst P @ replicate (nul K) 0"

lemma entry_in_append: "entry_in K al img P \<Longrightarrow> entry_in K al (img @ ext) P"
  by (auto simp: entry_in_def sub_def)

lemma entry_in_suffix:
  assumes "suffix (S @ replicate (nul K) 0) (drop lo img)" and "lo \<le> length img" and "(length img - length S - nul K) mod al = 0"
  shows "entry_in K al img (S, length img - length S - nul K)" and "lo \<le> length img - length S - nul K"
proof -
  obtain pre where pre: "drop lo img = pre @ S @ replicate (nul K) 0" using assms(1) by (auto simp: suffix_def)
  then have img: "img = (take lo img @ pre) @ S @ replicate (nul K) 0" by (metis append_take_drop_id append.assoc)
  then have "length img = lo + length pre + length S + nul K" using assms(2) by (metis length_append length_replicate length_take min.absorb2 add.assoc)
  then show "lo \<le> length img - length S - nul K" by simp
  have "length img - length S - nul K = length (take lo img @ pre)" by (subst img) simp
  then show "entry_in K al img (S, length img - length S - nul K)" using assms(3) by (subst (1) img) (auto simp: entry_in_def sub_def)
qed

lemma entry_in_new:
  assumes "0 < al"
  shows "entry_in K al (img @ replicate (alignTo (length img) al - length img) 0 @ S @ replicate (nul K) 0) (S, alignTo (length img) al)"
  using alignTo_dvd [of al "length img"] alignTo_ge [OF assms, of "length img"] by (auto simp: entry_in_def sub_def)

lemma assign_offsets_image:
  assumes "0 < al" and "\<And>S. S \<in> fst ` set Ps \<Longrightarrow> suffix S Previous \<Longrightarrow> suffix (S @ replicate (nul K) 0) (drop lo img)"
    and "assign_offsets K al Previous (length img) Ps = (r, sz)" and "lo \<le> length img"
  shows "map fst r = map fst Ps \<and> (\<exists>ext. length (img @ ext) = sz \<and> (\<forall>P \<in> set r. entry_in K al (img @ ext) P \<and> lo \<le> snd P))"
  using assms
proof (induction Ps arbitrary: Previous img r sz)
  case (Cons P Ps)
  let ?S = "fst P" and ?Pos = "length img - length (fst P) - nul K"
  show ?case
  proof (cases "suffix ?S Previous \<and> ?Pos mod al = 0")
    case True
    obtain r' where r': "assign_offsets K al Previous (length img) Ps = (r', sz)" "r = (?S, ?Pos) # r'"
      using Cons.prems(3) True by (auto simp: Let_def split: prod.splits)
    have suf: "suffix (?S @ replicate (nul K) 0) (drop lo img)" using Cons.prems(2) True by simp
    have "entry_in K al img (?S, ?Pos)" "lo \<le> ?Pos" using entry_in_suffix [OF suf Cons.prems(4), of al] True by simp_all
    moreover obtain ext where "map fst r' = map fst Ps" "length (img @ ext) = sz" "\<forall>P \<in> set r'. entry_in K al (img @ ext) P \<and> lo \<le> snd P"
      using Cons.IH [OF assms(1) _ r'(1) Cons.prems(4)] Cons.prems(2) by (metis insertI2 image_insert list.simps(15))
    ultimately show ?thesis using entry_in_append by (auto simp: r'(2) intro!: exI [of _ ext])
  next
    case False
    let ?new = "replicate (alignTo (length img) al - length img) 0 @ ?S @ replicate (nul K) 0"
    have ge: "length img \<le> alignTo (length img) al" by (rule alignTo_ge [OF assms(1)])
    then have len: "length (img @ ?new) = alignTo (length img) al + length ?S + nul K" by simp
    obtain r' where r': "assign_offsets K al ?S (length (img @ ?new)) Ps = (r', sz)" "r = (?S, alignTo (length img) al) # r'"
      using Cons.prems(3) False unfolding len by (auto simp: Let_def split: prod.splits)
    have suf: "suffix (S @ replicate (nul K) 0) (drop lo (img @ ?new))" if suf: "suffix S ?S" for S
    proof -
      obtain t where "?S = t @ S" using suf by (auto simp: suffix_def)
      then have "drop lo (img @ ?new) = (drop lo img @ replicate (alignTo (length img) al - length img) 0 @ t) @ S @ replicate (nul K) 0"
        using Cons.prems(4) by simp
      then show ?thesis unfolding suffix_def by blast
    qed
    have lo: "lo \<le> length (img @ ?new)" using Cons.prems(4) by simp
    obtain ext where e: "map fst r' = map fst Ps" "length ((img @ ?new) @ ext) = sz"
        "\<forall>P \<in> set r'. entry_in K al ((img @ ?new) @ ext) P \<and> lo \<le> snd P"
      using Cons.IH [OF assms(1) suf r'(1) lo] by blast
    have "entry_in K al ((img @ ?new) @ ext) (?S, alignTo (length img) al)" "lo \<le> alignTo (length img) al"
      using entry_in_append [OF entry_in_new [OF assms(1)]] ge Cons.prems(4) by simp_all
    then show ?thesis using e by (auto simp: r'(2) intro!: exI [of _ "?new @ ext"])
  qed
qed (auto intro: exI [of _ "[]"])

text \<open>Writing the strings in any order: each byte that belongs to an entry gets its value of the table, all others stay.\<close>

definition covered :: "StringPair list \<Rightarrow> nat \<Rightarrow> bool" where
  "covered Ps i \<longleftrightarrow> (\<exists>P \<in> set Ps. snd P \<le> i \<and> i < snd P + length (fst P))"

lemma entry_in_nth:
  assumes "entry_in K al img P" and "snd P \<le> i" and "i < snd P + length (fst P)"
  shows "img ! i = fst P ! (i - snd P)"
proof -
  let ?n = "length (fst P) + nul K"
  have "i - snd P < length (fst P)" using assms(2,3) by linarith
  then have "sub img (snd P) ?n ! (i - snd P) = fst P ! (i - snd P)" using assms by (simp add: entry_in_def nth_append)
  moreover have "sub img (snd P) ?n ! (i - snd P) = img ! i"
    using assms unfolding entry_in_def sub_def by (subst nth_take) auto
  ultimately show ?thesis by simp
qed

lemma write_strings_nth:
  assumes "\<forall>P \<in> set Ps. entry_in K al img P" and "base + length img \<le> length buf"
  shows "length (write_strings base Ps buf) = length buf \<and>
    (\<forall>i < length buf. write_strings base Ps buf ! i = (if base \<le> i \<and> covered Ps (i - base) then img ! (i - base) else buf ! i))"
  using assms
proof (induction Ps arbitrary: buf)
  case (Cons P Ps)
  have P: "entry_in K al img P" using Cons.prems(1) by simp
  then have b: "base + snd P + length (fst P) \<le> length buf" using Cons.prems(2) by (simp add: entry_in_def)
  let ?b = "if fst P \<noteq> [] then put buf (base + snd P) (fst P) else buf"
  have len: "length ?b = length buf" using b by simp
  have nth: "?b ! i = (if base \<le> i \<and> covered [P] (i - base) then img ! (i - base) else buf ! i)" if "i < length buf" for i
    using entry_in_nth [OF P, of "i - base"] b that by (auto simp: covered_def put_nth)
  show ?case
    using Cons.IH [of ?b] Cons.prems nth unfolding write_strings.simps len by (auto simp: covered_def)
qed (simp add: covered_def)


lemma mset_sort_ranges: "mset (fst (sort_ranges prio I b p Strings)) = mset Strings"
proof (induction prio I b p Strings rule: sort_ranges.induct)
  case (1 prio I b p Strings)
  then show ?case by (simp add: sort_ranges.simps [of prio I b p Strings] Let_def mset_sort_slice)
qed

lemma mset_sort_strings: "mset (sort_strings prio Strings) = mset Strings"
  using mset_sort_ranges by (auto simp: sort_strings_def Let_def mset_sort_slice case_prod_unfold)

lemma set_offsets_fst [simp]: "map fst (set_offsets r m) = map fst m"
  by (simp add: set_offsets_def case_prod_unfold comp_def)

lemma set_offsets_from:
  assumes "fst ` set m \<subseteq> fst ` set r"
  shows "set (set_offsets r m) \<subseteq> set r"
proof
  fix P assume "P \<in> set (set_offsets r m)"
  then obtain S off where P: "(S, off) \<in> set m" "P = (S, case map_of r S of Some off' \<Rightarrow> off' | None \<Rightarrow> off)"
    by (auto simp: set_offsets_def)
  then have "S \<in> fst ` set r" using assms by force
  then obtain off' where "map_of r S = Some off'" by (metis map_of_eq_None_iff option.exhaust)
  then show "P \<in> set r" using P(2) by (auto dest: map_of_SomeD)
qed

text \<open>The kinds of the linker: raw tables, and the table of a COFF file, which has no short strings.\<close>

definition coff_table :: "StringTableBuilder \<Rightarrow> bool" where
  "coff_table b \<longleftrightarrow> 0 < tb_Alignment b \<and> (tb_K b = RAW \<or> tb_K b = WinCOFF \<and> [] \<notin> fst ` set (StringIndexMap b))"

lemma finalize_coff:
  assumes "coff_table b" and "StringIndexMap b \<noteq> []"
    and "assign_offsets (tb_K b) (tb_Alignment b) [] (initSize (tb_K b)) (sort_strings (StringPriorityMap b) (order (StringIndexMap b))) = (r, sz)"
  shows "table_finalize order b = b\<lparr>tb_Finalized := True, StringIndexMap := set_offsets r (StringIndexMap b), tb_Size := sz\<rparr>"
proof -
  have "tb_K b = RAW \<or> tb_K b = WinCOFF" using assms(1) by (auto simp: coff_table_def)
  then show ?thesis using assms(2,3) by (elim disjE) (simp_all add: table_finalize_def finalizeStringTable_def Let_def)
qed

lemma set_sort_order:
  assumes "\<And>m. mset (order m) = mset m"
  shows "set (sort_strings prio (order m)) = set m"
  using mset_eq_setD [OF mset_sort_strings] mset_eq_setD [OF assms] by blast

lemma finalize_image:
  assumes "coff_table b" and "\<And>m. mset (order m) = mset m" and "StringIndexMap b \<noteq> []"
  shows "\<exists>img. length img = tb_Size (table_finalize order b) \<and>
    (\<forall>P \<in> set (StringIndexMap (table_finalize order b)). entry_in (tb_K b) (tb_Alignment b) img P \<and> initSize (tb_K b) \<le> snd P)"
proof -
  let ?K = "tb_K b" and ?al = "tb_Alignment b" and ?img = "replicate (initSize (tb_K b)) (0 :: byte)"
  let ?Ps = "sort_strings (StringPriorityMap b) (order (StringIndexMap b))"
  obtain r sz where r: "assign_offsets ?K ?al [] (length ?img) ?Ps = (r, sz)" by fastforce
  have st: "set ?Ps = set (StringIndexMap b)" by (rule set_sort_order [OF assms(2)])
  have f: "table_finalize order b = b\<lparr>tb_Finalized := True, StringIndexMap := set_offsets r (StringIndexMap b), tb_Size := sz\<rparr>"
    by (rule finalize_coff [OF assms(1,3)]) (use r in simp)
  have "suffix (S @ replicate (nul ?K) 0) (drop (initSize ?K) ?img)" if "S \<in> fst ` set ?Ps" "suffix S []" for S
    using that assms(1) unfolding st coff_table_def by (auto simp: nul_def)
  moreover have "0 < ?al" using assms(1) by (simp add: coff_table_def)
  ultimately obtain ext where e: "map fst r = map fst ?Ps" "length (?img @ ext) = sz"
      "\<forall>P \<in> set r. entry_in ?K ?al (?img @ ext) P \<and> initSize ?K \<le> snd P"
    using assign_offsets_image [OF _ _ r, of "initSize ?K"] by auto
  have "fst ` set r = fst ` set (StringIndexMap b)" using arg_cong [OF e(1), of set] st by simp
  then have sub: "set (set_offsets r (StringIndexMap b)) \<subseteq> set r" by (intro set_offsets_from) simp
  show ?thesis
    by (rule exI [of _ "?img @ ext"]) (use e(2,3) sub in \<open>auto simp: f\<close>)
qed

lemma finalize_strings:
  assumes "coff_table b" and "StringIndexMap b \<noteq> []"
  shows "map fst (StringIndexMap (table_finalize order b)) = map fst (StringIndexMap b)" and "tb_K (table_finalize order b) = tb_K b"
proof -
  obtain r sz where "assign_offsets (tb_K b) (tb_Alignment b) [] (initSize (tb_K b))
      (sort_strings (StringPriorityMap b) (order (StringIndexMap b))) = (r, sz)" by fastforce
  note f = finalize_coff [where order = order, OF assms this]
  show "map fst (StringIndexMap (table_finalize order b)) = map fst (StringIndexMap b)" "tb_K (table_finalize order b) = tb_K b"
    by (simp_all add: f)
qed

lemma write_strings_entry:
  assumes "\<forall>P \<in> set Ps. entry_in K al img P" and "base + length img \<le> length buf" and "P \<in> set Ps"
    and "K \<noteq> RAW \<longrightarrow> sub buf base (length img) = replicate (length img) 0"
  shows "sub (write_strings base Ps buf) (base + snd P) (length (fst P) + nul K) = fst P @ replicate (nul K) 0"
proof (rule nth_equalityI)
  let ?n = "length (fst P) + nul K"
  have P: "entry_in K al img P" using assms(1,3) by blast
  then have b: "snd P + ?n \<le> length img" and e: "sub img (snd P) ?n = fst P @ replicate (nul K) 0" by (simp_all add: entry_in_def)
  note w = write_strings_nth [OF assms(1,2)]
  show "length (sub (write_strings base Ps buf) (base + snd P) ?n) = length (fst P @ replicate (nul K) 0)"
    using b assms(2) w by (simp add: sub_def)
  fix i assume "i < length (sub (write_strings base Ps buf) (base + snd P) ?n)"
  then have i: "i < ?n" by (simp add: sub_def)
  have img: "img ! (snd P + i) = (fst P @ replicate (nul K) 0) ! i" using i b unfolding e [symmetric] by (simp add: sub_def)
  have l: "base + (snd P + i) < length buf" using i b assms(2) by linarith
  have "sub (write_strings base Ps buf) (base + snd P) ?n ! i = write_strings base Ps buf ! (base + (snd P + i))"
    using i b assms(2) w by (simp add: sub_def add.assoc)
  also have "\<dots> = (if covered Ps (snd P + i) then img ! (snd P + i) else buf ! (base + (snd P + i)))"
    using w l by simp
  also have "\<dots> = (fst P @ replicate (nul K) 0) ! i"
  proof (cases "covered Ps (snd P + i)")
    case False
    then have "\<not> i < length (fst P)" using assms(3) by (fastforce simp: covered_def)
    then have "K \<noteq> RAW" "(fst P @ replicate (nul K) 0) ! i = 0" using i by (auto simp: nul_def nth_append split: if_splits)
    moreover have "buf ! (base + (snd P + i)) = sub buf base (length img) ! (snd P + i)"
      using i b assms(2) by (simp add: sub_def)
    ultimately show ?thesis using False assms(4) i b by simp
  qed (simp add: img)
  finally show "sub (write_strings base Ps buf) (base + snd P) ?n ! i = (fst P @ replicate (nul K) 0) ! i" .
qed

text \<open>A string of the table is found at the offset the finished table gives for it.\<close>

lemma table_lookup:
  assumes "coff_table b" and "\<And>m. mset (order m) = mset m" and "\<And>m. mset (order' m) = mset m"
    and "S \<in> fst ` set (StringIndexMap b)" and "base + tb_Size (table_finalize order b) \<le> length buf"
    and "tb_K b \<noteq> RAW \<longrightarrow> sub buf base (tb_Size (table_finalize order b)) = replicate (tb_Size (table_finalize order b)) 0"
  shows "\<exists>off. getOffset (table_finalize order b) S = Some off \<and> tb_Alignment b dvd off \<and>
    off + length S + nul (tb_K b) \<le> tb_Size (table_finalize order b) \<and>
    sub (table_write order' (table_finalize order b) base buf) (base + off) (length S + nul (tb_K b)) = S @ replicate (nul (tb_K b)) 0"
proof -
  let ?b = "table_finalize order b" and ?K = "tb_K b"
  let ?m = "StringIndexMap ?b"
  have ne: "StringIndexMap b \<noteq> []" using assms(4) by auto
  note fin = finalize_strings [OF assms(1) ne, of order]
  obtain img where img: "length img = tb_Size ?b"
      "\<forall>P \<in> set ?m. entry_in ?K (tb_Alignment b) img P \<and> initSize ?K \<le> snd P"
    using finalize_image [of b order] assms(1,2) ne by blast
  have "S \<in> fst ` set ?m" using assms(4) arg_cong [OF fin(1), of set] by simp
  then obtain off where off: "map_of ?m S = Some off" by (metis map_of_eq_None_iff option.exhaust)
  then have P: "(S, off) \<in> set ?m" by (rule map_of_SomeD)
  then have e: "entry_in ?K (tb_Alignment b) img (S, off)" "initSize ?K \<le> off" using img(2) by force+
  have so: "set (order' ?m) = set ?m" using mset_eq_setD [OF assms(3)] .
  have all: "\<forall>P \<in> set (order' ?m). entry_in ?K (tb_Alignment b) img P" "(S, off) \<in> set (order' ?m)"
    "base + length img \<le> length buf" using img assms(5) P unfolding so by auto
  have w: "sub (write_strings base (order' ?m) buf) (base + off) (length S + nul ?K) = S @ replicate (nul ?K) 0"
    using write_strings_entry [OF all(1,3,2)] assms(6) img(1) by simp
  have len: "length (write_strings base (order' ?m) buf) = length buf" using write_strings_nth [OF all(1,3)] by blast
  have fit: "off + length S + nul ?K \<le> tb_Size ?b" using e(1) img(1) by (simp add: entry_in_def)
  have "sub (table_write order' ?b base buf) (base + off) (length S + nul ?K) = S @ replicate (nul ?K) 0"
  proof (cases "?K = RAW")
    case True
    then show ?thesis using w by (simp add: table_write_def fin(2))
  next
    case False
    then have K: "?K = WinCOFF" using assms(1) by (simp add: coff_table_def)
    then have "4 \<le> off" using e(2) by (simp add: initSize_def)
    then have "sub (write32le (write_strings base (order' ?m) buf) base v) (base + off) (length S + nul ?K) =
        sub (write_strings base (order' ?m) buf) (base + off) (length S + nul ?K)" for v
      using fit assms(5) len by (intro le32.sub_wr_disjoint) simp_all
    then show ?thesis using w K by (simp add: table_write_def fin(2))
  qed
  then show ?thesis using e(1) fit off by (auto simp: getOffset_def entry_in_def)
qed

section \<open>Merge chunks place every live section\<close>

lemma table_add_strings:
  assumes "coff_table b" and "tb_K b = RAW"
  shows "coff_table (snd (table_add S 0 b)) \<and> tb_K (snd (table_add S 0 b)) = RAW \<and> tb_Alignment (snd (table_add S 0 b)) = tb_Alignment b \<and>
    StringPriorityMap (snd (table_add S 0 b)) = StringPriorityMap b \<and>
    fst ` set (StringIndexMap (snd (table_add S 0 b))) = insert S (fst ` set (StringIndexMap b)) \<and>
    (distinct (map fst (StringIndexMap b)) \<longrightarrow> distinct (map fst (StringIndexMap (snd (table_add S 0 b)))))"
proof (cases "map_of (StringIndexMap b) S")
  case None
  then have "S \<notin> fst ` set (StringIndexMap b)" by (simp add: map_of_eq_None_iff)
  then show ?thesis using None assms by (simp add: table_add_def coff_table_def Let_def)
next
  case (Some off)
  then have "S \<in> fst ` set (StringIndexMap b)" by (metis map_of_eq_None_iff option.distinct(1))
  then show ?thesis using Some assms by (simp add: table_add_def coff_table_def insert_absorb)
qed

definition live_strings :: "string_section list \<Rightarrow> buffer set" where
  "live_strings cs = set (map ms_contents (filter ms_live cs))"

lemma add_sections:
  fixes cs :: "string_section list"
  assumes "coff_table b" and "tb_K b = RAW" and "distinct (map fst (StringIndexMap b))"
  defines "b' \<equiv> add_live cs b"
  shows "coff_table b' \<and> tb_K b' = RAW \<and> tb_Alignment b' = tb_Alignment b \<and> StringPriorityMap b' = StringPriorityMap b \<and>
    distinct (map fst (StringIndexMap b')) \<and> fst ` set (StringIndexMap b') = fst ` set (StringIndexMap b) \<union> live_strings cs"
  unfolding b'_def using assms(1-3)
proof (induction cs arbitrary: b)
  case (Cons c cs)
  show ?case
  proof (cases "ms_live c")
    case True
    let ?b = "snd (table_add (ms_contents c) 0 b)"
    note a = table_add_strings [OF Cons.prems(1,2), of "ms_contents c"]
    have l: "live_strings (c # cs) = insert (ms_contents c) (live_strings cs)" using True by (auto simp: live_strings_def)
    show ?thesis using Cons.IH [of ?b] a Cons.prems True unfolding l by (simp add: add_live_def)
  next
    case False
    then have "live_strings (c # cs) = live_strings cs" by (auto simp: live_strings_def)
    then show ?thesis using Cons False by (simp add: add_live_def)
  qed
qed (simp add: live_strings_def add_live_def)

lemma add_live_none: "live_strings cs = {} \<Longrightarrow> add_live cs b = b"
proof (induction cs arbitrary: b)
  case (Cons c cs)
  have "\<not> ms_live c" "live_strings cs = {}" using Cons.prems by (cases "ms_live c"; simp add: live_strings_def)+
  then show ?case using Cons.IH by (simp add: add_live_def)
qed (simp add: add_live_def)

definition fresh_chunk :: "MergeChunk \<Rightarrow> nat \<Rightarrow> bool" where
  "fresh_chunk mc al \<longleftrightarrow> 0 < al \<and> mc_builder mc = new_builder RAW al"

lemma fresh_chunk_builder:
  assumes "fresh_chunk mc al"
  defines "b \<equiv> add_live (mc_sections mc) (mc_builder mc)"
  shows "coff_table b \<and> tb_K b = RAW \<and> tb_Alignment b = al \<and> StringPriorityMap b = [] \<and> distinct (map fst (StringIndexMap b)) \<and>
    fst ` set (StringIndexMap b) = live_strings (mc_sections mc)"
  unfolding b_def using add_sections [of "mc_builder mc" "mc_sections mc"] assms(1)
  by (simp add: fresh_chunk_def new_builder_def coff_table_def)

text \<open>C15: Tail merging keeps every string literal readable: after \<open>finalizeContents\<close> and \<open>assignSubsectionRVAs\<close> the address
  of each live section of a merge chunk is the chunk's plus an aligned offset, the section lies inside the chunk's size, and
  the bytes \<open>writeTo\<close> puts there are the section's contents, although the strings overlap and whatever the orders in
  which the hash table enumerates them.\<close>

theorem MergeChunk_places_sections:
  assumes "fresh_chunk mc al" and "\<And>m. mset (order m) = mset m" and "\<And>m. mset (order' m) = mset m"
    and "i < length (mc_sections mc)" and "ms_live (mc_sections mc ! i)"
    and "base + MergeChunk_getSize (finalizeContents order mc) \<le> length buf"
  defines "c \<equiv> mc_sections mc ! i" and "fin \<equiv> finalizeContents order mc"
  shows "\<exists>off. ms_rva (mc_sections (MergeChunk_assignRVAs rva fin) ! i) = rva + of_nat off \<and> al dvd off \<and>
    off + length (ms_contents c) \<le> MergeChunk_getSize fin \<and>
    sub (MergeChunk_writeTo order' fin base buf) (base + off) (length (ms_contents c)) = ms_contents c"
proof -
  let ?b = "add_live (mc_sections mc) (mc_builder mc)"
  note fr = fresh_chunk_builder [OF assms(1)]
  have "ms_contents c \<in> fst ` set (StringIndexMap ?b)"
    using fr assms(4,5) by (auto simp: live_strings_def c_def intro: nth_mem)
  moreover have sz: "MergeChunk_getSize fin = tb_Size (table_finalize order ?b)"
    by (simp add: fin_def MergeChunk_getSize_def finalizeContents_def)
  ultimately obtain off where off: "getOffset (table_finalize order ?b) (ms_contents c) = Some off" "al dvd off"
    "off + length (ms_contents c) \<le> tb_Size (table_finalize order ?b)"
    "sub (table_write order' (table_finalize order ?b) base buf) (base + off) (length (ms_contents c)) = ms_contents c"
    using table_lookup [of ?b order order' "ms_contents c" base buf] fr assms(2,3,6) by (auto simp: nul_def fin_def)
  have "ms_rva (mc_sections (MergeChunk_assignRVAs rva fin) ! i) = rva + of_nat off"
    using off(1) assms(4,5) by (simp add: MergeChunk_assignRVAs_def fin_def finalizeContents_def c_def)
  then show ?thesis using off sz by (auto simp: MergeChunk_writeTo_def fin_def finalizeContents_def)
qed

definition merge_chunk_sample :: MergeChunk where
  "merge_chunk_sample = (new_MergeChunk 1)\<lparr>mc_sections :=
     [\<lparr>ms_contents = [0x62, 0x63, 0], ms_live = True, ms_rva = 0\<rparr>, \<lparr>ms_contents = [0x78, 0], ms_live = False, ms_rva = 0\<rparr>,
      \<lparr>ms_contents = [0x61, 0x62, 0x63, 0], ms_live = True, ms_rva = 0\<rparr>]\<rparr>"

lemma merge_chunk_sample_size: "MergeChunk_getSize (finalizeContents rev merge_chunk_sample) = 4"
  unfolding MergeChunk_getSize_def finalizeContents_def merge_chunk_sample_def by code_simp

theorem MergeChunk_places_sections_witness:
  "\<exists>off. ms_rva (mc_sections (MergeChunk_assignRVAs 0x3000 (finalizeContents rev merge_chunk_sample)) ! 0) = 0x3000 + of_nat off \<and>
     sub (MergeChunk_writeTo (\<lambda>m. m) (finalizeContents rev merge_chunk_sample) 2 (replicate 8 0)) (2 + off) 3 = [0x62, 0x63, 0]"
proof -
  have "fresh_chunk merge_chunk_sample 1" "0 < length (mc_sections merge_chunk_sample)"
    "mc_sections merge_chunk_sample ! 0 = \<lparr>ms_contents = [0x62, 0x63, 0], ms_live = True, ms_rva = 0\<rparr>"
    by (simp_all add: merge_chunk_sample_def fresh_chunk_def new_MergeChunk_def)
  moreover have "length [0x62, 0x63, 0 :: byte] = 3" by simp
  ultimately show ?thesis
    using MergeChunk_places_sections [of merge_chunk_sample 1 rev "\<lambda>m. m" 0 2 "replicate 8 0" "0x3000"] merge_chunk_sample_size
    by (simp del: add_2_eq_Suc add_2_eq_Suc' list.size) blast
qed

section \<open>No suffix is stored twice\<close>

lemma prefix_between:
  fixes x y z :: "'a::linorder list"
  assumes "prefix x z" and "x \<le> y" and "y \<le> z"
  shows "prefix x y"
  using assms
proof (induction x arbitrary: y z)
  case (Cons a x)
  from Cons.prems(1) obtain z' where z: "z = a # z'" "prefix x z'" by (cases z) auto
  from Cons.prems(2,3) z(1) obtain y' where y: "y = a # y'" "x \<le> y'" "y' \<le> z'" by (cases y) auto
  then show ?case using Cons.IH z y by simp
qed simp

lemma suffix_between: "suffix (T :: buffer) Prev \<Longrightarrow> rev T \<le> rev S \<Longrightarrow> rev S \<le> rev Prev \<Longrightarrow> suffix T S"
  unfolding suffix_to_prefix by (rule prefix_between)

lemma suffix_tail_le: "suffix S T \<Longrightarrow> rev S \<le> rev (T :: buffer)"
proof -
  assume "suffix S T"
  then obtain u where "rev T = rev S @ u" by (auto simp: suffix_to_prefix prefix_def)
  moreover have "xs \<le> xs @ u" for xs :: buffer by (induction xs) (cases u, auto)
  ultimately show ?thesis by simp
qed

text \<open>The strings that are no suffix of another one, nor of the string before.\<close>

definition maximal :: "buffer \<Rightarrow> buffer set \<Rightarrow> buffer set" where
  "maximal Prev Ss = {S \<in> Ss. \<not> suffix S Prev \<and> (\<forall>T \<in> Ss. suffix S T \<longrightarrow> T = S)}"

lemma maximal_skip: "suffix S Prev \<Longrightarrow> maximal Prev (insert S Ss) = maximal Prev Ss"
  unfolding maximal_def by (auto dest: suffix_order.trans)

lemma maximal_new:
  assumes "\<not> suffix S Prev" and "S \<notin> Ss" and "\<And>T. T \<in> Ss \<Longrightarrow> rev T \<le> rev S" and "Prev = [] \<or> rev S \<le> rev Prev"
  shows "maximal Prev (insert S Ss) = insert S (maximal S Ss)"
proof -
  have "T \<noteq> S \<Longrightarrow> \<not> suffix S T" if "T \<in> Ss" for T
    using suffix_tail_le [of S T] assms(3) [OF that] by auto
  moreover have "suffix T S" if "T \<in> Ss" "suffix T Prev" for T
    using assms(4) suffix_between [OF that(2) assms(3) [OF that(1)]] that(2) by auto
  ultimately show ?thesis using assms(1,2) unfolding maximal_def by (auto dest: suffix_order.antisym)
qed

lemma assign_offsets_size:
  assumes "sorted_wrt tail_ge Ps" and "distinct (map fst Ps)" and "Prev = [] \<or> (\<forall>P \<in> set Ps. rev (fst P) \<le> rev Prev)"
  shows "snd (assign_offsets K 1 Prev sz Ps) = sz + (\<Sum>S \<in> maximal Prev (fst ` set Ps). length S + nul K)"
  using assms
proof (induction Ps arbitrary: Prev sz)
  case (Cons P Ps)
  let ?S = "fst P" and ?Ss = "fst ` set Ps"
  have tail: "sorted_wrt tail_ge Ps" "distinct (map fst Ps)" "?S \<notin> ?Ss" and le: "\<And>T. T \<in> ?Ss \<Longrightarrow> rev T \<le> rev ?S"
    using Cons.prems(1,2) by (auto simp: tail_ge_def [of P])
  show ?case
  proof (cases "suffix ?S Prev")
    case True
    then show ?thesis using Cons.IH [OF tail(1,2), of Prev sz] Cons.prems(3)
      by (auto simp: Let_def case_prod_unfold maximal_skip)
  next
    case False
    have "finite (maximal ?S ?Ss)" "?S \<notin> maximal ?S ?Ss" by (simp_all add: maximal_def)
    moreover have "maximal Prev (insert ?S ?Ss) = insert ?S (maximal ?S ?Ss)"
      using False tail(3) le Cons.prems(3) by (intro maximal_new) auto
    moreover have "alignTo sz 1 = sz" by (simp add: alignTo_def)
    ultimately show ?thesis using Cons.IH [OF tail(1,2), of ?S] le False by (auto simp: Let_def case_prod_unfold)
  qed
qed (simp add: maximal_def)

text \<open>C16: Tail merging is complete: with byte alignment the size of a merge chunk is the total length of the distinct live
  strings that are not a suffix of another live string, whatever the order in which sections were added or the hash table
  enumerates them.\<close>

theorem MergeChunk_size_minimal:
  assumes "fresh_chunk mc 1" and "\<And>m. mset (order m) = mset m"
  shows "MergeChunk_getSize (finalizeContents order mc) =
    (\<Sum>S \<in> {S \<in> live_strings (mc_sections mc). \<forall>T \<in> live_strings (mc_sections mc). suffix S T \<longrightarrow> T = S}. length S)"
proof -
  let ?b = "add_live (mc_sections mc) (mc_builder mc)"
  let ?Ss = "live_strings (mc_sections mc)"
  note fr = fresh_chunk_builder [OF assms(1)]
  have n: "maximal [] ?Ss = {S \<in> ?Ss. \<forall>T \<in> ?Ss. suffix S T \<longrightarrow> T = S} - {[]}" by (auto simp: maximal_def)
  have fin: "finite ?Ss" using fr by (metis finite_imageI finite_set)
  have "(\<Sum>S \<in> maximal [] ?Ss. length S) = (\<Sum>S \<in> {S \<in> ?Ss. \<forall>T \<in> ?Ss. suffix S T \<longrightarrow> T = S}. length S)"
    unfolding n by (rule sum.mono_neutral_left) (use fin in auto)
  moreover have "tb_Size (table_finalize order ?b) = (\<Sum>S \<in> maximal [] ?Ss. length S)"
  proof (cases "StringIndexMap ?b = []")
    case True
    then have "?Ss = {}" using fr by simp
    then have "?b = mc_builder mc" by (rule add_live_none)
    then have "tb_Size ?b = 0" using assms(1) by (simp add: fresh_chunk_def new_builder_def initSize_def)
    then show ?thesis using True fr \<open>?Ss = {}\<close> by (simp add: table_finalize_def finalizeStringTable_def Let_def maximal_def)
  next
    case False
    let ?Ps = "sort_strings (StringPriorityMap ?b) (order (StringIndexMap ?b))"
    have Ps: "?Ps = multikeySort (order (StringIndexMap ?b)) 0" using fr by (simp add: sort_strings_def sort_slice_def)
    have srt: "sorted_wrt tail_ge ?Ps" unfolding Ps using multikeySort_sorted [of _ 0 "[]"] by (simp add: tails_agree_def)
    have m: "mset ?Ps = mset (StringIndexMap ?b)" using mset_sort_strings assms(2) by simp
    have d: "distinct (map fst ?Ps)" using fr m by (metis mset_eq_imp_distinct_iff mset_map)
    have st: "fst ` set ?Ps = ?Ss" using mset_eq_setD [OF m] fr by simp
    have al: "tb_Alignment ?b = 1" "tb_K ?b = RAW" using fr by simp_all
    obtain r sz where r: "assign_offsets (tb_K ?b) (tb_Alignment ?b) [] (initSize (tb_K ?b)) ?Ps = (r, sz)" by fastforce
    have "tb_Size (table_finalize order ?b) = sz" using finalize_coff [where order = order, OF _ False r] fr by simp
    also have "sz = snd (assign_offsets RAW 1 [] 0 ?Ps)" using r by (simp add: al initSize_def)
    also have "\<dots> = (\<Sum>S \<in> maximal [] ?Ss. length S)"
      using assign_offsets_size [OF srt d, of "[]" RAW 0] by (simp add: st nul_def)
    finally show ?thesis .
  qed
  ultimately show ?thesis by (simp add: MergeChunk_getSize_def finalizeContents_def)
qed

theorem MergeChunk_size_minimal_witness: "MergeChunk_getSize (finalizeContents rev merge_chunk_sample) = 4"
proof -
  have "fresh_chunk merge_chunk_sample 1" by (simp add: merge_chunk_sample_def fresh_chunk_def new_MergeChunk_def)
  moreover have "mset (rev m) = mset m" for m :: "StringPair list" by simp
  moreover have l: "live_strings (mc_sections merge_chunk_sample) = {[0x62, 0x63, 0], [0x61, 0x62, 0x63, 0]}"
    by (auto simp: live_strings_def merge_chunk_sample_def)
  moreover have "suffix [0x62, 0x63, 0 :: byte] [0x61, 0x62, 0x63, 0]" "\<not> suffix [0x61, 0x62, 0x63, 0 :: byte] [0x62, 0x63, 0]"
    by (simp_all add: suffix_Cons)
  then have "{S \<in> live_strings (mc_sections merge_chunk_sample). \<forall>T \<in> live_strings (mc_sections merge_chunk_sample). suffix S T \<longrightarrow> T = S} =
      {[0x61, 0x62, 0x63, 0]}" unfolding l by auto
  ultimately show ?thesis using MergeChunk_size_minimal [of merge_chunk_sample rev] by simp
qed

text \<open>The three-way radix quicksort always ends and returns its strings in decreasing order of their reversals, compared
  lexicographically with a prefix below its extensions, so that a string follows the strings it is a suffix of.\<close>

lemma multikeySort_sorts:
  "mset (multikeySort Vec 0) = mset Vec \<and> sorted_wrt (\<lambda>P Q. rev (fst Q) \<le> rev (fst P)) (multikeySort Vec 0)"
  using multikeySort_sorted [of Vec 0 "[]"] by (simp add: tails_agree_def tail_ge_def [abs_def])

end
