(* ===== verification/ObjFile.thy ===== *)
theory ObjFile
  imports SymbolTable Reloc "HOL-Library.Char_ord" "HOL-Library.List_Lexorder"
begin

text \<open>
  Loading an object file (\<open>ObjFile\<close> of \<open>lld/COFF/InputFiles.cpp\<close>): its sections become chunks, its symbol table is
  resolved against the global one, and COMDAT sections are kept or discarded. The parsed file (\<open>COFFObjectFile\<close>) is a
  record of sections and symbol records; an auxiliary record takes a slot of the symbol list and is held by the symbol
  before it. The fatal errors of the code are values, and so are the two places where the code reads through an index or a
  pointer that it has not checked.
\<close>

unbundle bit_operations_syntax

section \<open>The parsed file\<close>

record coff_section =
  cs_name :: string
  cs_Characteristics :: u32
  cs_SizeOfRawData :: nat
  cs_NumberOfRelocations :: nat
  cs_contents :: "byte list"

record coff_aux_section_definition =
  sd_Length :: u32
  sd_CheckSum :: u32
  sd_Selection :: nat
  sd_Number :: nat

datatype storage_class = CLASS_EXTERNAL | CLASS_STATIC | CLASS_SECTION | CLASS_WEAK_EXTERNAL | CLASS_OTHER

record coff_symbol =
  cy_name :: string
  cy_Value :: u32
  cy_SectionNumber :: int
  cy_StorageClass :: storage_class
  cy_NumberOfAuxSymbols :: nat
  cy_aux :: coff_aux_section_definition
  cy_TagIndex :: nat
  cy_antiDependency :: bool

record COFFObjectFile =
  co_machine :: machine
  co_sections :: "coff_section list"
  co_symbols :: "coff_symbol list"

definition getSectionDefinition :: "coff_symbol \<Rightarrow> coff_aux_section_definition option" where
  "getSectionDefinition s = (if cy_NumberOfAuxSymbols s = 0 \<or> cy_StorageClass s \<noteq> CLASS_STATIC then None else Some (cy_aux s))"

definition sym_isExternal :: "coff_symbol \<Rightarrow> bool" where
  "sym_isExternal s \<longleftrightarrow> cy_StorageClass s = CLASS_EXTERNAL"

definition sym_isCommon :: "coff_symbol \<Rightarrow> bool" where
  "sym_isCommon s \<longleftrightarrow> sym_isExternal s \<and> cy_SectionNumber s = 0 \<and> cy_Value s \<noteq> 0"

definition sym_isUndefined :: "coff_symbol \<Rightarrow> bool" where
  "sym_isUndefined s \<longleftrightarrow> sym_isExternal s \<and> cy_SectionNumber s = 0 \<and> cy_Value s = 0"

definition sym_isWeakExternal :: "coff_symbol \<Rightarrow> bool" where
  "sym_isWeakExternal s \<longleftrightarrow> cy_StorageClass s = CLASS_WEAK_EXTERNAL"

definition sym_isAnyUndefined :: "coff_symbol \<Rightarrow> bool" where
  "sym_isAnyUndefined s \<longleftrightarrow> sym_isUndefined s \<or> sym_isWeakExternal s"

definition sym_isSection :: "coff_symbol \<Rightarrow> bool" where
  "sym_isSection s \<longleftrightarrow> cy_StorageClass s = CLASS_SECTION"

definition sym_isEmptySectionDeclaration :: "coff_symbol \<Rightarrow> bool" where
  "sym_isEmptySectionDeclaration s \<longleftrightarrow> sym_isSection s \<and> cy_SectionNumber s = 0"

definition findSectionDef :: "COFFObjectFile \<Rightarrow> nat \<Rightarrow> coff_aux_section_definition option" where
  "findSectionDef obj n =
     (case filter (\<lambda>s. cy_SectionNumber s = int n \<and> getSectionDefinition s \<noteq> None) (co_symbols obj) of
        [] \<Rightarrow> None
      | s # _ \<Rightarrow> getSectionDefinition s)"

section \<open>State\<close>

datatype COMDATType = NODUPLICATES | ANY | SAME_SIZE | EXACT_MATCH | ASSOCIATIVE | LARGEST

definition comdat_type :: "nat \<Rightarrow> COMDATType option" where
  "comdat_type n = (if n < 1 \<or> 6 < n then None else Some ([NODUPLICATES, ANY, SAME_SIZE, EXACT_MATCH, ASSOCIATIVE, LARGEST] ! (n - 1)))"

record section_chunk =
  sc_file :: "file_id option"
  sc_number :: nat
  sc_header :: coff_section
  sc_checksum :: u32
  sc_selection :: "COMDATType option"
  sc_sym :: "sym_id option"
  sc_assocChildren :: "chunk_id option"

record obj_env =
  oe_st :: st_env
  oe_objs :: "file_id \<Rightarrow> COFFObjectFile"
  oe_mingw :: bool
  oe_doGC :: bool
  oe_discardSection :: "string list"
  oe_includeDwarfChunks :: bool
  oe_tailMerge :: bool
  oe_allowDuplicateWeak :: bool

text \<open>An entry of \<open>sparseChunks\<close>: the mark \<open>pendingComdat\<close>, the null pointer, or a chunk.\<close>

datatype sparse = PendingComdat | NullChunk | SomeChunk chunk_id

datatype obj_diag = InvalidAssociative nat nat

record loader =
  ld_st :: symtab
  ld_secs :: "chunk_id \<rightharpoonup> section_chunk"
  ld_merge :: "chunk_id list"
  ld_sparse :: "sparse list"
  ld_symbols :: "sym_id option list"
  ld_directives :: "byte list option"
  ld_addrsig :: "nat option"
  ld_callgraph :: "nat option"
  ld_chunks :: "chunk_id list"
  ld_debugChunks :: "chunk_id list"
  ld_guardFidChunks :: "chunk_id list"
  ld_guardIATChunks :: "chunk_id list"
  ld_guardLJmpChunks :: "chunk_id list"
  ld_guardEHContChunks :: "chunk_id list"
  ld_sxDataChunks :: "chunk_id list"
  ld_hybmpChunks :: "chunk_id list"
  ld_resourceChunks :: "chunk_id list"
  ld_feat00Flags :: u32
  ld_diags :: "obj_diag list"

datatype load_error = SpecialSection | NonExistentSection | UnknownComdatType nat
  | NullLeader | IndexOutOfRange


section \<open>Sections\<close>

definition obj_of :: "obj_env \<Rightarrow> file_id \<Rightarrow> COFFObjectFile" where
  "obj_of env f = oe_objs env f"

definition getSection :: "obj_env \<Rightarrow> file_id \<Rightarrow> nat \<Rightarrow> coff_section" where
  "getSection env f n = co_sections (obj_of env f) ! (n - 1)"

definition sec_isCOMDAT :: "coff_section \<Rightarrow> bool" where
  "sec_isCOMDAT h \<longleftrightarrow> cs_Characteristics h AND 0x1000 \<noteq> 0"

text \<open>\<open>make<SectionChunk>\<close>: a new chunk of the store, with the members the loader uses.\<close>

definition new_SectionChunk :: "obj_env \<Rightarrow> file_id \<Rightarrow> nat \<Rightarrow> coff_section \<Rightarrow> chunk_kind \<Rightarrow> loader \<Rightarrow> chunk_id \<times> loader" where
  "new_SectionChunk env f n h k ld =
     (let st = ld_st ld; c = length (chunks (st_store st));
          ck = \<lparr>ck_kind = k, ck_name = cs_name h, ck_rva = 0, ck_live = (\<not> oe_doGC env \<or> \<not> sec_isCOMDAT h), ck_repl = c,
                ck_symbols = [], ck_assocChildren = [], ck_entryThunk = None\<rparr>
      in (c, ld\<lparr>ld_st := st\<lparr>st_store := (st_store st)\<lparr>chunks := chunks (st_store st) @ [ck]\<rparr>\<rparr>,
               ld_secs := (ld_secs ld)(c \<mapsto> \<lparr>sc_file = Some f, sc_number = n, sc_header = h, sc_checksum = 0, sc_selection = None,
                 sc_sym = None, sc_assocChildren = None\<rparr>)\<rparr>))"

definition upd_sec :: "chunk_id \<Rightarrow> (section_chunk \<Rightarrow> section_chunk) \<Rightarrow> loader \<Rightarrow> loader" where
  "upd_sec c g ld = (case ld_secs ld c of Some sc \<Rightarrow> ld\<lparr>ld_secs := (ld_secs ld)(c \<mapsto> g sc)\<rparr> | None \<Rightarrow> ld)"

text \<open>Where \<open>readSection\<close> files a new chunk.\<close>

definition file_chunk :: "obj_env \<Rightarrow> file_id \<Rightarrow> coff_section \<Rightarrow> string \<Rightarrow> chunk_id \<Rightarrow> loader \<Rightarrow> loader" where
  "file_chunk env f h leaderName c ld =
     (let name = cs_name h; ec = isArm64EC (co_machine (obj_of env f)) in
      if isCodeView name then ld\<lparr>ld_debugChunks := ld_debugChunks ld @ [c]\<rparr>
      else if name = ''.gfids$y'' then ld\<lparr>ld_guardFidChunks := ld_guardFidChunks ld @ [c]\<rparr>
      else if name = ''.giats$y'' then ld\<lparr>ld_guardIATChunks := ld_guardIATChunks ld @ [c]\<rparr>
      else if name = ''.gljmp$y'' then ld\<lparr>ld_guardLJmpChunks := ld_guardLJmpChunks ld @ [c]\<rparr>
      else if name = ''.gehcont$y'' then ld\<lparr>ld_guardEHContChunks := ld_guardEHContChunks ld @ [c]\<rparr>
      else if name = ''.sxdata'' then ld\<lparr>ld_sxDataChunks := ld_sxDataChunks ld @ [c]\<rparr>
      else if ec \<and> name = ''.hybmp$x'' then ld\<lparr>ld_hybmpChunks := ld_hybmpChunks ld @ [c]\<rparr>
      else if oe_tailMerge env \<and> cs_NumberOfRelocations h = 0 \<and> name = ''.rdata'' \<and> starts_with leaderName ''??_C@''
      then ld\<lparr>ld_merge := ld_merge ld @ [c]\<rparr>
      else if name = ''.rsrc'' \<or> starts_with name ''.rsrc$'' then ld\<lparr>ld_resourceChunks := ld_resourceChunks ld @ [c]\<rparr>
      else if cs_Characteristics h AND 0x200 = 0 then ld\<lparr>ld_chunks := ld_chunks ld @ [c]\<rparr>
      else ld)"

definition readSection ::
  "obj_env \<Rightarrow> file_id \<Rightarrow> nat \<Rightarrow> coff_aux_section_definition option \<Rightarrow> string \<Rightarrow> loader \<Rightarrow> chunk_id option \<times> loader" where
  "readSection env f n def leaderName ld =
     (let h = getSection env f n; name = cs_name h in
      if name = ''.drectve'' then (None, ld\<lparr>ld_directives := Some (cs_contents h)\<rparr>)
      else if name = ''.llvm_addrsig'' then (None, ld\<lparr>ld_addrsig := Some n\<rparr>)
      else if name = ''.llvm.call-graph-profile'' then (None, ld\<lparr>ld_callgraph := Some n\<rparr>)
      else if name \<in> set (oe_discardSection env) then (None, ld)
      else if \<not> oe_includeDwarfChunks env \<and> starts_with name ''.debug_'' then (None, ld)
      else if cs_Characteristics h AND 0x800 \<noteq> 0 then (None, ld)
      else
        (let (c, ld1) = new_SectionChunk env f n h (if isArm64EC (co_machine (obj_of env f)) then SectionECKind else SectionKind) ld;
             ld2 = (case def of Some d \<Rightarrow> upd_sec c (\<lambda>sc. sc\<lparr>sc_checksum := sd_CheckSum d\<rparr>) ld1 | None \<Rightarrow> ld1)
         in (Some c, file_chunk env f h leaderName c ld2)))"

definition sparse_of :: "chunk_id option \<Rightarrow> sparse" where
  "sparse_of c = (case c of Some i \<Rightarrow> SomeChunk i | None \<Rightarrow> NullChunk)"

definition set_sparse :: "nat \<Rightarrow> sparse \<Rightarrow> loader \<Rightarrow> loader" where
  "set_sparse n x ld = ld\<lparr>ld_sparse := (ld_sparse ld)[n := x]\<rparr>"

fun initializeChunks_from :: "obj_env \<Rightarrow> file_id \<Rightarrow> nat list \<Rightarrow> loader \<Rightarrow> loader" where
  "initializeChunks_from env f [] ld = ld"
| "initializeChunks_from env f (n # ns) ld =
     (if sec_isCOMDAT (getSection env f n) then initializeChunks_from env f ns (set_sparse n PendingComdat ld)
      else (let (c, ld1) = readSection env f n None [] ld in initializeChunks_from env f ns (set_sparse n (sparse_of c) ld1)))"

definition initializeChunks :: "obj_env \<Rightarrow> file_id \<Rightarrow> loader \<Rightarrow> loader" where
  "initializeChunks env f ld =
     (let k = length (co_sections (obj_of env f))
      in initializeChunks_from env f [1..<k + 1] (ld\<lparr>ld_sparse := replicate (k + 1) NullChunk\<rparr>))"

definition includeResourceChunks :: "loader \<Rightarrow> loader" where
  "includeResourceChunks ld = ld\<lparr>ld_chunks := ld_chunks ld @ ld_resourceChunks ld\<rparr>"

section \<open>Associative sections\<close>

text \<open>\<open>SectionChunk::addAssociative\<close>: the children are linked through their own \<open>assocChildren\<close>, in decreasing order of name.
  \<open>fuel\<close> bounds the walk; the number of chunks is enough for a list without a cycle.\<close>

fun assoc_position :: "nat \<Rightarrow> (chunk_id \<rightharpoonup> section_chunk) \<Rightarrow> string \<Rightarrow> chunk_id \<Rightarrow> chunk_id option \<Rightarrow> chunk_id \<times> chunk_id option" where
  "assoc_position 0 secs name prev next = (prev, next)"
| "assoc_position (Suc fuel) secs name prev next =
     (case next of
        None \<Rightarrow> (prev, None)
      | Some c \<Rightarrow>
          (case secs c of
             None \<Rightarrow> (prev, next)
           | Some sc \<Rightarrow> if cs_name (sc_header sc) \<le> name then (prev, next)
                        else assoc_position fuel secs name c (sc_assocChildren sc)))"

definition addAssociative :: "chunk_id \<Rightarrow> chunk_id \<Rightarrow> loader \<Rightarrow> loader" where
  "addAssociative parent child ld =
     (let secs = ld_secs ld;
          name = (case secs child of Some sc \<Rightarrow> cs_name (sc_header sc) | None \<Rightarrow> []);
          (prev, next) = assoc_position (length (chunks (st_store (ld_st ld)))) secs name parent
                           (case secs parent of Some sc \<Rightarrow> sc_assocChildren sc | None \<Rightarrow> None)
      in upd_sec child (\<lambda>sc. sc\<lparr>sc_assocChildren := next\<rparr>) (upd_sec prev (\<lambda>sc. sc\<lparr>sc_assocChildren := Some child\<rparr>) ld))"

definition readAssociativeDefinition ::
  "obj_env \<Rightarrow> file_id \<Rightarrow> coff_symbol \<Rightarrow> coff_aux_section_definition \<Rightarrow> nat \<Rightarrow> loader \<Rightarrow> load_error + loader" where
  "readAssociativeDefinition env f s def parentIndex ld =
     (let n = nat (cy_SectionNumber s) in
      if length (ld_sparse ld) \<le> parentIndex then Inl IndexOutOfRange
      else
        (case ld_sparse ld ! parentIndex of
           PendingComdat \<Rightarrow> Inr (ld\<lparr>ld_diags := ld_diags ld @ [InvalidAssociative n parentIndex]\<rparr>)
         | SomeChunk parent \<Rightarrow>
             (let (c, ld1) = readSection env f n (Some def) [] ld;
                  ld2 = set_sparse n (sparse_of c) ld1
              in Inr (case c of
                        Some i \<Rightarrow> addAssociative parent i (upd_sec i (\<lambda>sc. sc\<lparr>sc_selection := Some ASSOCIATIVE\<rparr>) ld2)
                      | None \<Rightarrow> ld2))
         | NullChunk \<Rightarrow> Inr (set_sparse n NullChunk ld)))"

definition recordPrevailingSymbolForMingw ::
  "coff_symbol \<Rightarrow> loader \<Rightarrow> (string \<rightharpoonup> nat) \<Rightarrow> (string \<rightharpoonup> nat)" where
  "recordPrevailingSymbolForMingw s ld prevailingSectionMap =
     (let n = nat (cy_SectionNumber s) in
      case ld_sparse ld ! n of
        SomeChunk c \<Rightarrow>
          (case ld_secs ld c of
             Some sc \<Rightarrow>
               if cs_Characteristics (sc_header sc) AND 0x20000000 \<noteq> 0
               then prevailingSectionMap(snd (split_pair (cs_name (sc_header sc)) ''$'') \<mapsto> n)
               else prevailingSectionMap
           | None \<Rightarrow> prevailingSectionMap)
      | _ \<Rightarrow> prevailingSectionMap)"

definition maybeAssociateSEHForMingw ::
  "obj_env \<Rightarrow> file_id \<Rightarrow> coff_symbol \<Rightarrow> coff_aux_section_definition \<Rightarrow> (string \<rightharpoonup> nat) \<Rightarrow> loader \<Rightarrow> load_error + loader" where
  "maybeAssociateSEHForMingw env f s def prevailingSectionMap ld =
     (let name = cy_name s;
          rest = (case consume_front name ''.pdata$'' of Some r \<Rightarrow> Some r | None \<Rightarrow>
                   (case consume_front name ''.xdata$'' of Some r \<Rightarrow> Some r | None \<Rightarrow> consume_front name ''.eh_frame$''))
      in case rest of
           None \<Rightarrow> Inr ld
         | Some r \<Rightarrow>
             (case prevailingSectionMap r of
                Some parent \<Rightarrow> readAssociativeDefinition env f s def parent ld
              | None \<Rightarrow> Inr ld))"


section \<open>Symbols of a section\<close>

text \<open>\<open>make<DefinedRegular>\<close> for a symbol that is not in the global table.\<close>

definition new_local :: "symbol \<Rightarrow> loader \<Rightarrow> sym_id \<times> loader" where
  "new_local y ld =
     (let st = ld_st ld
      in (length (st_syms st), ld\<lparr>ld_st := st\<lparr>st_store := (st_store st)\<lparr>syms := st_syms st @ [y]\<rparr>\<rparr>\<rparr>))"

definition local_symbol :: "file_id \<Rightarrow> u32 \<Rightarrow> chunk_id option \<Rightarrow> symbol" where
  "local_symbol f v c = (new_symbol [] (DefinedRegular f v c))\<lparr>isExternal := False\<rparr>"

definition with_table :: "(symtab \<Rightarrow> 'a \<times> symtab) \<Rightarrow> loader \<Rightarrow> 'a \<times> loader" where
  "with_table g ld = (let (r, st) = g (ld_st ld) in (r, ld\<lparr>ld_st := st\<rparr>))"

definition createRegular :: "obj_env \<Rightarrow> file_id \<Rightarrow> coff_symbol \<Rightarrow> loader \<Rightarrow> sym_id option \<times> loader" where
  "createRegular env f s ld =
     (let sc = (case ld_sparse ld ! nat (cy_SectionNumber s) of SomeChunk c \<Rightarrow> Some c | _ \<Rightarrow> None);
          name = cy_name s
      in if sym_isExternal s
         then (case sc of
                 Some c \<Rightarrow> (let (i, ld1) = with_table (addRegular (oe_st env) f name (cy_Value s) (Some c) False) ld in (Some i, ld1))
               | None \<Rightarrow>
                   if oe_mingw env \<and> starts_with name ''.weak.'' then (None, ld)
                   else (let (i, ld1) = with_table (addUndefined (oe_st env) name (Some f) False) ld in (Some i, ld1)))
         else (case sc of
                 Some c \<Rightarrow> (let (i, ld1) = new_local (local_symbol f (if sym_isSection s then 0 else cy_Value s) (Some c)) ld in (Some i, ld1))
               | None \<Rightarrow> (None, ld)))"

definition createUndefined :: "obj_env \<Rightarrow> file_id \<Rightarrow> coff_symbol \<Rightarrow> bool \<Rightarrow> loader \<Rightarrow> sym_id \<times> loader" where
  "createUndefined env f s overrideLazy ld =
     (let (i, ld1) = with_table (addUndefined (oe_st env) (cy_name s) (Some f) overrideLazy) ld in
      if isEC (oe_st env) \<and> co_machine (obj_of env f) = AMD64 \<and> no_alias (sy_body (get_sym (ld_st ld1) i))
      then (case se_mangled (oe_st env) (cy_name s) of
              Some mangledName \<Rightarrow>
                (let (m, ld2) = with_table (addUndefined (oe_st env) mangledName (Some f) False) ld1
                 in (i, ld2\<lparr>ld_st := upd_sym i (setWeakAlias m True) (ld_st ld2)\<rparr>))
            | None \<Rightarrow> (i, ld1))
      else (i, ld1))"

section \<open>COMDAT selection\<close>

text \<open>\<open>any\<close> and \<open>largest\<close> merge as \<open>largest\<close>, and with MinGW \<open>any\<close> and \<open>same size\<close> as \<open>same size\<close>.\<close>

definition merge_selection :: "bool \<Rightarrow> COMDATType \<Rightarrow> COMDATType option \<Rightarrow> COMDATType \<times> COMDATType option" where
  "merge_selection mingw selection leaderSelection =
     (let (s1, l1) = (if selection = ANY \<and> leaderSelection = Some LARGEST \<or> selection = LARGEST \<and> leaderSelection = Some ANY
                      then (LARGEST, Some LARGEST) else (selection, leaderSelection))
      in if mingw \<and> (s1 = ANY \<and> l1 = Some SAME_SIZE \<or> s1 = SAME_SIZE \<and> l1 = Some ANY) then (SAME_SIZE, Some SAME_SIZE) else (s1, l1))"

datatype comdat_outcome = KeepLeader | ReplaceLeader | Duplicate

text \<open>What the selection field decides for a new section and a leader chunk. \<open>leaderDef\<close> is looked up for MinGW only.\<close>

definition comdat_outcome ::
  "bool \<Rightarrow> COMDATType \<Rightarrow> coff_section \<Rightarrow> coff_aux_section_definition \<Rightarrow> coff_section \<Rightarrow> coff_aux_section_definition option \<Rightarrow> comdat_outcome" where
  "comdat_outcome mingw selection h def leaderHeader leaderDef =
     (case selection of
        NODUPLICATES \<Rightarrow> Duplicate
      | ANY \<Rightarrow> KeepLeader
      | SAME_SIZE \<Rightarrow>
          if cs_SizeOfRawData leaderHeader \<noteq> cs_SizeOfRawData h
          then if \<not> mingw then Duplicate
               else (case leaderDef of Some d \<Rightarrow> if sd_Length d \<noteq> sd_Length def then Duplicate else KeepLeader | None \<Rightarrow> Duplicate)
          else KeepLeader
      | EXACT_MATCH \<Rightarrow> if cs_contents leaderHeader \<noteq> cs_contents h then Duplicate else KeepLeader
      | ASSOCIATIVE \<Rightarrow> KeepLeader
      | LARGEST \<Rightarrow> if cs_SizeOfRawData leaderHeader < cs_SizeOfRawData h then ReplaceLeader else KeepLeader)"

definition leader_def :: "obj_env \<Rightarrow> section_chunk \<Rightarrow> coff_aux_section_definition option" where
  "leader_def env sc = (case sc_file sc of Some g \<Rightarrow> findSectionDef (obj_of env g) (sc_number sc) | None \<Rightarrow> None)"

definition handleComdatSelection ::
  "obj_env \<Rightarrow> file_id \<Rightarrow> coff_symbol \<Rightarrow> COMDATType \<Rightarrow> bool \<Rightarrow> sym_id \<Rightarrow> coff_aux_section_definition \<Rightarrow> loader
    \<Rightarrow> load_error + (COMDATType \<times> bool \<times> loader)" where
  "handleComdatSelection env f s selection prevailing leader def ld =
     (if prevailing then Inr (selection, prevailing, ld)
      else
        (let st = ld_st ld; body = sy_body (get_sym st leader) in
         case getChunk (st_store st) body of
           None \<Rightarrow> Inl NullLeader
         | Some lc \<Rightarrow>
             (case ld_secs ld lc of
                None \<Rightarrow> Inl NullLeader
              | Some leaderChunk \<Rightarrow>
                  (let (sel0, leader0) = (if se_isBitcode (oe_st env) (dr_file body) then (ANY, Some ANY) else (selection, sc_selection leaderChunk));
                       (sel, leaderSelection) = merge_selection (oe_mingw env) sel0 leader0
                   in if Some sel \<noteq> leaderSelection then Inr (sel, False, ld\<lparr>ld_st := reportDuplicate leader st\<rparr>)
                      else (case comdat_outcome (oe_mingw env) sel (getSection env f (nat (cy_SectionNumber s))) def
                                   (sc_header leaderChunk) (leader_def env leaderChunk) of
                              KeepLeader \<Rightarrow> Inr (sel, False, ld)
                            | Duplicate \<Rightarrow> Inr (sel, False, ld\<lparr>ld_st := reportDuplicate leader st\<rparr>)
                            | ReplaceLeader \<Rightarrow>
                                Inr (sel, True, ld\<lparr>ld_st := replace_sym leader (regular_symbol f (cy_name s) True (cy_Value s) None False) st\<rparr>))))))"

section \<open>Definitions of an object file\<close>

datatype created = Postponed | Created "sym_id option"

definition ignoredSymbolName :: "string \<Rightarrow> bool" where
  "ignoredSymbolName name \<longleftrightarrow> name = ''@feat.00'' \<or> name = ''@comp.id''"

definition create_common :: "obj_env \<Rightarrow> file_id \<Rightarrow> coff_symbol \<Rightarrow> loader \<Rightarrow> sym_id \<times> loader" where
  "create_common env f s ld =
     (let st = ld_st ld; c = length (chunks (st_store st));
          ck = \<lparr>ck_kind = OtherKind, ck_name = [], ck_rva = 0, ck_live = False, ck_repl = c, ck_symbols = [], ck_assocChildren = [],
                ck_entryThunk = None\<rparr>
      in with_table (addCommon (oe_st env) f (cy_name s) (ucast (cy_Value s)) (Some c))
           (ld\<lparr>ld_st := st\<lparr>st_store := (st_store st)\<lparr>chunks := chunks (st_store st) @ [ck]\<rparr>\<rparr>, ld_chunks := ld_chunks ld @ [c]\<rparr>))"

definition create_absolute :: "obj_env \<Rightarrow> coff_symbol \<Rightarrow> loader \<Rightarrow> sym_id option \<times> loader" where
  "create_absolute env s ld =
     (let name = cy_name s;
          ld1 = (if name = ''@feat.00'' then ld\<lparr>ld_feat00Flags := cy_Value s\<rparr> else ld)
      in if ignoredSymbolName name then (None, ld1)
         else if sym_isExternal s
         then (let (i, ld2) = with_table (addAbsolute (oe_st env) name (ucast (cy_Value s)) True) ld1 in (Some i, ld2))
         else (let (i, ld2) = new_local ((new_symbol name (DefinedAbsolute (ucast (cy_Value s))))\<lparr>isExternal := False\<rparr>) ld1 in (Some i, ld2)))"

definition create_empty_section :: "obj_env \<Rightarrow> file_id \<Rightarrow> coff_symbol \<Rightarrow> loader \<Rightarrow> sym_id \<times> loader" where
  "create_empty_section env f s ld =
     (let hdr = \<lparr>cs_name = take 8 (cy_name s), cs_Characteristics = (if cy_Value s \<noteq> 0 then cy_Value s OR 0x300000 else 0xC0300040),
                 cs_SizeOfRawData = 0, cs_NumberOfRelocations = 0, cs_contents = []\<rparr>;
          (c, ld1) = new_SectionChunk env f 0 hdr SectionKind ld
      in new_local (local_symbol f 0 (Some c)) (ld1\<lparr>ld_chunks := ld_chunks ld1 @ [c]\<rparr>))"

definition leader_of :: "obj_env \<Rightarrow> file_id \<Rightarrow> coff_symbol \<Rightarrow> loader \<Rightarrow> (sym_id \<times> bool) \<times> loader" where
  "leader_of env f s ld =
     (if sym_isExternal s then with_table (addComdat (oe_st env) f (cy_name s) (cy_Value s)) ld
      else (let (i, ld') = new_local (local_symbol f (cy_Value s) None) ld in ((i, True), ld')))"

text \<open>The comdat leader of section \<open>n\<close>: resolve it against the table, and read the section if it prevails.\<close>

definition create_leader ::
  "obj_env \<Rightarrow> file_id \<Rightarrow> coff_symbol \<Rightarrow> coff_aux_section_definition \<Rightarrow> loader \<Rightarrow> load_error + (sym_id option \<times> bool \<times> loader)" where
  "create_leader env f s def ld =
     (let n = nat (cy_SectionNumber s);
          ((leader, prevailing), ld1) = leader_of env f s ld
      in case comdat_type (sd_Selection def) of
           None \<Rightarrow> Inl (UnknownComdatType (sd_Selection def))
         | Some selection \<Rightarrow>
             (case (if isCOMDAT (get_sym (ld_st ld1) leader) then handleComdatSelection env f s selection prevailing leader def ld1
                    else Inr (selection, prevailing, ld1)) of
                Inl e \<Rightarrow> Inl e
              | Inr (sel, prevails, ld2) \<Rightarrow>
                  if \<not> prevails then Inr (Some leader, False, set_sparse n NullChunk ld2)
                  else
                    (let (c, ld3) = readSection env f n (Some def) (cy_name s) ld2;
                         ld4 = set_sparse n (sparse_of c) ld3
                     in case c of
                          None \<Rightarrow> Inr (None, True, ld4)
                        | Some i \<Rightarrow>
                            Inr (Some leader, True,
                              (upd_sec i (\<lambda>sc. sc\<lparr>sc_sym := Some leader, sc_selection := Some sel\<rparr>) ld4)\<lparr>
                                ld_st := upd_sym leader (\<lambda>y. y\<lparr>sy_body := DefinedRegular (dr_file (sy_body y)) (dr_value (sy_body y)) (Some i)\<rparr>) (ld_st ld4)\<rparr>))))"

definition createDefined ::
  "obj_env \<Rightarrow> file_id \<Rightarrow> coff_symbol \<Rightarrow> coff_aux_section_definition option list \<Rightarrow> loader
    \<Rightarrow> load_error + (created \<times> bool \<times> coff_aux_section_definition option list \<times> loader)" where
  "createDefined env f s comdatDefs ld =
     (let n = nat (cy_SectionNumber s) in
      if sym_isCommon s then (let (i, ld1) = create_common env f s ld in Inr (Created (Some i), False, comdatDefs, ld1))
      else if cy_SectionNumber s = -1 then (let (i, ld1) = create_absolute env s ld in Inr (Created i, False, comdatDefs, ld1))
      else if cy_SectionNumber s = -2 then Inr (Created None, False, comdatDefs, ld)
      else if sym_isEmptySectionDeclaration s
      then (let (i, ld1) = create_empty_section env f s ld in Inr (Created (Some i), False, comdatDefs, ld1))
      else if cy_SectionNumber s \<le> 0 then Inl SpecialSection
      else if length (ld_sparse ld) \<le> n then Inl NonExistentSection
      else
        (case comdatDefs ! n of
           Some def \<Rightarrow>
             (case create_leader env f s def ld of
                Inl e \<Rightarrow> Inl e
              | Inr (i, prevailing, ld1) \<Rightarrow> Inr (Created i, prevailing, comdatDefs[n := None], ld1))
         | None \<Rightarrow>
             if ld_sparse ld ! n = PendingComdat
             then Inr (Postponed, False,
                    (case getSectionDefinition s of
                       Some def \<Rightarrow> if sd_Selection def \<noteq> 5 then comdatDefs[n := Some def] else comdatDefs
                     | None \<Rightarrow> comdatDefs), ld)
             else (let (i, ld1) = createRegular env f s ld in Inr (Created i, False, comdatDefs, ld1))))"


section \<open>The symbol table of a file\<close>

record init_state =
  in_ld :: loader
  in_weakAliases :: "(sym_id \<times> coff_symbol) list"
  in_pendingIndexes :: "nat list"
  in_prevailing :: "string \<rightharpoonup> nat"
  in_comdatDefs :: "coff_aux_section_definition option list"

definition set_symbol :: "nat \<Rightarrow> sym_id option \<Rightarrow> loader \<Rightarrow> loader" where
  "set_symbol i x ld = ld\<lparr>ld_symbols := (ld_symbols ld)[i := x]\<rparr>"

text \<open>May a weak external override a lazy symbol? On ARM64EC an anti-dependency may not, unless it is part of the
  implementation.\<close>

definition override_lazy :: "obj_env \<Rightarrow> file_id \<Rightarrow> coff_symbol \<Rightarrow> load_error + bool" where
  "override_lazy env f s =
     (let obj = obj_of env f in
      if isArm64EC (co_machine obj) \<and> cy_antiDependency s
      then if length (co_symbols obj) \<le> cy_TagIndex s then Inl IndexOutOfRange
           else (let t = co_symbols obj ! cy_TagIndex s in
                 Inr (\<not> sym_isAnyUndefined t \<and> se_mangled (oe_st env) (cy_name s) = Some (cy_name t)))
      else Inr True)"

text \<open>One round of the loop of \<open>initializeSymbols\<close> over the symbol records.\<close>

definition init_symbol :: "obj_env \<Rightarrow> file_id \<Rightarrow> nat \<Rightarrow> coff_symbol \<Rightarrow> init_state \<Rightarrow> load_error + init_state" where
  "init_symbol env f i s z =
     (if sym_isUndefined s
      then (let (y, ld) = createUndefined env f s False (in_ld z) in Inr (z\<lparr>in_ld := set_symbol i (Some y) ld\<rparr>))
      else if sym_isWeakExternal s
      then (case override_lazy env f s of
              Inl e \<Rightarrow> Inl e
            | Inr overrideLazy \<Rightarrow>
                (let (y, ld) = createUndefined env f s overrideLazy (in_ld z)
                 in Inr (z\<lparr>in_ld := set_symbol i (Some y) ld, in_weakAliases := in_weakAliases z @ [(y, s)]\<rparr>)))
      else
        (case createDefined env f s (in_comdatDefs z) (in_ld z) of
           Inl e \<Rightarrow> Inl e
         | Inr (Postponed, prevailing, defs, ld) \<Rightarrow>
             Inr (z\<lparr>in_ld := ld, in_comdatDefs := defs, in_pendingIndexes := in_pendingIndexes z @ [i]\<rparr>)
         | Inr (Created y, prevailing, defs, ld) \<Rightarrow>
             Inr (z\<lparr>in_ld := set_symbol i y ld, in_comdatDefs := defs,
               in_prevailing := (if oe_mingw env \<and> prevailing then recordPrevailingSymbolForMingw s ld (in_prevailing z) else in_prevailing z)\<rparr>)))"

function init_loop :: "obj_env \<Rightarrow> file_id \<Rightarrow> nat \<Rightarrow> init_state \<Rightarrow> load_error + init_state" where
  "init_loop env f i z =
     (if i < length (co_symbols (obj_of env f))
      then (let s = co_symbols (obj_of env f) ! i in
            case init_symbol env f i s z of
              Inl e \<Rightarrow> Inl e
            | Inr z' \<Rightarrow> init_loop env f (i + cy_NumberOfAuxSymbols s + 1) z')
      else Inr z)"
  by pat_completeness auto
termination by (relation "measure (\<lambda>(env, f, i, z). length (co_symbols (obj_of env f)) - i)") auto

declare init_loop.simps [simp del]

text \<open>The postponed symbols: first the association of the section, then the symbol.\<close>

definition resolve_section :: "obj_env \<Rightarrow> file_id \<Rightarrow> (string \<rightharpoonup> nat) \<Rightarrow> coff_symbol \<Rightarrow> loader \<Rightarrow> load_error + loader" where
  "resolve_section env f prevailing s ld =
     (case getSectionDefinition s of
        None \<Rightarrow> Inr ld
      | Some def \<Rightarrow>
          if sd_Selection def = 5 then readAssociativeDefinition env f s def (sd_Number def) ld
          else if oe_mingw env then maybeAssociateSEHForMingw env f s def prevailing ld
          else Inr ld)"

fun pending_loop :: "obj_env \<Rightarrow> file_id \<Rightarrow> (string \<rightharpoonup> nat) \<Rightarrow> nat list \<Rightarrow> loader \<Rightarrow> load_error + loader" where
  "pending_loop env f prevailing [] ld = Inr ld"
| "pending_loop env f prevailing (i # is) ld =
     (let s = co_symbols (obj_of env f) ! i in
      case resolve_section env f prevailing s ld of
        Inl e \<Rightarrow> Inl e
      | Inr ld1 \<Rightarrow>
          if ld_sparse ld1 ! nat (cy_SectionNumber s) = PendingComdat then pending_loop env f prevailing is ld1
          else (let (y, ld2) = createRegular env f s ld1 in pending_loop env f prevailing is (set_symbol i y ld2)))"

definition isAbsZero :: "symtab \<Rightarrow> sym_id option \<Rightarrow> bool" where
  "isAbsZero st t \<longleftrightarrow> (case t of Some i \<Rightarrow> sy_body (get_sym st i) = DefinedAbsolute 0 | None \<Rightarrow> False)"

definition set_alias :: "sym_id \<Rightarrow> sym_id option \<Rightarrow> bool \<Rightarrow> symtab \<Rightarrow> symtab" where
  "set_alias s t antiDep st = upd_sym s (\<lambda>y. y\<lparr>sy_body := Undefined t, isAntiDep := antiDep\<rparr>) st"

definition checkAndSetWeakAlias :: "obj_env \<Rightarrow> sym_id \<Rightarrow> sym_id option \<Rightarrow> bool \<Rightarrow> symtab \<Rightarrow> symtab" where
  "checkAndSetWeakAlias env source target antiDep st =
     (let y = get_sym st source in
      case sy_body y of
        Undefined alias \<Rightarrow>
          if alias \<noteq> None \<and> alias \<noteq> target
          then if antiDep then st
               else if \<not> isAntiDep y
               then if oe_allowDuplicateWeak env
                    then if isAbsZero st alias \<and> \<not> isAbsZero st target then set_alias source target antiDep st else st
                    else set_alias source target antiDep (reportDuplicate source st)
               else set_alias source target antiDep st
          else set_alias source target antiDep st
      | _ \<Rightarrow> st)"

fun weak_aliases :: "obj_env \<Rightarrow> (sym_id \<times> coff_symbol) list \<Rightarrow> loader \<Rightarrow> load_error + loader" where
  "weak_aliases env [] ld = Inr ld"
| "weak_aliases env ((y, s) # ws) ld =
     (if length (ld_symbols ld) \<le> cy_TagIndex s then Inl IndexOutOfRange
      else weak_aliases env ws
             (ld\<lparr>ld_st := checkAndSetWeakAlias env y (ld_symbols ld ! cy_TagIndex s) (cy_antiDependency s) (ld_st ld)\<rparr>))"

definition initializeSymbols :: "obj_env \<Rightarrow> file_id \<Rightarrow> loader \<Rightarrow> load_error + loader" where
  "initializeSymbols env f ld =
     (let obj = obj_of env f;
          z = \<lparr>in_ld = ld\<lparr>ld_symbols := replicate (length (co_symbols obj)) None\<rparr>, in_weakAliases = [], in_pendingIndexes = [],
               in_prevailing = Map.empty, in_comdatDefs = replicate (length (co_sections obj) + 1) None\<rparr>
      in case init_loop env f 0 z of
           Inl e \<Rightarrow> Inl e
         | Inr z1 \<Rightarrow>
             (case pending_loop env f (in_prevailing z1) (in_pendingIndexes z1) (in_ld z1) of
                Inl e \<Rightarrow> Inl e
              | Inr ld1 \<Rightarrow>
                  (case weak_aliases env (in_weakAliases z1) ld1 of
                     Inl e \<Rightarrow> Inl e
                   | Inr ld2 \<Rightarrow> Inr (ld2\<lparr>ld_sparse := []\<rparr>))))"

text \<open>\<open>ObjFile::parse\<close> without the debug information and the ARM64EC map: the members of the file start empty.\<close>

definition new_file :: "loader \<Rightarrow> loader" where
  "new_file ld = ld\<lparr>ld_sparse := [], ld_symbols := [], ld_directives := None, ld_addrsig := None, ld_callgraph := None, ld_chunks := [],
     ld_debugChunks := [], ld_guardFidChunks := [], ld_guardIATChunks := [], ld_guardLJmpChunks := [], ld_guardEHContChunks := [],
     ld_sxDataChunks := [], ld_hybmpChunks := [], ld_resourceChunks := [], ld_feat00Flags := 0\<rparr>"

definition parse_object :: "obj_env \<Rightarrow> file_id \<Rightarrow> loader \<Rightarrow> load_error + loader" where
  "parse_object env f ld = initializeSymbols env f (initializeChunks env f (new_file ld))"

end
