(* ===== verification/ObjLoad.thy ===== *)
theory ObjLoad
  imports ObjFile
begin

text \<open>
  What loading an object file guarantees: the links between symbols and sections, which sections are kept, and
  which errors can arise.
\<close>

unbundle bit_operations_syntax

section \<open>Properties of all symbols of a table\<close>

definition table_all :: "(sym_id \<Rightarrow> symbol_body \<Rightarrow> bool \<Rightarrow> bool) \<Rightarrow> symtab \<Rightarrow> bool" where
  "table_all Q st \<longleftrightarrow> (\<forall>i < length (st_syms st). Q i (sy_body (get_sym st i)) (isCOMDAT (get_sym st i)))"

lemma table_allD: "table_all Q st \<Longrightarrow> i < length (st_syms st) \<Longrightarrow> Q i (sy_body (get_sym st i)) (isCOMDAT (get_sym st i))"
  by (simp add: table_all_def)

lemma table_all_mono: "table_all Q st \<Longrightarrow> (\<And>i b k. Q i b k \<Longrightarrow> Q' i b k) \<Longrightarrow> table_all Q' st"
  by (auto simp: table_all_def)

lemma table_all_cong: "st_syms st' = st_syms st \<Longrightarrow> table_all Q st' = table_all Q st"
  by (simp add: table_all_def get_sym_def)

lemma table_all_upd:
  assumes "table_all Q st" and "s < length (st_syms st) \<Longrightarrow> Q s (sy_body (g (get_sym st s))) (isCOMDAT (g (get_sym st s)))"
  shows "table_all Q (upd_sym s g st)"
proof (cases "s < length (st_syms st)")
  case True
  then show ?thesis using assms by (simp add: table_all_def get_upd_sym)
next
  case False
  then have "upd_sym s g st = st" by (simp add: upd_sym_def set_sym_def list_update_beyond)
  then show ?thesis using assms(1) by simp
qed

lemma table_all_flag:
  assumes "table_all Q st" and "\<And>y. sy_body (g y) = sy_body y" and "\<And>y. isCOMDAT (g y) = isCOMDAT y"
  shows "table_all Q (upd_sym s g st)"
  using assms(1) by (rule table_all_upd) (use assms in \<open>simp add: table_allD\<close>)

lemma table_all_replace: "table_all Q st \<Longrightarrow> Q s (sy_body T) (isCOMDAT T) \<Longrightarrow> table_all Q (replace_sym s T st)"
  unfolding replace_sym_def by (erule table_all_upd) (simp add: replaceSymbol_def)

lemma table_all_frames [simp]:
  "table_all Q (reportDuplicate s st) = table_all Q st" "table_all Q (request l st) = table_all Q st"
  "table_all Q (st\<lparr>lazyFiles := fs\<rparr>) = table_all Q st"
  by (simp_all add: table_all_def reportDuplicate_def request_def get_sym_def)

lemma table_all_mark_used: "table_all Q st \<Longrightarrow> table_all Q (mark_used s st)"
  unfolding mark_used_def by (erule table_all_flag) simp_all

lemma new_symbol_COMDAT [simp]: "isCOMDAT (new_symbol n b) = False"
  by (simp add: new_symbol_def)

lemma table_all_insert_file:
  assumes "table_all Q st" and "\<And>i. Q i (Undefined None) False" and "insert_file env n f st = ((s, w), st1)"
  shows "table_all Q st1"
proof -
  obtain st0 where st0: "insert_name env n st = ((s, w), st0)"
    "st1 = st0 \<or> st1 = upd_sym s (\<lambda>y. y\<lparr>isUsedInRegularObj := True\<rparr>) st0"
    using assms(3) by (cases "insert_name env n st") (auto simp: insert_file_def Let_def split: if_splits)
  have "table_all Q st0"
  proof (cases "find st n")
    case None
    then have "st0 = inserted env n st" using st0(1) insert_name_None(1) [OF None, of env] by simp
    then show ?thesis using assms(1,2) insert_name_None(2) [OF None, of env]
      by (auto simp: table_all_def get_sym_def nth_append less_Suc_eq)
  next
    case (Some i)
    then show ?thesis using st0(1) assms(1) by (simp add: insert_name_Some)
  qed
  then show ?thesis using st0(2) by (auto intro: table_all_flag)
qed

lemma table_all_forceLazy: "table_all Q st \<Longrightarrow> table_all Q (forceLazy s st)"
  using table_all_flag [of Q st "\<lambda>y. y\<lparr>pendingArchiveLoad := True\<rparr>" s]
  by (cases "sy_body (get_sym st s)") (auto simp: forceLazy_def Let_def)

lemma table_all_addUndefined:
  assumes "table_all Q st" and "\<And>i. Q i (Undefined None) False"
  shows "table_all Q (snd (addUndefined env n f ov st))"
proof -
  obtain s w st1 where i: "insert_file env n f st = ((s, w), st1)" by (metis prod.exhaust)
  show ?thesis using table_all_insert_file [OF assms i] assms(2)
    by (auto simp: addUndefined_def i Let_def intro: table_all_replace table_all_forceLazy)
qed

lemma table_all_addRegular:
  assumes "table_all Q st" and "\<And>i. Q i (Undefined None) False" and "\<And>i. Q i (DefinedRegular f v c) False"
  shows "table_all Q (snd (addRegular env f n v c weak st))"
proof -
  obtain s w st1 where i: "insert_file env n (Some f) st = ((s, w), st1)" by (metis prod.exhaust)
  show ?thesis using table_all_insert_file [OF assms(1,2) i] assms(3)
    by (auto simp: addRegular_def i Let_def intro: table_all_replace)
qed

lemma table_all_addAbsolute:
  assumes "table_all Q st" and "\<And>i. Q i (Undefined None) False" and "\<And>i. Q i (DefinedAbsolute v) False"
  shows "table_all Q (snd (addAbsolute env n v ext st))"
proof -
  obtain s w st1 where i: "insert_file env n None st = ((s, w), st1)" by (metis prod.exhaust)
  have "table_all Q (replace_sym s ((new_symbol n (DefinedAbsolute v))\<lparr>isExternal := ext\<rparr>) (mark_used s st1))"
    using table_all_insert_file [OF assms(1,2) i] assms(3) by (intro table_all_replace table_all_mark_used) simp_all
  then show ?thesis using table_all_mark_used [OF table_all_insert_file [OF assms(1,2) i], of s]
    by (simp add: addAbsolute_def i Let_def split: symbol_body.splits)
qed

lemma table_all_addCommon:
  assumes "table_all Q st" and "\<And>i. Q i (Undefined None) False" and "\<And>i. Q i (DefinedCommon f sz c) False"
  shows "table_all Q (snd (addCommon env f n sz c st))"
proof -
  obtain s w st1 where i: "insert_file env n (Some f) st = ((s, w), st1)" by (metis prod.exhaust)
  have "table_all Q (replace_sym s (new_symbol n (DefinedCommon f sz c)) st1)"
    using table_all_insert_file [OF assms(1,2) i] assms(3) by (intro table_all_replace) simp_all
  then have "table_all Q (replace_common s f n sz c st1)"
    by (cases c) (auto simp: replace_common_def Let_def table_all_def get_sym_def)
  then show ?thesis using table_all_insert_file [OF assms(1,2) i]
    by (simp add: addCommon_def i Let_def split: symbol_body.splits)
qed

lemma table_all_addComdat:
  assumes "table_all Q st" and "\<And>i. Q i (Undefined None) False"
    and "\<And>i. Q' i (DefinedRegular f v None) True" and "\<And>i b k. Q i b k \<Longrightarrow> Q' i b k"
  shows "table_all Q' (snd (addComdat env f n v st))"
proof -
  obtain s w st1 where i: "insert_file env n (Some f) st = ((s, w), st1)" by (metis prod.exhaust)
  have "table_all Q' st1" using table_all_insert_file [OF assms(1,2) i] assms(4) by (rule table_all_mono)
  then show ?thesis using assms(3) by (auto simp: addComdat_def i Let_def intro: table_all_replace)
qed


section \<open>Links between symbols and sections\<close>

text \<open>A regular symbol points to a section chunk, and a COMDAT leader is the symbol of its chunk.\<close>

definition link :: "(chunk_id \<rightharpoonup> section_chunk) \<Rightarrow> sym_id \<Rightarrow> symbol_body \<Rightarrow> bool \<Rightarrow> bool" where
  "link secs i b comdat \<longleftrightarrow>
     (case b of
        DefinedRegular _ _ (Some c) \<Rightarrow> (\<exists>sc. secs c = Some sc \<and> (comdat \<longrightarrow> sc_sym sc = Some i))
      | _ \<Rightarrow> True)"

lemma link_simps [simp]:
  "link secs i (Undefined t) k" "link secs i (DefinedAbsolute a) k" "link secs i (DefinedCommon f sz d) k"
  "link secs i (DefinedRegular f v (Some c)) k \<longleftrightarrow> (\<exists>sc. secs c = Some sc \<and> (k \<longrightarrow> sc_sym sc = Some i))"
  "link secs i (DefinedRegular f v None) k"
  by (simp_all add: link_def)

text \<open>The chunks a later state still has, with the symbols they had.\<close>

definition keeps :: "(chunk_id \<rightharpoonup> section_chunk) \<Rightarrow> (chunk_id \<rightharpoonup> section_chunk) \<Rightarrow> bool" where
  "keeps secs secs' \<longleftrightarrow> (\<forall>c sc. secs c = Some sc \<longrightarrow> (\<exists>sc'. secs' c = Some sc' \<and> sc_sym sc' = sc_sym sc))"

lemma keeps_refl [simp]: "keeps secs secs"
  by (simp add: keeps_def)

lemma keeps_trans: "keeps a b \<Longrightarrow> keeps b c \<Longrightarrow> keeps a c"
  unfolding keeps_def by metis

lemma keeps_dom: "keeps a b \<Longrightarrow> dom a \<subseteq> dom b"
  unfolding keeps_def by blast

lemma link_mono: "keeps secs secs' \<Longrightarrow> link secs i b k \<Longrightarrow> link secs' i b k"
  unfolding link_def keeps_def by (auto split: symbol_body.splits option.splits) metis+

definition loader_ok :: "loader \<Rightarrow> bool" where
  "loader_ok ld \<longleftrightarrow> wf_symtab (ld_st ld) \<and> table_all (link (ld_secs ld)) (ld_st ld) \<and>
     (\<forall>c \<in> dom (ld_secs ld). c < length (chunks (st_store (ld_st ld)))) \<and> (\<forall>c. SomeChunk c \<in> set (ld_sparse ld) \<longrightarrow> c \<in> dom (ld_secs ld))"

text \<open>Only members of the file change.\<close>

definition same_tables :: "loader \<Rightarrow> loader \<Rightarrow> bool" where
  "same_tables ld ld' \<longleftrightarrow> ld_st ld' = ld_st ld \<and> ld_secs ld' = ld_secs ld \<and> ld_sparse ld' = ld_sparse ld"

lemma same_tables_ok: "same_tables ld ld' \<Longrightarrow> loader_ok ld' = loader_ok ld"
  by (simp add: same_tables_def loader_ok_def)

lemma upd_sec_st [simp]: "ld_st (upd_sec c g ld) = ld_st ld" "ld_sparse (upd_sec c g ld) = ld_sparse ld"
    "ld_symbols (upd_sec c g ld) = ld_symbols ld" "ld_diags (upd_sec c g ld) = ld_diags ld" "dom (ld_secs (upd_sec c g ld)) = dom (ld_secs ld)"
  by (auto simp: upd_sec_def split: option.splits)

lemma keeps_upd_sec: "(\<And>sc. sc_sym (g sc) = sc_sym sc) \<Longrightarrow> keeps (ld_secs ld) (ld_secs (upd_sec c g ld))"
  by (auto simp: keeps_def upd_sec_def split: option.splits)

lemma loader_ok_upd_sec:
  assumes "loader_ok ld" and "\<And>sc. sc_sym (g sc) = sc_sym sc"
  shows "loader_ok (upd_sec c g ld)"
proof -
  have "table_all (link (ld_secs (upd_sec c g ld))) (ld_st ld)"
    using assms(1) link_mono [OF keeps_upd_sec [of g ld c, OF assms(2)]] unfolding loader_ok_def
    by (blast intro: table_all_mono)
  then show ?thesis using assms(1) unfolding loader_ok_def by simp
qed

lemma loader_ok_new_chunk:
  assumes "loader_ok ld" and "new_SectionChunk env f n h k ld = (c, ld')"
  shows "loader_ok ld' \<and> c = length (chunks (st_store (ld_st ld))) \<and> c \<notin> dom (ld_secs ld) \<and> c \<in> dom (ld_secs ld') \<and>
    (\<forall>j. j \<noteq> c \<longrightarrow> ld_secs ld' j = ld_secs ld j) \<and> st_syms (ld_st ld') = st_syms (ld_st ld) \<and> symMap (ld_st ld') = symMap (ld_st ld) \<and>
    ld_sparse ld' = ld_sparse ld \<and> ld_symbols ld' = ld_symbols ld"
proof -
  have c: "c = length (chunks (st_store (ld_st ld)))" and ld': "st_syms (ld_st ld') = st_syms (ld_st ld)" "symMap (ld_st ld') = symMap (ld_st ld)"
    "length (chunks (st_store (ld_st ld'))) = Suc c" "dom (ld_secs ld') = insert c (dom (ld_secs ld))"
    "\<forall>j. j \<noteq> c \<longrightarrow> ld_secs ld' j = ld_secs ld j" "ld_sparse ld' = ld_sparse ld" "ld_symbols ld' = ld_symbols ld"
    using assms(2) by (auto simp: new_SectionChunk_def Let_def)
  have new: "c \<notin> dom (ld_secs ld)" using assms(1) c by (auto simp: loader_ok_def)
  then have "keeps (ld_secs ld) (ld_secs ld')" unfolding keeps_def using ld'(5) by (metis domI)
  then have "table_all (link (ld_secs ld')) (ld_st ld')"
    using assms(1) link_mono unfolding loader_ok_def table_all_cong [OF ld'(1)] by (blast intro: table_all_mono)
  moreover have "wf_symtab (ld_st ld')" using assms(1) ld'(1,2) by (simp add: loader_ok_def wf_symtab_def get_sym_def)
  moreover have "\<forall>j \<in> dom (ld_secs ld'). j < length (chunks (st_store (ld_st ld')))"
    using assms(1) c unfolding ld'(3,4) loader_ok_def by (simp add: less_SucI)
  moreover have "\<forall>j. SomeChunk j \<in> set (ld_sparse ld') \<longrightarrow> j \<in> dom (ld_secs ld')"
    using assms(1) unfolding ld'(4,6) loader_ok_def by blast
  ultimately have "loader_ok ld'" by (simp add: loader_ok_def)
  then show ?thesis using c new ld' by simp
qed

text \<open>Reading a section changes neither the symbols nor the chunks there were.\<close>

lemma file_chunk_tables: "same_tables ld (file_chunk env f h l c ld)" "ld_sparse (file_chunk env f h l c ld) = ld_sparse ld"
    "ld_symbols (file_chunk env f h l c ld) = ld_symbols ld" "ld_diags (file_chunk env f h l c ld) = ld_diags ld"
  by (simp_all add: file_chunk_def same_tables_def Let_def)

definition reads :: "loader \<Rightarrow> chunk_id option \<Rightarrow> loader \<Rightarrow> bool" where
  "reads ld c ld' \<longleftrightarrow> st_syms (ld_st ld') = st_syms (ld_st ld) \<and> symMap (ld_st ld') = symMap (ld_st ld) \<and>
     ld_sparse ld' = ld_sparse ld \<and> ld_symbols ld' = ld_symbols ld \<and> ld_diags ld' = ld_diags ld \<and> diags (ld_st ld') = diags (ld_st ld) \<and>
     (\<forall>j. Some j \<noteq> c \<longrightarrow> ld_secs ld' j = ld_secs ld j) \<and> (\<forall>j. c = Some j \<longrightarrow> j \<notin> dom (ld_secs ld) \<and> j \<in> dom (ld_secs ld'))"

lemma readSection_reads:
  assumes "loader_ok ld" and "readSection env f n def l ld = (c, ld')"
  shows "loader_ok ld' \<and> reads ld c ld'"
proof (cases c)
  case None
  then have "same_tables ld ld'" "ld_sparse ld' = ld_sparse ld" "ld_symbols ld' = ld_symbols ld" "ld_diags ld' = ld_diags ld"
    using assms(2) by (auto simp: readSection_def same_tables_def Let_def split: if_splits prod.splits)
  then show ?thesis using assms(1) None by (simp add: same_tables_ok reads_def) (simp add: same_tables_def)
next
  case (Some i)
  let ?h = "getSection env f n" and ?k = "if isArm64EC (co_machine (obj_of env f)) then SectionECKind else SectionKind"
  obtain ld1 where n: "new_SectionChunk env f n ?h ?k ld = (i, ld1)"
    "ld' = file_chunk env f ?h l i (case def of Some d \<Rightarrow> upd_sec i (\<lambda>sc. sc\<lparr>sc_checksum := sd_CheckSum d\<rparr>) ld1 | None \<Rightarrow> ld1)"
    using assms(2) Some by (auto simp: readSection_def Let_def split: if_splits prod.splits)
  note ok = loader_ok_new_chunk [OF assms(1) n(1)]
  define ld2 where "ld2 = (case def of Some d \<Rightarrow> upd_sec i (\<lambda>sc. sc\<lparr>sc_checksum := sd_CheckSum d\<rparr>) ld1 | None \<Rightarrow> ld1)"
  have ok2: "loader_ok ld2" using ok by (auto simp: ld2_def intro!: loader_ok_upd_sec split: option.splits)
  have d1: "ld_diags ld1 = ld_diags ld" "diags (ld_st ld1) = diags (ld_st ld)" using n(1) by (auto simp: new_SectionChunk_def Let_def)
  have e2: "ld_st ld2 = ld_st ld1" "ld_sparse ld2 = ld_sparse ld1" "ld_symbols ld2 = ld_symbols ld1" "ld_diags ld2 = ld_diags ld1"
    "dom (ld_secs ld2) = dom (ld_secs ld1)" by (simp_all add: ld2_def split: option.splits)
  have e3: "\<forall>j. j \<noteq> i \<longrightarrow> ld_secs ld2 j = ld_secs ld1 j" by (auto simp: ld2_def upd_sec_def split: option.splits)
  have ld': "ld' = file_chunk env f ?h l i ld2" using n(2) by (simp add: ld2_def)
  show ?thesis using ok ok2 d1 e2 e3 file_chunk_tables [where ld = ld2 and env = env and f = f and h = "?h" and l = l and c = i] Some
    by (auto simp: same_tables_ok reads_def ld') (auto simp: same_tables_def)
qed

section \<open>Every operation keeps the links\<close>

lemma upd_sym_chunks [simp]: "chunks (st_store (upd_sym s g st)) = chunks (st_store st)"
  by (simp add: upd_sym_def set_sym_def)

lemma st_frames [simp]:
  "st_store (reportDuplicate s st) = st_store st" "st_store (request l st) = st_store st"
  "chunks (st_store (replace_sym s T st)) = chunks (st_store st)" "chunks (st_store (mark_used s st)) = chunks (st_store st)"
  by (simp_all add: reportDuplicate_def request_def replace_sym_def mark_used_def)

lemma insert_file_chunks:
  assumes "insert_file env n f st = ((s, w), st1)"
  shows "chunks (st_store st1) = chunks (st_store st)"
  using assms by (auto simp: insert_file_def insert_name_def Let_def split: option.splits if_splits)

lemma forceLazy_chunks [simp]: "chunks (st_store (forceLazy s st)) = chunks (st_store st)"
  by (cases "sy_body (get_sym st s)") (simp_all add: forceLazy_def Let_def)

lemma add_chunks [simp]:
  "chunks (st_store (snd (addUndefined env n g ov st))) = chunks (st_store st)"
  "chunks (st_store (snd (addRegular env f n v c weak st))) = chunks (st_store st)"
  "chunks (st_store (snd (addAbsolute env n a ext st))) = chunks (st_store st)"
  "chunks (st_store (snd (addComdat env f n v st))) = chunks (st_store st)"
  "length (chunks (st_store (snd (addCommon env f n sz d st)))) = length (chunks (st_store st))"
proof -
  show "chunks (st_store (snd (addUndefined env n g ov st))) = chunks (st_store st)"
    using insert_file_chunks by (cases "insert_file env n g st") (fastforce simp: addUndefined_def Let_def)
  show "chunks (st_store (snd (addRegular env f n v c weak st))) = chunks (st_store st)"
    "chunks (st_store (snd (addComdat env f n v st))) = chunks (st_store st)"
    using insert_file_chunks by (cases "insert_file env n (Some f) st"; fastforce simp: addRegular_def addComdat_def Let_def)+
  show "chunks (st_store (snd (addAbsolute env n a ext st))) = chunks (st_store st)"
    using insert_file_chunks by (cases "insert_file env n None st") (fastforce simp: addAbsolute_def Let_def split: symbol_body.splits)
  have "length (chunks (st_store (replace_common s f n sz d st1))) = length (chunks (st_store st1))" for s st1
    by (cases d) (simp_all add: replace_common_def Let_def)
  then show "length (chunks (st_store (snd (addCommon env f n sz d st)))) = length (chunks (st_store st))"
    using insert_file_chunks by (cases "insert_file env n (Some f) st") (fastforce simp: addCommon_def Let_def split: symbol_body.splits)
qed

text \<open>An operation on the table inside the loader.\<close>

lemma loader_ok_table:
  assumes "loader_ok ld" and "good_step (ld_st ld) st'" and "table_all (link (ld_secs ld)) st'"
    and "length (chunks (st_store st')) = length (chunks (st_store (ld_st ld)))"
  shows "loader_ok (ld\<lparr>ld_st := st'\<rparr>)"
  using assms by (simp add: loader_ok_def good_step_def)

lemma with_table_ok:
  assumes "loader_ok ld" and "good_step (ld_st ld) (snd (g (ld_st ld)))" and "table_all (link (ld_secs ld)) (snd (g (ld_st ld)))"
    and "length (chunks (st_store (snd (g (ld_st ld))))) = length (chunks (st_store (ld_st ld)))"
  shows "loader_ok (snd (with_table g ld))"
  using loader_ok_table [OF assms] by (simp add: with_table_def Let_def case_prod_unfold)

lemma with_table_frame [simp]:
  "ld_secs (snd (with_table g ld)) = ld_secs ld" "ld_sparse (snd (with_table g ld)) = ld_sparse ld"
  "ld_symbols (snd (with_table g ld)) = ld_symbols ld" "ld_st (snd (with_table g ld)) = snd (g (ld_st ld))"
  "fst (with_table g ld) = fst (g (ld_st ld))"
  by (simp_all add: with_table_def Let_def case_prod_unfold)

lemma loader_ok_links: "loader_ok ld \<Longrightarrow> table_all (link (ld_secs ld)) (ld_st ld)"
  by (simp add: loader_ok_def)

lemma undefined_ok: "loader_ok ld \<Longrightarrow> loader_ok (snd (with_table (addUndefined env n g ov) ld))"
  by (rule with_table_ok) (simp_all add: good_addUndefined table_all_addUndefined loader_ok_links)

lemma regular_ok:
  assumes "loader_ok ld" and "c \<in> dom (ld_secs ld)"
  shows "loader_ok (snd (with_table (addRegular env f n v (Some c) w) ld))"
  using assms(1)
  by (rule with_table_ok) (use assms(2) in \<open>auto simp: good_addRegular loader_ok_links assms(1) intro!: table_all_addRegular\<close>)

lemma new_local_frame [simp]:
  "ld_secs (snd (new_local y ld)) = ld_secs ld" "ld_sparse (snd (new_local y ld)) = ld_sparse ld"
  "ld_symbols (snd (new_local y ld)) = ld_symbols ld" "fst (new_local y ld) = length (st_syms (ld_st ld))"
  "st_syms (ld_st (snd (new_local y ld))) = st_syms (ld_st ld) @ [y]" "symMap (ld_st (snd (new_local y ld))) = symMap (ld_st ld)"
  "chunks (st_store (ld_st (snd (new_local y ld)))) = chunks (st_store (ld_st ld))"
  by (simp_all add: new_local_def Let_def)

lemma new_local_ok:
  assumes "loader_ok ld" and "link (ld_secs ld) (length (st_syms (ld_st ld))) (sy_body y) (isCOMDAT y)"
  shows "loader_ok (snd (new_local y ld))"
  using assms by (auto simp: loader_ok_def wf_symtab_def table_all_def get_sym_def nth_append less_Suc_eq list_all_iff)

lemma local_symbol_simps [simp]: "sy_body (local_symbol f v c) = DefinedRegular f v c" "isCOMDAT (local_symbol f v c) = False"
  by (simp_all add: local_symbol_def)

lemma set_sparse_ok: "loader_ok ld \<Longrightarrow> (\<And>c. x = SomeChunk c \<Longrightarrow> c \<in> dom (ld_secs ld)) \<Longrightarrow> loader_ok (set_sparse n x ld)"
  by (auto simp: loader_ok_def set_sparse_def dest!: set_update_subset_insert [THEN subsetD])

lemma set_symbol_ok [simp]: "loader_ok (set_symbol i x ld) = loader_ok ld"
  by (rule same_tables_ok) (simp add: same_tables_def set_symbol_def)

lemma sparse_chunk_known:
  assumes "loader_ok ld" and "n < length (ld_sparse ld)" and "ld_sparse ld ! n = SomeChunk c"
  shows "c \<in> dom (ld_secs ld)"
  using assms unfolding loader_ok_def by (metis nth_mem)

lemma createRegular_ok:
  assumes "loader_ok ld" and "nat (cy_SectionNumber s) < length (ld_sparse ld)"
  shows "loader_ok (snd (createRegular env f s ld))"
proof (cases "ld_sparse ld ! nat (cy_SectionNumber s)")
  case (SomeChunk c)
  then have c: "c \<in> dom (ld_secs ld)" by (rule sparse_chunk_known [OF assms])
  then show ?thesis using SomeChunk regular_ok [OF assms(1) c] new_local_ok [OF assms(1)]
    by (auto simp: createRegular_def Let_def case_prod_unfold)
qed (simp_all add: createRegular_def Let_def case_prod_unfold assms(1) undefined_ok)

lemma createRegular_frame [simp]:
  "ld_secs (snd (createRegular env f s ld)) = ld_secs ld" "ld_sparse (snd (createRegular env f s ld)) = ld_sparse ld"
  "ld_symbols (snd (createRegular env f s ld)) = ld_symbols ld"
  by (cases "ld_sparse ld ! nat (cy_SectionNumber s)"; simp add: createRegular_def Let_def case_prod_unfold)+

text \<open>Setting an alias of a symbol that is not defined.\<close>

lemma good_undefine:
  assumes "i < length (st_syms st) \<Longrightarrow> \<not> is_Defined (sy_body (get_sym st i))"
    and "\<And>y. sy_name (g y) = sy_name y" and "\<And>y. \<not> is_Defined (sy_body (g y))"
  shows "good_step st (upd_sym i g st)"
proof (cases "i < length (st_syms st)")
  case True
  then show ?thesis using assms not_defined_not_strong [of "get_sym st i"] by (intro good_upd) (simp add: slot_le_def)
next
  case False
  then have "upd_sym i g st = st" by (simp add: upd_sym_def set_sym_def list_update_beyond)
  then show ?thesis by simp
qed

lemma addUndefined_not_defined:
  assumes "i < length (st_syms st) \<Longrightarrow> \<not> is_Defined (sy_body (get_sym st i))"
    and "i < length (st_syms (snd (addUndefined env n g ov st)))"
  shows "\<not> is_Defined (sy_body (get_sym (snd (addUndefined env n g ov st)) i))"
proof -
  have "table_all (\<lambda>j b _. j = i \<longrightarrow> \<not> is_Defined b) (snd (addUndefined env n g ov st))"
    using assms(1) by (intro table_all_addUndefined) (auto simp: table_all_def)
  then show ?thesis using assms(2) by (auto simp: table_all_def)
qed

lemma createUndefined_ok: "loader_ok ld \<Longrightarrow> loader_ok (snd (createUndefined env f s ov ld))"
proof -
  assume ok: "loader_ok ld"
  let ?ld1 = "snd (with_table (addUndefined (oe_st env) (cy_name s) (Some f) ov) ld)"
  let ?i = "fst (addUndefined (oe_st env) (cy_name s) (Some f) ov (ld_st ld))"
  have ok1: "loader_ok ?ld1" by (rule undefined_ok [OF ok])
  have "loader_ok (ld2\<lparr>ld_st := upd_sym ?i (setWeakAlias m True) (ld_st ld2)\<rparr>)"
    if "no_alias (sy_body (get_sym (ld_st ?ld1) ?i))" "ld2 = snd (with_table (addUndefined (oe_st env) n (Some f) False) ?ld1)" for n m ld2
  proof (rule loader_ok_table)
    show "loader_ok ld2" unfolding that(2) by (rule undefined_ok [OF ok1])
    then show "table_all (link (ld_secs ld2)) (upd_sym ?i (setWeakAlias m True) (ld_st ld2))"
      by (intro table_all_upd loader_ok_links) (simp_all add: setWeakAlias_def)
    have "\<not> is_Defined (sy_body (get_sym (ld_st ?ld1) ?i))" using that(1) by (simp add: no_alias_def)
    then show "good_step (ld_st ld2) (upd_sym ?i (setWeakAlias m True) (ld_st ld2))"
      unfolding that(2) using addUndefined_not_defined [of ?i "ld_st ?ld1" "oe_st env" n "Some f" False]
      by (intro good_undefine) (simp_all add: setWeakAlias_def)
  qed simp
  then show ?thesis using ok1 by (auto simp: createUndefined_def Let_def case_prod_unfold split: option.splits)
qed

lemma createUndefined_frame [simp]:
  "ld_secs (snd (createUndefined env f s ov ld)) = ld_secs ld" "ld_sparse (snd (createUndefined env f s ov ld)) = ld_sparse ld"
  "ld_symbols (snd (createUndefined env f s ov ld)) = ld_symbols ld"
  by (auto simp: createUndefined_def Let_def case_prod_unfold split: option.splits)

lemma create_common_ok:
  assumes "loader_ok ld"
  shows "loader_ok (snd (create_common env f s ld))" "ld_sparse (snd (create_common env f s ld)) = ld_sparse ld"
    "ld_symbols (snd (create_common env f s ld)) = ld_symbols ld"
proof -
  let ?st = "ld_st ld" and ?c = "length (chunks (st_store (ld_st ld)))"
  have ok: "loader_ok (ld\<lparr>ld_st := ?st\<lparr>st_store := (st_store ?st)\<lparr>chunks := chunks (st_store ?st) @ [ck]\<rparr>\<rparr>, ld_chunks := cs\<rparr>)" for ck cs
    using assms by (auto simp: loader_ok_def wf_symtab_def table_all_def get_sym_def less_SucI)
  show "loader_ok (snd (create_common env f s ld))"
    unfolding create_common_def Let_def
    by (rule with_table_ok [OF ok]) (use loader_ok_links [OF ok] in \<open>auto simp: good_addCommon intro!: table_all_addCommon\<close>)
qed (simp_all add: create_common_def Let_def)

lemma create_absolute_ok:
  assumes "loader_ok ld"
  shows "loader_ok (snd (create_absolute env s ld))" "ld_sparse (snd (create_absolute env s ld)) = ld_sparse ld"
    "ld_symbols (snd (create_absolute env s ld)) = ld_symbols ld"
proof -
  define ld1 where "ld1 = (if cy_name s = ''@feat.00'' then ld\<lparr>ld_feat00Flags := cy_Value s\<rparr> else ld)"
  have "same_tables ld ld1" and l1: "ld_sparse ld1 = ld_sparse ld" "ld_symbols ld1 = ld_symbols ld" by (simp_all add: ld1_def same_tables_def)
  then have ok: "loader_ok ld1" using assms by (simp add: same_tables_ok)
  have "loader_ok (snd (with_table (addAbsolute (oe_st env) n v b) ld1))" for n v b
    using ok by (rule with_table_ok) (simp_all add: good_addAbsolute table_all_addAbsolute loader_ok_links ok)
  moreover have "loader_ok (snd (new_local ((new_symbol n (DefinedAbsolute v))\<lparr>isExternal := False\<rparr>) ld1))" for n v
    using ok by (rule new_local_ok) simp
  ultimately show "loader_ok (snd (create_absolute env s ld))" using ok
    by (simp add: create_absolute_def Let_def case_prod_unfold ld1_def [symmetric])
  show "ld_sparse (snd (create_absolute env s ld)) = ld_sparse ld" "ld_symbols (snd (create_absolute env s ld)) = ld_symbols ld"
    using l1 by (simp_all add: create_absolute_def Let_def case_prod_unfold ld1_def [symmetric])
qed

lemma create_empty_section_ok:
  assumes "loader_ok ld"
  shows "loader_ok (snd (create_empty_section env f s ld))" "ld_sparse (snd (create_empty_section env f s ld)) = ld_sparse ld"
    "ld_symbols (snd (create_empty_section env f s ld)) = ld_symbols ld"
proof -
  let ?h = "\<lparr>cs_name = take 8 (cy_name s), cs_Characteristics = (if cy_Value s \<noteq> 0 then cy_Value s OR 0x300000 else 0xC0300040),
                 cs_SizeOfRawData = 0, cs_NumberOfRelocations = 0, cs_contents = []\<rparr>"
  obtain c ld1 where n: "new_SectionChunk env f 0 ?h SectionKind ld = (c, ld1)" by fastforce
  note ok = loader_ok_new_chunk [OF assms n]
  let ?ld2 = "ld1\<lparr>ld_chunks := ld_chunks ld1 @ [c]\<rparr>"
  have e: "create_empty_section env f s ld = new_local (local_symbol f 0 (Some c)) ?ld2"
    unfolding create_empty_section_def Let_def n by simp
  have "same_tables ld1 ?ld2" by (simp add: same_tables_def)
  then have "loader_ok ?ld2" using ok by (simp add: same_tables_ok)
  then show "loader_ok (snd (create_empty_section env f s ld))" unfolding e by (rule new_local_ok) (use ok in auto)
  show "ld_sparse (snd (create_empty_section env f s ld)) = ld_sparse ld" "ld_symbols (snd (create_empty_section env f s ld)) = ld_symbols ld"
    unfolding e using ok by simp_all
qed

section \<open>COMDAT leaders\<close>

lemma wf_upd_sym:
  assumes "wf_symtab st" and "i < length (st_syms st) \<Longrightarrow> sy_name (g (get_sym st i)) = sy_name (get_sym st i)"
  shows "wf_symtab (upd_sym i g st)"
proof (cases "i < length (st_syms st)")
  case True
  then show ?thesis using assms by (auto simp: wf_symtab_def get_upd_sym list_all_iff)
next
  case False
  then have "upd_sym i g st = st" by (simp add: upd_sym_def set_sym_def list_update_beyond)
  then show ?thesis using assms(1) by simp
qed

lemma loader_ok_wf:
  assumes "loader_ok ld" and "wf_symtab st'" and "table_all (link (ld_secs ld)) st'"
    and "length (chunks (st_store st')) = length (chunks (st_store (ld_st ld)))"
  shows "loader_ok (ld\<lparr>ld_st := st'\<rparr>)"
  using assms by (simp add: loader_ok_def)

lemma addComdat_leader:
  assumes "wf_symtab st" and "addComdat env f n v st = ((s, p), st')"
  shows "s < length (st_syms st') \<and> sy_name (get_sym st' s) = n"
proof -
  obtain s0 w st1 where i: "insert_file env n (Some f) st = ((s0, w), st1)" by (metis prod.exhaust)
  note g = insert_file_good [OF i assms(1)]
  have "s = s0" "st' = replace_sym s (regular_symbol f n True v None False) st1 \<or> st' = st1 \<or> st' = reportDuplicate s st1"
    using assms(2) by (auto simp: addComdat_def i Let_def split: if_splits)
  then show ?thesis using g(5,6)
    by (auto simp: replace_sym_def get_upd_sym replaceSymbol_def reportDuplicate_def get_sym_def [of "_\<lparr>diags := _\<rparr>"] simp flip: get_sym_def)
qed

text \<open>What the selection leaves: the tables are in order, and only the leader's symbol may have been replaced.\<close>

lemma handleComdatSelection_ok:
  assumes "loader_ok ld" and "leader < length (st_syms (ld_st ld))" and "sy_name (get_sym (ld_st ld) leader) = cy_name s"
    and "handleComdatSelection env f s selection prevailing leader def ld = Inr (sel, prevails, ld')"
  shows "loader_ok ld' \<and> ld_secs ld' = ld_secs ld \<and> ld_sparse ld' = ld_sparse ld \<and> ld_symbols ld' = ld_symbols ld \<and>
    leader < length (st_syms (ld_st ld')) \<and> sy_name (get_sym (ld_st ld') leader) = cy_name s"
proof -
  let ?T = "regular_symbol f (cy_name s) True (cy_Value s) None False"
  have "ld' = ld \<or> ld' = ld\<lparr>ld_st := reportDuplicate leader (ld_st ld)\<rparr> \<or> ld' = ld\<lparr>ld_st := replace_sym leader ?T (ld_st ld)\<rparr>"
    using assms(4) by (auto simp: handleComdatSelection_def Let_def case_prod_unfold split: if_splits option.splits comdat_outcome.splits)
  then consider "ld' = ld" | "ld' = ld\<lparr>ld_st := reportDuplicate leader (ld_st ld)\<rparr>" | "ld' = ld\<lparr>ld_st := replace_sym leader ?T (ld_st ld)\<rparr>"
    by blast
  then show ?thesis
  proof cases
    case 1
    then show ?thesis using assms by simp
  next
    case 2
    have "loader_ok ld'" unfolding 2
      by (rule loader_ok_table [OF assms(1) good_report [OF good_refl]]) (simp_all add: loader_ok_links [OF assms(1)])
    then show ?thesis using assms(2,3) by (simp add: 2 reportDuplicate_def get_sym_def)
  next
    case 3
    have "wf_symtab (replace_sym leader ?T (ld_st ld))" unfolding replace_sym_def
      using assms(1,3) by (intro wf_upd_sym) (simp_all add: loader_ok_def replaceSymbol_def)
    moreover have "table_all (link (ld_secs ld)) (replace_sym leader ?T (ld_st ld))"
      by (rule table_all_replace [OF loader_ok_links [OF assms(1)]]) simp
    ultimately have "loader_ok ld'" unfolding 3 by (intro loader_ok_wf [OF assms(1)]) simp_all
    then show ?thesis using assms(2) by (simp add: 3 replace_sym_def get_upd_sym replaceSymbol_def)
  qed
qed

text \<open>A prevailing leader gets its chunk, and the chunk its leader.\<close>

lemma prevail_ok:
  assumes "loader_ok ld" and "leader < length (st_syms (ld_st ld))" and "readSection env f n (Some def) l ld = (Some i, ld3)"
  shows "loader_ok ((upd_sec i (\<lambda>sc. sc\<lparr>sc_sym := Some leader, sc_selection := sel\<rparr>) (set_sparse n (sparse_of (Some i)) ld3))\<lparr>
    ld_st := upd_sym leader (\<lambda>y. y\<lparr>sy_body := DefinedRegular (dr_file (sy_body y)) (dr_value (sy_body y)) (Some i)\<rparr>) (ld_st ld3)\<rparr>)"
    (is "loader_ok (?ld5\<lparr>ld_st := upd_sym leader ?g (ld_st ld3)\<rparr>)")
proof -
  note r = readSection_reads [OF assms(1,3)]
  have ri: "i \<notin> dom (ld_secs ld)" "i \<in> dom (ld_secs ld3)" "\<forall>j. j \<noteq> i \<longrightarrow> ld_secs ld3 j = ld_secs ld j" "st_syms (ld_st ld3) = st_syms (ld_st ld)"
    using r by (auto simp: reads_def)
  obtain sc where sc: "ld_secs ld3 i = Some sc" using ri(2) by blast
  have secs: "ld_secs ?ld5 = (ld_secs ld3)(i \<mapsto> sc\<lparr>sc_sym := Some leader, sc_selection := sel\<rparr>)"
    by (simp add: upd_sec_def set_sparse_def sc)
  have k: "keeps (ld_secs ld) (ld_secs ?ld5)" unfolding keeps_def secs using ri(1,3) by (metis domI fun_upd_apply)
  have "table_all (link (ld_secs ld)) (ld_st ld3)" using loader_ok_links [OF assms(1)] unfolding table_all_cong [OF ri(4)] .
  then have "table_all (link (ld_secs ?ld5)) (ld_st ld3)" using link_mono [OF k] by (rule table_all_mono)
  then have t: "table_all (link (ld_secs ?ld5)) (upd_sym leader ?g (ld_st ld3))"
    by (rule table_all_upd) (simp add: secs)
  have w: "wf_symtab (upd_sym leader ?g (ld_st ld3))" using r by (intro wf_upd_sym) (simp_all add: loader_ok_def)
  have st5: "ld_st ?ld5 = ld_st ld3" "dom (ld_secs ?ld5) = dom (ld_secs ld3)" by (simp_all add: set_sparse_def)
  have "\<forall>c. SomeChunk c \<in> set (ld_sparse ?ld5) \<longrightarrow> c \<in> dom (ld_secs ?ld5)"
    using r ri(2) unfolding st5 loader_ok_def by (auto simp: set_sparse_def sparse_of_def dest!: set_update_subset_insert [THEN subsetD])
  then show ?thesis using r t w st5 unfolding loader_ok_def by simp
qed

lemma set_sparse_frame [simp]:
  "length (ld_sparse (set_sparse n x ld)) = length (ld_sparse ld)" "ld_st (set_sparse n x ld) = ld_st ld" "ld_secs (set_sparse n x ld) = ld_secs ld"
  "ld_symbols (set_sparse n x ld) = ld_symbols ld"
  by (simp_all add: set_sparse_def)

text \<open>The leader of an external symbol is the slot of its name.\<close>

lemma leader_slot:
  assumes "loader_ok ld"
    and "leader_of env f s ld = ((leader, prevailing), ld1)"
  shows "loader_ok ld1 \<and> ld_secs ld1 = ld_secs ld \<and> ld_sparse ld1 = ld_sparse ld \<and> ld_symbols ld1 = ld_symbols ld \<and>
    leader < length (st_syms (ld_st ld1)) \<and> (isCOMDAT (get_sym (ld_st ld1) leader) \<longrightarrow> sy_name (get_sym (ld_st ld1) leader) = cy_name s)"
proof (cases "sym_isExternal s")
  case True
  let ?g = "addComdat (oe_st env) f (cy_name s) (cy_Value s)"
  have e: "with_table ?g ld = ((leader, prevailing), ld1)" using assms(2) True by (simp add: leader_of_def)
  have ld1: "ld1 = snd (with_table ?g ld)" "(leader, prevailing) = fst (?g (ld_st ld))" using e by (metis snd_conv, metis fst_conv with_table_frame(5))
  have t: "table_all (link (ld_secs ld)) (snd (?g (ld_st ld)))"
    by (rule table_all_addComdat [OF loader_ok_links [OF assms(1)]]) simp_all
  have "loader_ok ld1" unfolding ld1(1)
    by (rule with_table_ok [OF assms(1)]) (use t in \<open>simp_all add: good_addComdat\<close>)
  moreover have "leader < length (st_syms (ld_st ld1)) \<and> sy_name (get_sym (ld_st ld1) leader) = cy_name s"
    by (rule addComdat_leader [of "ld_st ld" "oe_st env" f _ "cy_Value s" leader prevailing])
      (use assms(1) ld1 in \<open>auto simp: loader_ok_def\<close>)
  ultimately show ?thesis by (simp add: ld1(1))
next
  case False
  let ?y = "local_symbol f (cy_Value s) None"
  have l: "ld1 = snd (new_local ?y ld)" "leader = length (st_syms (ld_st ld))"
    using assms(2) False by (auto simp: leader_of_def Let_def case_prod_unfold)
  have "loader_ok ld1" unfolding l(1) using assms(1) by (rule new_local_ok) simp
  moreover have "get_sym (ld_st ld1) leader = ?y" by (simp add: l get_sym_def)
  ultimately show ?thesis by (simp add: l(1)) (simp add: l(2))
qed

lemma create_leader_ok:
  assumes "loader_ok ld" and "create_leader env f s def ld = Inr (y, prevailing, ld')"
  shows "loader_ok ld' \<and> length (ld_sparse ld') = length (ld_sparse ld) \<and> ld_symbols ld' = ld_symbols ld"
proof -
  let ?n = "nat (cy_SectionNumber s)"
  obtain leader p ld1 where l: "leader_of env f s ld = ((leader, p), ld1)" by (metis prod.exhaust)
  note slot = leader_slot [OF assms(1) l]
  obtain selection sel prevails ld2 where sel: "comdat_type (sd_Selection def) = Some selection"
    "(if isCOMDAT (get_sym (ld_st ld1) leader) then handleComdatSelection env f s selection p leader def ld1
      else Inr (selection, p, ld1)) = Inr (sel, prevails, ld2)"
    using assms(2) by (auto simp: create_leader_def Let_def l split: option.splits sum.splits if_splits)
  have h: "loader_ok ld2 \<and> ld_sparse ld2 = ld_sparse ld \<and> ld_symbols ld2 = ld_symbols ld \<and> leader < length (st_syms (ld_st ld2))"
    using sel(2) slot handleComdatSelection_ok [of ld1 leader s env f selection p def sel prevails ld2]
    by (cases "isCOMDAT (get_sym (ld_st ld1) leader)") simp_all
  show ?thesis
  proof (cases prevails)
    case False
    then have "ld' = set_sparse ?n NullChunk ld2" using assms(2) l sel by (simp add: create_leader_def Let_def)
    then show ?thesis using h by (auto intro: set_sparse_ok)
  next
    case True
    obtain c ld3 where r: "readSection env f ?n (Some def) (cy_name s) ld2 = (c, ld3)" by fastforce
    note rd = readSection_reads [OF conjunct1 [OF h] r]
    show ?thesis
    proof (cases c)
      case None
      then have "ld' = set_sparse ?n NullChunk ld3" using assms(2) l sel True r by (simp add: create_leader_def Let_def sparse_of_def)
      then show ?thesis using h rd by (auto simp: reads_def intro: set_sparse_ok)
    next
      case (Some i)
      then have "ld' = (upd_sec i (\<lambda>sc. sc\<lparr>sc_sym := Some leader, sc_selection := Some sel\<rparr>) (set_sparse ?n (sparse_of (Some i)) ld3))\<lparr>
          ld_st := upd_sym leader (\<lambda>y. y\<lparr>sy_body := DefinedRegular (dr_file (sy_body y)) (dr_value (sy_body y)) (Some i)\<rparr>) (ld_st ld3)\<rparr>"
        using assms(2) l sel True r by (auto simp: create_leader_def Let_def)
      then show ?thesis using prevail_ok [of ld2 leader env f ?n def "cy_name s" i ld3 "Some sel"] r Some h rd by (simp add: reads_def)
    qed
  qed
qed

lemma createDefined_ok:
  assumes "loader_ok ld" and "createDefined env f s defs ld = Inr (y, prevailing, defs', ld')"
  shows "loader_ok ld' \<and> length (ld_sparse ld') = length (ld_sparse ld) \<and> ld_symbols ld' = ld_symbols ld"
  using assms(2) createRegular_ok [OF assms(1), of s env f] create_leader_ok [OF assms(1), of env f s] create_common_ok [OF assms(1), of env f s]
    create_absolute_ok [OF assms(1), of env s] create_empty_section_ok [OF assms(1), of env f s] assms(1)
  unfolding createDefined_def Let_def case_prod_unfold
  by (auto split: if_splits option.splits sum.splits)

section \<open>The whole file\<close>

lemma addAssociative_ok:
  assumes "loader_ok ld"
  shows "loader_ok (addAssociative p c ld)" and "ld_sparse (addAssociative p c ld) = ld_sparse ld" "ld_symbols (addAssociative p c ld) = ld_symbols ld"
    "dom (ld_secs (addAssociative p c ld)) = dom (ld_secs ld)"
proof -
  obtain prev nx where a: "addAssociative p c ld =
      upd_sec c (\<lambda>sc. sc\<lparr>sc_assocChildren := nx\<rparr>) (upd_sec prev (\<lambda>sc. sc\<lparr>sc_assocChildren := Some c\<rparr>) ld)"
    by (simp add: addAssociative_def Let_def case_prod_unfold)
  show "loader_ok (addAssociative p c ld)" unfolding a using assms by (intro loader_ok_upd_sec) simp_all
  show "ld_sparse (addAssociative p c ld) = ld_sparse ld" "ld_symbols (addAssociative p c ld) = ld_symbols ld"
    "dom (ld_secs (addAssociative p c ld)) = dom (ld_secs ld)" by (simp_all add: a)
qed

lemma readAssociativeDefinition_ok:
  assumes "loader_ok ld" and "readAssociativeDefinition env f s def parent ld = Inr ld'"
  shows "loader_ok ld' \<and> length (ld_sparse ld') = length (ld_sparse ld) \<and> ld_symbols ld' = ld_symbols ld"
proof (cases "ld_sparse ld ! parent")
  case PendingComdat
  then have "ld' = ld\<lparr>ld_diags := ld_diags ld @ [InvalidAssociative (nat (cy_SectionNumber s)) parent]\<rparr>"
    using assms(2) by (auto simp: readAssociativeDefinition_def Let_def split: if_splits)
  moreover have "loader_ok (ld\<lparr>ld_diags := ds\<rparr>) = loader_ok ld" for ds by (rule same_tables_ok) (simp add: same_tables_def)
  ultimately show ?thesis using assms(1) by simp
next
  case NullChunk
  then have "ld' = set_sparse (nat (cy_SectionNumber s)) NullChunk ld"
    using assms(2) by (auto simp: readAssociativeDefinition_def Let_def split: if_splits)
  then show ?thesis using assms(1) by (auto intro: set_sparse_ok)
next
  case (SomeChunk p)
  let ?n = "nat (cy_SectionNumber s)"
  obtain c ld1 where r: "readSection env f ?n (Some def) [] ld = (c, ld1)" by fastforce
  note rd = readSection_reads [OF assms(1) r]
  have ok2: "loader_ok (set_sparse ?n (sparse_of c) ld1)"
    using rd by (intro set_sparse_ok) (auto simp: sparse_of_def reads_def split: option.splits)
  have "ld' = (case c of Some i \<Rightarrow> addAssociative p i (upd_sec i (\<lambda>sc. sc\<lparr>sc_selection := Some ASSOCIATIVE\<rparr>) (set_sparse ?n (sparse_of c) ld1))
      | None \<Rightarrow> set_sparse ?n (sparse_of c) ld1)"
    using assms(2) SomeChunk r by (auto simp: readAssociativeDefinition_def Let_def split: if_splits)
  then show ?thesis using ok2 rd addAssociative_ok [OF loader_ok_upd_sec [OF ok2]]
    by (cases c) (simp_all add: reads_def)
qed

lemma resolve_section_ok:
  assumes "loader_ok ld" and "resolve_section env f m s ld = Inr ld'"
  shows "loader_ok ld' \<and> length (ld_sparse ld') = length (ld_sparse ld) \<and> ld_symbols ld' = ld_symbols ld"
  using assms(2) readAssociativeDefinition_ok [OF assms(1)] assms(1)
  by (auto simp: resolve_section_def maybeAssociateSEHForMingw_def Let_def split: option.splits if_splits)

lemma pending_loop_ok:
  assumes "loader_ok ld" and "pending_loop env f m is ld = Inr ld'"
    and "\<And>i. i \<in> set is \<Longrightarrow> nat (cy_SectionNumber (co_symbols (obj_of env f) ! i)) < length (ld_sparse ld)"
  shows "loader_ok ld'"
  using assms
proof (induction "is" arbitrary: ld)
  case (Cons i "is")
  let ?s = "co_symbols (obj_of env f) ! i"
  obtain ld1 where r: "resolve_section env f m ?s ld = Inr ld1" using Cons.prems(2) by (auto simp: Let_def split: sum.splits)
  note ok = resolve_section_ok [OF Cons.prems(1) r]
  have n: "nat (cy_SectionNumber ?s) < length (ld_sparse ld1)" using Cons.prems(3) ok by simp
  define ld2 where "ld2 = (if ld_sparse ld1 ! nat (cy_SectionNumber ?s) = PendingComdat then ld1
    else set_symbol i (fst (createRegular env f ?s ld1)) (snd (createRegular env f ?s ld1)))"
  have "loader_ok ld2" "length (ld_sparse ld2) = length (ld_sparse ld)"
    using ok createRegular_ok [OF conjunct1 [OF ok] n, of env f] by (simp_all add: ld2_def) (simp add: set_symbol_def)
  moreover have "pending_loop env f m is ld2 = Inr ld'"
    using Cons.prems(2) r by (simp add: ld2_def Let_def case_prod_unfold split: if_splits)
  moreover have "nat (cy_SectionNumber (co_symbols (obj_of env f) ! j)) < length (ld_sparse ld)" if "j \<in> set is" for j
    using Cons.prems(3) [of j] that by simp
  ultimately show ?case using Cons.IH [of ld2] by metis
qed simp

text \<open>Postponed symbols name a section of the file.\<close>

definition pending_known :: "obj_env \<Rightarrow> file_id \<Rightarrow> init_state \<Rightarrow> bool" where
  "pending_known env f z \<longleftrightarrow>
     (\<forall>i \<in> set (in_pendingIndexes z). nat (cy_SectionNumber (co_symbols (obj_of env f) ! i)) < length (ld_sparse (in_ld z)))"

lemma createDefined_postponed:
  assumes "createDefined env f s defs ld = Inr (Postponed, p, defs', ld')"
  shows "nat (cy_SectionNumber s) < length (ld_sparse ld) \<and> ld' = ld \<and> ld_sparse ld ! nat (cy_SectionNumber s) = PendingComdat"
  using assms unfolding createDefined_def Let_def case_prod_unfold
  by (auto split: if_splits option.splits sum.splits)

lemma init_symbol_ok:
  assumes "loader_ok (in_ld z)" and "pending_known env f z" and "init_symbol env f i (co_symbols (obj_of env f) ! i) z = Inr z'"
  shows "loader_ok (in_ld z') \<and> pending_known env f z' \<and> length (ld_sparse (in_ld z')) = length (ld_sparse (in_ld z))"
proof -
  let ?s = "co_symbols (obj_of env f) ! i"
  have fr: "ld_sparse (set_symbol j y ld) = ld_sparse ld" for j y ld by (simp add: set_symbol_def)
  consider (undef) ov y ld where "createUndefined env f ?s ov (in_ld z) = (y, ld)" "in_ld z' = set_symbol i (Some y) ld"
      "in_pendingIndexes z' = in_pendingIndexes z"
    | (created) y p defs ld where "createDefined env f ?s (in_comdatDefs z) (in_ld z) = Inr (Created y, p, defs, ld)"
      "in_ld z' = set_symbol i y ld" "in_pendingIndexes z' = in_pendingIndexes z"
    | (postponed) p defs ld where "createDefined env f ?s (in_comdatDefs z) (in_ld z) = Inr (Postponed, p, defs, ld)"
      "in_ld z' = ld" "in_pendingIndexes z' = in_pendingIndexes z @ [i]"
    using assms(3) by (auto simp: init_symbol_def Let_def split: if_splits sum.splits prod.splits created.splits)
  then show ?thesis
  proof cases
    case undef
    then have "ld = snd (createUndefined env f ?s ov (in_ld z))" by simp
    then show ?thesis using undef(2,3) createUndefined_ok [OF assms(1)] assms(2) by (simp add: pending_known_def fr)
  next
    case created
    then show ?thesis using createDefined_ok [OF assms(1) created(1)] assms(2) by (simp add: pending_known_def fr)
  next
    case postponed
    then show ?thesis using createDefined_postponed [OF postponed(1)] assms(1,2) by (auto simp: pending_known_def)
  qed
qed

lemma init_loop_ok:
  assumes "loader_ok (in_ld z)" and "pending_known env f z" and "init_loop env f i z = Inr z'"
  shows "loader_ok (in_ld z') \<and> pending_known env f z'"
  using assms
proof (induction env f i z rule: init_loop.induct)
  case (1 env f i z)
  show ?case
  proof (cases "i < length (co_symbols (obj_of env f))")
    case True
    then obtain z1 where z1: "init_symbol env f i (co_symbols (obj_of env f) ! i) z = Inr z1"
      "init_loop env f (i + cy_NumberOfAuxSymbols (co_symbols (obj_of env f) ! i) + 1) z1 = Inr z'"
      using "1.prems"(3) by (auto simp: init_loop.simps [of env f i] Let_def split: sum.splits)
    note ok = init_symbol_ok [OF "1.prems"(1,2) z1(1)]
    show ?thesis by (rule "1.IH" [OF True refl z1(1)]) (use ok z1(2) in simp_all)
  next
    case False
    then show ?thesis using "1.prems" by (simp add: init_loop.simps [of env f i])
  qed
qed

lemma checkAndSetWeakAlias_ok:
  assumes "loader_ok ld"
  shows "loader_ok (ld\<lparr>ld_st := checkAndSetWeakAlias env y t a (ld_st ld)\<rparr>)"
proof -
  let ?st = "ld_st ld"
  have al: "loader_ok (ld\<lparr>ld_st := set_alias y t a st\<rparr>)"
    if "\<not> is_Defined (sy_body (get_sym ?st y))" "st_store st = st_store ?st" "good_step ?st st" for st
  proof (rule loader_ok_table [OF assms])
    have g: "get_sym st y = get_sym ?st y" using that(2) by (simp add: get_sym_def)
    show "good_step ?st (set_alias y t a st)" unfolding set_alias_def
      using that(1) by (intro good_trans [OF that(3) good_undefine]) (simp_all add: g)
    have "table_all (link (ld_secs ld)) st" using loader_ok_links [OF assms] that(2) by (simp add: table_all_def get_sym_def)
    then show "table_all (link (ld_secs ld)) (set_alias y t a st)" unfolding set_alias_def by (rule table_all_upd) simp
    show "length (chunks (st_store (set_alias y t a st))) = length (chunks (st_store ?st))" by (simp add: set_alias_def that(2))
  qed
  show ?thesis
  proof (cases "sy_body (get_sym ?st y)")
    case (Undefined al0)
    then show ?thesis using assms al [of ?st] al [of "reportDuplicate y ?st"] good_report [OF good_refl]
      by (cases a) (simp_all add: checkAndSetWeakAlias_def Let_def)
  qed (simp_all add: checkAndSetWeakAlias_def Let_def assms)
qed

lemma weak_aliases_ok: "loader_ok ld \<Longrightarrow> weak_aliases env ws ld = Inr ld' \<Longrightarrow> loader_ok ld'"
proof (induction env ws ld rule: weak_aliases.induct)
  case (2 env y s ws ld)
  then show ?case by (simp add: checkAndSetWeakAlias_ok split: if_splits)
qed simp

lemma initializeChunks_from_ok: "loader_ok ld \<Longrightarrow> loader_ok (initializeChunks_from env f ns ld)"
proof (induction env f ns ld rule: initializeChunks_from.induct)
  case (2 env f n ns ld)
  show ?case
  proof (cases "sec_isCOMDAT (getSection env f n)")
    case True
    have "loader_ok (set_sparse n PendingComdat ld)" using 2(3) by (rule set_sparse_ok) simp
    then show ?thesis using 2(1) True by simp
  next
    case False
    obtain c ld1 where r: "readSection env f n None [] ld = (c, ld1)" by fastforce
    have "loader_ok (set_sparse n (sparse_of c) ld1)"
      using readSection_reads [OF 2(3) r] by (intro set_sparse_ok) (auto simp: sparse_of_def reads_def split: option.splits)
    then show ?thesis using 2(2) [OF False refl r [symmetric]] False r by simp
  qed
qed simp

text \<open>The sections \<open>readSection\<close> makes a chunk for.\<close>

definition section_kept :: "obj_env \<Rightarrow> file_id \<Rightarrow> nat \<Rightarrow> bool" where
  "section_kept env f n \<longleftrightarrow> (let h = getSection env f n; name = cs_name h in
     name \<notin> {''.drectve'', ''.llvm_addrsig'', ''.llvm.call-graph-profile''} \<and> name \<notin> set (oe_discardSection env) \<and>
     (oe_includeDwarfChunks env \<or> \<not> starts_with name ''.debug_'') \<and> cs_Characteristics h AND 0x800 = 0)"

lemma readSection_kept: "fst (readSection env f n def l ld) \<noteq> None \<longleftrightarrow> section_kept env f n"
  by (simp add: readSection_def section_kept_def Let_def case_prod_unfold)

section \<open>Symbols without a chunk\<close>

text \<open>\<open>P i g v\<close> says which regular symbols, by number, file and value, may have no chunk.\<close>

definition bare_ok :: "(sym_id \<Rightarrow> file_id \<Rightarrow> u32 \<Rightarrow> bool) \<Rightarrow> sym_id \<Rightarrow> symbol_body \<Rightarrow> bool \<Rightarrow> bool" where
  "bare_ok P i b k \<longleftrightarrow> (case b of DefinedRegular g v None \<Rightarrow> P i g v | _ \<Rightarrow> True)"

lemma bare_ok_simps [simp]:
  "bare_ok P i (Undefined t) k" "bare_ok P i (DefinedAbsolute a) k" "bare_ok P i (DefinedCommon g sz d) k"
  "bare_ok P i (DefinedRegular g v (Some c)) k" "bare_ok P i (DefinedRegular g v None) k = P i g v"
  by (simp_all add: bare_ok_def)

text \<open>A value that a symbol of the file has in a section \<open>readSection\<close> drops.\<close>

definition dropped_value :: "obj_env \<Rightarrow> file_id \<Rightarrow> u32 \<Rightarrow> bool" where
  "dropped_value env f v \<longleftrightarrow>
     list_ex (\<lambda>s. cy_Value s = v \<and> \<not> section_kept env f (nat (cy_SectionNumber s))) (co_symbols (obj_of env f))"

lemma table_all_local:
  "table_all Q (ld_st ld) \<Longrightarrow> Q (length (st_syms (ld_st ld))) (sy_body y) (isCOMDAT y) \<Longrightarrow> table_all Q (ld_st (snd (new_local y ld)))"
  by (auto simp: table_all_def get_sym_def nth_append less_Suc_eq)

lemma createRegular_bare:
  assumes "table_all (bare_ok P) (ld_st ld)"
  shows "table_all (bare_ok P) (ld_st (snd (createRegular env f s ld)))"
  using assms by (cases "ld_sparse ld ! nat (cy_SectionNumber s)")
    (auto simp: createRegular_def Let_def case_prod_unfold intro!: table_all_addRegular table_all_addUndefined table_all_local)

lemma createUndefined_bare:
  assumes "table_all (bare_ok P) (ld_st ld)"
  shows "table_all (bare_ok P) (ld_st (snd (createUndefined env f s ov ld)))"
proof -
  have al: "table_all (bare_ok P) (upd_sym i (setWeakAlias m True) st)" if "table_all (bare_ok P) st" for i m st
    using that by (rule table_all_upd) (simp add: setWeakAlias_def)
  then show ?thesis using assms
    by (auto simp: createUndefined_def Let_def case_prod_unfold intro!: al table_all_addUndefined split: option.splits)
qed

lemma create_others_bare:
  assumes "table_all (bare_ok P) (ld_st ld)"
  shows "table_all (bare_ok P) (ld_st (snd (create_common env f s ld)))" "table_all (bare_ok P) (ld_st (snd (create_absolute env s ld)))"
    "table_all (bare_ok P) (ld_st (snd (create_empty_section env f s ld)))"
proof -
  have "table_all (bare_ok P) (st\<lparr>st_store := (st_store st)\<lparr>chunks := cs\<rparr>\<rparr>) = table_all (bare_ok P) st" for st cs
    by (rule table_all_cong) simp
  then show "table_all (bare_ok P) (ld_st (snd (create_common env f s ld)))"
    using assms by (simp add: create_common_def Let_def table_all_addCommon)
  show "table_all (bare_ok P) (ld_st (snd (create_absolute env s ld)))"
    using assms by (auto simp: create_absolute_def Let_def case_prod_unfold intro!: table_all_addAbsolute table_all_local)
  have "table_all (bare_ok P) (ld_st (snd (new_SectionChunk env f 0 h k ld)))" for h k
    using assms by (rule table_all_cong [THEN iffD2, rotated]) (simp add: new_SectionChunk_def Let_def)
  then show "table_all (bare_ok P) (ld_st (snd (create_empty_section env f s ld)))"
    unfolding create_empty_section_def Let_def case_prod_unfold by (intro table_all_local) simp_all
qed

text \<open>A prevailing leader is the one symbol without a chunk, and its file and value are those of its record.\<close>

definition leader_bare :: "(sym_id \<Rightarrow> file_id \<Rightarrow> u32 \<Rightarrow> bool) \<Rightarrow> file_id \<Rightarrow> u32 \<Rightarrow> sym_id \<Rightarrow> bool \<Rightarrow> symtab \<Rightarrow> bool" where
  "leader_bare P f v leader prevails st \<longleftrightarrow>
     (if prevails then table_all (bare_ok (\<lambda>i g w. P i g w \<or> i = leader \<and> g = f \<and> w = v)) st else table_all (bare_ok P) st)"

lemma leader_bareI:
  "table_all (bare_ok P) st \<Longrightarrow> leader_bare P f v leader prevails st"
  by (auto simp: leader_bare_def bare_ok_def split: symbol_body.splits option.splits elim!: table_all_mono)

lemma leader_bare_replace:
  assumes "table_all (bare_ok P) st"
  shows "leader_bare P f v leader True (replace_sym leader (regular_symbol f n True v None False) st)"
  using leader_bareI [OF assms, of f v leader True]
  by (simp add: leader_bare_def table_all_replace regular_symbol_def)

lemma leader_of_bare:
  assumes "table_all (bare_ok P) (ld_st ld)" and "leader_of env f s ld = ((leader, prevailing), ld1)"
  shows "leader_bare P f (cy_Value s) leader prevailing (ld_st ld1)"
proof (cases "sym_isExternal s")
  case True
  let ?g = "addComdat (oe_st env) f (cy_name s) (cy_Value s)"
  obtain i w st1 where i: "insert_file (oe_st env) (cy_name s) (Some f) (ld_st ld) = ((i, w), st1)" by (metis prod.exhaust)
  have e: "with_table ?g ld = ((leader, prevailing), ld1)" using assms(2) True by (simp add: leader_of_def)
  have g: "?g (ld_st ld) = ((leader, prevailing), ld_st ld1)"
    using with_table_frame(4,5) [of ?g ld] unfolding e by (cases "?g (ld_st ld)") simp
  have t: "table_all (bare_ok P) st1" using assms(1) _ i by (rule table_all_insert_file) simp
  consider "ld_st ld1 = replace_sym leader (regular_symbol f (cy_name s) True (cy_Value s) None False) st1" "prevailing"
    | "ld_st ld1 = st1 \<or> ld_st ld1 = reportDuplicate leader st1"
    using g by (auto simp: addComdat_def i Let_def split: if_splits)
  then show ?thesis
  proof cases
    case 1
    then show ?thesis using leader_bare_replace [OF t] by simp
  next
    case 2
    then show ?thesis using t by (auto intro: leader_bareI)
  qed
next
  case False
  then have l: "prevailing" "ld1 = snd (new_local (local_symbol f (cy_Value s) None) ld)" "leader = length (st_syms (ld_st ld))"
    using assms(2) by (auto simp: leader_of_def Let_def case_prod_unfold)
  have "table_all (bare_ok (\<lambda>i g w. P i g w \<or> i = leader \<and> g = f \<and> w = cy_Value s)) (ld_st ld)"
    using leader_bareI [OF assms(1), of f "cy_Value s" leader True] by (simp add: leader_bare_def)
  then show ?thesis unfolding leader_bare_def l(2) by (simp add: l(1)) (rule table_all_local, simp_all add: l(3))
qed

lemma handleComdatSelection_bare:
  assumes "leader_bare P f (cy_Value s) leader prevailing (ld_st ld)"
    and "handleComdatSelection env f s selection prevailing leader def ld = Inr (sel, prevails, ld')"
  shows "leader_bare P f (cy_Value s) leader prevails (ld_st ld')"
proof (cases prevailing)
  case True
  then show ?thesis using assms by (simp add: handleComdatSelection_def)
next
  case False
  then have t: "table_all (bare_ok P) (ld_st ld)" using assms(1) by (simp add: leader_bare_def)
  consider "ld_st ld' = ld_st ld \<or> ld_st ld' = reportDuplicate leader (ld_st ld)"
    | "prevails" "ld_st ld' = replace_sym leader (regular_symbol f (cy_name s) True (cy_Value s) None False) (ld_st ld)"
    using assms(2) False by (auto simp: handleComdatSelection_def Let_def case_prod_unfold split: if_splits option.splits comdat_outcome.splits)
  then show ?thesis
  proof cases
    case 1
    then show ?thesis using t by (auto intro: leader_bareI)
  next
    case 2
    then show ?thesis using leader_bare_replace [OF t] by simp
  qed
qed

lemma create_leader_bare:
  assumes "loader_ok ld" and "table_all (bare_ok P) (ld_st ld)" and "create_leader env f s def ld = Inr (y, prevailing, ld')"
    and dropped: "\<not> section_kept env f (nat (cy_SectionNumber s)) \<Longrightarrow> \<forall>i. P i f (cy_Value s)"
  shows "table_all (bare_ok P) (ld_st ld')"
proof -
  let ?n = "nat (cy_SectionNumber s)" and ?v = "cy_Value s"
  obtain leader p ld1 where l: "leader_of env f s ld = ((leader, p), ld1)" by (metis prod.exhaust)
  note slot = leader_slot [OF assms(1) l]
  obtain selection sel prevails ld2 where sel: "comdat_type (sd_Selection def) = Some selection"
    "(if isCOMDAT (get_sym (ld_st ld1) leader) then handleComdatSelection env f s selection p leader def ld1
      else Inr (selection, p, ld1)) = Inr (sel, prevails, ld2)"
    using assms(3) by (auto simp: create_leader_def Let_def l split: option.splits sum.splits if_splits)
  have h: "leader_bare P f ?v leader prevails (ld_st ld2)"
    using sel(2) leader_of_bare [OF assms(2) l] handleComdatSelection_bare [of P f s leader p ld1 env selection def sel prevails ld2]
    by (cases "isCOMDAT (get_sym (ld_st ld1) leader)") simp_all
  have ok2: "loader_ok ld2"
    using sel(2) slot handleComdatSelection_ok [of ld1 leader s env f selection p def sel prevails ld2]
    by (cases "isCOMDAT (get_sym (ld_st ld1) leader)") simp_all
  show ?thesis
  proof (cases prevails)
    case False
    then have "ld' = set_sparse ?n NullChunk ld2" using assms(3) l sel by (simp add: create_leader_def Let_def)
    then show ?thesis using h False by (simp add: leader_bare_def)
  next
    case True
    obtain c ld3 where r: "readSection env f ?n (Some def) (cy_name s) ld2 = (c, ld3)" by fastforce
    have "st_syms (ld_st ld3) = st_syms (ld_st ld2)" using readSection_reads [OF ok2 r] by (simp add: reads_def)
    then have t3: "table_all (bare_ok (\<lambda>i g w. P i g w \<or> i = leader \<and> g = f \<and> w = ?v)) (ld_st ld3)"
      using h True by (simp add: leader_bare_def table_all_cong [of "ld_st ld3" "ld_st ld2"])
    show ?thesis
    proof (cases c)
      case None
      then have "ld' = set_sparse ?n NullChunk ld3" using assms(3) l sel True r by (simp add: create_leader_def Let_def sparse_of_def)
      moreover have "\<forall>i. P i f ?v" using dropped readSection_kept [of env f ?n "Some def" "cy_name s" ld2] r None by simp
      then have "(\<lambda>i g w. P i g w \<or> i = leader \<and> g = f \<and> w = ?v) = P" by (auto simp: fun_eq_iff)
      ultimately show ?thesis using t3 by simp
    next
      case (Some i)
      then have "ld_st ld' = upd_sym leader (\<lambda>y. y\<lparr>sy_body := DefinedRegular (dr_file (sy_body y)) (dr_value (sy_body y)) (Some i)\<rparr>) (ld_st ld3)"
        using assms(3) l sel True r by (auto simp: create_leader_def Let_def)
      moreover have "table_all (\<lambda>j b k. j = leader \<or> bare_ok P j b k) (ld_st ld3)"
        using t3 by (rule table_all_mono) (auto simp: bare_ok_def split: symbol_body.splits option.splits)
      moreover have "upd_sym leader g (ld_st ld3) = ld_st ld3" if "\<not> leader < length (st_syms (ld_st ld3))" for g
        using that by (simp add: upd_sym_def set_sym_def list_update_beyond)
      ultimately show ?thesis
        by (cases "leader < length (st_syms (ld_st ld3))") (auto simp: table_all_def get_upd_sym)
    qed
  qed
qed

lemma createDefined_bare:
  assumes "loader_ok ld" and "table_all (bare_ok P) (ld_st ld)" and "createDefined env f s defs ld = Inr (y, prevailing, defs', ld')"
    and "\<not> section_kept env f (nat (cy_SectionNumber s)) \<Longrightarrow> \<forall>i. P i f (cy_Value s)"
  shows "table_all (bare_ok P) (ld_st ld')"
  using assms(3) createRegular_bare [OF assms(2), of env f s] create_leader_bare [OF assms(1,2) _ assms(4)]
    create_others_bare [OF assms(2)] assms(2)
  unfolding createDefined_def Let_def case_prod_unfold
  by (auto split: if_splits option.splits sum.splits)

lemma addAssociative_st [simp]: "ld_st (addAssociative p c ld) = ld_st ld"
  by (simp add: addAssociative_def Let_def case_prod_unfold)

lemma readAssociativeDefinition_bare:
  assumes "loader_ok ld" and "table_all (bare_ok P) (ld_st ld)" and "readAssociativeDefinition env f s def parent ld = Inr ld'"
  shows "table_all (bare_ok P) (ld_st ld')"
proof (cases "ld_sparse ld ! parent")
  case (SomeChunk p)
  let ?n = "nat (cy_SectionNumber s)"
  obtain c ld1 where r: "readSection env f ?n (Some def) [] ld = (c, ld1)" by fastforce
  have "st_syms (ld_st ld1) = st_syms (ld_st ld)" using readSection_reads [OF assms(1) r] by (simp add: reads_def)
  moreover have "ld' = (case c of Some i \<Rightarrow> addAssociative p i (upd_sec i (\<lambda>sc. sc\<lparr>sc_selection := Some ASSOCIATIVE\<rparr>) (set_sparse ?n (sparse_of c) ld1))
      | None \<Rightarrow> set_sparse ?n (sparse_of c) ld1)"
    using assms(3) SomeChunk r by (auto simp: readAssociativeDefinition_def Let_def split: if_splits)
  then have "ld_st ld' = ld_st ld1" by (cases c) simp_all
  ultimately show ?thesis using assms(2) table_all_cong [of "ld_st ld'" "ld_st ld"] by simp
qed (use assms(2,3) in \<open>auto simp: readAssociativeDefinition_def Let_def split: if_splits\<close>)

lemma resolve_section_bare:
  assumes "loader_ok ld" and "table_all (bare_ok P) (ld_st ld)" and "resolve_section env f m s ld = Inr ld'"
  shows "table_all (bare_ok P) (ld_st ld')"
  using assms(3) readAssociativeDefinition_bare [OF assms(1,2)] assms(2)
  by (auto simp: resolve_section_def maybeAssociateSEHForMingw_def Let_def split: option.splits if_splits)

lemma pending_loop_bare:
  assumes "loader_ok ld" and "table_all (bare_ok P) (ld_st ld)" and "pending_loop env f m is ld = Inr ld'"
    and "\<And>i. i \<in> set is \<Longrightarrow> nat (cy_SectionNumber (co_symbols (obj_of env f) ! i)) < length (ld_sparse ld)"
  shows "table_all (bare_ok P) (ld_st ld')"
  using assms
proof (induction "is" arbitrary: ld)
  case (Cons i "is")
  let ?s = "co_symbols (obj_of env f) ! i"
  obtain ld1 where r: "resolve_section env f m ?s ld = Inr ld1" using Cons.prems(3) by (auto simp: Let_def split: sum.splits)
  note ok = resolve_section_ok [OF Cons.prems(1) r] and bare = resolve_section_bare [OF Cons.prems(1,2) r]
  have n: "nat (cy_SectionNumber ?s) < length (ld_sparse ld1)" using Cons.prems(4) ok by simp
  define ld2 where "ld2 = (if ld_sparse ld1 ! nat (cy_SectionNumber ?s) = PendingComdat then ld1
    else set_symbol i (fst (createRegular env f ?s ld1)) (snd (createRegular env f ?s ld1)))"
  have "loader_ok ld2" "length (ld_sparse ld2) = length (ld_sparse ld)" "table_all (bare_ok P) (ld_st ld2)"
    using ok createRegular_ok [OF conjunct1 [OF ok] n, of env f] bare createRegular_bare [OF bare, of env f ?s]
    by (simp_all add: ld2_def) (simp_all add: set_symbol_def)
  moreover have "pending_loop env f m is ld2 = Inr ld'"
    using Cons.prems(3) r by (simp add: ld2_def Let_def case_prod_unfold split: if_splits)
  moreover have "nat (cy_SectionNumber (co_symbols (obj_of env f) ! j)) < length (ld_sparse ld)" if "j \<in> set is" for j
    using Cons.prems(4) [of j] that by simp
  ultimately show ?case using Cons.IH [of ld2] by metis
qed simp

lemma init_symbol_bare:
  assumes "loader_ok (in_ld z)" and "table_all (bare_ok P) (ld_st (in_ld z))" and "init_symbol env f i s z = Inr z'"
    and "\<not> section_kept env f (nat (cy_SectionNumber s)) \<Longrightarrow> \<forall>i. P i f (cy_Value s)"
  shows "table_all (bare_ok P) (ld_st (in_ld z'))"
proof -
  have fr: "ld_st (set_symbol j y ld) = ld_st ld" for j y ld by (simp add: set_symbol_def)
  consider (undef) ov y ld where "createUndefined env f s ov (in_ld z) = (y, ld)" "in_ld z' = set_symbol i (Some y) ld"
    | (created) y p defs ld where "createDefined env f s (in_comdatDefs z) (in_ld z) = Inr (y, p, defs, ld)" "ld_st (in_ld z') = ld_st ld"
    using assms(3) by (auto simp: init_symbol_def fr Let_def split: if_splits sum.splits prod.splits created.splits)
  then show ?thesis
  proof cases
    case undef
    then show ?thesis using createUndefined_bare [OF assms(2), of env f s ov] by (simp add: fr)
  next
    case created
    then show ?thesis using createDefined_bare [OF assms(1,2) created(1) assms(4)] by simp
  qed
qed

lemma init_loop_bare:
  assumes "loader_ok (in_ld z)" and "pending_known env f z" and "table_all (bare_ok P) (ld_st (in_ld z))" and "init_loop env f i z = Inr z'"
    and "\<And>v. dropped_value env f v \<Longrightarrow> \<forall>i. P i f v"
  shows "table_all (bare_ok P) (ld_st (in_ld z'))"
  using assms
proof (induction env f i z rule: init_loop.induct)
  case (1 env f i z)
  show ?case
  proof (cases "i < length (co_symbols (obj_of env f))")
    case True
    let ?s = "co_symbols (obj_of env f) ! i"
    obtain z1 where z1: "init_symbol env f i ?s z = Inr z1" "init_loop env f (i + cy_NumberOfAuxSymbols ?s + 1) z1 = Inr z'"
      using "1.prems"(4) True by (auto simp: init_loop.simps [of env f i] Let_def split: sum.splits)
    have "\<not> section_kept env f (nat (cy_SectionNumber ?s)) \<Longrightarrow> dropped_value env f (cy_Value ?s)"
      using True by (auto simp: dropped_value_def list_ex_iff)
    then have "table_all (bare_ok P) (ld_st (in_ld z1))"
      using "1.prems"(5) by (intro init_symbol_bare [OF "1.prems"(1,3) z1(1)]) blast
    then show ?thesis
      using init_symbol_ok [OF "1.prems"(1,2) z1(1)] "1.prems"(5) z1(2) by (intro "1.IH" [OF True refl z1(1)]) simp_all
  next
    case False
    then show ?thesis using "1.prems" by (simp add: init_loop.simps [of env f i])
  qed
qed

lemma weak_aliases_bare: "table_all (bare_ok P) (ld_st ld) \<Longrightarrow> weak_aliases env ws ld = Inr ld' \<Longrightarrow> table_all (bare_ok P) (ld_st ld')"
proof (induction env ws ld rule: weak_aliases.induct)
  case (2 env y s ws ld)
  have "table_all (bare_ok P) (set_alias x t a st)" if "table_all (bare_ok P) st" for x t a st
    using that unfolding set_alias_def by (rule table_all_upd) simp
  then have "table_all (bare_ok P) (checkAndSetWeakAlias env y t a (ld_st ld))" for t a
    using 2(2) by (auto simp: checkAndSetWeakAlias_def Let_def split: symbol_body.splits)
  then show ?case using 2 by (simp split: if_splits)
qed simp

lemma initializeChunks_from_bare:
  "loader_ok ld \<Longrightarrow> st_syms (ld_st (initializeChunks_from env f ns ld)) = st_syms (ld_st ld)"
proof (induction env f ns ld rule: initializeChunks_from.induct)
  case (2 env f n ns ld)
  show ?case
  proof (cases "sec_isCOMDAT (getSection env f n)")
    case True
    have "loader_ok (set_sparse n PendingComdat ld)" using 2(3) by (rule set_sparse_ok) simp
    then show ?thesis using 2(1) True by simp
  next
    case False
    obtain c ld1 where r: "readSection env f n None [] ld = (c, ld1)" by fastforce
    note rd = readSection_reads [OF 2(3) r]
    have "loader_ok (set_sparse n (sparse_of c) ld1)"
      using rd by (intro set_sparse_ok) (auto simp: sparse_of_def reads_def split: option.splits)
    then show ?thesis using 2(2) [OF False refl r [symmetric]] False r rd by (simp add: reads_def)
  qed
qed simp

text \<open>C7: Loading an object file keeps symbols and sections linked. If the symbol table is well formed, every chunk number of a regular
  symbol is that of a section chunk, every COMDAT leader is the symbol recorded in its chunk and every entry of the section table
  is an existing chunk, then the same holds after the file has been parsed, whatever its contents, with discarded and replaced COMDATs,
  associations and weak aliases. A regular symbol is left without a chunk only if it was before, or if it is the file's and
  has the value of a symbol that the file records in a section \<open>readSection\<close> drops, as the leader of such a section.\<close>

theorem parse_object_links:
  assumes "loader_ok ld" and "parse_object env f ld = Inr ld'"
  shows "loader_ok ld' \<and>
    (\<forall>i g v. i < length (st_syms (ld_st ld')) \<and> sy_body (get_sym (ld_st ld') i) = DefinedRegular g v None \<longrightarrow>
      i < length (st_syms (ld_st ld)) \<and> sy_body (get_sym (ld_st ld) i) = DefinedRegular g v None \<or> g = f \<and> dropped_value env f v)"
proof -
  define P where "P = (\<lambda>i g v. i < length (st_syms (ld_st ld)) \<and> sy_body (get_sym (ld_st ld) i) = DefinedRegular g v None \<or>
    g = f \<and> dropped_value env f v)"
  have "loader_ok (new_file ld)" using assms(1) by (simp add: loader_ok_def new_file_def)
  then have nf: "loader_ok ((new_file ld)\<lparr>ld_sparse := replicate k NullChunk\<rparr>)" for k by (simp add: loader_ok_def)
  define ld1 where "ld1 = initializeChunks env f (new_file ld)"
  have "loader_ok ld1" unfolding ld1_def initializeChunks_def Let_def using nf by (rule initializeChunks_from_ok)
  moreover have "loader_ok (ld1\<lparr>ld_symbols := xs\<rparr>) = loader_ok ld1" for xs by (rule same_tables_ok) (simp add: same_tables_def)
  ultimately have ok: "loader_ok (ld1\<lparr>ld_symbols := xs\<rparr>)" for xs by simp
  have "st_syms (ld_st ld1) = st_syms (ld_st ld)"
    unfolding ld1_def initializeChunks_def Let_def initializeChunks_from_bare [OF nf] by (simp add: new_file_def)
  then have "table_all (bare_ok P) (ld_st ld1) = table_all (bare_ok P) (ld_st ld)" by (rule table_all_cong)
  then have bare: "table_all (bare_ok P) (ld_st ld1)" by (auto simp: table_all_def bare_ok_def P_def split: symbol_body.splits option.splits)
  obtain z z1 ld2 ld3 where z: "in_ld z = ld1\<lparr>ld_symbols := replicate (length (co_symbols (obj_of env f))) None\<rparr>" "in_pendingIndexes z = []"
    "init_loop env f 0 z = Inr z1" "pending_loop env f (in_prevailing z1) (in_pendingIndexes z1) (in_ld z1) = Inr ld2"
    "weak_aliases env (in_weakAliases z1) ld2 = Inr ld3" "ld' = ld3\<lparr>ld_sparse := []\<rparr>"
    using assms(2) unfolding parse_object_def initializeSymbols_def Let_def ld1_def [symmetric] by (force split: sum.splits)
  have start: "loader_ok (in_ld z)" "pending_known env f z" "table_all (bare_ok P) (ld_st (in_ld z))"
    by (simp_all add: z(1,2) ok bare pending_known_def)
  have "loader_ok (in_ld z1) \<and> pending_known env f z1" by (rule init_loop_ok [OF start(1,2) z(3)])
  moreover have "table_all (bare_ok P) (ld_st (in_ld z1))" by (rule init_loop_bare [OF start z(3)]) (simp add: P_def)
  ultimately have "loader_ok ld2" "table_all (bare_ok P) (ld_st ld2)"
    using pending_loop_ok [OF _ z(4)] pending_loop_bare [OF _ _ z(4)] by (simp_all add: pending_known_def)
  then have "loader_ok ld3" "table_all (bare_ok P) (ld_st ld3)" using weak_aliases_ok [OF _ z(5)] weak_aliases_bare [OF _ z(5)] by simp_all
  then have "loader_ok ld'" "table_all (bare_ok P) (ld_st ld')" by (simp_all add: z(6) loader_ok_def)
  then show ?thesis by (force simp: table_all_def P_def dest: table_allD)
qed

section \<open>Associative sections follow their parents\<close>

lemma readSection_sparse: "ld_sparse (snd (readSection env f n def l ld)) = ld_sparse ld" "ld_diags (snd (readSection env f n def l ld)) = ld_diags ld"
  by (auto simp: readSection_def Let_def case_prod_unfold file_chunk_tables new_SectionChunk_def split: option.splits)

lemma createRegular_diags [simp]: "ld_diags (snd (createRegular env f s ld)) = ld_diags ld"
  by (cases "ld_sparse ld ! nat (cy_SectionNumber s)"; simp add: createRegular_def Let_def case_prod_unfold with_table_def new_local_def)

lemma addAssociative_frame: "ld_sparse (addAssociative p c ld) = ld_sparse ld" "ld_diags (addAssociative p c ld) = ld_diags ld"
  by (simp_all add: addAssociative_def Let_def case_prod_unfold)

text \<open>What one associative definition does to the table of sections and the diagnostics.\<close>

lemma readAssociativeDefinition_sparse:
  assumes "readAssociativeDefinition env f s def p ld = Inr ld'"
  defines "n \<equiv> nat (cy_SectionNumber s)"
  shows "(ld_sparse ld ! p = PendingComdat \<longrightarrow> ld_sparse ld' = ld_sparse ld \<and> ld_diags ld' = ld_diags ld @ [InvalidAssociative n p]) \<and>
    (ld_sparse ld ! p = NullChunk \<longrightarrow> ld_sparse ld' = (ld_sparse ld)[n := NullChunk] \<and> ld_diags ld' = ld_diags ld) \<and>
    (\<forall>c. ld_sparse ld ! p = SomeChunk c \<longrightarrow> (\<exists>x. ld_sparse ld' = (ld_sparse ld)[n := x] \<and> x \<noteq> PendingComdat \<and> (x \<noteq> NullChunk \<longleftrightarrow> section_kept env f n)) \<and>
       ld_diags ld' = ld_diags ld)"
proof (cases "ld_sparse ld ! p")
  case (SomeChunk c)
  let ?r = "readSection env f n (Some def) [] ld"
  have "ld_sparse ld' = (ld_sparse ld)[n := sparse_of (fst ?r)]" "ld_diags ld' = ld_diags ld"
    using assms(1) SomeChunk readSection_sparse [of env f n "Some def" "[]" ld]
    by (auto simp: readAssociativeDefinition_def n_def Let_def case_prod_unfold addAssociative_frame set_sparse_def split: if_splits option.splits)
  moreover have "sparse_of (fst ?r) \<noteq> PendingComdat" "sparse_of (fst ?r) \<noteq> NullChunk \<longleftrightarrow> section_kept env f n"
    unfolding readSection_kept [of env f n "Some def" "[]" ld, symmetric] by (auto simp: sparse_of_def split: option.splits)
  ultimately show ?thesis using SomeChunk by auto
qed (use assms(1) in \<open>auto simp: readAssociativeDefinition_def n_def Let_def set_sparse_def split: if_splits\<close>)

definition associative :: "coff_symbol \<Rightarrow> bool" where
  "associative s \<longleftrightarrow> (case getSectionDefinition s of Some def \<Rightarrow> sd_Selection def = 5 | None \<Rightarrow> False)"

definition sections_of :: "obj_env \<Rightarrow> file_id \<Rightarrow> nat list \<Rightarrow> nat list" where
  "sections_of env f is = map (\<lambda>i. nat (cy_SectionNumber (co_symbols (obj_of env f) ! i))) (filter (\<lambda>i. associative (co_symbols (obj_of env f) ! i)) is)"

lemma sections_of_simps [simp]:
  "sections_of env f [] = []"
  "sections_of env f (i # is) = (if associative (co_symbols (obj_of env f) ! i) then [nat (cy_SectionNumber (co_symbols (obj_of env f) ! i))] else []) @ sections_of env f is"
  by (simp_all add: sections_of_def)

lemma resolve_section_other:
  assumes "\<not> oe_mingw env" and "\<not> associative s" and "resolve_section env f m s ld = Inr ld'"
  shows "ld' = ld"
  using assms by (auto simp: resolve_section_def associative_def split: option.splits)

lemma resolve_section_assoc:
  assumes "getSectionDefinition s = Some def" and "sd_Selection def = 5"
  shows "resolve_section env f m s ld = readAssociativeDefinition env f s def (sd_Number def) ld"
  using assms by (simp add: resolve_section_def)

text \<open>One round of the loop: the next state has the table of sections and the diagnostics that \<open>resolve_section\<close> left.\<close>

lemma pending_loop_step:
  assumes "pending_loop env f m (i # is) ld = Inr ld'"
  obtains ld1 ld2 where "resolve_section env f m (co_symbols (obj_of env f) ! i) ld = Inr ld1" "pending_loop env f m is ld2 = Inr ld'"
    "ld_sparse ld2 = ld_sparse ld1" "ld_diags ld2 = ld_diags ld1"
proof -
  let ?s = "co_symbols (obj_of env f) ! i"
  obtain ld1 where r: "resolve_section env f m ?s ld = Inr ld1" using assms by (auto simp: Let_def split: sum.splits)
  define ld2 where "ld2 = (if ld_sparse ld1 ! nat (cy_SectionNumber ?s) = PendingComdat then ld1
    else set_symbol i (fst (createRegular env f ?s ld1)) (snd (createRegular env f ?s ld1)))"
  have "pending_loop env f m is ld2 = Inr ld'"
    using assms r by (simp add: ld2_def Let_def case_prod_unfold split: if_splits)
  moreover have "ld_sparse ld2 = ld_sparse ld1" "ld_diags ld2 = ld_diags ld1" by (simp_all add: ld2_def set_symbol_def)
  ultimately show ?thesis using r that by blast
qed

lemma resolve_section_frame:
  assumes "\<not> oe_mingw env" and "resolve_section env f m s ld = Inr ld'"
  shows "(k \<notin> set (if associative s then [nat (cy_SectionNumber s)] else []) \<longrightarrow> ld_sparse ld' ! k = ld_sparse ld ! k) \<and>
    set (ld_diags ld) \<subseteq> set (ld_diags ld') \<and> length (ld_sparse ld') = length (ld_sparse ld)"
proof (cases "associative s")
  case True
  then obtain def where d: "getSectionDefinition s = Some def" "sd_Selection def = 5" by (auto simp: associative_def split: option.splits)
  have "readAssociativeDefinition env f s def (sd_Number def) ld = Inr ld'" using assms(2) resolve_section_assoc [OF d] by simp
  from readAssociativeDefinition_sparse [OF this] True show ?thesis by (cases "ld_sparse ld ! sd_Number def") auto
next
  case False
  then show ?thesis using resolve_section_other [OF assms(1) False assms(2)] by simp
qed

lemma pending_loop_frame:
  assumes "\<not> oe_mingw env" and "pending_loop env f m is ld = Inr ld'"
  shows "(k \<notin> set (sections_of env f is) \<longrightarrow> ld_sparse ld' ! k = ld_sparse ld ! k) \<and> set (ld_diags ld) \<subseteq> set (ld_diags ld')"
  using assms(2)
proof (induction "is" arbitrary: ld)
  case (Cons i "is")
  from Cons.prems obtain ld1 ld2 where s: "resolve_section env f m (co_symbols (obj_of env f) ! i) ld = Inr ld1"
    "pending_loop env f m is ld2 = Inr ld'" "ld_sparse ld2 = ld_sparse ld1" "ld_diags ld2 = ld_diags ld1" by (rule pending_loop_step)
  show ?case using Cons.IH [OF s(2)] resolve_section_frame [OF assms(1) s(1), of k] s(3,4) by (auto split: if_splits)
qed simp

text \<open>C9: What becomes of an associative section, outside MinGW and when the postponed associative definitions name different
  sections: when the postponed symbols have been handled, each associative definition has either been reported as an invalid
  reference, or its section and its parent's are both decided, and it has a chunk exactly when its parent has one and it is
  not a section that \<open>readSection\<close> never keeps (directives, address-significance and call-graph tables, discarded names, debug
  information when it is not included, and sections marked for removal).\<close>

theorem associative_follows_parent:
  assumes "\<not> oe_mingw env" and "pending_loop env f m is ld = Inr ld'"
    and "distinct (sections_of env f is)"
    and "list_all (\<lambda>k. k < length (ld_sparse ld) \<and> ld_sparse ld ! k = PendingComdat) (sections_of env f is)"
    and "i \<in> set is" and "getSectionDefinition (co_symbols (obj_of env f) ! i) = Some def" and "sd_Selection def = 5"
  defines "n \<equiv> nat (cy_SectionNumber (co_symbols (obj_of env f) ! i))"
  shows "InvalidAssociative n (sd_Number def) \<in> set (ld_diags ld') \<or>
    (ld_sparse ld' ! n \<noteq> PendingComdat \<and> ld_sparse ld' ! sd_Number def \<noteq> PendingComdat \<and>
     (ld_sparse ld' ! n \<noteq> NullChunk \<longleftrightarrow> ld_sparse ld' ! sd_Number def \<noteq> NullChunk \<and> section_kept env f n))"
  using assms(2-5)
proof (induction "is" arbitrary: ld)
  case (Cons j "is")
  let ?s = "co_symbols (obj_of env f) ! j"
  from Cons.prems(1) obtain ld1 ld2 where s: "resolve_section env f m ?s ld = Inr ld1"
    "pending_loop env f m is ld2 = Inr ld'" "ld_sparse ld2 = ld_sparse ld1" "ld_diags ld2 = ld_diags ld1" by (rule pending_loop_step)
  note fr = resolve_section_frame [OF assms(1) s(1)]
  have d: "distinct (sections_of env f is)" using Cons.prems(2) by simp
  have later: "k < length (ld_sparse ld) \<and> ld_sparse ld ! k = PendingComdat" if "k \<in> set (sections_of env f is)" for k
    using Cons.prems(3) that by (auto simp: list_all_iff)
  have pend: "list_all (\<lambda>k. k < length (ld_sparse ld2) \<and> ld_sparse ld2 ! k = PendingComdat) (sections_of env f is)"
    unfolding list_all_iff
  proof
    fix k assume k: "k \<in> set (sections_of env f is)"
    then have "k \<notin> set (if associative ?s then [nat (cy_SectionNumber ?s)] else [])" using Cons.prems(2) by auto
    then show "k < length (ld_sparse ld2) \<and> ld_sparse ld2 ! k = PendingComdat" using fr [of k] later [OF k] s(3) by simp
  qed
  show ?case
  proof (cases "i = j")
    case False
    then show ?thesis using Cons.IH [OF s(2) d pend] Cons.prems(4) by simp
  next
    case True
    let ?p = "sd_Number def"
    have as: "associative ?s" using assms(6,7) True by (simp add: associative_def)
    have r: "readAssociativeDefinition env f ?s def ?p ld = Inr ld1" using s(1) resolve_section_assoc assms(6,7) True by simp
    note sp = readAssociativeDefinition_sparse [OF r]
    have n: "n = nat (cy_SectionNumber ?s)" by (simp add: n_def True)
    have nk: "n < length (ld_sparse ld)" "ld_sparse ld ! n = PendingComdat" "n \<notin> set (sections_of env f is)"
      using Cons.prems(2,3) as by (auto simp: n)
    note st = pending_loop_frame [OF assms(1) s(2)]
    show ?thesis
    proof (cases "ld_sparse ld ! ?p = PendingComdat")
      case True
      then have "InvalidAssociative n ?p \<in> set (ld_diags ld2)" using sp by (simp add: s(4) n)
      then show ?thesis using st by blast
    next
      case False
      then have pn: "?p \<noteq> n" "?p \<notin> set (sections_of env f is)" using nk later by auto
      obtain x where x: "ld_sparse ld1 = (ld_sparse ld)[n := x]" "x \<noteq> PendingComdat" "x \<noteq> NullChunk \<longleftrightarrow> ld_sparse ld ! ?p \<noteq> NullChunk \<and> section_kept env f n"
        using sp False by (cases "ld_sparse ld ! ?p") (auto simp: n)
      have "ld_sparse ld' ! n = x" "ld_sparse ld' ! ?p = ld_sparse ld ! ?p"
        using st [of n] st [of ?p] nk pn x(1) s(3) by simp_all
      then show ?thesis using x False by simp
    qed
  qed
qed simp

end
