(* ===== verification/Comdats.thy ===== *)
theory Comdats
  imports ObjLoad
begin

text \<open>
  COMDAT selection (\<open>handleComdatSelection\<close> of \<open>InputFiles.cpp\<close>) as a decision about two copies of a section, and worked
  object files.
\<close>

unbundle bit_operations_syntax

section \<open>COMDAT conflicts do not depend on the order\<close>

text \<open>A copy of a COMDAT: its selection, section and section definition.\<close>

type_synonym comdat_copy = "COMDATType \<times> coff_section \<times> coff_aux_section_definition"

text \<open>Which selections of two copies go together, and what the two sections must then have in common.\<close>

definition compatible_selections :: "bool \<Rightarrow> COMDATType \<Rightarrow> COMDATType \<Rightarrow> bool" where
  "compatible_selections mingw a b \<longleftrightarrow> a = b \<or> (a, b) \<in> {(ANY, LARGEST), (LARGEST, ANY)} \<or> mingw \<and> (a, b) \<in> {(ANY, SAME_SIZE), (SAME_SIZE, ANY)}"

definition comdat_conflict :: "bool \<Rightarrow> comdat_copy \<Rightarrow> comdat_copy \<Rightarrow> bool" where
  "comdat_conflict mingw a b \<longleftrightarrow>
     (case (a, b) of ((selA, hA, dA), (selB, hB, dB)) \<Rightarrow>
        \<not> compatible_selections mingw selA selB \<or>
        NODUPLICATES \<in> {selA, selB} \<or>
        SAME_SIZE \<in> {selA, selB} \<and> cs_SizeOfRawData hA \<noteq> cs_SizeOfRawData hB \<and> (mingw \<longrightarrow> sd_Length dA \<noteq> sd_Length dB) \<or>
        EXACT_MATCH \<in> {selA, selB} \<and> cs_contents hA \<noteq> cs_contents hB)"

lemma comdat_conflict_commute: "comdat_conflict mingw a b = comdat_conflict mingw b a"
  by (cases a; cases b) (auto simp: comdat_conflict_def compatible_selections_def)

text \<open>The merged selection decides as the relation between the two copies says.\<close>

lemma merge_selection_cases:
  "merge_selection mingw selA (Some selB) =
     (if (selA, selB) \<in> {(ANY, LARGEST), (LARGEST, ANY)} then (LARGEST, Some LARGEST)
      else if mingw \<and> (selA, selB) \<in> {(ANY, SAME_SIZE), (SAME_SIZE, ANY)} then (SAME_SIZE, Some SAME_SIZE) else (selA, Some selB))"
  by (cases selA; cases selB) (simp_all add: merge_selection_def)

lemma comdat_decision:
  assumes "merge_selection mingw selA (Some selB) = (sel, leaderSel)"
  shows "Some sel \<noteq> leaderSel \<or> comdat_outcome mingw sel hA dA hB (Some dB) = Duplicate \<longleftrightarrow>
      comdat_conflict mingw (selA, hA, dA) (selB, hB, dB)"
    and "Some sel = leaderSel \<and> comdat_outcome mingw sel hA dA hB (Some dB) = ReplaceLeader \<longleftrightarrow>
      LARGEST \<in> {selA, selB} \<and> {selA, selB} \<subseteq> {ANY, LARGEST} \<and> cs_SizeOfRawData hB < cs_SizeOfRawData hA"
  using assms
  by (cases selA; cases selB; cases mingw;
      auto simp: merge_selection_cases comdat_conflict_def compatible_selections_def comdat_outcome_def split: if_splits)+

text \<open>C8: When a second copy of a COMDAT arrives for a leader that is an object file's, a duplicate is reported exactly when the two
  copies conflict: their selections do not go together (equal ones do, \<open>any\<close> with \<open>largest\<close>, and \<open>any\<close> with \<open>same size\<close> for
  MinGW), they allow no second copy, they ask for the same size and differ in it (for MinGW also in the length of the section
  definition), or they ask for an exact match and the contents differ. This does not depend on which copy came first. The
  new copy takes over the leader exactly when both are \<open>any\<close> or \<open>largest\<close>, not both \<open>any\<close>, and it is strictly larger; otherwise the
  leader stays as it is.\<close>

theorem handleComdatSelection_symmetric:
  assumes "handleComdatSelection env f s selA False leader dA ld = Inr (sel, prevails, ld')"
    and "getChunk (st_store (ld_st ld)) (sy_body (get_sym (ld_st ld) leader)) = Some lc" and "ld_secs ld lc = Some sc"
    and "\<not> se_isBitcode (oe_st env) (dr_file (sy_body (get_sym (ld_st ld) leader)))" and "leader < length (st_syms (ld_st ld))"
    and "sc_selection sc = Some selB" and "leader_def env sc = Some dB"
  defines "hA \<equiv> getSection env f (nat (cy_SectionNumber s))"
  shows "diags (ld_st ld') = diags (ld_st ld) @
      (if comdat_conflict (oe_mingw env) (selA, hA, dA) (selB, sc_header sc, dB) then [DuplicateSymbol leader] else []) \<and>
    comdat_conflict (oe_mingw env) (selA, hA, dA) (selB, sc_header sc, dB) = comdat_conflict (oe_mingw env) (selB, sc_header sc, dB) (selA, hA, dA) \<and>
    (prevails \<longleftrightarrow> LARGEST \<in> {selA, selB} \<and> {selA, selB} \<subseteq> {ANY, LARGEST} \<and> cs_SizeOfRawData (sc_header sc) < cs_SizeOfRawData hA) \<and>
    (if prevails then dr_file (sy_body (get_sym (ld_st ld') leader)) = f else st_syms (ld_st ld') = st_syms (ld_st ld))"
proof -
  obtain sl ll where m: "merge_selection (oe_mingw env) selA (Some selB) = (sl, ll)" by fastforce
  let ?out = "comdat_outcome (oe_mingw env) sl hA dA (sc_header sc) (Some dB)"
  note dec = comdat_decision [OF m, of hA dA "sc_header sc" dB]
  have run: "prevails \<longleftrightarrow> Some sl = ll \<and> ?out = ReplaceLeader"
    "diags (ld_st ld') = diags (ld_st ld) @ (if Some sl \<noteq> ll \<or> ?out = Duplicate then [DuplicateSymbol leader] else [])"
    "if prevails then dr_file (sy_body (get_sym (ld_st ld') leader)) = f else st_syms (ld_st ld') = st_syms (ld_st ld)"
    using assms(1-7) by (auto simp: handleComdatSelection_def hA_def Let_def m reportDuplicate_def replace_sym_def get_upd_sym
        replaceSymbol_def regular_symbol_def split: if_splits comdat_outcome.splits)
  show ?thesis
    using run dec comdat_conflict_commute [of "oe_mingw env" "(selA, hA, dA)"] by (auto split: if_splits)
qed

section \<open>Worked object files\<close>

definition section_def :: "nat \<Rightarrow> nat \<Rightarrow> coff_aux_section_definition" where
  "section_def sel n = \<lparr>sd_Length = 4, sd_CheckSum = 0, sd_Selection = sel, sd_Number = n\<rparr>"

definition record_of :: "string \<Rightarrow> int \<Rightarrow> storage_class \<Rightarrow> nat \<Rightarrow> coff_aux_section_definition \<Rightarrow> coff_symbol" where
  "record_of name sec cls aux def =
     \<lparr>cy_name = name, cy_Value = 0, cy_SectionNumber = sec, cy_StorageClass = cls, cy_NumberOfAuxSymbols = aux, cy_aux = def,
      cy_TagIndex = 0, cy_antiDependency = False\<rparr>"

definition code_section :: "string \<Rightarrow> nat \<Rightarrow> coff_section" where
  "code_section name sz = \<lparr>cs_name = name, cs_Characteristics = 0x60501020, cs_SizeOfRawData = sz, cs_NumberOfRelocations = 0,
     cs_contents = replicate sz 0x90\<rparr>"

text \<open>A function \<open>f\<close> in a COMDAT section of \<open>sz\<close> bytes with the given selection, and its unwind data associated with it.\<close>

definition comdat_object :: "string \<Rightarrow> nat \<Rightarrow> nat \<Rightarrow> COFFObjectFile" where
  "comdat_object secname sel sz =
     \<lparr>co_machine = AMD64, co_sections = [code_section secname sz, code_section ''.xdata'' 8],
      co_symbols = [record_of secname 1 CLASS_STATIC 1 (section_def sel 0), record_of '''' 0 CLASS_OTHER 0 (section_def 0 0),
        record_of ''.xdata'' 2 CLASS_STATIC 1 (section_def 5 1), record_of '''' 0 CLASS_OTHER 0 (section_def 0 0),
        record_of ''f'' 1 CLASS_EXTERNAL 0 (section_def 0 0)]\<rparr>"

definition object_env :: "bool \<Rightarrow> (file_id \<Rightarrow> COFFObjectFile) \<Rightarrow> obj_env" where
  "object_env mingw objs = \<lparr>oe_st = st_sample_env, oe_objs = objs, oe_mingw = mingw, oe_doGC = True, oe_discardSection = [],
     oe_includeDwarfChunks = False, oe_tailMerge = True, oe_allowDuplicateWeak = False\<rparr>"

definition empty_loader :: loader where
  "empty_loader = \<lparr>ld_st = \<lparr>st_store = \<lparr>syms = [], chunks = [], importFiles = []\<rparr>, symMap = [], lazyFiles = [], gcroot = [], expSymbols = [], loads = [], diags = []\<rparr>,
     ld_secs = Map.empty, ld_merge = [], ld_sparse = [], ld_symbols = [], ld_directives = None, ld_addrsig = None, ld_callgraph = None,
     ld_chunks = [], ld_debugChunks = [], ld_guardFidChunks = [], ld_guardIATChunks = [], ld_guardLJmpChunks = [], ld_guardEHContChunks = [],
     ld_sxDataChunks = [], ld_hybmpChunks = [], ld_resourceChunks = [], ld_feat00Flags = 0, ld_diags = []\<rparr>"

fun parse_all :: "obj_env \<Rightarrow> file_id list \<Rightarrow> loader \<Rightarrow> load_error + loader" where
  "parse_all env [] ld = Inr ld"
| "parse_all env (f # fs) ld = (case parse_object env f ld of Inl e \<Rightarrow> Inl e | Inr ld1 \<Rightarrow> parse_all env fs ld1)"

definition summary :: "load_error + loader \<Rightarrow> load_error + (symbol_body list \<times> sym_diag list \<times> obj_diag list)" where
  "summary r = (case r of Inl e \<Rightarrow> Inl e | Inr ld \<Rightarrow> Inr (map sy_body (st_syms (ld_st ld)), diags (ld_st ld), ld_diags ld))"

text \<open>The copy in file 1 is larger and marked \<open>largest\<close>.\<close>

definition two_objects :: obj_env where
  "two_objects = object_env False (\<lambda>f. if f = 0 then comdat_object ''.text$f'' 2 4 else comdat_object ''.text$f'' 6 8)"

definition first_loaded :: loader where
  "first_loaded = projr (parse_object two_objects 0 empty_loader)"

lemma first_loads: "\<not> isl (parse_object two_objects 0 empty_loader)"
  by code_simp

lemma Inr_projr: "\<not> isl r \<Longrightarrow> r = Inr (projr r)"
  by (cases r) simp_all

theorem parse_object_links_witness: "loader_ok empty_loader \<and> loader_ok first_loaded"
proof -
  have "loader_ok empty_loader" by (simp add: empty_loader_def loader_ok_def wf_symtab_def table_all_def)
  moreover have "parse_object two_objects 0 empty_loader = Inr first_loaded"
    unfolding first_loaded_def by (rule Inr_projr [OF first_loads])
  ultimately show ?thesis using parse_object_links [of empty_loader two_objects 0 first_loaded] by simp
qed

definition before_pending :: loader where
  "before_pending = first_loaded\<lparr>ld_sparse := [NullChunk, SomeChunk 0, PendingComdat]\<rparr>"

lemma pending_sample: "\<not> isl (pending_loop two_objects 0 Map.empty [2] before_pending)"
  "sections_of two_objects 0 [2] = [2]" "getSectionDefinition (co_symbols (obj_of two_objects 0) ! 2) = Some (section_def 5 1)"
  "nat (cy_SectionNumber (co_symbols (obj_of two_objects 0) ! 2)) = 2"
  "ld_diags (projr (pending_loop two_objects 0 Map.empty [2] before_pending)) = []"
  "ld_sparse (projr (pending_loop two_objects 0 Map.empty [2] before_pending)) ! 1 = SomeChunk 0" "section_kept two_objects 0 2"
  by (code_simp, code_simp, code_simp, code_simp, code_simp, code_simp, code_simp)

theorem associative_follows_parent_witness:
  "ld_sparse (projr (pending_loop two_objects 0 Map.empty [2] before_pending)) ! 2 \<noteq> PendingComdat \<and>
   ld_sparse (projr (pending_loop two_objects 0 Map.empty [2] before_pending)) ! 2 \<noteq> NullChunk"
proof -
  have "\<not> oe_mingw two_objects" by (simp add: two_objects_def object_env_def)
  moreover have "sd_Selection (section_def 5 1) = 5" "sd_Number (section_def 5 1) = 1" by (simp_all add: section_def_def)
  moreover have "list_all (\<lambda>k. k < length (ld_sparse before_pending) \<and> ld_sparse before_pending ! k = PendingComdat) [2]"
    by (simp add: before_pending_def)
  ultimately show ?thesis
    using associative_follows_parent [OF _ Inr_projr [OF pending_sample(1)], of 2 "section_def 5 1"] pending_sample(2-) by auto
qed

lemma second_comdat:
  "\<not> isl (handleComdatSelection two_objects 1 (co_symbols (obj_of two_objects 1) ! 4) LARGEST False 0 (section_def 6 0) first_loaded)"
  "getChunk (st_store (ld_st first_loaded)) (sy_body (get_sym (ld_st first_loaded) 0)) = Some 0"
  "map_option (\<lambda>sc. (sc_selection sc, leader_def two_objects sc)) (ld_secs first_loaded 0) = Some (Some ANY, Some (section_def 2 0))"
  "\<not> se_isBitcode (oe_st two_objects) (dr_file (sy_body (get_sym (ld_st first_loaded) 0)))"
  "0 < length (st_syms (ld_st first_loaded))"
  "fst (snd (projr (handleComdatSelection two_objects 1 (co_symbols (obj_of two_objects 1) ! 4) LARGEST False 0 (section_def 6 0) first_loaded)))"
  by (code_simp, code_simp, code_simp, code_simp, code_simp, code_simp)

theorem handleComdatSelection_symmetric_witness:
  "diags (ld_st (snd (snd (projr (handleComdatSelection two_objects 1 (co_symbols (obj_of two_objects 1) ! 4) LARGEST False 0 (section_def 6 0) first_loaded)))))
   = diags (ld_st first_loaded)"
proof -
  obtain sc where sc: "ld_secs first_loaded 0 = Some sc" "sc_selection sc = Some ANY" "leader_def two_objects sc = Some (section_def 2 0)"
    using second_comdat(3) by auto
  obtain sel prevails ld' where r: "handleComdatSelection two_objects 1 (co_symbols (obj_of two_objects 1) ! 4) LARGEST False 0 (section_def 6 0) first_loaded
      = Inr (sel, prevails, ld')" using Inr_projr [OF second_comdat(1)] by (metis prod.exhaust)
  then have "prevails" using second_comdat(6) by simp
  moreover have "\<not> oe_mingw two_objects" by (simp add: two_objects_def object_env_def)
  ultimately show ?thesis
    using handleComdatSelection_symmetric [OF r second_comdat(2) sc(1) second_comdat(4,5) sc(2,3)] r
    by (simp add: comdat_conflict_def compatible_selections_def)
qed

text \<open>A COMDAT whose section is dropped by \<open>readSection\<close> leaves a leader without a chunk; the next copy reads through it.\<close>

lemma dropped_comdat_leader:
  "summary (parse_all (object_env False (\<lambda>f. comdat_object ''.debug_x'' 2 4)) [0, 1] empty_loader) = Inl NullLeader"
  by code_simp

text \<open>The number of the parent section is not checked.\<close>

lemma parent_out_of_range:
  "readAssociativeDefinition two_objects 0 (co_symbols (obj_of two_objects 0) ! 2) (section_def 5 9) 9 before_pending = Inl IndexOutOfRange"
  by (simp add: readAssociativeDefinition_def before_pending_def Let_def)

text \<open>Three copies marked \<open>any\<close>, \<open>any\<close> and \<open>largest\<close> of 4, 16 and 8 bytes: which one is kept depends on the order.\<close>

definition three_copies :: obj_env where
  "three_copies = object_env False (\<lambda>f. if f = 0 then comdat_object ''.text$f'' 2 4 else if f = 1 then comdat_object ''.text$f'' 2 16 else comdat_object ''.text$f'' 6 8)"

definition kept_file :: "load_error + loader \<Rightarrow> file_id option" where
  "kept_file r = (case r of Inl e \<Rightarrow> None | Inr ld \<Rightarrow> Some (dr_file (sy_body (get_sym (ld_st ld) 0))))"

lemma largest_depends_on_order:
  "kept_file (parse_all three_copies [0, 1, 2] empty_loader) = Some 2" "kept_file (parse_all three_copies [2, 0, 1] empty_loader) = Some 1"
  by (code_simp, code_simp)

end
