(* ===== verification/CommandLine.thy ===== *)
theory CommandLine
  imports StrRef
begin

text \<open>
  Command lines as text. The tokenizers of \<open>llvm/lib/Support/CommandLine.cpp\<close> split a string into arguments by the rules of
  Windows or of a Unix shell; the linker uses them for response files, for the \<open>LINK\<close> environment variable and for the
  directives embedded in object files. The two functions named \<open>quote\<close> (\<open>lld/COFF/PDB.cpp\<close> and \<open>lld/Common/Reproduce.cpp\<close>)
  turn arguments into text again. A loop over an index is a recursion over the rest of the string; a call of the callbacks
  that add a token or mark the end of a line is an element of the resulting list.
\<close>

section \<open>Characters\<close>

abbreviation dquote :: char where "dquote \<equiv> CHR 0x22"
abbreviation backslash :: char where "backslash \<equiv> CHR 0x5C"
abbreviation newline :: char where "newline \<equiv> CHR 0x0A"

definition isWhitespace :: "char \<Rightarrow> bool" where
  "isWhitespace c \<longleftrightarrow> c = CHR 0x20 \<or> c = CHR 0x09 \<or> c = CHR 0x0D \<or> c = CHR 0x0A"

definition isWhitespaceOrNull :: "char \<Rightarrow> bool" where
  "isWhitespaceOrNull c \<longleftrightarrow> isWhitespace c \<or> c = CHR 0x00"

definition isQuote :: "char \<Rightarrow> bool" where
  "isQuote c \<longleftrightarrow> c = dquote \<or> c = CHR 0x27"

definition isWindowsSpecialChar :: "char \<Rightarrow> bool" where
  "isWindowsSpecialChar c \<longleftrightarrow> isWhitespaceOrNull c \<or> c = backslash \<or> c = dquote"

definition isWindowsSpecialCharInCommandName :: "char \<Rightarrow> bool" where
  "isWindowsSpecialCharInCommandName c \<longleftrightarrow> isWhitespaceOrNull c \<or> c = dquote"

text \<open>An entry of \<open>NewArgv\<close>: a string, or the null pointer that marks the end of a line.\<close>

datatype argv_entry = Arg string | EOL

text \<open>The marks for the line ends among skipped white space.\<close>

definition eol_marks :: "string \<Rightarrow> argv_entry list" where
  "eol_marks s = map (\<lambda>_. EOL) (filter (\<lambda>c. c = newline) s)"

section \<open>Unix rules\<close>

text \<open>The rest of a quoted string: the token so far and, unless the text ended inside the quotes, what follows them.\<close>

fun gnu_quoted :: "char \<Rightarrow> string \<Rightarrow> string \<Rightarrow> string \<times> string option" where
  "gnu_quoted q token [] = (token, None)"
| "gnu_quoted q token (c # cs) =
     (if c = q then (token, Some cs)
      else if c = backslash then (case cs of [] \<Rightarrow> (token @ [c], None) | d # ds \<Rightarrow> gnu_quoted q (token @ [d]) ds)
      else gnu_quoted q (token @ [c]) cs)"

lemma gnu_quoted_shorter: "gnu_quoted q token s = (token', Some r) \<Longrightarrow> length r < length s"
  by (induction q token s rule: gnu_quoted.induct) (auto split: if_splits list.splits)

lemma dropWhile_Cons_length: "dropWhile P s = c # cs \<Longrightarrow> length cs < length s"
  using length_dropWhile_le [of P s] by simp

lemma gnu_src_shorter: "C # cs = (if b then Src else dropWhile isWhitespace Src) \<Longrightarrow> length cs < length Src"
  using dropWhile_Cons_length [of isWhitespace Src C cs] by (auto split: if_splits)

function gnu_loop :: "bool \<Rightarrow> bool \<Rightarrow> string \<Rightarrow> string \<Rightarrow> argv_entry list" where
  "gnu_loop MarkEOLs InToken Token Src =
     (let blanks = (if InToken then [] else takeWhile isWhitespace Src);
          Src' = (if InToken then Src else dropWhile isWhitespace Src)
      in (if MarkEOLs then eol_marks blanks else []) @
         (case Src' of
            [] \<Rightarrow> if InToken then [Arg Token] else []
          | C # cs \<Rightarrow>
              if C = backslash \<and> cs \<noteq> [] then gnu_loop MarkEOLs True (Token @ [hd cs]) (tl cs)
              else if isQuote C
              then (case gnu_quoted C Token cs of (t, None) \<Rightarrow> [Arg t] | (t, Some r) \<Rightarrow> gnu_loop MarkEOLs True t r)
              else if isWhitespace C
              then Arg Token # (if MarkEOLs then eol_marks [C] else []) @ gnu_loop MarkEOLs False [] cs
              else gnu_loop MarkEOLs True (Token @ [C]) cs))"
  by pat_completeness auto
termination
proof (relation "measure (\<lambda>(m, b, t, s). length s)", goal_cases)
  case (3 m b t s bl s' C cs t' p r)
  then show ?case using gnu_src_shorter [of C cs b s] gnu_quoted_shorter [of C t cs t' r] by simp
qed (use gnu_src_shorter in \<open>auto simp: less_imp_diff_less\<close>)

declare gnu_loop.simps [simp del]

definition TokenizeGNUCommandLine :: "string \<Rightarrow> bool \<Rightarrow> argv_entry list" where
  "TokenizeGNUCommandLine Src MarkEOLs = gnu_loop MarkEOLs False [] Src"

section \<open>Windows rules\<close>

text \<open>A run of backslashes, with the quote behind it if that is escaped: the token and the rest of the text.\<close>

definition parseBackslash :: "string \<Rightarrow> string \<Rightarrow> string \<times> string" where
  "parseBackslash Src Token =
     (let BackslashCount = length (takeWhile (\<lambda>c. c = backslash) Src); r = dropWhile (\<lambda>c. c = backslash) Src
      in case r of
           [] \<Rightarrow> (Token @ replicate BackslashCount backslash, r)
         | c # cs \<Rightarrow>
             if c = dquote
             then if BackslashCount mod 2 = 0 then (Token @ replicate (BackslashCount div 2) backslash, r)
                  else (Token @ replicate (BackslashCount div 2) backslash @ [dquote], cs)
             else (Token @ replicate BackslashCount backslash, r))"

datatype win_state = INIT | UNQUOTED | QUOTED

lemma parseBackslash_shorter:
  assumes "parseBackslash (backslash # cs) Token = (t, r)"
  shows "length r \<le> length cs"
proof -
  have "r = dropWhile (\<lambda>c. c = backslash) cs \<or> dropWhile (\<lambda>c. c = backslash) cs = dquote # r"
    using assms by (auto simp: parseBackslash_def Let_def split: list.splits if_splits)
  then show ?thesis using length_dropWhile_le [of "\<lambda>c. c = backslash" cs] by auto
qed

lemma not_special:
  "\<not> isWhitespaceOrNull d \<Longrightarrow> d \<noteq> dquote \<Longrightarrow> (if b then isWindowsSpecialCharInCommandName else isWindowsSpecialChar) d \<Longrightarrow> d = backslash"
  by (auto simp: isWindowsSpecialChar_def isWindowsSpecialCharInCommandName_def split: if_splits)

lemma dropWhile_twice:
  assumes "dropWhile (\<lambda>d. \<not> P d) (dropWhile Q (c # cs)) = d # ds"
  shows "length ds < Suc (length cs)" "P d"
proof -
  have "length (d # ds) \<le> length (c # cs)" unfolding assms [symmetric] by (metis length_dropWhile_le order_trans)
  then show "length ds < Suc (length cs)" by simp
  have "dropWhile (\<lambda>d. \<not> P d) (dropWhile Q (c # cs)) \<noteq> []" using assms by simp
  from hd_dropWhile [OF this] show "P d" unfolding assms by simp
qed

function win_loop :: "bool \<Rightarrow> bool \<Rightarrow> win_state \<Rightarrow> string \<Rightarrow> string \<Rightarrow> argv_entry list" where
  "win_loop InitialCommandName CommandName State Token [] = (if State \<noteq> INIT then [Arg Token] else [])"
| "win_loop InitialCommandName CommandName INIT Token (c # cs) =
     (let blanks = takeWhile isWhitespaceOrNull (c # cs); s = dropWhile isWhitespaceOrNull (c # cs);
          special = (if CommandName then isWindowsSpecialCharInCommandName else isWindowsSpecialChar);
          NormalChars = takeWhile (\<lambda>d. \<not> special d) s
      in eol_marks blanks @
         (if s = [] then []
          else case dropWhile (\<lambda>d. \<not> special d) s of
                 [] \<Rightarrow> [Arg NormalChars]
               | d # ds \<Rightarrow>
                   if isWhitespaceOrNull d
                   then Arg NormalChars # eol_marks [d] @
                        win_loop InitialCommandName (if d = newline then InitialCommandName else False) INIT Token ds
                   else if d = dquote then win_loop InitialCommandName CommandName QUOTED (Token @ NormalChars) ds
                   else (let (t, r) = parseBackslash (d # ds) (Token @ NormalChars)
                         in win_loop InitialCommandName CommandName UNQUOTED t r)))"
| "win_loop InitialCommandName CommandName UNQUOTED Token (c # cs) =
     (if isWhitespaceOrNull c
      then Arg Token # eol_marks [c] @ win_loop InitialCommandName (if c = newline then InitialCommandName else False) INIT [] cs
      else if c = dquote then win_loop InitialCommandName CommandName QUOTED Token cs
      else if c = backslash \<and> \<not> CommandName
      then (let (t, r) = parseBackslash (c # cs) Token in win_loop InitialCommandName CommandName UNQUOTED t r)
      else win_loop InitialCommandName CommandName UNQUOTED (Token @ [c]) cs)"
| "win_loop InitialCommandName CommandName QUOTED Token (c # cs) =
     (if c = dquote
      then if cs \<noteq> [] \<and> hd cs = dquote then win_loop InitialCommandName CommandName QUOTED (Token @ [dquote]) (tl cs)
           else win_loop InitialCommandName CommandName UNQUOTED Token cs
      else if c = backslash \<and> \<not> CommandName
      then (let (t, r) = parseBackslash (c # cs) Token in win_loop InitialCommandName CommandName QUOTED t r)
      else win_loop InitialCommandName CommandName QUOTED (Token @ [c]) cs)"
  by pat_completeness auto
termination
proof (relation "measure (\<lambda>(i, cn, st, t, s). length s)", goal_cases)
  case (2 i cn t c cs b s sp nc d ds)
  show ?case using dropWhile_twice(1) [of sp isWhitespaceOrNull c cs d ds] 2 by simp
next
  case (3 i cn t c cs b s sp nc d ds)
  show ?case using dropWhile_twice(1) [of sp isWhitespaceOrNull c cs d ds] 3 by simp
next
  case (4 i cn t c cs b s sp nc d ds p t' r)
  then have d: "dropWhile (\<lambda>d. \<not> sp d) (dropWhile isWhitespaceOrNull (c # cs)) = d # ds" by simp
  have "d = backslash" using dropWhile_twice(2) [OF d] 4 not_special [of d cn] by simp
  then have "length r \<le> length ds" using parseBackslash_shorter [of ds "t @ nc" t' r] 4 by metis
  then show ?case using dropWhile_twice(1) [OF d] by simp
qed (auto dest: parseBackslash_shorter parseBackslash_shorter [OF sym] simp: le_imp_less_Suc less_Suc_eq_le split: prod.splits)

declare win_loop.simps [simp del]

definition tokenizeWindowsCommandLineImpl :: "string \<Rightarrow> bool \<Rightarrow> argv_entry list" where
  "tokenizeWindowsCommandLineImpl Src InitialCommandName = win_loop InitialCommandName InitialCommandName INIT [] Src"

definition keep_eols :: "bool \<Rightarrow> argv_entry list \<Rightarrow> argv_entry list" where
  "keep_eols MarkEOLs es = (if MarkEOLs then es else filter (\<lambda>e. e \<noteq> EOL) es)"

definition TokenizeWindowsCommandLine :: "string \<Rightarrow> bool \<Rightarrow> argv_entry list" where
  "TokenizeWindowsCommandLine Src MarkEOLs = keep_eols MarkEOLs (tokenizeWindowsCommandLineImpl Src False)"

definition TokenizeWindowsCommandLineFull :: "string \<Rightarrow> bool \<Rightarrow> argv_entry list" where
  "TokenizeWindowsCommandLineFull Src MarkEOLs = keep_eols MarkEOLs (tokenizeWindowsCommandLineImpl Src True)"

fun args_of :: "argv_entry list \<Rightarrow> string list" where
  "args_of [] = []"
| "args_of (Arg t # es) = t # args_of es"
| "args_of (EOL # es) = args_of es"

definition TokenizeWindowsCommandLineNoCopy :: "string \<Rightarrow> string list" where
  "TokenizeWindowsCommandLineNoCopy Src = args_of (tokenizeWindowsCommandLineImpl Src False)"

section \<open>Quoting\<close>

text \<open>\<open>StringRef::split\<close> for a separator character.\<close>

lemma find_char_0: "find_char s c 0 = (if c \<in> set s then Some (length (takeWhile (\<lambda>d. d \<noteq> c) s)) else None)"
proof -
  have "find_from (\<lambda>d. d = c) s i = (if c \<in> set (drop i s) then Some (i + length (takeWhile (\<lambda>d. d \<noteq> c) (drop i s))) else None)" for i
  proof (induction "\<lambda>d. d = c" s i rule: find_from.induct)
    case (1 s i)
    show ?case
    proof (cases "i < length s")
      case True
      then have "drop i s = s ! i # drop (Suc i) s" by (simp add: Cons_nth_drop_Suc)
      then show ?thesis using 1 True by (subst find_from.simps) auto
    qed (subst find_from.simps, simp)
  qed
  from this [of 0] show ?thesis by (simp add: find_char_def)
qed

function split_char :: "string \<Rightarrow> char \<Rightarrow> int \<Rightarrow> bool \<Rightarrow> string list" where
  "split_char S Separator MaxSplit KeepEmpty =
     (case (if MaxSplit = 0 then None else find_char S Separator 0) of
        None \<Rightarrow> if KeepEmpty \<or> S \<noteq> [] then [S] else []
      | Some Idx \<Rightarrow>
          (if KeepEmpty \<or> 0 < Idx then [take Idx S] else []) @ split_char (drop (Idx + 1) S) Separator (MaxSplit - 1) KeepEmpty)"
  by pat_completeness auto
termination
  by (relation "measure (\<lambda>(S, c, m, k). length S)") (auto simp: find_char_0 split: if_splits intro!: diff_less length_pos_if_in_set)

declare split_char.simps [simp del]

text \<open>\<open>quote\<close> of \<open>PDB.cpp\<close>: one argument, and a command line.\<close>

definition PDB_quote_arg :: "string \<Rightarrow> string" where
  "PDB_quote_arg a =
     (let hasWS = (CHR '' '' \<in> set a); hasQ = (dquote \<in> set a);
          body = (if hasQ then join_with [dquote, dquote] (split_char a dquote (- 1) True) else a)
      in if hasWS \<or> hasQ then [dquote] @ body @ [dquote] else body)"

definition PDB_quote :: "string list \<Rightarrow> string" where
  "PDB_quote args = fold (\<lambda>a r. (if r \<noteq> [] then r @ '' '' else r) @ PDB_quote_arg a) args []"

text \<open>\<open>quote\<close> of \<open>Reproduce.cpp\<close>, used for the response file of \<open>/reproduce\<close>.\<close>

definition lld_quote :: "string \<Rightarrow> string" where
  "lld_quote s = (if CHR '' '' \<in> set s then [dquote] @ s @ [dquote] else s)"

section \<open>Users of the tokenizers\<close>

text \<open>\<open>ArgParser\<close> (\<open>lld/COFF/DriverUtils.cpp\<close>). The tokenizer for response files, by the argument of \<open>--rsp-quoting\<close>, and whether
  that argument is reported as invalid.\<close>

definition getQuotingStyle :: "string option \<Rightarrow> (string \<Rightarrow> bool \<Rightarrow> argv_entry list) \<times> bool" where
  "getQuotingStyle arg =
     (case arg of
        None \<Rightarrow> (TokenizeWindowsCommandLine, False)
      | Some s \<Rightarrow>
          (if s = ''windows'' then TokenizeWindowsCommandLine else TokenizeGNUCommandLine, s \<noteq> ''windows'' \<and> s \<noteq> ''posix''))"

definition tokenize :: "string \<Rightarrow> string list" where
  "tokenize s = args_of (TokenizeWindowsCommandLine s False)"

text \<open>The contents of the variables are inserted behind the program name, \<open>_LINK_\<close> before \<open>LINK\<close>.\<close>

definition addLINK :: "(string \<Rightarrow> string option) \<Rightarrow> string list \<Rightarrow> string list" where
  "addLINK GetEnv argv =
     (let argv1 = (case GetEnv ''LINK'' of Some s \<Rightarrow> take 1 argv @ tokenize s @ drop 1 argv | None \<Rightarrow> argv)
      in case GetEnv ''_LINK_'' of Some s \<Rightarrow> take 1 argv1 @ tokenize s @ drop 1 argv1 | None \<Rightarrow> argv1)"

text \<open>The directives of an object file: exports, included and excluded symbols, and the arguments left for the option table.\<close>

record ParsedDirectives =
  pd_exports :: "string list"
  pd_includes :: "string list"
  pd_excludes :: "string list"
  pd_rest :: "string list"

definition parse_directive :: "string \<Rightarrow> ParsedDirectives \<Rightarrow> ParsedDirectives" where
  "parse_directive tok result =
     (if starts_with_insensitive tok ''/export:'' \<or> starts_with_insensitive tok ''-export:''
      then result\<lparr>pd_exports := pd_exports result @ [substr tok 8 None]\<rparr>
      else if starts_with_insensitive tok ''/include:'' \<or> starts_with_insensitive tok ''-include:''
      then result\<lparr>pd_includes := pd_includes result @ [substr tok 9 None]\<rparr>
      else if starts_with_insensitive tok ''/exclude-symbols:'' \<or> starts_with_insensitive tok ''-exclude-symbols:''
      then result\<lparr>pd_excludes := pd_excludes result @ [substr tok 17 None]\<rparr>
      else result\<lparr>pd_rest := pd_rest result @ [tok]\<rparr>)"

definition parseDirectives :: "string \<Rightarrow> ParsedDirectives" where
  "parseDirectives s =
     fold parse_directive (TokenizeWindowsCommandLineNoCopy s) \<lparr>pd_exports = [], pd_includes = [], pd_excludes = [], pd_rest = []\<rparr>"

end
