(* ===== verification/Quoting.thy ===== *)
theory Quoting
  imports CommandLine
begin

section \<open>The tokenizer as a machine\<close>

lemma unquoted_normal:
  assumes "\<forall>c\<in>set xs. \<not> (if cn then isWindowsSpecialCharInCommandName else isWindowsSpecialChar) c"
  shows "win_loop i cn UNQUOTED tok (xs @ r) = win_loop i cn UNQUOTED (tok @ xs) r"
  using assms
proof (induction xs arbitrary: tok)
  case (Cons c xs)
  then have "\<not> isWhitespaceOrNull c" "c \<noteq> dquote" "\<not> (c = backslash \<and> \<not> cn)"
    by (auto simp: isWindowsSpecialChar_def isWindowsSpecialCharInCommandName_def split: if_splits)
  then show ?case using Cons by (auto simp: win_loop.simps(3))
qed simp

text \<open>The state \<open>INIT\<close> with its fast path for tokens without special characters does what \<open>UNQUOTED\<close> does.\<close>

lemma init_unquoted:
  assumes "\<not> isWhitespaceOrNull c"
  shows "win_loop i cn INIT [] (c # s) = win_loop i cn UNQUOTED [] (c # s)"
proof -
  define sp where "sp = (if cn then isWindowsSpecialCharInCommandName else isWindowsSpecialChar)"
  define xs where "xs = takeWhile (\<lambda>d. \<not> sp d) (c # s)"
  define r where "r = dropWhile (\<lambda>d. \<not> sp d) (c # s)"
  have split: "c # s = xs @ r" unfolding xs_def r_def by (rule takeWhile_dropWhile_id [symmetric])
  have xs: "\<forall>c\<in>set xs. \<not> (if cn then isWindowsSpecialCharInCommandName else isWindowsSpecialChar) c"
    unfolding xs_def sp_def [symmetric] by (auto dest: set_takeWhileD)
  have b: "dropWhile isWhitespaceOrNull (c # s) = c # s" "takeWhile isWhitespaceOrNull (c # s) = []" using assms by simp_all
  have "win_loop i cn INIT [] (c # s) =
      (case r of
         [] \<Rightarrow> [Arg xs]
       | d # ds \<Rightarrow>
           if isWhitespaceOrNull d then Arg xs # eol_marks [d] @ win_loop i (if d = newline then i else False) INIT [] ds
           else if d = dquote then win_loop i cn QUOTED xs ds
           else (let (t, r') = parseBackslash (d # ds) xs in win_loop i cn UNQUOTED t r'))"
    unfolding win_loop.simps(2) sp_def [symmetric] Let_def b xs_def [symmetric] r_def [symmetric] by (cases r) (simp_all add: eol_marks_def)
  also have "\<dots> = win_loop i cn UNQUOTED xs r"
  proof (cases r)
    case (Cons d ds)
    have "sp d" using dropWhile_twice(2) [of sp "\<lambda>_. False" c s d ds] Cons r_def by simp
    then have "isWhitespaceOrNull d \<or> d = dquote \<or> d = backslash \<and> \<not> cn"
      unfolding sp_def by (auto simp: isWindowsSpecialChar_def isWindowsSpecialCharInCommandName_def split: if_splits)
    then show ?thesis using Cons by (auto simp: win_loop.simps(3))
  qed (simp add: win_loop.simps)
  also have "\<dots> = win_loop i cn UNQUOTED [] (c # s)" unfolding split using unquoted_normal [OF xs, of i "[]" r] by simp
  finally show ?thesis .
qed

text \<open>The arguments the Windows rules give, from a state inside the text.\<close>

definition win_args :: "win_state \<Rightarrow> string \<Rightarrow> string \<Rightarrow> string list" where
  "win_args st tok s = args_of (win_loop False False st tok s)"

lemma args_of_append [simp]: "args_of (xs @ ys) = args_of xs @ args_of ys"
  by (induction xs rule: args_of.induct) auto

lemma args_of_eol_marks [simp]: "args_of (eol_marks s) = []"
proof -
  have "args_of (map (\<lambda>_. EOL) xs) = []" for xs :: string by (induction xs) auto
  then show ?thesis by (simp add: eol_marks_def)
qed

lemma win_args_blank: "isWhitespaceOrNull c \<Longrightarrow> win_args INIT [] (c # s) = win_args INIT [] s"
  by (cases s) (auto simp: win_args_def win_loop.simps Let_def)

lemma win_args_start: "\<not> isWhitespaceOrNull c \<Longrightarrow> win_args INIT [] (c # s) = win_args UNQUOTED [] (c # s)"
  by (simp add: win_args_def init_unquoted)

lemma win_args_Nil [simp]: "win_args st tok [] = (if st = INIT then [] else [tok])"
  by (simp add: win_args_def win_loop.simps)

definition escapes_quote :: "string \<Rightarrow> bool" where
  "escapes_quote s \<longleftrightarrow> (case dropWhile (\<lambda>c. c = backslash) s of [] \<Rightarrow> False | c # _ \<Rightarrow> c = dquote)"

lemma parseBackslash_literal:
  "\<not> escapes_quote s \<Longrightarrow>
    parseBackslash s tok = (tok @ replicate (length (takeWhile (\<lambda>c. c = backslash) s)) backslash, dropWhile (\<lambda>c. c = backslash) s)"
  by (cases "dropWhile (\<lambda>c. c = backslash) s") (simp_all add: parseBackslash_def escapes_quote_def Let_def del: dropWhile_eq_Nil_conv)

text \<open>Backslashes that do not precede a quote stand for themselves, one by one.\<close>

lemma win_args_backslash:
  assumes "\<not> escapes_quote s" and "st \<noteq> INIT"
  shows "win_args st tok (backslash # s) = win_args st (tok @ [backslash]) s"
proof -
  have ne: "\<not> escapes_quote (backslash # s)" using assms(1) by (simp add: escapes_quote_def)
  have ws: "\<not> isWhitespaceOrNull backslash" by (simp add: isWhitespaceOrNull_def isWhitespace_def)
  have step: "win_args st t (backslash # u) = win_args st (fst (parseBackslash (backslash # u) t)) (snd (parseBackslash (backslash # u) t))"
    for t u using assms(2) ws by (cases st) (simp_all add: win_args_def win_loop.simps split: prod.splits)
  show ?thesis
  proof (cases "s \<noteq> [] \<and> hd s = backslash")
    case True
    then obtain u where s: "s = backslash # u" by (cases s) auto
    show ?thesis unfolding step [of tok s] using assms(1) unfolding s step [of _ u]
      by (simp add: parseBackslash_literal escapes_quote_def)
  next
    case False
    then have "takeWhile (\<lambda>c. c = backslash) s = []" "dropWhile (\<lambda>c. c = backslash) s = s" by (cases s; simp)+
    then show ?thesis unfolding step parseBackslash_literal [OF ne] by simp
  qed
qed

lemma win_args_unquoted:
  "isWhitespaceOrNull c \<Longrightarrow> win_args UNQUOTED tok (c # s) = tok # win_args INIT [] s"
  "win_args UNQUOTED tok (dquote # s) = win_args QUOTED tok s"
  "\<not> isWhitespaceOrNull c \<Longrightarrow> c \<noteq> dquote \<Longrightarrow> c \<noteq> backslash \<Longrightarrow> win_args UNQUOTED tok (c # s) = win_args UNQUOTED (tok @ [c]) s"
  by (simp_all add: win_args_def win_loop.simps isWhitespaceOrNull_def isWhitespace_def)

lemma win_args_quoted:
  "win_args QUOTED tok (dquote # dquote # s) = win_args QUOTED (tok @ [dquote]) s"
  "s = [] \<or> hd s \<noteq> dquote \<Longrightarrow> win_args QUOTED tok (dquote # s) = win_args UNQUOTED tok s"
  "c \<noteq> dquote \<Longrightarrow> c \<noteq> backslash \<Longrightarrow> win_args QUOTED tok (c # s) = win_args QUOTED (tok @ [c]) s"
  by (auto simp: win_args_def win_loop.simps)

section \<open>Text without quotes\<close>

text \<open>The reference: the maximal runs of characters that are not blank.\<close>

function blank_words :: "string \<Rightarrow> string list" where
  "blank_words s =
     (case dropWhile isWhitespaceOrNull s of
        [] \<Rightarrow> []
      | c # cs \<Rightarrow> (c # takeWhile (\<lambda>d. \<not> isWhitespaceOrNull d) cs) # blank_words (dropWhile (\<lambda>d. \<not> isWhitespaceOrNull d) cs))"
  by pat_completeness auto
termination
proof (relation "measure length", goal_cases)
  case (2 s c cs)
  have "length cs < length s" by (rule dropWhile_Cons_length [OF 2])
  then show ?case using length_dropWhile_le [of "\<lambda>d. \<not> isWhitespaceOrNull d" cs] by simp
qed simp

declare blank_words.simps [simp del]

lemma blank_words_simps [simp]:
  "blank_words [] = []"
  "isWhitespaceOrNull c \<Longrightarrow> blank_words (c # s) = blank_words s"
  "\<not> isWhitespaceOrNull c \<Longrightarrow>
    blank_words (c # s) = (c # takeWhile (\<lambda>d. \<not> isWhitespaceOrNull d) s) # blank_words (dropWhile (\<lambda>d. \<not> isWhitespaceOrNull d) s)"
  by (subst blank_words.simps, simp)+

lemma not_escapes_quote: "dquote \<notin> set s \<Longrightarrow> \<not> escapes_quote s"
proof (cases "dropWhile (\<lambda>c. c = backslash) s")
  case (Cons c cs)
  assume "dquote \<notin> set s"
  moreover have "c \<in> set s" using set_dropWhileD [of c "\<lambda>c. c = backslash" s] Cons by simp
  ultimately show ?thesis using Cons by (auto simp: escapes_quote_def)
qed (simp add: escapes_quote_def del: dropWhile_eq_Nil_conv)

lemma win_args_no_quotes:
  assumes "dquote \<notin> set s"
  shows "win_args INIT [] s = blank_words s \<and>
    win_args UNQUOTED tok s = (tok @ takeWhile (\<lambda>d. \<not> isWhitespaceOrNull d) s) # blank_words (dropWhile (\<lambda>d. \<not> isWhitespaceOrNull d) s)"
  using assms
proof (induction s arbitrary: tok)
  case (Cons c s)
  have unq: "win_args UNQUOTED tok (c # s) =
      (tok @ takeWhile (\<lambda>d. \<not> isWhitespaceOrNull d) (c # s)) # blank_words (dropWhile (\<lambda>d. \<not> isWhitespaceOrNull d) (c # s))" for tok
  proof (cases "isWhitespaceOrNull c")
    case False
    have "win_args UNQUOTED tok (c # s) = win_args UNQUOTED (tok @ [c]) s"
      using False Cons.prems win_args_backslash [of s UNQUOTED] not_escapes_quote [of s] by (cases "c = backslash") (auto simp: win_args_unquoted)
    then show ?thesis using Cons.IH [of "tok @ [c]"] Cons.prems False by simp
  qed (use Cons in \<open>simp add: win_args_unquoted\<close>)
  show ?case
  proof (cases "isWhitespaceOrNull c")
    case True
    then show ?thesis using Cons unq by (simp add: win_args_blank)
  next
    case False
    then show ?thesis using unq win_args_start [OF False, of s] by simp
  qed
qed simp

section \<open>Quoting and tokenizing\<close>

text \<open>A backslash that the tokenizer would take as an escape once the argument is in quotes: one before a quote or at the end.\<close>

fun backslash_before_quote :: "string \<Rightarrow> bool" where
  "backslash_before_quote [] = False"
| "backslash_before_quote (c # cs) = (c = backslash \<and> (cs = [] \<or> hd cs = dquote) \<or> backslash_before_quote cs)"

definition double_quotes :: "string \<Rightarrow> string" where
  "double_quotes a = concat (map (\<lambda>c. if c = dquote then [dquote, dquote] else [c]) a)"

definition PDB_quotable :: "string \<Rightarrow> bool" where
  "PDB_quotable a \<longleftrightarrow>
     (if CHR '' '' \<in> set a \<or> dquote \<in> set a then \<not> backslash_before_quote a
      else a \<noteq> [] \<and> list_all (\<lambda>c. \<not> isWhitespaceOrNull c) a)"

lemma split_char_Cons:
  assumes "m < 0"
  shows "split_char (dquote # a) dquote m True = [] # split_char a dquote (m - 1) True"
    and "c \<noteq> dquote \<Longrightarrow> \<exists>x xs. split_char a dquote m True = x # xs \<and> split_char (c # a) dquote m True = (c # x) # xs"
  using assms by (subst split_char.simps, simp add: find_char_0) (subst (1 2) split_char.simps, simp add: find_char_0)

lemma split_char_join:
  "m < 0 \<Longrightarrow> split_char a dquote m True \<noteq> [] \<and> join_with [dquote, dquote] (split_char a dquote m True) = double_quotes a"
proof (induction a arbitrary: m)
  case Nil
  show ?case by (subst (1 2) split_char.simps) (simp add: find_char_0 double_quotes_def)
next
  case (Cons c a)
  show ?case
  proof (cases "c = dquote")
    case True
    obtain x xs where x: "split_char a dquote (m - 1) True = x # xs" using Cons.IH [of "m - 1"] Cons.prems by (auto simp: neq_Nil_conv)
    show ?thesis using Cons.IH [of "m - 1"] Cons.prems split_char_Cons(1) [OF Cons.prems, of a] True x by (simp add: double_quotes_def)
  next
    case False
    then obtain x xs where "split_char a dquote m True = x # xs" "split_char (c # a) dquote m True = (c # x) # xs"
      using split_char_Cons(2) [OF Cons.prems] by blast
    then show ?thesis using Cons.IH [OF Cons.prems] False by (cases xs) (simp_all add: double_quotes_def)
  qed
qed

lemma backslash_escape:
  assumes "\<not> backslash_before_quote (backslash # a)"
  shows "\<not> escapes_quote (double_quotes a @ dquote # r)"
  using assms by (induction a) (auto simp: double_quotes_def escapes_quote_def)

lemma quoted_scan:
  "\<not> backslash_before_quote a \<Longrightarrow> win_args QUOTED tok (double_quotes a @ dquote # r) = win_args QUOTED (tok @ a) (dquote # r)"
proof (induction a arbitrary: tok)
  case (Cons c a)
  have "win_args QUOTED tok (double_quotes (c # a) @ dquote # r) = win_args QUOTED (tok @ [c]) (double_quotes a @ dquote # r)"
    using Cons.prems backslash_escape [of a r]
    by (cases "c = dquote"; cases "c = backslash") (simp_all add: double_quotes_def win_args_quoted win_args_backslash)
  then show ?case using Cons by simp
qed (simp add: double_quotes_def)

lemma double_quotes_id: "dquote \<notin> set a \<Longrightarrow> double_quotes a = a"
  by (induction a) (auto simp: double_quotes_def)

lemma PDB_quote_arg_eq:
  "PDB_quote_arg a = (if CHR '' '' \<in> set a \<or> dquote \<in> set a then dquote # double_quotes a @ [dquote] else a)"
  using split_char_join [of "- 1" a] by (simp add: PDB_quote_arg_def Let_def double_quotes_id)

lemma unquoted_scan:
  assumes "dquote \<notin> set a" and "list_all (\<lambda>c. \<not> isWhitespaceOrNull c) a" and "r = [] \<or> hd r = CHR '' ''"
  shows "win_args UNQUOTED tok (a @ r) = win_args UNQUOTED (tok @ a) r"
  using assms(1,2)
proof (induction a arbitrary: tok)
  case (Cons c a)
  have "\<not> escapes_quote (a @ r)"
  proof -
    have "escapes_quote (a @ r) = escapes_quote r" if "\<forall>c\<in>set a. c = backslash" using that by (simp add: escapes_quote_def)
    moreover have "\<not> escapes_quote r" using assms(3) by (cases r) (auto simp: escapes_quote_def)
    moreover have "\<not> escapes_quote (a @ r)" if "\<not> (\<forall>c\<in>set a. c = backslash)"
    proof -
      obtain d ds where "dropWhile (\<lambda>c. c = backslash) a = d # ds" using \<open>\<not> (\<forall>c\<in>set a. c = backslash)\<close>
        by (cases "dropWhile (\<lambda>c. c = backslash) a") auto
      then show ?thesis using that Cons.prems(1) not_escapes_quote [of a] by (auto simp: escapes_quote_def dropWhile_append)
    qed
    ultimately show ?thesis by blast
  qed
  then have "win_args UNQUOTED tok (c # a @ r) = win_args UNQUOTED (tok @ [c]) (a @ r)"
    using Cons.prems by (cases "c = backslash") (auto simp: win_args_unquoted win_args_backslash)
  then show ?case using Cons by simp
qed simp

lemma win_args_end: "r = [] \<or> hd r = CHR '' '' \<Longrightarrow> win_args UNQUOTED tok r = tok # win_args INIT [] r"
  by (cases r) (auto simp: win_args_unquoted win_args_blank isWhitespaceOrNull_def isWhitespace_def)

lemma quoted_arg:
  assumes "PDB_quotable a" and r: "r = [] \<or> hd r = CHR '' ''"
  shows "win_args INIT [] (PDB_quote_arg a @ r) = a # win_args INIT [] r"
proof (cases "CHR '' '' \<in> set a \<or> dquote \<in> set a")
  case True
  have dq: "\<not> isWhitespaceOrNull dquote" by (simp add: isWhitespaceOrNull_def isWhitespace_def)
  have "win_args INIT [] (PDB_quote_arg a @ r) = win_args QUOTED [] (double_quotes a @ dquote # r)"
    using True by (simp add: PDB_quote_arg_eq win_args_start [OF dq] win_args_unquoted)
  also have "\<dots> = win_args UNQUOTED a r"
    using True assms quoted_scan [of a "[]" r] by (auto simp: PDB_quotable_def win_args_quoted)
  finally show ?thesis using win_args_end [OF r] by simp
next
  case False
  then have a: "a \<noteq> []" "list_all (\<lambda>c. \<not> isWhitespaceOrNull c) a" "dquote \<notin> set a" using assms(1) by (simp_all add: PDB_quotable_def)
  then obtain c a' where c: "a = c # a'" "\<not> isWhitespaceOrNull c" by (cases a) auto
  have "win_args INIT [] (PDB_quote_arg a @ r) = win_args UNQUOTED [] (a @ r)" using False c by (simp add: PDB_quote_arg_eq win_args_start)
  then show ?thesis using unquoted_scan [OF a(3,2) r, of "[]"] win_args_end [OF r] by simp
qed

lemma PDB_quote_fold:
  "r \<noteq> [] \<Longrightarrow> fold (\<lambda>a r. (if r \<noteq> [] then r @ '' '' else r) @ PDB_quote_arg a) args r = r @ concat (map (\<lambda>a. CHR '' '' # PDB_quote_arg a) args)"
  by (induction args arbitrary: r) auto

lemma quoted_args: "list_all PDB_quotable args \<Longrightarrow> win_args INIT [] (concat (map (\<lambda>a. CHR '' '' # PDB_quote_arg a) args)) = args"
proof (induction args)
  case (Cons a args)
  let ?r = "concat (map (\<lambda>a. CHR '' '' # PDB_quote_arg a) args)"
  have "?r = [] \<or> hd ?r = CHR '' ''" by (cases args) auto
  from quoted_arg [OF _ this, of a] show ?case using Cons
    by (simp add: win_args_blank isWhitespaceOrNull_def isWhitespace_def)
qed simp

lemma PDB_quotable_nonempty: "PDB_quotable a \<Longrightarrow> PDB_quote_arg a \<noteq> []"
  by (auto simp: PDB_quotable_def PDB_quote_arg_eq split: if_splits)

section \<open>Necessity\<close>

lemma parseBackslash_token: "prefix tok (fst (parseBackslash s tok))"
  by (cases "dropWhile (\<lambda>c. c = backslash) s") (simp_all add: parseBackslash_def Let_def del: dropWhile_eq_Nil_conv)

lemma win_loop_grows: "st \<noteq> INIT \<Longrightarrow> \<exists>t es. win_loop i cn st tok s = Arg t # es \<and> prefix tok t"
proof (induction i cn st tok s rule: win_loop.induct)
  case (3 i cn tok c cs)
  obtain t r where p: "parseBackslash (c # cs) tok = (t, r)" by fastforce
  have t: "prefix tok t" using parseBackslash_token [of tok "c # cs"] p by simp
  consider "isWhitespaceOrNull c" | "\<not> isWhitespaceOrNull c" "c = dquote" | "\<not> isWhitespaceOrNull c" "c = backslash \<and> \<not> cn"
    | "\<not> isWhitespaceOrNull c" "c \<noteq> dquote" "\<not> (c = backslash \<and> \<not> cn)" by blast
  then show ?case
  proof cases
    case 3
    with "3.IH"(3) [OF 3(1) _ 3(2) p [symmetric] refl] p show ?thesis by (auto simp: win_loop.simps(3) intro: prefix_order.trans [OF t])
  next
    case 4
    with "3.IH"(4) [OF 4] show ?thesis by (auto simp: win_loop.simps(3) dest: append_prefixD)
  qed (use "3.IH"(2) in \<open>auto simp: win_loop.simps(3)\<close>)
next
  case (4 i cn tok c cs)
  obtain t r where p: "parseBackslash (c # cs) tok = (t, r)" by fastforce
  have t: "prefix tok t" using parseBackslash_token [of tok "c # cs"] p by simp
  consider "c = dquote" "cs \<noteq> [] \<and> hd cs = dquote" | "c = dquote" "\<not> (cs \<noteq> [] \<and> hd cs = dquote)"
    | "c \<noteq> dquote" "c = backslash \<and> \<not> cn" | "c \<noteq> dquote" "\<not> (c = backslash \<and> \<not> cn)" by blast
  then show ?case
  proof cases
    case 1
    with "4.IH"(1) [OF 1] show ?thesis by (auto simp: win_loop.simps(4) dest: append_prefixD)
  next
    case 2
    with "4.IH"(2) [OF 2] show ?thesis by (auto simp: win_loop.simps(4))
  next
    case 3
    with "4.IH"(3) [OF 3 p [symmetric] refl] p show ?thesis by (auto simp: win_loop.simps(4) intro: prefix_order.trans [OF t])
  next
    case 4
    with "4.IH"(4) [OF 4] show ?thesis by (auto simp: win_loop.simps(4) dest: append_prefixD)
  qed
qed (auto simp: win_loop.simps)

lemma win_args_grows: "st \<noteq> INIT \<Longrightarrow> \<exists>t ts. win_args st tok s = t # ts \<and> prefix tok t"
  using win_loop_grows [of st False False tok s] by (auto simp: win_args_def)

text \<open>A run of backslashes before a quote loses some of them.\<close>

lemma shorter_run: "k < n \<Longrightarrow> \<not> prefix (replicate k backslash @ [dquote]) (replicate n backslash @ y)"
proof
  assume k: "k < n" and "prefix (replicate k backslash @ [dquote]) (replicate n backslash @ y)"
  then obtain z where "replicate n backslash @ y = replicate k backslash @ dquote # z" by (auto simp: prefix_def)
  then have "(replicate n backslash @ y) ! k = (replicate k backslash @ dquote # z) ! k" by simp
  then show False using k by (simp add: nth_append)
qed

lemma double_quotes_run: "double_quotes (replicate n backslash @ q) = replicate n backslash @ double_quotes q"
  by (induction n) (simp_all add: double_quotes_def)

lemma parseBackslash_quote:
  "parseBackslash (replicate n backslash @ dquote # r) tok =
    (if even n then (tok @ replicate (n div 2) backslash, dquote # r) else (tok @ replicate (n div 2) backslash @ [dquote], r))"
  by (simp add: parseBackslash_def takeWhile_append dropWhile_append even_iff_mod_2_eq_zero)

lemma win_args_parse:
  "parseBackslash (backslash # s) tok = (t, r) \<Longrightarrow> win_args QUOTED tok (backslash # s) = win_args QUOTED t r"
  by (simp add: win_args_def win_loop.simps)

lemma run_lost:
  assumes "0 < n" and "q = [] \<or> hd q = dquote"
  shows "hd (win_args QUOTED tok (double_quotes (replicate n backslash @ q) @ [dquote])) \<noteq> tok @ replicate n backslash @ q"
proof -
  obtain m where n: "n = Suc m" using assms(1) by (cases n) auto
  obtain r where r: "double_quotes q @ [dquote] = dquote # r" "q \<noteq> [] \<Longrightarrow> \<exists>r'. r = dquote # r'" "q = [] \<Longrightarrow> r = []"
    using assms(2) by (cases q) (auto simp: double_quotes_def)
  obtain t s where p: "parseBackslash (replicate n backslash @ dquote # r) tok = (t, s)" by fastforce
  then have w: "win_args QUOTED tok (double_quotes (replicate n backslash @ q) @ [dquote]) = win_args QUOTED t s"
    using win_args_parse [of "replicate m backslash @ dquote # r" tok t s]
    unfolding double_quotes_run append_assoc r(1) by (simp add: n)
  have lost: "hd (win_args QUOTED (tok @ replicate k backslash @ [dquote]) s) \<noteq> tok @ replicate n backslash @ q" if "k < n" for k s
    using win_args_grows [of QUOTED "tok @ replicate k backslash @ [dquote]" s] shorter_run [OF that, of q] by auto
  have half: "n div 2 < n" using assms(1) by simp
  show ?thesis
  proof (cases "even n")
    case False
    then show ?thesis using lost [OF half] p w by (simp add: parseBackslash_quote)
  next
    case True
    then have t: "t = tok @ replicate (n div 2) backslash" "s = dquote # r" using p by (simp_all add: parseBackslash_quote)
    show ?thesis
    proof (cases "q = []")
      case True
      then show ?thesis using w t r(3) half by (simp add: win_args_quoted replicate_eq_replicate)
    next
      case False
      then obtain r' where "r = dquote # r'" using r(2) by blast
      then show ?thesis using lost [OF half, of r'] w t by (simp add: win_args_quoted)
    qed
  qed
qed

lemma quoted_lost:
  "backslash_before_quote a \<Longrightarrow> hd (win_args QUOTED tok (double_quotes a @ [dquote])) \<noteq> tok @ a"
proof (induction a arbitrary: tok)
  case (Cons c a)
  show ?case
  proof (cases "c = backslash \<and> escapes_quote (double_quotes a @ [dquote])")
    case True
    define n where "n = length (takeWhile (\<lambda>c. c = backslash) (c # a))"
    define q where "q = dropWhile (\<lambda>c. c = backslash) (c # a)"
    have run: "takeWhile (\<lambda>c. c = backslash) (c # a) = replicate n backslash"
      unfolding n_def by (rule replicate_length_same [symmetric]) (auto dest: set_takeWhileD)
    have split: "c # a = replicate n backslash @ q" unfolding q_def run [symmetric] by (rule takeWhile_dropWhile_id [symmetric])
    have "0 < n" using True by (simp add: n_def)
    have "q = [] \<or> hd q = dquote"
    proof (cases q)
      case (Cons d ds)
      have "d \<noteq> backslash" using hd_dropWhile [of "\<lambda>c. c = backslash" "c # a"] Cons q_def by auto
      moreover have "escapes_quote (double_quotes (c # a) @ [dquote])" using True by (simp add: escapes_quote_def double_quotes_def)
      ultimately show ?thesis unfolding split double_quotes_run Cons
        by (simp add: escapes_quote_def double_quotes_def dropWhile_append split: if_splits)
    qed simp
    then show ?thesis unfolding split using run_lost [OF \<open>0 < n\<close>] by simp
  next
    case False
    then have "win_args QUOTED tok (double_quotes (c # a) @ [dquote]) = win_args QUOTED (tok @ [c]) (double_quotes a @ [dquote])"
      by (cases "c = dquote"; cases "c = backslash") (auto simp: double_quotes_def win_args_quoted win_args_backslash)
    moreover have "backslash_before_quote a"
      using Cons.prems False by (cases a) (auto simp: escapes_quote_def double_quotes_def)
    ultimately show ?thesis using Cons.IH [of "tok @ [c]"] by simp
  qed
qed simp

lemma blank_words_self: "blank_words a = [a] \<Longrightarrow> list_all (\<lambda>c. \<not> isWhitespaceOrNull c) a"
proof -
  have tok: "t \<in> set (blank_words a) \<Longrightarrow> list_all (\<lambda>c. \<not> isWhitespaceOrNull c) t" for t
  proof (induction a rule: blank_words.induct)
    case (1 a)
    show ?case
    proof (cases "dropWhile isWhitespaceOrNull a")
      case Nil
      have "blank_words a = []" unfolding blank_words.simps [of a] Nil by simp
      then show ?thesis using 1(2) by simp
    next
      case (Cons c cs)
      have c: "\<not> isWhitespaceOrNull c" using hd_dropWhile [of isWhitespaceOrNull a] Cons by auto
      have "blank_words a = (c # takeWhile (\<lambda>d. \<not> isWhitespaceOrNull d) cs) # blank_words (dropWhile (\<lambda>d. \<not> isWhitespaceOrNull d) cs)"
        unfolding blank_words.simps [of a] Cons by simp
      then consider "t = c # takeWhile (\<lambda>d. \<not> isWhitespaceOrNull d) cs" | "t \<in> set (blank_words (dropWhile (\<lambda>d. \<not> isWhitespaceOrNull d) cs))"
        using 1(2) by auto
      then show ?thesis
      proof cases
        case 1
        then show ?thesis using c by (auto simp: list_all_iff dest: set_takeWhileD)
      next
        case 2
        then show ?thesis by (rule "1.IH" [OF Cons])
      qed
    qed
  qed
  assume "blank_words a = [a]"
  then show ?thesis using tok [of a] by simp
qed

lemma NoCopy_win_args: "TokenizeWindowsCommandLineNoCopy s = win_args INIT [] s"
  by (simp add: TokenizeWindowsCommandLineNoCopy_def tokenizeWindowsCommandLineImpl_def win_args_def)

text \<open>C17: The Windows tokenizer reads the command line that \<open>quote\<close> of \<open>PDB.cpp\<close> writes back as the same arguments whenever each of
  them is quotable: a quoted one has no backslash before a quote or at its end, and one that needs no quotes is not empty
  and has no white space or null character. For a single argument this condition is also necessary.\<close>

theorem PDB_quote_roundtrip:
  "(list_all PDB_quotable args \<longrightarrow> TokenizeWindowsCommandLineNoCopy (PDB_quote args) = args) \<and>
   (TokenizeWindowsCommandLineNoCopy (PDB_quote [a]) = [a] \<longleftrightarrow> PDB_quotable a)"
proof -
  have rt: "TokenizeWindowsCommandLineNoCopy (PDB_quote args) = args" if "list_all PDB_quotable args" for args
  proof (cases args)
    case (Cons b bs)
    let ?r = "concat (map (\<lambda>a. CHR '' '' # PDB_quote_arg a) bs)"
    have q: "PDB_quotable b" "list_all PDB_quotable bs" using that Cons by simp_all
    have "PDB_quote args = PDB_quote_arg b @ ?r"
      using PDB_quote_fold [OF PDB_quotable_nonempty [OF q(1)], of bs] Cons by (simp add: PDB_quote_def)
    moreover have "?r = [] \<or> hd ?r = CHR '' ''" by (cases bs) auto
    ultimately show ?thesis using quoted_arg [OF q(1)] quoted_args [OF q(2)] Cons by (simp add: NoCopy_win_args)
  qed (simp add: NoCopy_win_args PDB_quote_def)
  have "PDB_quotable a" if t: "win_args INIT [] (PDB_quote_arg a) = [a]"
  proof (cases "CHR '' '' \<in> set a \<or> dquote \<in> set a")
    case True
    have dq: "\<not> isWhitespaceOrNull dquote" by (simp add: isWhitespaceOrNull_def isWhitespace_def)
    have "win_args INIT [] (PDB_quote_arg a) = win_args QUOTED [] (double_quotes a @ [dquote])"
      using True by (simp add: PDB_quote_arg_eq win_args_start [OF dq] win_args_unquoted)
    with t have "hd (win_args QUOTED [] (double_quotes a @ [dquote])) = a" by (metis list.sel(1))
    then show ?thesis using True quoted_lost [of a "[]"] by (auto simp: PDB_quotable_def)
  next
    case False
    then have "blank_words a = [a]" using t win_args_no_quotes [of a] by (simp add: PDB_quote_arg_eq)
    then show ?thesis using False blank_words_self [of a] by (auto simp: PDB_quotable_def)
  qed
  then have "TokenizeWindowsCommandLineNoCopy (PDB_quote [a]) = [a] \<longleftrightarrow> PDB_quotable a"
    using rt [of "[a]"] by (auto simp: NoCopy_win_args PDB_quote_def)
  then show ?thesis using rt [of args] by blast
qed

theorem PDB_quote_roundtrip_witness:
  "TokenizeWindowsCommandLineNoCopy (PDB_quote [''/out:my dir'', ''a'' @ [dquote] @ ''b'', ''C:'' @ [backslash] @ ''x'']) =
     [''/out:my dir'', ''a'' @ [dquote] @ ''b'', ''C:'' @ [backslash] @ ''x'']"
proof -
  have "list_all PDB_quotable [''/out:my dir'', ''a'' @ [dquote] @ ''b'', ''C:'' @ [backslash] @ ''x'']" by code_simp
  then show ?thesis using PDB_quote_roundtrip by blast
qed

text \<open>An argument with a space that ends in a backslash, such as a directory, comes back with a quote in place of the backslash.\<close>

lemma PDB_quote_directory:
  "TokenizeWindowsCommandLineNoCopy (PDB_quote [''my dir'' @ [backslash], ''x'']) = [''my dir'' @ [dquote] @ '' x'']"
  by code_simp

lemma lld_quote_directory:
  "TokenizeWindowsCommandLineNoCopy (''/libpath:'' @ lld_quote (''my dir'' @ [backslash]) @ [newline] @ ''x'') =
    [''/libpath:my dir'' @ [dquote, newline] @ ''x'']"
  by code_simp
end
