(* ===== verification/Reproduce.thy ===== *)
theory Reproduce
  imports Quoting PathLib
begin

text \<open>
  The response file that \<open>/reproduce\<close> writes (\<open>createResponseFile\<close> of \<open>lld/COFF/Driver.cpp\<close>, \<open>relativeToRoot\<close>, \<open>quote\<close> and
  \<open>toString\<close> of \<open>lld/Common/Reproduce.cpp\<close>), read back by the tokenizer that expands response files. The file system is two
  functions: which paths exist, and the absolute form of a path.
\<close>

section \<open>Arguments\<close>

datatype opt_id =
  OPT_linkrepro | OPT_reproduce | OPT_libpath | OPT_winsysroot | OPT_INPUT | OPT_wholearchive_file
| OPT_call_graph_ordering_file | OPT_deffile | OPT_manifestinput | OPT_natvis | OPT_order | OPT_pdbstream
| OPT_implib | OPT_manifestfile | OPT_pdb | OPT_pdbstripped | OPT_out | OPT_other

record opt_arg =
  oa_id :: opt_id
  oa_spelling :: string
  oa_values :: "string list"
  oa_joined :: bool

record repro_env =
  re_exists :: "string \<Rightarrow> bool"
  re_make_absolute :: "string \<Rightarrow> string option"

definition getValue :: "opt_arg \<Rightarrow> string" where
  "getValue a = hd (oa_values a)"

section \<open>Paths\<close>

definition relativeToRoot :: "repro_env \<Rightarrow> string \<Rightarrow> string" where
  "relativeToRoot env path =
     (case re_make_absolute env path of
        None \<Rightarrow> path
      | Some abs0 \<Rightarrow>
          (let abs = snd (remove_dots abs0 True native);
               root = root_name abs native;
               res = (if ends_with root '':'' then butlast root else if starts_with root ''//'' then substr root 2 None else [])
           in convert_to_slash (path_append res native [relative_path abs native]) native))"

definition rewritePath :: "repro_env \<Rightarrow> string \<Rightarrow> string" where
  "rewritePath env s = (if re_exists env s then relativeToRoot env s else s)"

section \<open>The response file\<close>

definition arg_toString :: "opt_arg \<Rightarrow> string" where
  "arg_toString a =
     (let k = oa_spelling a; v = join_with '' '' (map lld_quote (oa_values a))
      in if oa_values a = [] then k else if oa_joined a then k @ v else k @ '' '' @ v)"

definition response_line :: "repro_env \<Rightarrow> opt_arg \<Rightarrow> string" where
  "response_line env a =
     (let v = getValue a; path = lld_quote (rewritePath env v) in
      case oa_id a of
        OPT_linkrepro \<Rightarrow> [] | OPT_reproduce \<Rightarrow> [] | OPT_libpath \<Rightarrow> [] | OPT_winsysroot \<Rightarrow> []
      | OPT_INPUT \<Rightarrow> path @ [newline]
      | OPT_wholearchive_file \<Rightarrow> oa_spelling a @ path @ [newline]
      | OPT_call_graph_ordering_file \<Rightarrow> oa_spelling a @ path @ [newline]
      | OPT_deffile \<Rightarrow> oa_spelling a @ path @ [newline]
      | OPT_manifestinput \<Rightarrow> oa_spelling a @ path @ [newline]
      | OPT_natvis \<Rightarrow> oa_spelling a @ path @ [newline]
      | OPT_order \<Rightarrow>
          (let orderFile = (case consume_front v ''@'' of Some r \<Rightarrow> r | None \<Rightarrow> v)
           in oa_spelling a @ ''@'' @ lld_quote (rewritePath env orderFile) @ [newline])
      | OPT_pdbstream \<Rightarrow>
          (let (name, streamFile) = split_pair v ''=''
           in oa_spelling a @ name @ ''='' @ lld_quote (rewritePath env streamFile) @ [newline])
      | OPT_implib \<Rightarrow> oa_spelling a @ filename v native @ [newline]
      | OPT_manifestfile \<Rightarrow> oa_spelling a @ filename v native @ [newline]
      | OPT_pdb \<Rightarrow> oa_spelling a @ filename v native @ [newline]
      | OPT_pdbstripped \<Rightarrow> oa_spelling a @ filename v native @ [newline]
      | OPT_out \<Rightarrow> oa_spelling a @ filename v native @ [newline]
      | OPT_other \<Rightarrow> arg_toString a @ [newline])"

definition libpath_line :: "repro_env \<Rightarrow> string \<Rightarrow> string" where
  "libpath_line env path = ''/libpath:'' @ lld_quote (relativeToRoot env path) @ [newline]"

definition createResponseFile :: "repro_env \<Rightarrow> opt_arg list \<Rightarrow> string list \<Rightarrow> string" where
  "createResponseFile env args searchPaths =
     concat (map (response_line env) args) @ concat (map (libpath_line env) searchPaths)"

section \<open>Reading the response file\<close>

text \<open>The arguments a line stands for.\<close>

definition arg_tokens :: "repro_env \<Rightarrow> opt_arg \<Rightarrow> string list" where
  "arg_tokens env a =
     (let v = getValue a; k = oa_spelling a in
      if oa_id a \<in> {OPT_linkrepro, OPT_reproduce, OPT_libpath, OPT_winsysroot} then []
      else if oa_id a = OPT_INPUT then [rewritePath env v]
      else if oa_id a \<in> {OPT_wholearchive_file, OPT_call_graph_ordering_file, OPT_deffile, OPT_manifestinput, OPT_natvis}
      then [k @ rewritePath env v]
      else if oa_id a = OPT_order
      then [k @ ''@'' @ rewritePath env (case consume_front v ''@'' of Some r \<Rightarrow> r | None \<Rightarrow> v)]
      else if oa_id a = OPT_pdbstream then [k @ fst (split_pair v ''='') @ ''='' @ rewritePath env (snd (split_pair v ''=''))]
      else if oa_id a = OPT_other
      then (case oa_values a of [] \<Rightarrow> [k] | w # ws \<Rightarrow> if oa_joined a then (k @ w) # ws else k # w # ws)
      else [k @ filename v native])"

text \<open>Text that needs no quotes, and a value that \<open>lld_quote\<close> writes so that it reads back.\<close>

definition plain_text :: "string \<Rightarrow> bool" where
  "plain_text s \<longleftrightarrow> list_all (\<lambda>c. \<not> isWhitespaceOrNull c \<and> c \<noteq> dquote) s"

definition quotable_value :: "string \<Rightarrow> bool" where
  "quotable_value v \<longleftrightarrow> dquote \<notin> set v \<and> (if CHR '' '' \<in> set v then last v \<noteq> backslash else plain_text v)"

definition plain_spelling :: "string \<Rightarrow> bool" where
  "plain_spelling k \<longleftrightarrow> k \<noteq> [] \<and> plain_text k \<and> last k \<noteq> backslash"

text \<open>All parts of an argument can be written: paths and values are quotable, and the file names that are written without
  quotes have no white space.\<close>

definition reproducible :: "repro_env \<Rightarrow> opt_arg \<Rightarrow> bool" where
  "reproducible env a \<longleftrightarrow>
     plain_spelling (oa_spelling a) \<and>
     (let v = getValue a in
      if oa_id a \<in> {OPT_linkrepro, OPT_reproduce, OPT_libpath, OPT_winsysroot} then True
      else if oa_id a = OPT_INPUT then rewritePath env v \<noteq> [] \<and> quotable_value (rewritePath env v)
      else if oa_id a \<in> {OPT_wholearchive_file, OPT_call_graph_ordering_file, OPT_deffile, OPT_manifestinput, OPT_natvis}
      then quotable_value (rewritePath env v)
      else if oa_id a = OPT_order then quotable_value (rewritePath env (case consume_front v ''@'' of Some r \<Rightarrow> r | None \<Rightarrow> v))
      else if oa_id a = OPT_pdbstream
      then plain_text (fst (split_pair v ''='')) \<and> quotable_value (rewritePath env (snd (split_pair v ''='')))
      else if oa_id a = OPT_other then list_all quotable_value (oa_values a) \<and> [] \<notin> set (tl (oa_values a)) \<and>
        (oa_joined a \<or> [] \<notin> set (oa_values a))
      else plain_text (filename v native))"

text \<open>\<open>reads s ts\<close>: followed by white space or the end, the text \<open>s\<close> reads as the arguments \<open>ts\<close>.\<close>

definition reads_as :: "string \<Rightarrow> string list \<Rightarrow> bool" where
  "reads_as s ts \<longleftrightarrow> (\<forall>r. (r = [] \<or> isWhitespaceOrNull (hd r)) \<longrightarrow> win_args INIT [] (s @ r) = ts @ win_args INIT [] r)"

lemma win_args_stop: "r = [] \<or> isWhitespaceOrNull (hd r) \<Longrightarrow> win_args UNQUOTED tok r = tok # win_args INIT [] r"
  by (cases r) (auto simp: win_args_unquoted win_args_blank)

lemma plain_scan:
  assumes "plain_text u" and "u = [] \<or> last u \<noteq> backslash \<or> \<not> escapes_quote r"
  shows "win_args UNQUOTED tok (u @ r) = win_args UNQUOTED (tok @ u) r"
  using assms
proof (induction u arbitrary: tok)
  case (Cons c u)
  have "\<not> escapes_quote (u @ r)" if "c = backslash"
  proof (cases "\<forall>c\<in>set u. c = backslash")
    case True
    then have "escapes_quote (u @ r) = escapes_quote r" by (simp add: escapes_quote_def)
    moreover have "last (c # u) = backslash" using True that last_in_set [of "c # u"] by auto
    ultimately show ?thesis using Cons.prems(2) by simp
  next
    case False
    then obtain d ds where d: "dropWhile (\<lambda>c. c = backslash) u = d # ds" by (cases "dropWhile (\<lambda>c. c = backslash) u") auto
    then have "d \<in> set u" by (metis list.set_intros(1) set_dropWhileD)
    then show ?thesis using d Cons.prems(1) False by (auto simp: escapes_quote_def dropWhile_append plain_text_def list_all_iff)
  qed
  then have "win_args UNQUOTED tok (c # u @ r) = win_args UNQUOTED (tok @ [c]) (u @ r)"
    using Cons.prems(1) by (cases "c = backslash") (auto simp: win_args_unquoted win_args_backslash plain_text_def)
  then show ?case using Cons by (auto simp: plain_text_def split: if_splits)
qed simp

lemma not_escapes_blank: "r = [] \<or> isWhitespaceOrNull (hd r) \<Longrightarrow> \<not> escapes_quote r"
  by (cases r) (auto simp: escapes_quote_def isWhitespaceOrNull_def isWhitespace_def)

lemma no_backslash_before_quote: "dquote \<notin> set v \<Longrightarrow> v = [] \<or> last v \<noteq> backslash \<Longrightarrow> \<not> backslash_before_quote v"
  by (induction v) (auto simp: neq_Nil_conv split: if_splits)

lemma dquote_not_blank: "\<not> isWhitespaceOrNull dquote"
  by (simp add: isWhitespaceOrNull_def isWhitespace_def)

lemma start_unquoted: "s = c # s' \<Longrightarrow> \<not> isWhitespaceOrNull c \<Longrightarrow> win_args INIT [] s = win_args UNQUOTED [] s"
  by (simp add: win_args_start)

lemma reads_plain:
  assumes "plain_text w" and "w \<noteq> []"
  shows "reads_as w [w]"
  unfolding reads_as_def
proof (intro allI impI)
  fix r assume r: "r = [] \<or> isWhitespaceOrNull (hd r)"
  obtain c w' where c: "w = c # w'" "\<not> isWhitespaceOrNull c" using assms by (cases w) (auto simp: plain_text_def)
  have "win_args INIT [] (w @ r) = win_args UNQUOTED [] (w @ r)" using c by (intro start_unquoted [of _ c "w' @ r"]) simp_all
  also have "\<dots> = win_args UNQUOTED w r" using plain_scan [OF assms(1), of r "[]"] not_escapes_blank [OF r] by simp
  finally show "win_args INIT [] (w @ r) = [w] @ win_args INIT [] r" using win_args_stop [OF r] by simp
qed

text \<open>An option name directly followed by a value reads as one argument.\<close>

lemma reads_value:
  assumes u: "plain_text u" "u = [] \<or> last u \<noteq> backslash" and v: "quotable_value v" and "u @ v \<noteq> []"
  shows "reads_as (u @ lld_quote v) [u @ v]"
proof (cases "CHR '' '' \<in> set v")
  case False
  then have "plain_text (u @ v)" using u v by (simp add: quotable_value_def plain_text_def)
  then show ?thesis using False reads_plain [of "u @ v"] assms(4) by (simp add: lld_quote_def)
next
  case True
  then have vq: "\<not> backslash_before_quote v" "dquote \<notin> set v" using v no_backslash_before_quote [of v] by (auto simp: quotable_value_def)
  show ?thesis unfolding reads_as_def
  proof (intro allI impI)
    fix r assume r: "r = [] \<or> isWhitespaceOrNull (hd r)"
    then have "r = [] \<or> hd r \<noteq> dquote" using dquote_not_blank by auto
    then have "win_args QUOTED u (v @ dquote # r) = win_args UNQUOTED (u @ v) r"
      using quoted_scan [OF vq(1), of u r] by (simp add: double_quotes_id [OF vq(2)] win_args_quoted(2))
    moreover have "win_args INIT [] ((u @ lld_quote v) @ r) = win_args UNQUOTED [] (u @ dquote # v @ dquote # r)"
      using u(1) True by (cases u) (auto simp: lld_quote_def win_args_start dquote_not_blank plain_text_def)
    moreover have "\<dots> = win_args QUOTED u (v @ dquote # r)"
      using plain_scan [OF u(1), of "dquote # v @ dquote # r" "[]"] u(2) by (auto simp: win_args_unquoted)
    ultimately show "win_args INIT [] ((u @ lld_quote v) @ r) = [u @ v] @ win_args INIT [] r" using win_args_stop [OF r] by simp
  qed
qed

lemma reads_seq: "reads_as s ts \<Longrightarrow> reads_as s' ts' \<Longrightarrow> reads_as (s @ '' '' @ s') (ts @ ts')"
  by (auto simp: reads_as_def win_args_blank isWhitespaceOrNull_def isWhitespace_def)

lemma reads_line: "reads_as s ts \<Longrightarrow> win_args INIT [] (s @ newline # r) = ts @ win_args INIT [] r"
  by (auto simp: reads_as_def win_args_blank isWhitespaceOrNull_def isWhitespace_def)

lemma reads_values:
  assumes "list_all quotable_value (w # ws)" "[] \<notin> set ws" "plain_text u" "u = [] \<or> last u \<noteq> backslash" "u @ w \<noteq> []"
  shows "reads_as (u @ join_with '' '' (map lld_quote (w # ws))) ((u @ w) # ws)"
  using assms
proof (induction ws arbitrary: u w)
  case (Cons x xs)
  have "reads_as (u @ lld_quote w) [u @ w]" using Cons.prems by (intro reads_value) auto
  moreover have "reads_as ([] @ join_with '' '' (map lld_quote (x # xs))) (([] @ x) # xs)"
    using Cons.prems by (intro Cons.IH) (auto simp: plain_text_def)
  ultimately show ?case using reads_seq [of "u @ lld_quote w" "[u @ w]" "join_with '' '' (map lld_quote (x # xs))" "x # xs"] by simp
qed (simp add: reads_value)

lemma reads_toString:
  assumes "reproducible env a" "oa_id a = OPT_other"
  shows "reads_as (arg_toString a) (arg_tokens env a)"
proof -
  have k: "plain_text (oa_spelling a)" "oa_spelling a \<noteq> []" "last (oa_spelling a) \<noteq> backslash"
    using assms(1) by (simp_all add: reproducible_def plain_spelling_def)
  have vs: "list_all quotable_value (oa_values a)" "[] \<notin> set (tl (oa_values a))" "oa_joined a \<or> [] \<notin> set (oa_values a)"
    using assms by (simp_all add: reproducible_def Let_def)
  show ?thesis
  proof (cases "oa_values a")
    case Nil
    then show ?thesis using reads_plain [OF k(1,2)] assms(2) by (simp add: arg_toString_def arg_tokens_def Let_def)
  next
    case (Cons w ws)
    show ?thesis
    proof (cases "oa_joined a")
      case True
      then show ?thesis using reads_values [of w ws "oa_spelling a"] k vs Cons assms(2) by (simp add: arg_toString_def arg_tokens_def Let_def)
    next
      case False
      have "reads_as ([] @ join_with '' '' (map lld_quote (w # ws))) (([] @ w) # ws)"
        using vs Cons False by (intro reads_values) (auto simp: plain_text_def)
      from reads_seq [OF reads_plain [OF k(1,2)] this] show ?thesis
        using False Cons assms(2) by (simp add: arg_toString_def arg_tokens_def Let_def)
    qed
  qed
qed

lemma plain_append [simp]: "plain_text (u @ w) \<longleftrightarrow> plain_text u \<and> plain_text w" "plain_text [c] \<longleftrightarrow> \<not> isWhitespaceOrNull c \<and> c \<noteq> dquote"
  by (simp_all add: plain_text_def)

lemma response_line_reads:
  assumes "reproducible env a"
  shows "win_args INIT [] (response_line env a @ r) = arg_tokens env a @ win_args INIT [] r"
proof -
  have k: "plain_text (oa_spelling a)" "oa_spelling a \<noteq> []" "last (oa_spelling a) \<noteq> backslash"
    using assms by (simp_all add: reproducible_def plain_spelling_def)
  have value_line: "win_args INIT [] (oa_spelling a @ lld_quote v @ newline # r) = [oa_spelling a @ v] @ win_args INIT [] r" if "quotable_value v" for v
    using reads_line [OF reads_value [of "oa_spelling a" v], of r] k that by simp
  have name_line: "win_args INIT [] (oa_spelling a @ v @ newline # r) = [oa_spelling a @ v] @ win_args INIT [] r" if "plain_text v" for v
    using reads_line [OF reads_plain [of "oa_spelling a @ v"], of r] k that by simp
  consider "oa_id a = OPT_INPUT" | "oa_id a = OPT_order" | "oa_id a = OPT_pdbstream" | "oa_id a = OPT_other"
    | "oa_id a \<notin> {OPT_INPUT, OPT_order, OPT_pdbstream, OPT_other}" by blast
  then show ?thesis
  proof cases
    case 1
    then show ?thesis using assms reads_line [OF reads_value [of "[]" "rewritePath env (getValue a)"], of r]
      by (simp add: response_line_def arg_tokens_def reproducible_def Let_def plain_text_def)
  next
    case 2
    let ?f = "case consume_front (getValue a) ''@'' of Some r \<Rightarrow> r | None \<Rightarrow> getValue a"
    have "quotable_value (rewritePath env ?f)" using assms 2 by (simp add: reproducible_def Let_def)
    then have "reads_as ((oa_spelling a @ ''@'') @ lld_quote (rewritePath env ?f)) [(oa_spelling a @ ''@'') @ rewritePath env ?f]"
      using k by (intro reads_value) (simp_all add: isWhitespaceOrNull_def isWhitespace_def)
    from reads_line [OF this, of r] show ?thesis using 2 by (simp add: response_line_def arg_tokens_def Let_def)
  next
    case 3
    obtain n f where nf: "split_pair (getValue a) ''='' = (n, f)" by fastforce
    then have "plain_text n" "quotable_value (rewritePath env f)" using assms 3 by (simp_all add: reproducible_def Let_def)
    then have "reads_as ((oa_spelling a @ n @ ''='') @ lld_quote (rewritePath env f)) [(oa_spelling a @ n @ ''='') @ rewritePath env f]"
      using k by (intro reads_value) (simp_all add: isWhitespaceOrNull_def isWhitespace_def)
    from reads_line [OF this, of r] show ?thesis using 3 nf by (simp add: response_line_def arg_tokens_def Let_def)
  next
    case 4
    then show ?thesis using reads_line [OF reads_toString [OF assms 4], of r] by (simp add: response_line_def Let_def)
  next
    case 5
    then show ?thesis using assms value_line [of "rewritePath env (getValue a)"] name_line [of "filename (getValue a) native"]
      by (cases "oa_id a") (simp_all add: response_line_def arg_tokens_def reproducible_def Let_def)
  qed
qed

lemma libpath_line_reads:
  assumes "quotable_value (relativeToRoot env path)"
  shows "win_args INIT [] (libpath_line env path @ r) = (''/libpath:'' @ relativeToRoot env path) # win_args INIT [] r"
proof -
  have "reads_as (''/libpath:'' @ lld_quote (relativeToRoot env path)) [''/libpath:'' @ relativeToRoot env path]"
    using assms by (intro reads_value) (simp_all add: plain_text_def isWhitespaceOrNull_def isWhitespace_def)
  from reads_line [OF this, of r] show ?thesis by (simp add: libpath_line_def)
qed

text \<open>C40: If its arguments can be written at all, the response file of \<open>/reproduce\<close> reads back, by the tokenizer that expands
  response files, as the arguments it stands for, with rewritten paths and one \<open>/libpath:\<close> per search path. They can when the
  values that are quoted contain no quotes and no trailing backslash after a space, and the names written without quotes,
  such as that of the output, have no white space. For others it does not (\<open>output_name_with_space\<close>, \<open>lld_quote_directory\<close>).\<close>

theorem createResponseFile_reads_back:
  assumes "list_all (reproducible env) args" and "list_all (\<lambda>p. quotable_value (relativeToRoot env p)) searchPaths"
  shows "TokenizeWindowsCommandLine (createResponseFile env args searchPaths) False =
    map Arg (concat (map (arg_tokens env) args) @ map (\<lambda>p. ''/libpath:'' @ relativeToRoot env p) searchPaths)"
proof -
  have paths: "win_args INIT [] (concat (map (libpath_line env) searchPaths)) = map (\<lambda>p. ''/libpath:'' @ relativeToRoot env p) searchPaths"
    using assms(2) by (induction searchPaths) (simp_all add: libpath_line_reads)
  have "win_args INIT [] (createResponseFile env args searchPaths) =
      concat (map (arg_tokens env) args) @ map (\<lambda>p. ''/libpath:'' @ relativeToRoot env p) searchPaths"
    using assms(1) unfolding createResponseFile_def
    by (induction args) (simp_all add: paths response_line_reads)
  moreover have "filter (\<lambda>e. e \<noteq> EOL) es = map Arg (args_of es)" for es by (induction es rule: args_of.induct) auto
  ultimately show ?thesis
    by (simp add: TokenizeWindowsCommandLine_def keep_eols_def tokenizeWindowsCommandLineImpl_def win_args_def)
qed

definition repro_sample :: repro_env where
  "repro_sample = \<lparr>re_exists = (\<lambda>p. p = ''obj/a b.obj''), re_make_absolute = (\<lambda>p. Some (''/src/'' @ p))\<rparr>"

definition repro_sample_args :: "opt_arg list" where
  "repro_sample_args =
     [\<lparr>oa_id = OPT_INPUT, oa_spelling = ''input'', oa_values = [''obj/a b.obj''], oa_joined = False\<rparr>,
      \<lparr>oa_id = OPT_out, oa_spelling = ''/out:'', oa_values = [''bin/a.exe''], oa_joined = True\<rparr>,
      \<lparr>oa_id = OPT_other, oa_spelling = ''/debug'', oa_values = [], oa_joined = True\<rparr>]"

lemma repro_sample_paths: "relativeToRoot repro_sample ''lib'' = ''src/lib''"
  "concat (map (arg_tokens repro_sample) repro_sample_args) = [''src/obj/a b.obj'', ''/out:a.exe'', ''/debug'']"
  by (code_simp, code_simp)

theorem createResponseFile_reads_back_witness:
  "TokenizeWindowsCommandLine (createResponseFile repro_sample repro_sample_args [''lib'']) False =
     map Arg [''src/obj/a b.obj'', ''/out:a.exe'', ''/debug'', ''/libpath:src/lib'']"
proof -
  have args: "list_all (reproducible repro_sample) repro_sample_args" by code_simp
  have "quotable_value ''src/lib''" by code_simp
  then have "list_all (\<lambda>p. quotable_value (relativeToRoot repro_sample p)) [''lib'']" by (simp add: repro_sample_paths)
  from createResponseFile_reads_back [OF args this] show ?thesis by (simp add: repro_sample_paths)
qed

text \<open>The name of an output file is written without quotes, so a space in it splits the argument.\<close>

lemma output_name_with_space:
  "TokenizeWindowsCommandLine
     (createResponseFile repro_sample [\<lparr>oa_id = OPT_out, oa_spelling = ''/out:'', oa_values = [''bin/my prog.exe''], oa_joined = True\<rparr>] []) False =
   [Arg ''/out:my'', Arg ''prog.exe'']"
  by code_simp

end
