(* ===== verification/Exports.thy ===== *)
theory Exports
  imports CommandLine SymbolTable "HOL-Library.Char_ord" "HOL-Library.List_Lexorder" "HOL-Library.Multiset"
begin

text \<open>
  The exports of a DLL: \<open>parseExport\<close> (\<open>lld/COFF/DriverUtils.cpp\<close>) reads an \<open>/export\<close> argument, \<open>fixupExports\<close> and
  \<open>assignExportOrdinals\<close> (\<open>lld/COFF/SymbolTable.cpp\<close>) compute the external names, remove duplicates, sort by name and assign
  ordinals. Fatal errors and warnings are values.
\<close>

section \<open>Exports\<close>

datatype ExportSource = Unset | Directives | FromExport | ModuleDefinition | ExportAll

record Export =
  ex_name :: string
  ex_extName :: string
  ex_exportAs :: string
  ex_importName :: string
  ex_ordinal :: nat
  ex_noname :: bool
  ex_data :: bool
  ex_isPrivate :: bool
  ex_constant :: bool
  ex_forwardTo :: string
  ex_source :: ExportSource
  ex_symbolName :: string
  ex_exportName :: string

definition new_Export :: Export where
  "new_Export = \<lparr>ex_name = [], ex_extName = [], ex_exportAs = [], ex_importName = [], ex_ordinal = 0, ex_noname = False,
     ex_data = False, ex_isPrivate = False, ex_constant = False, ex_forwardTo = [], ex_source = Unset, ex_symbolName = [], ex_exportName = []\<rparr>"

definition Export_eq :: "Export \<Rightarrow> Export \<Rightarrow> bool" where
  "Export_eq a b \<longleftrightarrow> ex_name a = ex_name b \<and> ex_extName a = ex_extName b \<and> ex_exportAs a = ex_exportAs b \<and>
     ex_importName a = ex_importName b \<and> ex_ordinal a = ex_ordinal b \<and> ex_noname a = ex_noname b \<and> ex_data a = ex_data b \<and>
     ex_isPrivate a = ex_isPrivate b"

datatype export_error = InvalidExport string | DuplicateOrdinal string | TooManyExports nat

datatype export_diag = InvalidExportAs string | DuplicateOption ExportSource string | DuplicateExport string ExportSource ExportSource

section \<open>Parsing\<close>

text \<open>\<open>getAsInteger\<close> of \<open>StringRef.h\<close> for \<open>int32_t\<close>.\<close>

definition getAsInt32 :: "string \<Rightarrow> nat \<Rightarrow> int option" where
  "getAsInt32 s radix =
     (case getAsSignedInteger s radix of
        Some v \<Rightarrow> if - (2 ^ 31) \<le> sint v \<and> sint v < 2 ^ 31 then Some (sint v) else None
      | None \<Rightarrow> None)"

lemma split_pair_shorter: "s \<noteq> [] \<Longrightarrow> sep \<noteq> [] \<Longrightarrow> split_pair s sep = (a, b) \<Longrightarrow> length b < length s"
  using sref_find_Some(2) [of s sep] by (auto simp: split_pair_def substr_def split: option.splits)

lemma split_comma_shorter: "rest \<noteq> [] \<Longrightarrow> (tok, rest') = split_pair rest '','' \<Longrightarrow> length rest' < length rest"
  by (rule split_pair_shorter [of rest "'',''" tok]) simp_all

text \<open>The optional parameters. The result is the export with a report, or the fatal error.\<close>

function export_options :: "string \<Rightarrow> string \<Rightarrow> Export \<Rightarrow> export_error + (Export \<times> export_diag list)" where
  "export_options arg rest e =
     (if rest = [] then Inr (e, [])
      else
        (let (tok, rest') = split_pair rest '','' in
         if equals_insensitive tok ''noname''
         then if ex_ordinal e = 0 then Inl (InvalidExport arg) else export_options arg rest' (e\<lparr>ex_noname := True\<rparr>)
         else if equals_insensitive tok ''data'' then export_options arg rest' (e\<lparr>ex_data := True\<rparr>)
         else if equals_insensitive tok ''constant'' then export_options arg rest' (e\<lparr>ex_constant := True\<rparr>)
         else if equals_insensitive tok ''private'' then export_options arg rest' (e\<lparr>ex_isPrivate := True\<rparr>)
         else if equals_insensitive tok ''exportas''
         then if rest' \<noteq> [] \<and> CHR '','' \<notin> set rest' then Inr (e\<lparr>ex_exportAs := rest'\<rparr>, []) else Inr (e, [InvalidExportAs rest'])
         else if starts_with tok ''@''
         then (case getAsInt32 (substr tok 1 None) 0 of
                 None \<Rightarrow> Inl (InvalidExport arg)
               | Some ord \<Rightarrow>
                   if ord \<le> 0 \<or> 65535 < ord then Inl (InvalidExport arg) else export_options arg rest' (e\<lparr>ex_ordinal := nat ord\<rparr>))
         else Inl (InvalidExport arg)))"
  by pat_completeness auto
termination
  by (relation "measure (\<lambda>(arg, rest, e). length rest)") (simp, (simp, erule (1) split_comma_shorter)+)

declare export_options.simps [simp del]

definition parseExport :: "string \<Rightarrow> export_error + (Export \<times> export_diag list)" where
  "parseExport arg =
     (let (name, rest) = split_pair arg '',''; e = new_Export\<lparr>ex_source := FromExport, ex_name := name\<rparr> in
      if name = [] then Inl (InvalidExport arg)
      else if CHR ''='' \<in> set name
      then (let (x, y) = split_pair name ''='' in
            if CHR ''.'' \<in> set y then export_options arg rest (e\<lparr>ex_name := x, ex_forwardTo := y\<rparr>)
            else if y = [] then Inl (InvalidExport arg)
            else export_options arg rest (e\<lparr>ex_extName := x, ex_name := y\<rparr>))
      else export_options arg rest e)"

section \<open>Names\<close>

definition killAt :: "string \<Rightarrow> bool \<Rightarrow> string" where
  "killAt sym0 withPrefix =
     (if sym0 = [] then sym0
      else
        (let s1 = substr sym0 0 (find_char sym0 (CHR ''@'') 1) in
         if \<not> starts_with s1 ''@'' then if withPrefix \<and> \<not> starts_with s1 ''_'' then ''_'' @ s1 else s1
         else (let s2 = substr s1 1 None in if withPrefix then ''_'' @ s2 else s2)))"

definition exportSourcePriority :: "ExportSource \<Rightarrow> nat" where
  "exportSourcePriority s = (case s of Directives \<Rightarrow> 1 | ExportAll \<Rightarrow> 2 | FromExport \<Rightarrow> 3 | ModuleDefinition \<Rightarrow> 3 | Unset \<Rightarrow> 0)"

record export_env =
  ee_machine :: machine
  ee_isEC :: bool
  ee_mingw :: bool
  ee_killAt :: bool
  ee_demangled :: "string \<Rightarrow> string option"

definition export_name :: "export_env \<Rightarrow> Export \<Rightarrow> string" where
  "export_name env e =
     (if ex_exportAs e \<noteq> [] then ex_exportAs e
      else
        (let sym0 = (if ex_forwardTo e \<noteq> [] \<or> ex_extName e = [] then ex_name e else ex_extName e) in
         if ee_machine env = I386 \<and> starts_with sym0 ''_'' \<and> (ee_mingw env \<or> CHR ''@'' \<notin> set sym0) then substr sym0 1 None
         else if ee_isEC env \<and> \<not> ex_data e \<and> \<not> ex_constant e
         then (case ee_demangled env sym0 of Some d \<Rightarrow> d | None \<Rightarrow> sym0)
         else sym0))"

definition kill_at_export :: "Export \<Rightarrow> Export" where
  "kill_at_export e = e\<lparr>ex_name := killAt (ex_name e) True, ex_exportName := killAt (ex_exportName e) False,
     ex_extName := killAt (ex_extName e) True, ex_symbolName := killAt (ex_symbolName e) True\<rparr>"

section \<open>Duplicates\<close>

fun check_ordinals :: "nat set \<Rightarrow> Export list \<Rightarrow> export_error option" where
  "check_ordinals ords [] = None"
| "check_ordinals ords (e # es) =
     (if ex_ordinal e = 0 then check_ordinals ords es
      else if ex_ordinal e \<in> ords then Some (DuplicateOrdinal (ex_name e))
      else check_ordinals (insert (ex_ordinal e) ords) es)"

text \<open>The loop that keeps one export per external name. The vector \<open>v\<close> plays the part of the hash table too: the entry with the
  name of \<open>e\<close>, where it has one, is \<open>existing\<close>.\<close>

fun find_export :: "string \<Rightarrow> Export list \<Rightarrow> nat option" where
  "find_export n [] = None"
| "find_export n (e # es) = (if ex_exportName e = n then Some 0 else map_option Suc (find_export n es))"

definition add_export :: "Export \<Rightarrow> Export list \<times> export_diag list \<Rightarrow> Export list \<times> export_diag list" where
  "add_export e z =
     (let (v, ds) = z in
      case find_export (ex_exportName e) v of
        None \<Rightarrow> (v @ [e], ds)
      | Some i \<Rightarrow>
          (let existing = v ! i;
               existingPriority = exportSourcePriority (ex_source existing); newPriority = exportSourcePriority (ex_source e)
           in if Export_eq e existing \<or> ex_name e \<noteq> ex_name existing then (v, ds)
              else if existingPriority < newPriority then (v[i := e], ds)
              else if newPriority < existingPriority then (v, ds)
              else if ex_source existing = ex_source e then (v, ds @ [DuplicateOption (ex_source existing) (ex_name e)])
              else (v, ds @ [DuplicateExport (ex_name e) (ex_source existing) (ex_source e)])))"

definition fixupExports :: "export_env \<Rightarrow> Export list \<Rightarrow> export_error + (Export list \<times> export_diag list)" where
  "fixupExports env exports =
     (case check_ordinals {} exports of
        Some err \<Rightarrow> Inl err
      | None \<Rightarrow>
          (let named = map (\<lambda>e. e\<lparr>ex_exportName := export_name env e\<rparr>) exports;
               killed = (if ee_killAt env \<and> ee_machine env = I386 then map kill_at_export named else named);
               (v, ds) = fold add_export killed ([], [])
           in Inr (sort_key ex_exportName v, ds)))"

fun number_exports :: "nat \<Rightarrow> Export list \<Rightarrow> Export list \<times> nat" where
  "number_exports mx [] = ([], mx)"
| "number_exports mx (e # es) =
     (if ex_ordinal e = 0
      then (let (es', mx') = number_exports (mx + 1) es in (e\<lparr>ex_ordinal := (mx + 1) mod 2 ^ 16\<rparr> # es', mx'))
      else (let (es', mx') = number_exports mx es in (e # es', mx')))"

definition assignExportOrdinals :: "Export list \<Rightarrow> export_error + Export list" where
  "assignExportOrdinals exports =
     (let (es, mx) = number_exports (foldl (\<lambda>m e. max m (ex_ordinal e)) 0 exports) exports
      in if 65535 < mx then Inl (TooManyExports mx) else Inr es)"

section \<open>One export per name\<close>

lemma find_export_Some: "find_export n v = Some i \<Longrightarrow> i < length v \<and> ex_exportName (v ! i) = n"
  by (induction v arbitrary: i) (auto split: if_splits)

lemma find_export_None: "find_export n v = None \<longleftrightarrow> n \<notin> ex_exportName ` set v"
  by (induction v) auto

definition exports_of :: "Export list \<Rightarrow> Export list \<Rightarrow> bool" where
  "exports_of es v \<longleftrightarrow> distinct (map ex_exportName v) \<and> ex_exportName ` set v = ex_exportName ` set es \<and> mset v \<subseteq># mset es"

lemma map_update_same: "i < length v \<Longrightarrow> f x = f (v ! i) \<Longrightarrow> map f (v[i := x]) = map f v"
  by (metis list_update_id map_update)

lemma add_export_of:
  assumes "exports_of es (fst z)"
  shows "exports_of (es @ [e]) (fst (add_export e z))"
proof -
  obtain v ds where z: "z = (v, ds)" by fastforce
  have v: "distinct (map ex_exportName v)" "ex_exportName ` set v = ex_exportName ` set es" "mset v \<subseteq># mset es"
    using assms z by (simp_all add: exports_of_def)
  show ?thesis
  proof (cases "find_export (ex_exportName e) v")
    case None
    then have "fst (add_export e z) = v @ [e]" using z by (simp add: add_export_def)
    moreover have "ex_exportName e \<notin> ex_exportName ` set v" using None by (simp add: find_export_None)
    ultimately show ?thesis using v by (auto simp: exports_of_def)
  next
    case (Some i)
    then have i: "i < length v" "ex_exportName (v ! i) = ex_exportName e" by (simp_all add: find_export_Some)
    have "mset v \<subseteq># add_mset e (mset es)" using v(3) by (rule subset_mset.trans) simp
    moreover have "ex_exportName e \<in> ex_exportName ` set v" using i by (metis image_eqI nth_mem)
    ultimately have keep: "exports_of (es @ [e]) v" using v by (auto simp: exports_of_def)
    have "mset (v[i := e]) \<subseteq># add_mset e (mset es)"
      using v(3) i(1) by (simp add: mset_update) (meson diff_subset_eq_self subset_mset.order_trans)
    moreover have names: "map ex_exportName (v[i := e]) = map ex_exportName v" using i by (simp add: map_update_same)
    moreover have "ex_exportName ` set (v[i := e]) = ex_exportName ` set v" using names by (metis list.set_map)
    ultimately have replace: "exports_of (es @ [e]) (v[i := e])" using keep v(1) by (simp add: exports_of_def)
    show ?thesis using keep replace z Some by (simp add: add_export_def Let_def)
  qed
qed

lemma fold_add_export:
  "exports_of es (fst z) \<Longrightarrow> exports_of (es @ xs) (fst (fold add_export xs z))"
  by (induction xs arbitrary: es z) (simp, metis add_export_of append.assoc append_Cons append_Nil fold_simps(2))

lemma check_ordinals_distinct:
  "check_ordinals ords es = None \<Longrightarrow>
    distinct (filter (\<lambda>n. n \<noteq> 0) (map ex_ordinal es)) \<and> ords \<inter> set (filter (\<lambda>n. n \<noteq> 0) (map ex_ordinal es)) = {}"
  by (induction ords es rule: check_ordinals.induct) (auto split: if_splits)

lemma submset_distinct: "mset xs \<subseteq># mset ys \<Longrightarrow> distinct ys \<Longrightarrow> distinct xs"
  by (metis distinct_count_atmost_1 count_mset_0_iff mset_subset_eq_count le_antisym le_zero_eq less_one not_le set_mset_mset zero_le)

text \<open>What \<open>fixupExports\<close> leaves: one export per external name, in increasing order of names, and no ordinal twice.\<close>

definition exports_fixed :: "Export list \<Rightarrow> bool" where
  "exports_fixed es \<longleftrightarrow> sorted_wrt (\<lambda>a b. ex_exportName a < ex_exportName b) es \<and>
     distinct (filter (\<lambda>n. n \<noteq> 0) (map ex_ordinal es))"

definition prepared_exports :: "export_env \<Rightarrow> Export list \<Rightarrow> Export list" where
  "prepared_exports env exports =
     (let named = map (\<lambda>e. e\<lparr>ex_exportName := export_name env e\<rparr>) exports
      in if ee_killAt env \<and> ee_machine env = I386 then map kill_at_export named else named)"

lemma prepared_ordinals: "map ex_ordinal (prepared_exports env exports) = map ex_ordinal exports"
  by (simp add: prepared_exports_def Let_def kill_at_export_def comp_def)

lemma fixupExports_eq:
  assumes "fixupExports env exports = Inr (es, ds)"
  shows "check_ordinals {} exports = None" "es = sort_key ex_exportName (fst (fold add_export (prepared_exports env exports) ([], [])))"
proof -
  obtain v ds' where f: "fold add_export (prepared_exports env exports) ([], []) = (v, ds')" by fastforce
  show c: "check_ordinals {} exports = None" using assms by (cases "check_ordinals {} exports") (simp_all add: fixupExports_def)
  have "fixupExports env exports = Inr (sort_key ex_exportName v, ds')"
    using f c unfolding fixupExports_def prepared_exports_def Let_def by simp
  then show "es = sort_key ex_exportName (fst (fold add_export (prepared_exports env exports) ([], [])))" using assms f by simp
qed

lemma fixupExports_fixed:
  assumes "fixupExports env exports = Inr (es, ds)"
  shows "exports_fixed es" and "ex_exportName ` set es = ex_exportName ` set (prepared_exports env exports)"
    and "set es \<subseteq> set (prepared_exports env exports)"
proof -
  define v where "v = fst (fold add_export (prepared_exports env exports) ([], []))"
  note e = fixupExports_eq [OF assms, folded v_def]
  have "exports_of ([] @ prepared_exports env exports) v" unfolding v_def by (rule fold_add_export) (simp add: exports_of_def)
  then have v: "distinct (map ex_exportName v)" "ex_exportName ` set v = ex_exportName ` set (prepared_exports env exports)"
    "mset v \<subseteq># mset (prepared_exports env exports)" by (simp_all add: exports_of_def)
  show "ex_exportName ` set es = ex_exportName ` set (prepared_exports env exports)" using v(2) e(2) by simp
  show "set es \<subseteq> set (prepared_exports env exports)" using set_mset_mono [OF v(3)] e(2) by simp
  have "sorted (map ex_exportName es)" unfolding e(2) by (rule sorted_sort_key)
  moreover have "distinct (map ex_exportName es)" unfolding e(2) using v(1) by (simp add: distinct_map)
  ultimately have "sorted_wrt (<) (map ex_exportName es)" by (simp add: strict_sorted_iff)
  then have "sorted_wrt (\<lambda>a b. ex_exportName a < ex_exportName b) es" by (simp add: sorted_wrt_map)
  moreover have "mset (filter (\<lambda>n. n \<noteq> 0) (map ex_ordinal es)) \<subseteq># mset (filter (\<lambda>n. n \<noteq> 0) (map ex_ordinal exports))"
    unfolding e(2) prepared_ordinals [of env exports, symmetric] mset_filter mset_map mset_sort
    by (intro multiset_filter_mono image_mset_subseteq_mono v(3))
  from submset_distinct [OF this] have "distinct (filter (\<lambda>n. n \<noteq> 0) (map ex_ordinal es))" using check_ordinals_distinct [OF e(1)] by blast
  ultimately show "exports_fixed es" by (simp add: exports_fixed_def)
qed

section \<open>Ordinals\<close>

text \<open>Two exports that differ at most in a default ordinal.\<close>

definition numbered_as :: "Export \<Rightarrow> Export \<Rightarrow> bool" where
  "numbered_as e e' \<longleftrightarrow> (if ex_ordinal e = 0 then \<exists>n. e' = e\<lparr>ex_ordinal := n\<rparr> else e' = e)"

lemma number_exports_spec:
  assumes "number_exports mx es = (es', mx')" and "mx' < 2 ^ 16" and "\<forall>e\<in>set es. ex_ordinal e \<le> b" and "b \<le> mx"
    and "distinct (filter (\<lambda>n. n \<noteq> 0) (map ex_ordinal es))"
  shows "list_all2 numbered_as es es' \<and> mx \<le> mx' \<and> distinct (map ex_ordinal es') \<and>
    (\<forall>e\<in>set es'. 0 < ex_ordinal e \<and> (ex_ordinal e \<in> ex_ordinal ` set es \<or> mx < ex_ordinal e \<and> ex_ordinal e \<le> mx'))"
  using assms
proof (induction mx es arbitrary: es' mx' rule: number_exports.induct)
  case (2 mx e es)
  obtain xs where xs: "number_exports (if ex_ordinal e = 0 then mx + 1 else mx) es = (xs, mx')"
    "es' = (if ex_ordinal e = 0 then e\<lparr>ex_ordinal := (mx + 1) mod 2 ^ 16\<rparr> else e) # xs"
    using 2(3) by (auto split: if_splits prod.splits)
  show ?case
  proof (cases "ex_ordinal e = 0")
    case True
    have IH: "list_all2 numbered_as es xs" "mx + 1 \<le> mx'" "distinct (map ex_ordinal xs)"
      "\<forall>e\<in>set xs. 0 < ex_ordinal e \<and> (ex_ordinal e \<in> ex_ordinal ` set es \<or> mx + 1 < ex_ordinal e \<and> ex_ordinal e \<le> mx')"
      using 2(1) [OF True, of xs mx'] 2(4-7) xs(1) True by auto
    have n: "(mx + 1) mod 2 ^ 16 = mx + 1" using IH(2) 2(4) by simp
    have "mx + 1 \<notin> ex_ordinal ` set xs"
    proof
      assume "mx + 1 \<in> ex_ordinal ` set xs"
      then obtain x where "x \<in> set xs" "ex_ordinal x = mx + 1" by auto
      then have "mx + 1 \<in> ex_ordinal ` set es" using IH(4) by force
      then show False using 2(5,6) by auto
    qed
    moreover have "numbered_as e (e\<lparr>ex_ordinal := mx + 1\<rparr>)" using True by (auto simp: numbered_as_def)
    ultimately show ?thesis using IH xs(2) True n by auto
  next
    case False
    have IH: "list_all2 numbered_as es xs" "mx \<le> mx'" "distinct (map ex_ordinal xs)"
      "\<forall>e\<in>set xs. 0 < ex_ordinal e \<and> (ex_ordinal e \<in> ex_ordinal ` set es \<or> mx < ex_ordinal e \<and> ex_ordinal e \<le> mx')"
      using 2(2) [OF False, of xs mx'] 2(4-7) xs(1) False by auto
    have "ex_ordinal e \<notin> ex_ordinal ` set xs"
    proof
      assume "ex_ordinal e \<in> ex_ordinal ` set xs"
      then obtain x where x: "x \<in> set xs" "ex_ordinal x = ex_ordinal e" by auto
      then have "ex_ordinal e \<in> ex_ordinal ` set es" using IH(4) 2(5,6) by (metis list.set_intros(1) le_trans not_le)
      then show False using 2(7) False by auto
    qed
    moreover have "numbered_as e e" using False by (simp add: numbered_as_def)
    ultimately show ?thesis using IH xs(2) False by auto
  qed
qed simp

lemma foldl_max_ordinal: "m \<le> foldl (\<lambda>m e. max m (ex_ordinal e)) m es \<and> (\<forall>e\<in>set es. ex_ordinal e \<le> foldl (\<lambda>m e. max m (ex_ordinal e)) m es)"
proof (induction es arbitrary: m)
  case (Cons a es)
  from Cons.IH [of "max m (ex_ordinal a)"] show ?case by auto
qed simp

text \<open>The exports the tables are written from: sorted by name, with distinct 16-bit ordinals.\<close>

definition exports_ready :: "Export list \<Rightarrow> bool" where
  "exports_ready es \<longleftrightarrow> sorted_wrt (\<lambda>a b. ex_exportName a < ex_exportName b) es \<and> distinct (map ex_ordinal es) \<and>
     list_all (\<lambda>e. 1 \<le> ex_ordinal e \<and> ex_ordinal e \<le> 65535) es"

lemma list_all2_map_eq: "list_all2 R xs ys \<Longrightarrow> (\<And>x y. R x y \<Longrightarrow> f x = f y) \<Longrightarrow> map f xs = map f ys"
  by (induction rule: list_all2_induct) auto

lemma assignExportOrdinals_ready:
  assumes "assignExportOrdinals es = Inr es'" and "exports_fixed es"
  shows "exports_ready es' \<and> list_all2 numbered_as es es'"
proof -
  define m where "m = foldl (\<lambda>m e. max m (ex_ordinal e)) 0 es"
  obtain mx where n: "number_exports m es = (es', mx)" "mx \<le> 65535"
    using assms(1) by (auto simp: assignExportOrdinals_def m_def Let_def split: prod.splits if_splits)
  have m: "\<forall>e\<in>set es. ex_ordinal e \<le> m" unfolding m_def using foldl_max_ordinal [of 0 es] by blast
  have sp: "list_all2 numbered_as es es'" "m \<le> mx" "distinct (map ex_ordinal es')"
    "\<forall>e\<in>set es'. 0 < ex_ordinal e \<and> (ex_ordinal e \<in> ex_ordinal ` set es \<or> m < ex_ordinal e \<and> ex_ordinal e \<le> mx)"
    using number_exports_spec [OF n(1) _ m order_refl] n(2) assms(2) by (simp_all add: exports_fixed_def)
  have bounds: "list_all (\<lambda>e. 1 \<le> ex_ordinal e \<and> ex_ordinal e \<le> 65535) es'" unfolding list_all_iff
  proof
    fix e assume "e \<in> set es'"
    then show "1 \<le> ex_ordinal e \<and> ex_ordinal e \<le> 65535" using sp(4) m sp(2) n(2) by fastforce
  qed
  have "map ex_exportName es = map ex_exportName es'" by (rule list_all2_map_eq [OF sp(1)]) (auto simp: numbered_as_def split: if_splits)
  then have "sorted_wrt (<) (map ex_exportName es')" using assms(2) by (metis exports_fixed_def sorted_wrt_map)
  then show ?thesis using sp(1,3) bounds by (simp add: exports_ready_def sorted_wrt_map)
qed

section \<open>Parsed exports\<close>

definition export_ok :: "Export \<Rightarrow> bool" where
  "export_ok e \<longleftrightarrow> ex_ordinal e \<le> 65535 \<and> (ex_noname e \<longrightarrow> ex_ordinal e \<noteq> 0)"

lemma export_options_ok: "export_options arg rest e = Inr (e', ds) \<Longrightarrow> export_ok e \<Longrightarrow> export_ok e'"
proof (induction arg rest e rule: export_options.induct)
  case (1 arg rest e)
  obtain tok r where sp: "split_pair rest '','' = (tok, r)" by fastforce
  note IH = 1(1-5) [OF _ sp [symmetric] refl]
  show ?case
  proof (cases "rest = []")
    case False
    note eq = export_options.simps [of arg rest e, unfolded sp Let_def prod.case if_not_P [OF False]]
    show ?thesis using 1(6,7) IH [OF False] unfolding eq export_ok_def
      by (simp add: nat_le_iff not_less split: if_splits option.splits) (elim conjE, hypsubst, simp)
  qed (use 1(6,7) in \<open>simp add: export_options.simps\<close>)
qed

lemma parseExport_ok:
  assumes "parseExport arg = Inr (e, ds)"
  shows "export_ok e"
proof -
  obtain name rest where sp: "split_pair arg '','' = (name, rest)" by fastforce
  obtain x y where xy: "split_pair name ''='' = (x, y)" by fastforce
  have "\<exists>e0. export_options arg rest e0 = Inr (e, ds) \<and> ex_ordinal e0 = 0 \<and> \<not> ex_noname e0"
    using assms unfolding parseExport_def sp Let_def prod.case xy
    by (simp split: if_splits) (rule exI, erule conjI, simp add: new_Export_def)+
  then obtain e0 where e0: "export_options arg rest e0 = Inr (e, ds)" "export_ok e0" by (auto simp: export_ok_def)
  then show ?thesis by (rule export_options_ok)
qed

end
