(* ===== verification/ExportTable.thy ===== *)
theory ExportTable
  imports Exports Stubs PathLib SectionWrite
begin

text \<open>
  The export tables of a DLL (\<open>createEdataChunks\<close> and its chunks, \<open>lld/COFF/DLL.cpp\<close>) and how a loader reads them. The chunks get
  their addresses from the layout; the tables are read in an image that holds every chunk at its address.
\<close>

unbundle bit_operations_syntax

section \<open>Chunks\<close>

text \<open>The chunks of \<open>createEdataChunks\<close>. \<open>NameString i\<close> is the name of the \<open>i\<close>th export that has one, \<open>ForwardString i\<close> the target of
  the \<open>i\<close>th export.\<close>

datatype edata_chunk = ExportDirectory | DllName | AddressTable | NamePointers | ExportOrdinals | NameString nat | ForwardString nat

record edata_env =
  ed_outputFile :: string
  ed_machine :: machine
  ed_symRVA :: "Export \<Rightarrow> u32"
  ed_rva :: "edata_chunk \<Rightarrow> u32"

definition string_bytes :: "string \<Rightarrow> buffer" where
  "string_bytes s = map (\<lambda>c. word_of_nat (of_char c)) s"

definition base_ordinal :: "Export list \<Rightarrow> nat" where
  "base_ordinal exports = foldl (\<lambda>b e. min b (ex_ordinal e)) (2 ^ 16) exports"

definition max_ordinal :: "Export list \<Rightarrow> nat" where
  "max_ordinal exports = foldl (\<lambda>m e. max m (ex_ordinal e)) 0 exports"

definition named_exports :: "Export list \<Rightarrow> Export list" where
  "named_exports exports = filter (\<lambda>e. \<not> ex_noname e) exports"

definition createEdataChunks :: "Export list \<Rightarrow> edata_chunk list" where
  "createEdataChunks exports =
     [ExportDirectory, DllName, AddressTable, NamePointers, ExportOrdinals] @
     map NameString [0..<length (named_exports exports)] @
     map ForwardString (filter (\<lambda>i. ex_forwardTo (exports ! i) \<noteq> []) [0..<length exports])"

text \<open>The fields of \<open>ExportDirectoryChunk\<close> are 16 bits wide.\<close>

definition ExportDirectoryChunk_writeTo :: "edata_env \<Rightarrow> Export list \<Rightarrow> nat \<Rightarrow> buffer \<Rightarrow> buffer" where
  "ExportDirectoryChunk_writeTo env exports off buf =
     (let baseOrdinal = base_ordinal exports mod 2 ^ 16; maxOrdinal = max_ordinal exports mod 2 ^ 16;
          nameTabSize = length (named_exports exports) mod 2 ^ 16;
          b0 = put buf off (replicate 40 0);
          b1 = write32le b0 (off + 12) (ed_rva env DllName);
          b2 = write32le b1 (off + 16) (of_nat baseOrdinal);
          b3 = write32le b2 (off + 20) (of_nat maxOrdinal - of_nat baseOrdinal + 1);
          b4 = write32le b3 (off + 24) (of_nat nameTabSize);
          b5 = write32le b4 (off + 28) (ed_rva env AddressTable);
          b6 = write32le b5 (off + 32) (ed_rva env NamePointers)
      in write32le b6 (off + 36) (ed_rva env ExportOrdinals))"

text \<open>The entry of the \<open>i\<close>th export \<open>e\<close>.\<close>

definition export_rva :: "edata_env \<Rightarrow> nat \<Rightarrow> Export \<Rightarrow> u32" where
  "export_rva env i e =
     (let bit1 = (if ed_machine env = ARMNT \<and> \<not> ex_data e then 1 else 0)
      in if ex_forwardTo e \<noteq> [] then ed_rva env (ForwardString i) OR bit1 else ed_symRVA env e OR bit1)"

definition AddressTableChunk_size :: "Export list \<Rightarrow> nat" where
  "AddressTableChunk_size exports = (max_ordinal exports - base_ordinal exports + 1) * 4"

definition scatter :: "(buffer \<Rightarrow> nat \<Rightarrow> 'w \<Rightarrow> buffer) \<Rightarrow> nat \<Rightarrow> nat \<Rightarrow> (nat \<times> 'w) list \<Rightarrow> buffer \<Rightarrow> buffer" where
  "scatter wr width off entries buf = fold (\<lambda>(k, v) b. wr b (off + k * width) v) entries buf"

definition AddressTableChunk_writeTo :: "edata_env \<Rightarrow> Export list \<Rightarrow> nat \<Rightarrow> buffer \<Rightarrow> buffer" where
  "AddressTableChunk_writeTo env exports off buf =
     scatter write32le 4 off (map (\<lambda>(i, e). (ex_ordinal e - base_ordinal exports, export_rva env i e)) (zip [0..<length exports] exports))
       (put buf off (replicate (AddressTableChunk_size exports) 0))"

fun write_seq :: "(buffer \<Rightarrow> nat \<Rightarrow> 'w \<Rightarrow> buffer) \<Rightarrow> nat \<Rightarrow> 'w list \<Rightarrow> nat \<Rightarrow> buffer \<Rightarrow> buffer" where
  "write_seq wr width [] off buf = buf"
| "write_seq wr width (v # vs) off buf = write_seq wr width vs (off + width) (wr buf off v)"

definition NamePointersChunk_writeTo :: "edata_env \<Rightarrow> Export list \<Rightarrow> nat \<Rightarrow> buffer \<Rightarrow> buffer" where
  "NamePointersChunk_writeTo env exports off buf =
     write_seq write32le 4 (map (\<lambda>i. ed_rva env (NameString i)) [0..<length (named_exports exports)]) off buf"

definition ExportOrdinalChunk_writeTo :: "Export list \<Rightarrow> nat \<Rightarrow> buffer \<Rightarrow> buffer" where
  "ExportOrdinalChunk_writeTo exports off buf =
     write_seq write16le 2 (map (\<lambda>e. of_nat (ex_ordinal e - base_ordinal exports)) (named_exports exports)) off buf"

fun edata_writeTo :: "edata_env \<Rightarrow> Export list \<Rightarrow> edata_chunk \<Rightarrow> nat \<Rightarrow> buffer \<Rightarrow> buffer" where
  "edata_writeTo env exports ExportDirectory off buf = ExportDirectoryChunk_writeTo env exports off buf"
| "edata_writeTo env exports DllName off buf = StringChunk_writeTo (string_bytes (filename (ed_outputFile env) native)) off buf"
| "edata_writeTo env exports AddressTable off buf = AddressTableChunk_writeTo env exports off buf"
| "edata_writeTo env exports NamePointers off buf = NamePointersChunk_writeTo env exports off buf"
| "edata_writeTo env exports ExportOrdinals off buf = ExportOrdinalChunk_writeTo exports off buf"
| "edata_writeTo env exports (NameString i) off buf = StringChunk_writeTo (string_bytes (ex_exportName (named_exports exports ! i))) off buf"
| "edata_writeTo env exports (ForwardString i) off buf = StringChunk_writeTo (string_bytes (ex_forwardTo (exports ! i))) off buf"

fun edata_size :: "edata_env \<Rightarrow> Export list \<Rightarrow> edata_chunk \<Rightarrow> nat" where
  "edata_size env exports ExportDirectory = 40"
| "edata_size env exports DllName = length (filename (ed_outputFile env) native) + 1"
| "edata_size env exports AddressTable = AddressTableChunk_size exports"
| "edata_size env exports NamePointers = length (named_exports exports) * 4"
| "edata_size env exports ExportOrdinals = length (named_exports exports) * 2"
| "edata_size env exports (NameString i) = length (ex_exportName (named_exports exports ! i)) + 1"
| "edata_size env exports (ForwardString i) = length (ex_forwardTo (exports ! i)) + 1"

section \<open>The loader\<close>

text \<open>The bytes of a chunk, and an image that holds all chunks at their addresses.\<close>

definition edata_bytes :: "edata_env \<Rightarrow> Export list \<Rightarrow> edata_chunk \<Rightarrow> buffer" where
  "edata_bytes env exports c = edata_writeTo env exports c 0 (replicate (edata_size env exports c) 0)"

definition edata_mapped :: "edata_env \<Rightarrow> Export list \<Rightarrow> buffer \<Rightarrow> bool" where
  "edata_mapped env exports img \<longleftrightarrow>
     list_all (\<lambda>c. sub img (unat (ed_rva env c)) (edata_size env exports c) = edata_bytes env exports c) (createEdataChunks exports)"

definition read_cstring :: "buffer \<Rightarrow> nat \<Rightarrow> string" where
  "read_cstring img p = map (\<lambda>b. char_of (unat b)) (takeWhile (\<lambda>b. b \<noteq> 0) (drop p img))"

text \<open>The name pointer table is searched by bisection, so it has to be sorted.\<close>

function name_search :: "buffer \<Rightarrow> nat \<Rightarrow> nat \<Rightarrow> nat \<Rightarrow> string \<Rightarrow> nat option" where
  "name_search img table lo hi name =
     (if lo < hi
      then (let mid = (lo + hi) div 2; s = read_cstring img (unat (read32le img (table + mid * 4)))
            in if s = name then Some mid
               else if s < name then name_search img table (mid + 1) hi name
               else name_search img table lo mid name)
      else None)"
  by pat_completeness auto
termination by (relation "measure (\<lambda>(img, table, lo, hi, name). hi - lo)") auto

declare name_search.simps [simp del]

definition lookup_name :: "buffer \<Rightarrow> nat \<Rightarrow> string \<Rightarrow> u32 option" where
  "lookup_name img dir name =
     (case name_search img (unat (read32le img (dir + 32))) 0 (unat (read32le img (dir + 24))) name of
        None \<Rightarrow> None
      | Some i \<Rightarrow>
          (let index = unat (read16le img (unat (read32le img (dir + 36)) + i * 2))
           in Some (read32le img (unat (read32le img (dir + 28)) + index * 4))))"

definition lookup_ordinal :: "buffer \<Rightarrow> nat \<Rightarrow> nat \<Rightarrow> u32 option" where
  "lookup_ordinal img dir ordinal =
     (let base = unat (read32le img (dir + 16)); n = unat (read32le img (dir + 20))
      in if base \<le> ordinal \<and> ordinal < base + n then Some (read32le img (unat (read32le img (dir + 28)) + (ordinal - base) * 4)) else None)"

section \<open>Writing and reading tables\<close>

context le_field
begin

lemma length_write_seq: "off + length vs * width \<le> length buf \<Longrightarrow> length (write_seq wr width vs off buf) = length buf"
  by (induction vs arbitrary: off buf) (simp_all add: length_wr)

lemma write_seq_before:
  "off + length vs * width \<le> length buf \<Longrightarrow> P + width \<le> off \<Longrightarrow> rd (write_seq wr width vs off buf) P = rd buf P"
  by (induction vs arbitrary: off buf) (simp_all add: length_wr rd_wr_disjoint)

lemma write_seq_nth:
  "off + length vs * width \<le> length buf \<Longrightarrow> i < length vs \<Longrightarrow> rd (write_seq wr width vs off buf) (off + i * width) = vs ! i"
proof (induction vs arbitrary: off buf i)
  case (Cons v vs)
  show ?case
  proof (cases i)
    case 0
    then show ?thesis using Cons.prems by (simp add: write_seq_before length_wr rd_wr)
  next
    case (Suc j)
    then show ?thesis using Cons.IH [of "off + width" "wr buf off v" j] Cons.prems by (simp add: length_wr add.assoc)
  qed
qed simp

lemma length_scatter:
  "\<forall>k\<in>fst ` set es. off + k * width + width \<le> length buf \<Longrightarrow> length (scatter wr width off es buf) = length buf"
  by (induction es arbitrary: buf) (auto simp: scatter_def length_wr)

lemma scatter_other:
  "\<forall>k\<in>fst ` set es. off + k * width + width \<le> length buf \<Longrightarrow> off + j * width + width \<le> length buf \<Longrightarrow> j \<notin> fst ` set es \<Longrightarrow>
    rd (scatter wr width off es buf) (off + j * width) = rd buf (off + j * width)"
proof (induction es arbitrary: buf)
  case (Cons e es)
  obtain k v where e: "e = (k, v)" by fastforce
  have "off + j * width + width \<le> off + k * width \<or> off + k * width + width \<le> off + j * width"
  proof -
    have "Suc j \<le> k \<or> Suc k \<le> j" using Cons.prems(3) e by auto
    then have "Suc j * width \<le> k * width \<or> Suc k * width \<le> j * width" by (metis mult_le_mono1)
    then show ?thesis by auto
  qed
  then have "rd (wr buf (off + k * width) v) (off + j * width) = rd buf (off + j * width)"
    using Cons.prems e by (intro rd_wr_disjoint) auto
  then show ?case using Cons.IH [of "wr buf (off + k * width) v"] Cons.prems e by (simp add: scatter_def length_wr)
qed (simp add: scatter_def)

lemma scatter_entry:
  "\<forall>k\<in>fst ` set es. off + k * width + width \<le> length buf \<Longrightarrow> distinct (map fst es) \<Longrightarrow> (k, v) \<in> set es \<Longrightarrow>
    rd (scatter wr width off es buf) (off + k * width) = v"
proof (induction es arbitrary: buf)
  case (Cons e es)
  obtain k' v' where e: "e = (k', v')" by fastforce
  have len: "length (wr buf (off + k' * width) v') = length buf" using Cons.prems(1) e by (simp add: length_wr)
  show ?case
  proof (cases "(k, v) \<in> set es")
    case True
    then show ?thesis using Cons.IH [of "wr buf (off + k' * width) v'"] Cons.prems e len by (simp add: scatter_def)
  next
    case False
    then have k: "k = k'" "v = v'" "k \<notin> fst ` set es" using Cons.prems(2,3) e by auto
    then show ?thesis using scatter_other [of es off "wr buf (off + k * width) v" k] Cons.prems(1) e len rd_wr [of "off + k * width" buf v]
      by (simp add: scatter_def)
  qed
qed simp

end

lemma mapped_read:
  assumes "edata_mapped env exports img" and "c \<in> set (createEdataChunks exports)" and "length (edata_bytes env exports c) = edata_size env exports c"
  shows "k + 4 \<le> edata_size env exports c \<Longrightarrow> read32le img (unat (ed_rva env c) + k) = read32le (edata_bytes env exports c) k"
    and "k + 2 \<le> edata_size env exports c \<Longrightarrow> read16le img (unat (ed_rva env c) + k) = read16le (edata_bytes env exports c) k"
proof -
  let ?p = "unat (ed_rva env c)" and ?n = "edata_size env exports c"
  have e: "sub img ?p ?n = edata_bytes env exports c" using assms(1,2) by (simp add: edata_mapped_def list_all_iff)
  have s: "sub img (?p + k) w = sub (edata_bytes env exports c) k w" if "k + w \<le> ?n" "0 < w" for w
  proof -
    have "length (sub img ?p ?n) = ?n" unfolding e by (rule assms(3))
    then have "?p + ?n \<le> length img" using that unfolding length_sub by linarith
    from sub_sub [OF this that(1)] show ?thesis by (simp add: e)
  qed
  show "k + 4 \<le> ?n \<Longrightarrow> read32le img (?p + k) = read32le (edata_bytes env exports c) k"
    by (rule read_sub_eq(2), rule s) simp_all
  show "k + 2 \<le> ?n \<Longrightarrow> read16le img (?p + k) = read16le (edata_bytes env exports c) k"
    by (rule read_sub_eq(1), rule s) simp_all
qed

lemma char_byte: "char_of (unat (word_of_nat (of_char c) :: byte)) = c" "(word_of_nat (of_char c) :: byte) = 0 \<longleftrightarrow> c = CHR 0x00"
proof -
  have lt: "(of_char c :: nat) < 256" by (rule nat_of_char_less_256)
  then have u: "unat (word_of_nat (of_char c) :: byte) = of_char c" by (simp add: unat_of_nat)
  show "char_of (unat (word_of_nat (of_char c) :: byte)) = c" unfolding u by simp
  show "(word_of_nat (of_char c) :: byte) = 0 \<longleftrightarrow> c = CHR 0x00"
    unfolding unat_eq_zero [symmetric] u by (cases c) (auto simp: of_char_Char)
qed

lemma read_cstring_bytes:
  assumes "sub img p (length s + 1) = string_bytes s @ [0]" and "CHR 0x00 \<notin> set s"
  shows "read_cstring img p = s"
proof -
  have "drop p img = (string_bytes s @ [0]) @ drop (length s + 1) (drop p img)"
    using assms(1) unfolding sub_def by (metis append_take_drop_id)
  moreover have "takeWhile (\<lambda>b. b \<noteq> 0) ((string_bytes s @ [0]) @ r) = string_bytes s" for r
    using assms(2) by (induction s) (auto simp: string_bytes_def char_byte)
  ultimately have "takeWhile (\<lambda>b. b \<noteq> 0) (drop p img) = string_bytes s" by metis
  then show ?thesis by (simp add: read_cstring_def string_bytes_def comp_def char_byte)
qed

lemma name_string_bytes: "edata_bytes env exports (NameString i) = string_bytes (ex_exportName (named_exports exports ! i)) @ [0]"
  by (simp add: edata_bytes_def StringChunk_writeTo_def put_def string_bytes_def)

section \<open>Bisection\<close>

lemma name_search_found:
  assumes "sorted_wrt (<) names" and "i < hi" and "lo \<le> i" and "hi \<le> length names"
    and reads: "\<And>i. i < length names \<Longrightarrow> read_cstring img (unat (read32le img (table + i * 4))) = names ! i"
  shows "name_search img table lo hi (names ! i) = Some i"
  using assms(2-4)
proof (induction "hi - lo" arbitrary: lo hi rule: less_induct)
  case less
  define mid where "mid = (lo + hi) div 2"
  have mid: "lo \<le> mid" "mid < hi" "mid < length names" using less.prems unfolding mid_def by auto
  have less_iff: "names ! mid < names ! i \<longleftrightarrow> mid < i" "names ! mid = names ! i \<longleftrightarrow> mid = i"
    using sorted_wrt_nth_less [OF assms(1), of mid i] sorted_wrt_nth_less [OF assms(1), of i mid] mid less.prems
    by (metis less.prems linorder_neqE_nat order.strict_trans2 order_less_asym order_less_irrefl)+
  have step: "name_search img table lo hi (names ! i) =
      (if mid = i then Some mid
       else if mid < i then name_search img table (mid + 1) hi (names ! i) else name_search img table lo mid (names ! i))"
    using less.prems reads [OF mid(3)] less_iff unfolding name_search.simps [of img table lo hi] Let_def mid_def [symmetric] by simp
  consider "mid = i" | "mid < i" | "i < mid" by linarith
  then show ?case
  proof cases
    case 2
    have "name_search img table (mid + 1) hi (names ! i) = Some i" by (rule less.hyps) (use 2 mid less.prems in auto)
    then show ?thesis using step 2 by simp
  next
    case 3
    have "name_search img table lo mid (names ! i) = Some i" by (rule less.hyps) (use 3 mid less.prems in auto)
    then show ?thesis using step 3 by simp
  qed (use step in simp)
qed

lemma name_search_absent:
  assumes "name \<notin> set names" and "hi \<le> length names"
    and reads: "\<And>i. i < length names \<Longrightarrow> read_cstring img (unat (read32le img (table + i * 4))) = names ! i"
  shows "name_search img table lo hi name = None"
  using assms(2)
proof (induction "hi - lo" arbitrary: lo hi rule: less_induct)
  case less
  define mid where "mid = (lo + hi) div 2"
  show ?case
  proof (cases "lo < hi")
    case True
    then have mid: "lo \<le> mid" "mid < hi" "mid < length names" using less.prems unfolding mid_def by auto
    then have "names ! mid \<noteq> name" using assms(1) nth_mem by metis
    moreover have "name_search img table (mid + 1) hi name = None" "name_search img table lo mid name = None"
      by (rule less.hyps; use mid less.prems in auto)+
    ultimately show ?thesis using True reads [OF mid(3)] unfolding name_search.simps [of img table lo hi] Let_def mid_def [symmetric] by simp
  qed (simp add: name_search.simps)
qed

section \<open>The tables\<close>

lemma base_ordinal_le: "e \<in> set es \<Longrightarrow> base_ordinal es \<le> ex_ordinal e"
proof -
  have "foldl (\<lambda>b e. min b (ex_ordinal e)) b es \<le> b \<and> (\<forall>e\<in>set es. foldl (\<lambda>b e. min b (ex_ordinal e)) b es \<le> ex_ordinal e)" for b
  proof (induction es arbitrary: b)
    case (Cons a es)
    from Cons.IH [of "min b (ex_ordinal a)"] show ?case by auto
  qed simp
  then show "e \<in> set es \<Longrightarrow> base_ordinal es \<le> ex_ordinal e" by (simp add: base_ordinal_def)
qed

lemma max_ordinal_ge: "e \<in> set es \<Longrightarrow> ex_ordinal e \<le> max_ordinal es"
  using foldl_max_ordinal [of 0 es] by (simp add: max_ordinal_def)

lemma max_ordinal_bound: "list_all (\<lambda>e. ex_ordinal e \<le> b) es \<Longrightarrow> max_ordinal es \<le> b"
proof -
  have "list_all (\<lambda>e. ex_ordinal e \<le> b) es \<Longrightarrow> m \<le> b \<Longrightarrow> foldl (\<lambda>m e. max m (ex_ordinal e)) m es \<le> b" for m
    by (induction es arbitrary: m) auto
  then show "list_all (\<lambda>e. ex_ordinal e \<le> b) es \<Longrightarrow> max_ordinal es \<le> b" by (simp add: max_ordinal_def)
qed

lemma export_ordinal_bounds:
  assumes "exports_ready es" and "e \<in> set es"
  shows "base_ordinal es \<le> ex_ordinal e" "ex_ordinal e \<le> max_ordinal es" "1 \<le> ex_ordinal e" "max_ordinal es \<le> 65535"
  using assms base_ordinal_le max_ordinal_ge max_ordinal_bound [of 65535 es] by (auto simp: exports_ready_def list_all_iff)

lemma length_exports:
  assumes "exports_ready es"
  shows "length es \<le> 65535"
proof -
  have "set (map ex_ordinal es) \<subseteq> {1..65535}" using assms by (auto simp: exports_ready_def list_all_iff)
  then have "card (set (map ex_ordinal es)) \<le> 65535" by (metis card_mono finite_atLeastAtMost card_atLeastAtMost diff_Suc_1)
  moreover have "distinct (map ex_ordinal es)" using assms by (simp add: exports_ready_def)
  ultimately show ?thesis using distinct_card [of "map ex_ordinal es"] by (simp del: set_map)
qed

lemma put_all [simp]: "length ys = length xs \<Longrightarrow> put xs 0 ys = ys"
  by (simp add: put_def)

lemma directory_bytes:
  fixes env :: edata_env and es :: "Export list"
  defines "d \<equiv> edata_bytes env es ExportDirectory"
  shows "length d = 40" "read32le d 16 = of_nat (base_ordinal es mod 2 ^ 16)"
    "read32le d 20 = of_nat (max_ordinal es mod 2 ^ 16) - of_nat (base_ordinal es mod 2 ^ 16) + 1"
    "read32le d 24 = of_nat (length (named_exports es) mod 2 ^ 16)"
    "read32le d 28 = ed_rva env AddressTable" "read32le d 32 = ed_rva env NamePointers" "read32le d 36 = ed_rva env ExportOrdinals"
  unfolding d_def edata_bytes_def
  by (simp_all add: ExportDirectoryChunk_writeTo_def Let_def le32.rd_wr_disjoint)

lemma name_pointer_bytes:
  "length (edata_bytes env es NamePointers) = edata_size env es NamePointers"
  "i < length (named_exports es) \<Longrightarrow> read32le (edata_bytes env es NamePointers) (i * 4) = ed_rva env (NameString i)"
  using le32.write_seq_nth [of 0 "map (\<lambda>i. ed_rva env (NameString i)) [0..<length (named_exports es)]"
      "replicate (length (named_exports es) * 4) 0" i]
  by (simp_all add: edata_bytes_def NamePointersChunk_writeTo_def le32.length_write_seq)

lemma ordinal_table_bytes:
  "length (edata_bytes env es ExportOrdinals) = edata_size env es ExportOrdinals"
  "i < length (named_exports es) \<Longrightarrow>
    read16le (edata_bytes env es ExportOrdinals) (i * 2) = of_nat (ex_ordinal (named_exports es ! i) - base_ordinal es)"
  using le16.write_seq_nth [of 0 "map (\<lambda>e. of_nat (ex_ordinal e - base_ordinal es)) (named_exports es)"
      "replicate (length (named_exports es) * 2) 0" i]
  by (simp_all add: edata_bytes_def ExportOrdinalChunk_writeTo_def le16.length_write_seq)

lemma address_table_bytes:
  assumes "exports_ready es"
  shows "length (edata_bytes env es AddressTable) = edata_size env es AddressTable"
    and "j < length es \<Longrightarrow> read32le (edata_bytes env es AddressTable) ((ex_ordinal (es ! j) - base_ordinal es) * 4) = export_rva env j (es ! j)"
proof -
  let ?z = "zip [0..<length es] es" and ?f = "\<lambda>(i, e). (ex_ordinal e - base_ordinal es, export_rva env i e)"
  let ?n = "AddressTableChunk_size es"
  have b: "edata_bytes env es AddressTable = scatter write32le 4 0 (map ?f ?z) (replicate ?n 0)"
    by (simp add: edata_bytes_def AddressTableChunk_writeTo_def)
  have fits: "\<forall>k\<in>fst ` set (map ?f ?z). 0 + k * 4 + 4 \<le> length (replicate ?n (0 :: byte))"
  proof
    fix k assume "k \<in> fst ` set (map ?f ?z)"
    then obtain e where e: "e \<in> set es" "k = ex_ordinal e - base_ordinal es" by (auto dest: set_zip_rightD)
    then show "0 + k * 4 + 4 \<le> length (replicate ?n (0 :: byte))"
      using export_ordinal_bounds [OF assms e(1)] by (simp add: AddressTableChunk_size_def)
  qed
  show "length (edata_bytes env es AddressTable) = edata_size env es AddressTable"
    unfolding b using le32.length_scatter [OF fits] by simp
  have "map fst (map ?f ?z) = map (\<lambda>e. ex_ordinal e - base_ordinal es) es"
    by (rule nth_equalityI) (simp_all add: comp_def split_beta)
  moreover have "distinct (map (\<lambda>e. ex_ordinal e - base_ordinal es) es)"
  proof -
    have "\<forall>n\<in>set (map ex_ordinal es). base_ordinal es \<le> n" by (auto simp: base_ordinal_le)
    then have "inj_on (\<lambda>n. n - base_ordinal es) (set (map ex_ordinal es))" unfolding inj_on_def by (metis eq_diff_iff)
    then have "distinct (map (\<lambda>n. n - base_ordinal es) (map ex_ordinal es))" using assms by (simp add: distinct_map exports_ready_def comp_inj_on)
    then show ?thesis by (simp add: comp_def)
  qed
  ultimately have d: "distinct (map fst (map ?f ?z))" by simp
  assume j: "j < length es"
  then have "(j, es ! j) \<in> set ?z" by (auto simp: in_set_zip intro!: exI [of _ j])
  then have "?f (j, es ! j) \<in> set (map ?f ?z)" unfolding set_map by (rule imageI)
  then show "read32le (edata_bytes env es AddressTable) ((ex_ordinal (es ! j) - base_ordinal es) * 4) = export_rva env j (es ! j)"
    unfolding b using le32.scatter_entry [OF fits d, of "ex_ordinal (es ! j) - base_ordinal es" "export_rva env j (es ! j)"] by simp
qed

lemma named_nth:
  assumes "j < length es" and "\<not> ex_noname (es ! j)"
  obtains i where "i < length (named_exports es)" and "named_exports es ! i = es ! j"
proof -
  have "es ! j \<in> set (named_exports es)" using assms by (simp add: named_exports_def)
  then show thesis using that by (auto simp: in_set_conv_nth)
qed

lemma loader_view:
  assumes ready: "exports_ready es" and "es \<noteq> []" and mapped: "edata_mapped env es img" and "list_all (\<lambda>e. CHR 0x00 \<notin> set (ex_exportName e)) es"
  defines "dir \<equiv> unat (ed_rva env ExportDirectory)"
  shows "read32le img (dir + 28) = ed_rva env AddressTable" "read32le img (dir + 32) = ed_rva env NamePointers"
    "read32le img (dir + 36) = ed_rva env ExportOrdinals" "unat (read32le img (dir + 24)) = length (named_exports es)"
    "unat (read32le img (dir + 16)) = base_ordinal es" "unat (read32le img (dir + 20)) = max_ordinal es - base_ordinal es + 1"
    "i < length (named_exports es) \<Longrightarrow>
      read_cstring img (unat (read32le img (unat (ed_rva env NamePointers) + i * 4))) = map ex_exportName (named_exports es) ! i"
    "i < length (named_exports es) \<Longrightarrow>
      unat (read16le img (unat (ed_rva env ExportOrdinals) + i * 2)) = ex_ordinal (named_exports es ! i) - base_ordinal es"
    "j < length es \<Longrightarrow>
      read32le img (unat (ed_rva env AddressTable) + (ex_ordinal (es ! j) - base_ordinal es) * 4) = export_rva env j (es ! j)"
proof -
  have chunks: "ExportDirectory \<in> set (createEdataChunks es)" "AddressTable \<in> set (createEdataChunks es)" "NamePointers \<in> set (createEdataChunks es)"
    "ExportOrdinals \<in> set (createEdataChunks es)" "i < length (named_exports es) \<Longrightarrow> NameString i \<in> set (createEdataChunks es)"
    by (simp_all add: createEdataChunks_def)
  note directory = mapped_read(1) [OF mapped chunks(1), unfolded edata_size.simps, OF directory_bytes(1)]
  show "read32le img (dir + 28) = ed_rva env AddressTable" "read32le img (dir + 32) = ed_rva env NamePointers"
    "read32le img (dir + 36) = ed_rva env ExportOrdinals"
    unfolding dir_def by (simp_all add: directory directory_bytes)
  obtain e where e: "e \<in> set es" using assms(2) by (cases es) auto
  note b = export_ordinal_bounds [OF ready e]
  have "length (named_exports es) \<le> length es" by (simp add: named_exports_def)
  then have small: "length (named_exports es) < 2 ^ 16" using length_exports [OF ready] by simp
  show "unat (read32le img (dir + 24)) = length (named_exports es)"
    unfolding dir_def using small by (simp add: directory directory_bytes unat_of_nat)
  show "unat (read32le img (dir + 16)) = base_ordinal es"
    unfolding dir_def using b by (simp add: directory directory_bytes unat_of_nat)
  have "(of_nat (max_ordinal es) - of_nat (base_ordinal es) + 1 :: u32) = of_nat (max_ordinal es - base_ordinal es + 1)" using b by (simp add: of_nat_diff)
  moreover have "read32le img (dir + 20) = of_nat (max_ordinal es) - of_nat (base_ordinal es) + 1"
    unfolding dir_def using b by (simp add: directory directory_bytes)
  ultimately show "unat (read32le img (dir + 20)) = max_ordinal es - base_ordinal es + 1" using b by (simp add: unat_of_nat del: of_nat_Suc of_nat_add)
  show "read32le img (unat (ed_rva env AddressTable) + (ex_ordinal (es ! j) - base_ordinal es) * 4) = export_rva env j (es ! j)" if "j < length es"
  proof -
    have "(ex_ordinal (es ! j) - base_ordinal es) * 4 + 4 \<le> edata_size env es AddressTable"
      using export_ordinal_bounds [OF ready nth_mem [OF that]] by (simp add: AddressTableChunk_size_def)
    from mapped_read(1) [OF mapped chunks(2) address_table_bytes(1) [OF ready] this] show ?thesis
      by (simp add: address_table_bytes(2) [OF ready that])
  qed
  assume i: "i < length (named_exports es)"
  then have ne: "named_exports es ! i \<in> set es" using nth_mem [OF i] by (auto simp: named_exports_def simp del: nth_mem)
  have "i * 4 + 4 \<le> edata_size env es NamePointers" "i * 2 + 2 \<le> edata_size env es ExportOrdinals" using i by simp_all
  note reads = mapped_read(1) [OF mapped chunks(3) name_pointer_bytes(1) this(1)] mapped_read(2) [OF mapped chunks(4) ordinal_table_bytes(1) this(2)]
  have "sub img (unat (ed_rva env (NameString i))) (length (ex_exportName (named_exports es ! i)) + 1) =
      string_bytes (ex_exportName (named_exports es ! i)) @ [0]"
    using mapped chunks(5) [OF i] name_string_bytes [of env es i] by (auto simp: edata_mapped_def list_all_iff)
  moreover have "CHR 0x00 \<notin> set (ex_exportName (named_exports es ! i))" using assms(4) ne by (simp add: list_all_iff)
  ultimately show "read_cstring img (unat (read32le img (unat (ed_rva env NamePointers) + i * 4))) = map ex_exportName (named_exports es) ! i"
    using read_cstring_bytes reads(1) i by (simp add: name_pointer_bytes(2))
  show "unat (read16le img (unat (ed_rva env ExportOrdinals) + i * 2)) = ex_ordinal (named_exports es ! i) - base_ordinal es"
    using reads(2) i export_ordinal_bounds [OF ready ne] by (simp add: ordinal_table_bytes(2) unat_of_nat del: of_nat_diff)
qed

text \<open>C10: The export tables resolve. For exports that \<open>fixupExports\<close> and \<open>assignExportOrdinals\<close> accept, in an image with the chunks of
  \<open>createEdataChunks\<close> at their addresses: a loader that searches the name table by bisection finds the address of every export
  that has a name, finds nothing for any other name, and finds every export by its ordinal. Names have no null characters.\<close>

theorem exports_resolve:
  assumes fixed: "fixupExports cfg exports = Inr (es, ds)" and asg: "assignExportOrdinals es = Inr es'"
    and "es' \<noteq> []" and "list_all (\<lambda>e. CHR 0x00 \<notin> set (ex_exportName e)) es'" and "edata_mapped env es' img"
  defines "dir \<equiv> unat (ed_rva env ExportDirectory)"
  shows "(j < length es' \<and> \<not> ex_noname (es' ! j) \<longrightarrow> lookup_name img dir (ex_exportName (es' ! j)) = Some (export_rva env j (es' ! j))) \<and>
    (name \<notin> ex_exportName ` set (named_exports es') \<longrightarrow> lookup_name img dir name = None) \<and>
    (j < length es' \<longrightarrow> lookup_ordinal img dir (ex_ordinal (es' ! j)) = Some (export_rva env j (es' ! j)))"
proof -
  have ready: "exports_ready es'" using assignExportOrdinals_ready [OF asg fixupExports_fixed(1) [OF fixed]] by blast
  note view = loader_view [OF ready assms(3,5,4), folded dir_def]
  let ?names = "map ex_exportName (named_exports es')"
  have sorted: "sorted_wrt (<) ?names"
    using ready by (auto simp: exports_ready_def named_exports_def sorted_wrt_map intro: sorted_wrt_filter)
  have "lookup_name img dir (ex_exportName (es' ! j)) = Some (export_rva env j (es' ! j))" if j: "j < length es'" "\<not> ex_noname (es' ! j)"
  proof -
    obtain i where i: "i < length (named_exports es')" "named_exports es' ! i = es' ! j" using named_nth [OF j] .
    have "name_search img (unat (ed_rva env NamePointers)) 0 (length (named_exports es')) (?names ! i) = Some i"
      by (rule name_search_found [OF sorted]) (use i view(7) in auto)
    then show ?thesis using i view(1-4) view(8) [OF i(1)] view(9) [OF j(1)] by (simp add: lookup_name_def)
  qed
  moreover have "lookup_name img dir name = None" if "name \<notin> ex_exportName ` set (named_exports es')"
  proof -
    have "name_search img (unat (ed_rva env NamePointers)) 0 (length (named_exports es')) name = None"
      by (rule name_search_absent [of name ?names]) (use that view(7) in auto)
    then show ?thesis using view(2,4) by (simp add: lookup_name_def)
  qed
  moreover have "lookup_ordinal img dir (ex_ordinal (es' ! j)) = Some (export_rva env j (es' ! j))" if j: "j < length es'"
    using view(1,5,6) view(9) [OF j] export_ordinal_bounds [OF ready nth_mem [OF j]] by (simp add: lookup_ordinal_def)
  ultimately show ?thesis by blast
qed

section \<open>A worked table\<close>

definition sample_exports :: "Export list" where
  "sample_exports =
     [new_Export\<lparr>ex_source := FromExport, ex_name := ''g''\<rparr>,
      new_Export\<lparr>ex_source := Directives, ex_name := ''f'', ex_ordinal := 3\<rparr>]"

definition export_sample_cfg :: export_env where
  "export_sample_cfg = \<lparr>ee_machine = AMD64, ee_isEC = False, ee_mingw = False, ee_killAt = False, ee_demangled = (\<lambda>_. None)\<rparr>"

definition sample_tables :: edata_env where
  "sample_tables = \<lparr>ed_outputFile = ''x'', ed_machine = AMD64, ed_symRVA = (\<lambda>e. if ex_name e = ''f'' then 0x1000 else 0x2000),
     ed_rva = (\<lambda>c. case c of ExportDirectory \<Rightarrow> 0 | DllName \<Rightarrow> 40 | AddressTable \<Rightarrow> 42 | NamePointers \<Rightarrow> 50 | ExportOrdinals \<Rightarrow> 58
       | NameString i \<Rightarrow> if i = 0 then 62 else 64 | ForwardString i \<Rightarrow> 0)\<rparr>"

definition sample_sorted :: "Export list" where
  "sample_sorted =
     [new_Export\<lparr>ex_source := Directives, ex_name := ''f'', ex_ordinal := 3, ex_exportName := ''f''\<rparr>,
      new_Export\<lparr>ex_source := FromExport, ex_name := ''g'', ex_ordinal := 4, ex_exportName := ''g''\<rparr>]"

definition sample_img :: buffer where
  "sample_img = concat (map (edata_bytes sample_tables sample_sorted) (createEdataChunks sample_sorted))"

lemma sample_fixed:
  "fixupExports export_sample_cfg sample_exports = Inr
     ([new_Export\<lparr>ex_source := Directives, ex_name := ''f'', ex_ordinal := 3, ex_exportName := ''f''\<rparr>,
       new_Export\<lparr>ex_source := FromExport, ex_name := ''g'', ex_exportName := ''g''\<rparr>], [])"
  by (simp add: fixupExports_def sample_exports_def export_sample_cfg_def new_Export_def Let_def export_name_def add_export_def less_char_def)

lemma sample_assigned:
  "assignExportOrdinals
     [new_Export\<lparr>ex_source := Directives, ex_name := ''f'', ex_ordinal := 3, ex_exportName := ''f''\<rparr>,
      new_Export\<lparr>ex_source := FromExport, ex_name := ''g'', ex_exportName := ''g''\<rparr>] = Inr sample_sorted"
  by (simp add: assignExportOrdinals_def sample_sorted_def new_Export_def)

lemma sample_facts: "named_exports sample_sorted = sample_sorted" "length sample_sorted = 2" "ex_exportName (sample_sorted ! 0) = ''f''"
  "ex_exportName (sample_sorted ! 1) = ''g''" "AddressTableChunk_size sample_sorted = 8" "exports_ready sample_sorted"
  "export_rva sample_tables 0 (sample_sorted ! 0) = 0x1000" "\<not> ex_noname (sample_sorted ! 0)"
  by (simp_all add: named_exports_def sample_sorted_def new_Export_def AddressTableChunk_size_def max_ordinal_def base_ordinal_def exports_ready_def
      less_char_def export_rva_def sample_tables_def)

lemma string_chunk_length: "length (edata_bytes env es DllName) = edata_size env es DllName" "length (edata_bytes env es (NameString i)) = edata_size env es (NameString i)"
  by (simp_all add: edata_bytes_def StringChunk_writeTo_def string_bytes_def)

lemma sample_chunks: "createEdataChunks sample_sorted = [ExportDirectory, DllName, AddressTable, NamePointers, ExportOrdinals, NameString 0, NameString 1]"
  by (simp add: createEdataChunks_def sample_facts upt_rec) (simp add: sample_sorted_def new_Export_def)

lemma sample_mapped: "edata_mapped sample_tables sample_sorted sample_img"
proof -
  have "filename ''x'' native = ''x''" by code_simp
  note lengths = this directory_bytes(1) name_pointer_bytes(1) ordinal_table_bytes(1) address_table_bytes(1) [OF sample_facts(6)] string_chunk_length
  have rvas: "ed_outputFile sample_tables = ''x''" "ed_rva sample_tables ExportDirectory = 0" "ed_rva sample_tables DllName = 40"
    "ed_rva sample_tables AddressTable = 42" "ed_rva sample_tables NamePointers = 50" "ed_rva sample_tables ExportOrdinals = 58"
    "ed_rva sample_tables (NameString 0) = 62" "ed_rva sample_tables (NameString 1) = 64" by (simp_all add: sample_tables_def)
  show ?thesis unfolding edata_mapped_def sample_img_def sample_chunks by (simp add: lengths sample_facts sub_def rvas [simplified])
qed

theorem exports_resolve_witness:
  "lookup_name sample_img 0 ''f'' = Some 0x1000 \<and> lookup_name sample_img 0 ''h'' = None"
proof -
  have dir: "unat (ed_rva sample_tables ExportDirectory) = 0" by (simp add: sample_tables_def)
  have "sample_sorted \<noteq> []" "list_all (\<lambda>e. CHR 0x00 \<notin> set (ex_exportName e)) sample_sorted" "''h'' \<notin> ex_exportName ` set (named_exports sample_sorted)"
    unfolding sample_facts by (simp_all add: sample_sorted_def new_Export_def)
  then show ?thesis using exports_resolve [OF sample_fixed sample_assigned _ _ sample_mapped, of 0 "''h''"] sample_facts by (simp add: dir)
qed

text \<open>On ARM the entry of a forwarded function has its lowest bit set like the address of Thumb code, so it does not point to the
  start of the name of the target.\<close>

lemma forwarder_address_odd:
  "ed_machine env = ARMNT \<Longrightarrow> ex_forwardTo e \<noteq> [] \<Longrightarrow> \<not> ex_data e \<Longrightarrow> even (unat (ed_rva env (ForwardString i))) \<Longrightarrow>
    export_rva env i e = ed_rva env (ForwardString i) + 1"
proof -
  assume "ed_machine env = ARMNT" "ex_forwardTo e \<noteq> []" "\<not> ex_data e" and ev: "even (unat (ed_rva env (ForwardString i)))"
  then have "export_rva env i e = ed_rva env (ForwardString i) OR 1" by (simp add: export_rva_def)
  also have "ed_rva env (ForwardString i) AND 1 = 0" using ev by (simp add: and_one_eq odd_iff_mod_2_eq_one unat_arith_simps)
  then have "ed_rva env (ForwardString i) OR 1 = ed_rva env (ForwardString i) + 1" by (simp add: disjunctive_add_eq_or)
  finally show ?thesis .
qed

end
