(* ===== verification/Spec2Isabelle.thy ===== *)
theory Spec2Isabelle
  imports Abi PathLib Crc MarkLive SectionWrite SymbolTable BaseRelocs Folding Ranges Stubs StringTable Comdats Reproduce ExportTable
begin

text \<open>
  A verification library for llvm-ld, a C library around the COFF linker of LLVM
  (\<open>src/src\<close>, \<open>src/include\<close>, \<open>src/tools\<close> and, under \<open>src/llvm-project\<close>, \<open>lld/COFF\<close>,
  \<open>lld/Common\<close> and the LLVM support libraries they use).

  \<^bold>\<open>The program.\<close> A host calls \<open>llvm_ld_invoke\<close> with an argument vector. The library validates the
  request, takes a process-wide lock, and runs \<open>lldMain\<close>, which selects a linker driver and runs
  it inside a crash recovery context. The COFF driver reads object files into a symbol table,
  resolves symbols, discards unreachable sections, folds identical ones, lays out the image,
  applies relocations, and writes headers, tables and base relocations. Paths and strings go
  through LLVM's support library.

  \<^bold>\<open>Theories.\<close> Each theory opens with what it holds; the order below is that of the imports.

  \<^item> \<open>Prelude\<close>: machine types, alignment, slices of lists. \<open>Bytes\<close>: little-endian accessors
    (\<open>Support/Endian.h\<close>), with the locale \<open>le_field\<close> for what a read returns after a write.
  \<^item> \<open>StrRef\<close> (\<open>Support/StringRef.cpp\<close>), \<open>PathLib\<close> (\<open>Support/Path.cpp\<close>), \<open>Utf8\<close> (\<open>valid_utf8\<close> of
    \<open>llvm_ld.cpp\<close>), \<open>Crc\<close> (\<open>Support/CRC.cpp\<close>): searching, splitting and integer parsing of strings,
    path manipulation, validation of argument bytes, the sliced CRC-32.
  \<^item> \<open>ErrorHandling\<close> (\<open>lld/Common/ErrorHandler.cpp\<close>, \<open>Support/CrashRecoveryContext.cpp\<close>),
    \<open>Dispatcher\<close> (\<open>lld/Common/DriverDispatcher.cpp\<close>), \<open>Abi\<close> (\<open>llvm_ld.cpp\<close>): from the C entry points to
    the driver. The lock and poison protocol is a step relation on threads as well as a function
    for a single caller.
  \<^item> \<open>Symbols\<close>, \<open>SymbolTable\<close> (\<open>lld/COFF/Symbols.*\<close>, \<open>SymbolTable.cpp\<close>): symbols and chunks as numbered
    objects of a store, weak aliases, every operation that adds a symbol. The locale \<open>resolver\<close>
    states what such an operation promises and carries the theorems on sequences of them.
  \<^item> \<open>ObjFile\<close>, \<open>ObjLoad\<close>, \<open>Comdats\<close> (\<open>InputFiles.cpp\<close>): loading the sections and symbols of an object file into
    the table, with COMDAT selection, associative sections and weak aliases.
  \<^item> \<open>MarkLive\<close> (\<open>MarkLive.cpp\<close>): garbage collection by worklist, with the locale \<open>work_graph\<close>.
  \<^item> \<open>Partition\<close>, \<open>ICF\<close>, \<open>Folding\<close> (\<open>ICF.cpp\<close>): identical code folding by partition refinement. The
    locales \<open>equivalence\<close> (the comparison of a pass) and \<open>class_action\<close> (the function called per
    class) carry the proofs on passes and on sharding.
  \<^item> \<open>Reloc\<close>, \<open>SectionWrite\<close>, \<open>BaseRelocs\<close> (\<open>Chunks.cpp\<close>, \<open>Writer.cpp\<close>): the relocation encoders of four
    architectures, writing a section whole or in pieces (locale \<open>patcher\<close>), base relocations.
  \<^item> \<open>Layout\<close>, \<open>Addresses\<close> (\<open>Writer.cpp\<close>): output sections, their merging and ordering, and the
    assignment of addresses and file offsets.
  \<^item> \<open>Thunks\<close>, \<open>Ranges\<close> (\<open>Writer.cpp\<close>): \<open>finalizeAddresses\<close>, which inserts range extension thunks and lays
    the image out again until every branch reaches.
  \<^item> \<open>Stubs\<close> (\<open>Chunks.cpp\<close>): the chunks the linker writes itself, from import thunks to the dynamic
    relocations of hybrid images.
  \<^item> \<open>StringTable\<close> (\<open>MC/StringTableBuilder.cpp\<close>, \<open>MergeChunk\<close> of \<open>Chunks.cpp\<close>): string tables with shared
    suffixes and the merging of string literals.

  \<^item> \<open>CommandLine\<close>, \<open>Quoting\<close>, \<open>Reproduce\<close> (\<open>Support/CommandLine.cpp\<close>, \<open>lld/Common/Reproduce.cpp\<close>, \<open>PDB.cpp\<close>,
    \<open>DriverUtils.cpp\<close>, \<open>Driver.cpp\<close>): splitting command lines into arguments and writing arguments as text,
    up to the response file of \<open>/reproduce\<close>.
  \<^item> \<open>Exports\<close>, \<open>ExportTable\<close> (\<open>DriverUtils.cpp\<close>, \<open>SymbolTable.cpp\<close>, \<open>DLL.cpp\<close>): the exports of a DLL from the
    \<open>/export\<close> argument to the export tables, and a loader that searches them.

  \<^bold>\<open>What is shown.\<close> The C interface lets one thread at a time into the linker and validates exactly
  UTF-8; a call that gets in runs \<open>lldMain\<close> on exactly its arguments. With crash recovery enabled a fatal error inside the
  driver and the six signals it installs handlers for come back as a result; C++ exceptions and other signals
  do not. Symbol resolution never undefines a symbol or displaces a strong definition, in any
  order of operations. Loading an object file keeps symbols and sections linked and leaves a symbol without a section
  only where its section is dropped; outside MinGW associative sections share the fate of their parents, except for
  sections that are never kept; which COMDATs conflict is stated in terms of their selections, sizes and contents,
  and does not depend on their order. \<open>remove_dots\<close> computes the shortest components that lead where the path led. Garbage collection keeps exactly the reachable sections. Folding always
  finishes, folds only interchangeable sections and folds all that a bisimulation relates, so it
  computes the coarsest sound folding whatever the hash function. Relocations encode the address
  they are meant to; writing a section touches only its bytes and does not depend on how it is
  cut; base relocations are complete (but for one relocation type of AArch64) and the table reads back as what was
  collected, unless an entry lies on a page below that of the first one. The layout
  loses no chunk; \<open>finalizeAddresses\<close> always ends, and an image below 4 GiB that it returns has its sections and chunks
  in order, aligned (up to the section alignment) and without overlap and no branch out of range. Thunks, instruction by
  instruction, jump where they are meant to. Tail merging leaves every string literal at its address and stores no suffix twice.
  Quoted command lines and the response file of \<open>/reproduce\<close> read back as the same arguments when these can be written
  at all, with the exact condition for a single argument. The export tables resolve every export by name and by
  ordinal.

  \<^bold>\<open>Bounds and loops.\<close> Loops are total functions with a termination proof, or
  \<open>partial_function (option)\<close> with a theorem that they return (\<open>mark_loop\<close>, \<open>icf_loop\<close>). Class numbers
  and section numbers of folding fit in 32 bits for fewer than \<open>2 ^ 31\<close> sections, which is a
  hypothesis there; blocks of base relocations are assumed to be smaller than \<open>2 ^ 32\<close> bytes.
  \<open>finalizeAddresses\<close> stops with an error after the ten passes of the source; the layout theorems ask
  for the image to end below \<open>2 ^ 32\<close>.

  \<^bold>\<open>Modelling decisions.\<close> Pointers are numbers into a store. Diagnostics are values; their text is
  abstracted to their kind. Functions of libraries outside the sources (mimalloc, the operating
  system) and callbacks are arguments of the definitions. Parallel loops whose iterations touch
  disjoint data are sequential. The content hash of folding is an argument, so the theorems hold
  for every hash.

  A null symbol, which some callers test for and others dereference, is a value: \<open>markLive\<close> steps over it as the code does;
  where the code reads through the null pointer (a regular symbol without section in \<open>markLive\<close>, a relocation of
  a foldable section without symbol in folding) the definitions are total and the theorems exclude the case or their
  comments say so.

  \<^bold>\<open>Where the code falls short.\<close> Lemmas beside the theorems run the definitions on inputs for which a property fails:
  \<open>assignAddresses_wraps\<close>, \<open>assignAddresses_overaligned\<close>, \<open>addBaserelBlocks_page_before_sort\<close>, \<open>thunk_shared_by_address\<close>,
  \<open>dropped_comdat_leader\<close>, \<open>parent_out_of_range\<close>, \<open>largest_depends_on_order\<close>, \<open>entry_thunks_folded\<close>, \<open>forwarder_address_odd\<close>,
  \<open>output_name_with_space\<close>, \<open>lld_quote_directory\<close>, \<open>drive_relative_dotdot\<close>.

  \<^bold>\<open>Not modelled.\<close> The optimiser and code generator (used for bitcode inputs); debug information and PDB output; the
  readers of archives, import libraries and bitcode; import and delay-load tables; the option table, \<open>linkerMain\<close>
  and most option parsers; the MinGW emulation; call graph sorting; image headers, guard and exception tables, map
  files; manifests and resources; the runner programs, Python tooling, tests and build scripts.
\<close>

end
